(* ===== verification/Prelude.thy ===== *)
theory Prelude
  imports Main "HOL-Library.Word"
begin

text \<open>
  Shared vocabulary of the development: bytes, fixed-width unsigned arithmetic, the
  result type of fallible operations and the list facts the components use.

  Conventions. A \<^verbatim>\<open>u8\<close> is an \<open>8 word\<close>; \<^verbatim>\<open>u16\<close>, \<^verbatim>\<open>u32\<close>, \<^verbatim>\<open>u64\<close> and \<^verbatim>\<open>usize\<close> values are
  natural numbers, and the wrap-around of the release build is written out
  (\<open>wrap32\<close>, \<open>wrap64\<close>, \<open>sub32\<close>) wherever an operation of the source can overflow.
  An early return with an error is \<open>Inl (Err s)\<close>, a panic (index out of range, \<^verbatim>\<open>unwrap\<close> of
  \<^verbatim>\<open>None\<close>, division by zero) is \<open>Inl (Panic s)\<close>. The clock and the random source are
  arguments of the operations that read them.
\<close>

unbundle bit_operations_syntax

section \<open>Types\<close>

type_synonym u8 = "8 word"
type_synonym bytes = "u8 list"

datatype error = Err string | Panic string

type_synonym 'a result = "error + 'a"

text \<open>Socket addresses: the octets of the IP address and the port.\<close>

datatype SocketAddr = SocketAddrV4 bytes nat | SocketAddrV6 bytes nat

definition and_then :: "'a result \<Rightarrow> ('a \<Rightarrow> 'b result) \<Rightarrow> 'b result" where
  "and_then r f = (case r of Inl e \<Rightarrow> Inl e | Inr x \<Rightarrow> f x)"

definition panics :: "'a result \<Rightarrow> bool" where
  "panics r = (case r of Inl (Panic _) \<Rightarrow> True | _ \<Rightarrow> False)"

section \<open>Fixed-width arithmetic\<close>

definition U32_MAX :: nat where "U32_MAX = 2 ^ 32 - 1"
definition U64_MAX :: nat where "U64_MAX = 2 ^ 64 - 1"

definition wrap32 :: "nat \<Rightarrow> nat" where "wrap32 n = n mod 2 ^ 32"
definition wrap64 :: "nat \<Rightarrow> nat" where "wrap64 n = n mod 2 ^ 64"

text \<open>Wrapping subtraction of two 32-bit (64-bit) values.\<close>

definition sub32 :: "nat \<Rightarrow> nat \<Rightarrow> nat" where
  "sub32 a b = (if b \<le> a then a - b else a + 2 ^ 32 - b)"

definition sub64 :: "nat \<Rightarrow> nat \<Rightarrow> nat" where
  "sub64 a b = (if b \<le> a then a - b else a + 2 ^ 64 - b)"

text \<open>\<^verbatim>\<open>div_ceil\<close> of the unsigned integer types, for a divisor that is not zero.\<close>

definition div_ceil :: "nat \<Rightarrow> nat \<Rightarrow> nat" where
  "div_ceil a b = (a div b) + (if a mod b = 0 then 0 else 1)"

named_theorems u_arith
declare wrap32_def [u_arith] wrap64_def [u_arith] sub32_def [u_arith] sub64_def [u_arith]
  U32_MAX_def [u_arith] U64_MAX_def [u_arith]

lemma wrap32_small [simp]: "n < 2 ^ 32 \<Longrightarrow> wrap32 n = n"
  by (simp add: wrap32_def)

lemma wrap64_small [simp]: "n < 2 ^ 64 \<Longrightarrow> wrap64 n = n"
  by (simp add: wrap64_def)

lemma wrap32_bound [simp]: "wrap32 n < 4294967296"
  by (simp add: wrap32_def)

lemma wrap64_bound [simp]: "wrap64 n < 18446744073709551616"
  by (simp add: wrap64_def)

lemma sub32_le [simp]: "b \<le> a \<Longrightarrow> sub32 a b = a - b"
  by (simp add: sub32_def)

lemma sub64_le [simp]: "b \<le> a \<Longrightarrow> sub64 a b = a - b"
  by (simp add: sub64_def)

lemma div_ceil_mult [simp]: "0 < b \<Longrightarrow> div_ceil (k * b) b = k"
  by (simp add: div_ceil_def)

lemma div_ceil_0 [simp]: "div_ceil 0 b = 0"
  by (simp add: div_ceil_def)

lemma div_ceil_le_iff:
  assumes "0 < b"
  shows "div_ceil a b \<le> k \<longleftrightarrow> a \<le> k * b"
proof -
  have eq: "a = (a div b) * b + a mod b" by simp
  have lt: "a mod b < b" using assms by simp
  show ?thesis
  proof
    assume "div_ceil a b \<le> k"
    then show "a \<le> k * b"
    proof (cases "a mod b = 0")
      case True
      then have "a div b \<le> k" using \<open>div_ceil a b \<le> k\<close> by (simp add: div_ceil_def)
      then have "(a div b) * b \<le> k * b" by simp
      then show ?thesis using eq True by linarith
    next
      case False
      then have "Suc (a div b) \<le> k" using \<open>div_ceil a b \<le> k\<close> by (simp add: div_ceil_def)
      then have "Suc (a div b) * b \<le> k * b" by (simp only: mult_le_mono1)
      then have "a div b * b + b \<le> k * b" by (simp add: add.commute)
      then show ?thesis using eq lt by linarith
    qed
  next
    assume le: "a \<le> k * b"
    have "a div b \<le> k" using le assms by (metis div_le_mono nonzero_mult_div_cancel_right not_gr0)
    moreover have "a div b \<noteq> k" if "a mod b \<noteq> 0"
    proof
      assume "a div b = k"
      with le have "a \<le> (a div b) * b" by simp
      with eq that show False by linarith
    qed
    ultimately show "div_ceil a b \<le> k" by (auto simp: div_ceil_def)
  qed
qed

lemma less_div_ceil_iff: "0 < b \<Longrightarrow> k < div_ceil a b \<longleftrightarrow> k * b < a"
  using div_ceil_le_iff [of b a k] by linarith

lemma div_ceil_ge: "0 < b \<Longrightarrow> a \<le> div_ceil a b * b"
  using div_ceil_le_iff [of b a "div_ceil a b"] by simp

lemma div_ceil_mono: "0 < b \<Longrightarrow> a \<le> a' \<Longrightarrow> div_ceil a b \<le> div_ceil a' b"
  using div_ceil_le_iff [of b a "div_ceil a' b"] div_ceil_ge [of b a'] by simp

section \<open>Results\<close>

lemma and_then_simps [simp]:
  "and_then (Inl e) f = Inl e"
  "and_then (Inr x) f = f x"
  by (simp_all add: and_then_def)

lemma and_then_Inr_iff: "and_then r f = Inr y \<longleftrightarrow> (\<exists>x. r = Inr x \<and> f x = Inr y)"
  by (cases r) auto

lemma panics_simps [simp]:
  "\<not> panics (Inr x)"
  "panics (Inl (Panic s))"
  "\<not> panics (Inl (Err s))"
  by (simp_all add: panics_def)

text \<open>A loop that pushes the result of a fallible conversion of each element and stops at the first error.\<close>

fun map_result :: "('a \<Rightarrow> 'b result) \<Rightarrow> 'a list \<Rightarrow> 'b list result" where
  "map_result f [] = Inr []"
| "map_result f (x # xs) = and_then (f x) (\<lambda>y. and_then (map_result f xs) (\<lambda>ys. Inr (y # ys)))"

lemma map_result_Inr: "\<forall>x \<in> set xs. f x = Inr (g x) \<Longrightarrow> map_result f xs = Inr (map g xs)"
  by (induction xs) auto

lemma map_result_set: "map_result f xs = Inr ys \<Longrightarrow> y \<in> set ys \<Longrightarrow> \<exists>x \<in> set xs. f x = Inr y"
  by (induction xs arbitrary: ys) (auto simp: and_then_Inr_iff)

section \<open>Lists\<close>

text \<open>Position of the first element that satisfies a predicate (\<^verbatim>\<open>Iterator::position\<close>).\<close>

fun position :: "('a \<Rightarrow> bool) \<Rightarrow> 'a list \<Rightarrow> nat option" where
  "position P [] = None"
| "position P (x # xs) = (if P x then Some 0 else map_option Suc (position P xs))"

lemma position_None_iff: "position P xs = None \<longleftrightarrow> (\<forall>x \<in> set xs. \<not> P x)"
  by (induction xs) auto

lemma position_SomeD:
  "position P xs = Some i \<Longrightarrow> i < length xs \<and> P (xs ! i) \<and> (\<forall>j < i. \<not> P (xs ! j))"
proof (induction xs arbitrary: i)
  case Nil
  then show ?case by simp
next
  case (Cons x xs)
  then show ?case by (auto simp: less_Suc_eq_0_disj split: if_splits)
qed

lemma position_ex: "x \<in> set xs \<Longrightarrow> P x \<Longrightarrow> \<exists>i. position P xs = Some i"
  using position_None_iff [of P xs] by (cases "position P xs") auto

text \<open>Removal by index (\<^verbatim>\<open>Vec::remove\<close>, \<^verbatim>\<open>VecDeque::remove\<close>), for an index in range.\<close>

definition remove_at :: "nat \<Rightarrow> 'a list \<Rightarrow> 'a list" where
  "remove_at i xs = take i xs @ drop (Suc i) xs"

lemma length_remove_at [simp]: "i < length xs \<Longrightarrow> length (remove_at i xs) = length xs - 1"
  by (simp add: remove_at_def)

lemma remove_at_split:
  "i < length xs \<Longrightarrow> \<exists>us vs. xs = us @ xs ! i # vs \<and> remove_at i xs = us @ vs \<and> length us = i"
  by (rule exI [of _ "take i xs"], rule exI [of _ "drop (Suc i) xs"])
    (simp add: remove_at_def id_take_nth_drop [symmetric])

lemma set_remove_at_subset: "set (remove_at i xs) \<subseteq> set xs"
  by (auto simp: remove_at_def dest: in_set_takeD in_set_dropD)

lemma distinct_map_remove_at:
  assumes "distinct (map f xs)"
  shows "distinct (map f (remove_at i xs))"
proof (cases "i < length xs")
  case True
  from remove_at_split [OF True] obtain us vs y
    where "xs = us @ y # vs" and "remove_at i xs = us @ vs" by blast
  with assms show ?thesis by simp
next
  case False
  with assms show ?thesis by (simp add: remove_at_def)
qed

text \<open>\<^verbatim>\<open>slice::chunks\<close>: consecutive pieces of a fixed size, the last one possibly shorter.\<close>

function chunks :: "nat \<Rightarrow> 'a list \<Rightarrow> 'a list list" where
  "chunks n xs = (if n = 0 \<or> xs = [] then [] else take n xs # chunks n (drop n xs))"
  by pat_completeness auto
termination
  by (relation "measure (\<lambda>(n, xs). length xs)") auto

declare chunks.simps [simp del]

lemma chunks_Nil [simp]: "chunks n [] = []"
  by (simp add: chunks.simps)

lemma chunks_append:
  assumes "length xs = n" and "0 < n"
  shows "chunks n (xs @ ys) = xs # chunks n ys"
  using assms by (subst chunks.simps) auto

lemma chunks_concat:
  "0 < n \<Longrightarrow> \<forall>xs \<in> set xss. length xs = n \<Longrightarrow> chunks n (concat xss) = xss"
  by (induction xss) (auto simp: chunks_append)

lemma concat_chunks: "0 < n \<Longrightarrow> concat (chunks n xs) = xs"
proof (induction n xs rule: chunks.induct)
  case (1 n xs)
  then show ?case by (cases "xs = []") (auto simp: chunks.simps [of n xs])
qed

lemma chunks_lengths:
  "0 < n \<Longrightarrow> length xs mod n = 0 \<Longrightarrow> c \<in> set (chunks n xs) \<Longrightarrow> length c = n"
proof (induction n xs rule: chunks.induct)
  case (1 n xs)
  show ?case
  proof (cases "xs = []")
    case True
    with 1 show ?thesis by simp
  next
    case False
    then have "n \<le> length xs" using "1.prems"(2) by (metis length_0_conv mod_less not_le)
    then have "length (drop n xs) mod n = 0"
      using "1.prems"(2) by (simp add: mod_if le_mod_geq)
    with 1 False \<open>n \<le> length xs\<close> show ?thesis
      by (auto simp: chunks.simps [of n xs])
  qed
qed

section \<open>Overwriting a range\<close>

text \<open>\<^verbatim>\<open>xs[i..i + n].copy_from_slice(ys)\<close> for a source of \<open>n\<close> elements.\<close>

definition overwrite :: "'a list \<Rightarrow> nat \<Rightarrow> 'a list \<Rightarrow> 'a list" where
  "overwrite xs i ys = take i xs @ ys @ drop (i + length ys) xs"

lemma length_overwrite: "i + length ys \<le> length xs \<Longrightarrow> length (overwrite xs i ys) = length xs"
  by (simp add: overwrite_def)

lemma nth_overwrite:
  assumes "i + length ys \<le> length xs" and "j < length xs"
  shows "overwrite xs i ys ! j = (if i \<le> j \<and> j < i + length ys then ys ! (j - i) else xs ! j)"
  using assms by (auto simp: overwrite_def nth_append min_def)

lemma take_drop_overwrite: "i + length ys \<le> length xs \<Longrightarrow> take (length ys) (drop i (overwrite xs i ys)) = ys"
  by (simp add: overwrite_def)

lemma overwrite_Nil [simp]: "overwrite xs i [] = xs"
  by (simp add: overwrite_def)

lemma overwrite_append_right: "length xs \<le> i \<Longrightarrow> overwrite (xs @ ys) i d = xs @ overwrite ys (i - length xs) d"
  by (simp add: overwrite_def)

lemma overwrite_append_left: "i + length d \<le> length xs \<Longrightarrow> overwrite (xs @ ys) i d = overwrite xs i d @ ys"
  by (simp add: overwrite_def)

lemma overwrite_append_through:
  assumes "i \<le> length xs" and "length xs \<le> i + length d"
  shows "overwrite (xs @ ys) i d = overwrite xs i (take (length xs - i) d) @ overwrite ys 0 (drop (length xs - i) d)"
proof -
  have "d = take (length xs - i) d @ drop (length xs - i) d" by simp
  moreover have "i + length d - length xs = length d - (length xs - i)" using assms by simp
  ultimately show ?thesis using assms by (simp add: overwrite_def min_def)
qed

lemma overwrite_middle:
  assumes "length xs \<le> i" and "i + length d \<le> length xs + length ys"
  shows "overwrite (xs @ ys @ zs) i d = xs @ overwrite ys (i - length xs) d @ zs"
proof -
  have "overwrite (xs @ ys @ zs) i d = xs @ overwrite (ys @ zs) (i - length xs) d" using assms by (simp add: overwrite_append_right)
  also have "overwrite (ys @ zs) (i - length xs) d = overwrite ys (i - length xs) d @ zs"
    using assms by (intro overwrite_append_left) linarith
  finally show ?thesis .
qed

end
