(* ===== verification/Runtime.thy ===== *)
theory Runtime
  imports Prelude
begin

text \<open>
  The loop that runs a component (\<^verbatim>\<open>Runnable\<close> in \<^verbatim>\<open>core/runtime.rs\<close>) and the registry of the channels through which components
  are reached (\<^verbatim>\<open>core/emitter.rs\<close>). Any number of components run at once; each turn of a loop and each call of the registry is one
  step. What a component does in its callbacks is an argument (\<open>Runnable\<close>). Channels and runs are numbered alike: run \<open>ch\<close> receives from
  channel \<open>ch\<close>.
\<close>

section \<open>Components\<close>

datatype ExitReason = NormalExit | ErrorExit error | CustomExit string

datatype CommandHandleResult = HandleContinue | HandleExit ExitReason

datatype 'f CustomTaskResult = TaskContinue 'f | TaskFinished | TaskExit ExitReason

text \<open>
  The callbacks. \<open>ru_before\<close> gets a sender of the component's own channel; its last result says whether the component keeps it.
  \<open>ru_futures\<close> gives the long-running tasks.
\<close>

record ('s, 'c, 'f) Runnable =
  ru_transfer_id :: "'s \<Rightarrow> string"
  ru_before :: "'s \<Rightarrow> 's \<times> unit result \<times> bool"
  ru_futures :: "'s \<Rightarrow> 's \<times> 'f list"
  ru_command :: "'s \<Rightarrow> 'c \<Rightarrow> 's \<times> CommandHandleResult result"
  ru_shutdown :: "'s \<Rightarrow> ExitReason \<Rightarrow> 's"

text \<open>The position of a run in \<^verbatim>\<open>run\<close>. The receiver of its channel is dropped when it returns (\<open>RunFailed\<close> and \<open>RunEnded\<close>).\<close>

datatype run_phase = RunStarting | RunFailing error | RunFailed | RunLooping | RunLeaving ExitReason | RunRemoving | RunEnded

text \<open>
  \<open>rn_handled\<close> and \<open>rn_first\<close> are history: the commands handled so far and the state in which the loop was entered.
\<close>

record ('s, 'c, 'f) run =
  rn_id :: string
  rn_state :: 's
  rn_futures :: "'f list"
  rn_phase :: run_phase
  rn_handled :: "'c list"
  rn_first :: 's

text \<open>
  \<open>rt_clones\<close> counts the senders of a channel outside the registry, \<open>rt_sent\<close> is the history of the commands that entered a channel.
\<close>

record ('s, 'c, 'f) runtime =
  mpsc_senders :: "string \<Rightarrow> nat option"
  rt_clones :: "nat \<Rightarrow> nat"
  rt_queue :: "nat \<Rightarrow> 'c list"
  rt_sent :: "nat \<Rightarrow> 'c list"
  rt_runs :: "nat \<Rightarrow> ('s, 'c, 'f) run option"
  rt_next :: nat

definition runtime_new :: "('s, 'c, 'f) runtime" where
  "runtime_new = \<lparr> mpsc_senders = Map.empty, rt_clones = (\<lambda>_. 0), rt_queue = (\<lambda>_. []), rt_sent = (\<lambda>_. []), rt_runs = Map.empty, rt_next = 0 \<rparr>"

section \<open>The registry\<close>

definition receiver_dropped :: "nat \<Rightarrow> ('s, 'c, 'f) runtime \<Rightarrow> bool" where
  "receiver_dropped ch w = (case rt_runs w ch of None \<Rightarrow> True | Some r \<Rightarrow> rn_phase r = RunFailed \<or> rn_phase r = RunEnded)"

text \<open>\<^verbatim>\<open>Sender::send\<close> on a channel of \<open>cap\<close> places. \<open>None\<close>: the sender waits for a place.\<close>

definition channel_send :: "nat \<Rightarrow> nat \<Rightarrow> 'c \<Rightarrow> ('s, 'c, 'f) runtime \<Rightarrow> (unit result \<times> ('s, 'c, 'f) runtime) option" where
  "channel_send cap ch c w =
     (if receiver_dropped ch w then Some (Inl (Err ''channel closed''), w)
      else if length (rt_queue w ch) < cap then
        Some (Inr (), w\<lparr> rt_queue := (rt_queue w)(ch := rt_queue w ch @ [c]), rt_sent := (rt_sent w)(ch := rt_sent w ch @ [c]) \<rparr>)
      else None)"

definition Emitter_send :: "nat \<Rightarrow> string \<Rightarrow> 'c \<Rightarrow> ('s, 'c, 'f) runtime \<Rightarrow> (unit result \<times> ('s, 'c, 'f) runtime) option" where
  "Emitter_send cap transfer_id c w =
     (case mpsc_senders w transfer_id of
        None \<Rightarrow> Some (Inl (Err ''Transfer id not found''), w)
      | Some ch \<Rightarrow>
          (case channel_send cap ch c w of
             None \<Rightarrow> None
           | Some (Inr _, w') \<Rightarrow> Some (Inr (), w')
           | Some (Inl _, w') \<Rightarrow> Some (Inl (Err ''Failed to send data''), w')))"

definition Emitter_register :: "string \<Rightarrow> nat \<Rightarrow> ('s, 'c, 'f) runtime \<Rightarrow> ('s, 'c, 'f) runtime" where
  "Emitter_register transfer_id ch w = w\<lparr> mpsc_senders := (mpsc_senders w)(transfer_id \<mapsto> ch) \<rparr>"

definition Emitter_get :: "string \<Rightarrow> ('s, 'c, 'f) runtime \<Rightarrow> nat option \<times> ('s, 'c, 'f) runtime" where
  "Emitter_get transfer_id w =
     (case mpsc_senders w transfer_id of
        None \<Rightarrow> (None, w)
      | Some ch \<Rightarrow> (Some ch, w\<lparr> rt_clones := (rt_clones w)(ch := rt_clones w ch + 1) \<rparr>))"

text \<open>The removed sender is dropped by every caller.\<close>

definition Emitter_remove :: "string \<Rightarrow> ('s, 'c, 'f) runtime \<Rightarrow> nat option \<times> ('s, 'c, 'f) runtime" where
  "Emitter_remove transfer_id w = (mpsc_senders w transfer_id, w\<lparr> mpsc_senders := (mpsc_senders w)(transfer_id := None) \<rparr>)"

definition drop_sender :: "nat \<Rightarrow> ('s, 'c, 'f) runtime \<Rightarrow> ('s, 'c, 'f) runtime" where
  "drop_sender ch w = w\<lparr> rt_clones := (rt_clones w)(ch := rt_clones w ch - 1) \<rparr>"

definition no_sender :: "nat \<Rightarrow> ('s, 'c, 'f) runtime \<Rightarrow> bool" where
  "no_sender ch w \<longleftrightarrow> rt_clones w ch = 0 \<and> ch \<notin> ran (mpsc_senders w)"

section \<open>The loop\<close>

definition set_run :: "nat \<Rightarrow> ('s, 'c, 'f) run \<Rightarrow> ('s, 'c, 'f) runtime \<Rightarrow> ('s, 'c, 'f) runtime" where
  "set_run ch r w = w\<lparr> rt_runs := (rt_runs w)(ch \<mapsto> r) \<rparr>"

text \<open>The channel is made and registered; the other sender is in the \<^verbatim>\<open>RunContext\<close>.\<close>

definition run_start :: "('s, 'c, 'f) Runnable \<Rightarrow> 's \<Rightarrow> ('s, 'c, 'f) runtime \<Rightarrow> ('s, 'c, 'f) runtime" where
  "run_start R s w =
     (let ch = rt_next w; i = ru_transfer_id R s in
      Emitter_register i ch
        (set_run ch \<lparr> rn_id = i, rn_state = s, rn_futures = [], rn_phase = RunStarting, rn_handled = [], rn_first = s \<rparr>
           (w\<lparr> rt_clones := (rt_clones w)(ch := 1), rt_next := ch + 1 \<rparr>)))"

definition run_before :: "('s, 'c, 'f) Runnable \<Rightarrow> nat \<Rightarrow> ('s, 'c, 'f) run \<Rightarrow> ('s, 'c, 'f) runtime \<Rightarrow> ('s, 'c, 'f) runtime" where
  "run_before R ch r w =
     (case ru_before R (rn_state r) of
        (s, res, keeps) \<Rightarrow>
          (let w' = (if keeps then w else drop_sender ch w) in
           case res of
             Inl e \<Rightarrow> set_run ch (r\<lparr> rn_state := s, rn_phase := RunFailing e \<rparr>) w'
           | Inr _ \<Rightarrow>
               (case ru_futures R s of
                  (s', fs) \<Rightarrow> set_run ch (r\<lparr> rn_state := s', rn_futures := fs, rn_phase := RunLooping, rn_first := s' \<rparr>) w')))"

text \<open>The branches of \<^verbatim>\<open>select!\<close>: a command, the end of the channel, a finished task.\<close>

definition run_command :: "('s, 'c, 'f) Runnable \<Rightarrow> nat \<Rightarrow> ('s, 'c, 'f) run \<Rightarrow> 'c \<Rightarrow> ('s, 'c, 'f) runtime \<Rightarrow> ('s, 'c, 'f) runtime" where
  "run_command R ch r c w =
     (case ru_command R (rn_state r) c of
        (s, res) \<Rightarrow>
          set_run ch (r\<lparr> rn_state := s, rn_handled := rn_handled r @ [c],
                          rn_phase := (case res of
                              Inr HandleContinue \<Rightarrow> RunLooping
                            | Inr (HandleExit reason) \<Rightarrow> RunLeaving reason
                            | Inl e \<Rightarrow> RunLeaving (ErrorExit e)) \<rparr>)
            (w\<lparr> rt_queue := (rt_queue w)(ch := List.tl (rt_queue w ch)) \<rparr>))"

definition run_leave :: "nat \<Rightarrow> ('s, 'c, 'f) run \<Rightarrow> ExitReason \<Rightarrow> ('s, 'c, 'f) runtime \<Rightarrow> ('s, 'c, 'f) runtime" where
  "run_leave ch r reason w = set_run ch (r\<lparr> rn_phase := RunLeaving reason \<rparr>) w"

definition run_future :: "nat \<Rightarrow> ('s, 'c, 'f) run \<Rightarrow> 'f \<Rightarrow> 'f CustomTaskResult \<Rightarrow> ('s, 'c, 'f) runtime \<Rightarrow> ('s, 'c, 'f) runtime" where
  "run_future ch r f res w =
     (case res of
        TaskContinue g \<Rightarrow> set_run ch (r\<lparr> rn_futures := g # remove1 f (rn_futures r) \<rparr>) w
      | TaskFinished \<Rightarrow> set_run ch (r\<lparr> rn_futures := remove1 f (rn_futures r) \<rparr>) w
      | TaskExit reason \<Rightarrow> run_leave ch (r\<lparr> rn_futures := remove1 f (rn_futures r) \<rparr>) reason w)"

text \<open>What follows the loop: the callback, then the removal from the registry. After a failed start the function returns without it.\<close>

definition run_shutdown :: "('s, 'c, 'f) Runnable \<Rightarrow> nat \<Rightarrow> ('s, 'c, 'f) run \<Rightarrow> ExitReason \<Rightarrow> run_phase \<Rightarrow> ('s, 'c, 'f) runtime \<Rightarrow> ('s, 'c, 'f) runtime" where
  "run_shutdown R ch r reason after w = set_run ch (r\<lparr> rn_state := ru_shutdown R (rn_state r) reason, rn_phase := after \<rparr>) w"

definition run_remove :: "nat \<Rightarrow> ('s, 'c, 'f) run \<Rightarrow> ('s, 'c, 'f) runtime \<Rightarrow> ('s, 'c, 'f) runtime" where
  "run_remove ch r w = set_run ch (r\<lparr> rn_phase := RunEnded \<rparr>) (snd (Emitter_remove (rn_id r) w))"

inductive runtime_step :: "nat \<Rightarrow> ('s, 'c, 'f) Runnable \<Rightarrow> ('s, 'c, 'f) runtime \<Rightarrow> ('s, 'c, 'f) runtime \<Rightarrow> bool" for cap R where
  step_start: "runtime_step cap R w (run_start R s w)"
| step_before: "rt_runs w ch = Some r \<Longrightarrow> rn_phase r = RunStarting \<Longrightarrow> runtime_step cap R w (run_before R ch r w)"
| step_failing: "rt_runs w ch = Some r \<Longrightarrow> rn_phase r = RunFailing e \<Longrightarrow>
    runtime_step cap R w (run_shutdown R ch r (ErrorExit e) RunFailed w)"
| step_cancelled: "rt_runs w ch = Some r \<Longrightarrow> rn_phase r = RunLooping \<Longrightarrow> runtime_step cap R w (run_leave ch r NormalExit w)"
| step_command: "rt_runs w ch = Some r \<Longrightarrow> rn_phase r = RunLooping \<Longrightarrow> rt_queue w ch = c # cs \<Longrightarrow>
    runtime_step cap R w (run_command R ch r c w)"
| step_closed: "rt_runs w ch = Some r \<Longrightarrow> rn_phase r = RunLooping \<Longrightarrow> rt_queue w ch = [] \<Longrightarrow> no_sender ch w \<Longrightarrow>
    runtime_step cap R w (run_leave ch r (ErrorExit (Err ''Command channel closed'')) w)"
| step_future: "rt_runs w ch = Some r \<Longrightarrow> rn_phase r = RunLooping \<Longrightarrow> f \<in> set (rn_futures r) \<Longrightarrow>
    runtime_step cap R w (run_future ch r f res w)"
| step_shutdown: "rt_runs w ch = Some r \<Longrightarrow> rn_phase r = RunLeaving reason \<Longrightarrow>
    runtime_step cap R w (run_shutdown R ch r reason RunRemoving w)"
| step_remove: "rt_runs w ch = Some r \<Longrightarrow> rn_phase r = RunRemoving \<Longrightarrow> runtime_step cap R w (run_remove ch r w)"
| step_emit: "Emitter_send cap i c w = Some (res, w') \<Longrightarrow> runtime_step cap R w w'"
| step_get: "runtime_step cap R w (snd (Emitter_get i w))"
| step_send: "0 < rt_clones w ch \<Longrightarrow> channel_send cap ch c w = Some (res, w') \<Longrightarrow> runtime_step cap R w w'"
| step_drop: "0 < rt_clones w ch \<Longrightarrow> runtime_step cap R w (drop_sender ch w)"

inductive runtime_reach :: "nat \<Rightarrow> ('s, 'c, 'f) Runnable \<Rightarrow> ('s, 'c, 'f) runtime \<Rightarrow> bool" for cap R where
  runtime_init: "runtime_reach cap R runtime_new"
| runtime_more: "runtime_reach cap R w \<Longrightarrow> runtime_step cap R w w' \<Longrightarrow> runtime_reach cap R w'"

section \<open>Specification\<close>

text \<open>A component that handles a list of commands one after the other and stops at the first that makes it leave.\<close>

fun serve :: "('s, 'c, 'f) Runnable \<Rightarrow> 's \<Rightarrow> 'c list \<Rightarrow> 's \<times> ExitReason option" where
  "serve R s [] = (s, None)"
| "serve R s (c # cs) =
     (case ru_command R s c of
        (s', Inr HandleContinue) \<Rightarrow> serve R s' cs
      | (s', Inr (HandleExit reason)) \<Rightarrow> (s', Some reason)
      | (s', Inl e) \<Rightarrow> (s', Some (ErrorExit e)))"

fun run_ok :: "('s, 'c, 'f) Runnable \<Rightarrow> ('s, 'c, 'f) run \<Rightarrow> run_phase \<Rightarrow> bool" where
  "run_ok R r RunLooping = (serve R (rn_first r) (rn_handled r) = (rn_state r, None))"
| "run_ok R r (RunLeaving reason) =
     (fst (serve R (rn_first r) (rn_handled r)) = rn_state r \<and> snd (serve R (rn_first r) (rn_handled r)) \<in> {None, Some reason})"
| "run_ok R r RunRemoving = True"
| "run_ok R r RunEnded = True"
| "run_ok R r _ = (rn_handled r = [])"

definition chan_ok :: "nat \<Rightarrow> nat \<Rightarrow> ('s, 'c, 'f) run \<Rightarrow> ('s, 'c, 'f) runtime \<Rightarrow> bool" where
  "chan_ok cap ch r w \<longleftrightarrow> rt_sent w ch = rn_handled r @ rt_queue w ch \<and> length (rt_queue w ch) \<le> cap
     \<and> (\<forall>i. mpsc_senders w i = Some ch \<longrightarrow> i = rn_id r \<and> rn_phase r \<noteq> RunEnded)"

definition runtime_inv :: "nat \<Rightarrow> ('s, 'c, 'f) Runnable \<Rightarrow> ('s, 'c, 'f) runtime \<Rightarrow> bool" where
  "runtime_inv cap R w \<longleftrightarrow> (\<forall>ch r. rt_runs w ch = Some r \<longrightarrow> ch < rt_next w \<and> run_ok R r (rn_phase r) \<and> chan_ok cap ch r w)
     \<and> (\<forall>ch \<ge> rt_next w. rt_runs w ch = None \<and> rt_queue w ch = [] \<and> rt_sent w ch = [])
     \<and> (\<forall>i ch. mpsc_senders w i = Some ch \<longrightarrow> rt_runs w ch \<noteq> None)"

lemmas runtime_inv_defs = runtime_inv_def chan_ok_def

lemmas runtime_ops = set_run_def Emitter_register_def Emitter_remove_def drop_sender_def run_leave_def run_shutdown_def run_remove_def

section \<open>Lemmas\<close>

lemma serve_snoc:
  "serve R s cs = (s', None) \<Longrightarrow>
     serve R s (cs @ [c]) = (case ru_command R s' c of
        (t, Inr HandleContinue) \<Rightarrow> (t, None) | (t, Inr (HandleExit reason)) \<Rightarrow> (t, Some reason) | (t, Inl e) \<Rightarrow> (t, Some (ErrorExit e)))"
  by (induction R s cs rule: serve.induct) (auto split: prod.splits sum.splits CommandHandleResult.splits)

lemma runtime_inv_clones [simp]: "runtime_inv cap R (w\<lparr> rt_clones := f \<rparr>) = runtime_inv cap R w"
  by (simp add: runtime_inv_defs)

lemma runtime_inv_drop [simp]: "runtime_inv cap R (drop_sender ch w) = runtime_inv cap R w"
  by (simp add: drop_sender_def)

lemma runtime_inv_set_run:
  assumes "runtime_inv cap R w" and "rt_runs w ch = Some r"
    and "rn_id r' = rn_id r" and "rn_handled r' = rn_handled r" and "run_ok R r' (rn_phase r')" and "rn_phase r' \<noteq> RunEnded"
  shows "runtime_inv cap R (set_run ch r' w)"
  using assms by (auto simp: runtime_inv_defs set_run_def)

lemma runtime_inv_run:
  assumes "runtime_inv cap R w" and "rt_runs w ch = Some r"
  shows "run_ok R r (rn_phase r)" and "chan_ok cap ch r w" and "ch < rt_next w"
  using assms by (auto simp: runtime_inv_def)

lemma run_start_inv:
  assumes inv: "runtime_inv cap R w"
  shows "runtime_inv cap R (run_start R s w)"
proof -
  have "mpsc_senders w i \<noteq> Some (rt_next w)" for i
    using inv unfolding runtime_inv_def by (metis order_refl)
  then show ?thesis
    using inv unfolding runtime_inv_defs run_start_def by (auto simp: runtime_ops Let_def intro: less_SucI)
qed

lemma run_before_inv:
  assumes inv: "runtime_inv cap R w" and r: "rt_runs w ch = Some r" and ph: "rn_phase r = RunStarting"
  shows "runtime_inv cap R (run_before R ch r w)"
proof -
  have h: "rn_handled r = []" using runtime_inv_run(1) [OF inv r] ph by simp
  have r': "rt_runs (drop_sender ch w) ch = Some r" using r by (simp add: drop_sender_def)
  show ?thesis
    using runtime_inv_set_run [OF inv r] runtime_inv_set_run [OF _ r', of cap R] inv h
    by (auto simp: run_before_def Let_def split: prod.splits sum.splits)
qed

lemma run_command_inv:
  assumes inv: "runtime_inv cap R w" and r: "rt_runs w ch = Some r" and ph: "rn_phase r = RunLooping" and q: "rt_queue w ch = c # cs"
  shows "runtime_inv cap R (run_command R ch r c w)"
proof -
  have "serve R (rn_first r) (rn_handled r) = (rn_state r, None)" using runtime_inv_run(1) [OF inv r] ph by simp
  note sv = serve_snoc [OF this, of c]
  have le: "length cs \<le> cap" "\<not> rt_next w \<le> ch"
    using runtime_inv_run(2,3) [OF inv r] q by (auto simp: chan_ok_def)
  obtain s res where cmd: "ru_command R (rn_state r) c = (s, res)" by fastforce
  have "runtime_inv cap R (run_command R ch r c w)" if "res = Inl e" for e
    using inv r q sv cmd that ph le by (simp add: runtime_inv_defs run_command_def set_run_def)
  moreover have "runtime_inv cap R (run_command R ch r c w)" if "res = Inr x" for x
    using inv r q sv cmd that ph le by (cases x) (simp_all add: runtime_inv_defs run_command_def set_run_def)
  ultimately show ?thesis by (cases res) auto
qed

lemma run_leave_inv:
  assumes "runtime_inv cap R w" and "rt_runs w ch = Some r" and "rn_phase r = RunLooping"
  shows "runtime_inv cap R (run_leave ch (r\<lparr> rn_futures := fs \<rparr>) reason w)"
  using runtime_inv_run(1) [OF assms(1,2)] assms by (auto simp: run_leave_def intro!: runtime_inv_set_run)

lemma run_future_inv:
  assumes "runtime_inv cap R w" and "rt_runs w ch = Some r" and "rn_phase r = RunLooping"
  shows "runtime_inv cap R (run_future ch r f res w)"
  using run_leave_inv [OF assms] runtime_inv_run(1) [OF assms(1,2)] assms
  by (cases res) (auto simp: run_future_def intro!: runtime_inv_set_run)

lemma run_remove_inv:
  assumes "runtime_inv cap R w" and "rt_runs w ch = Some r" and "rn_phase r = RunRemoving"
  shows "runtime_inv cap R (run_remove ch r w)"
  using assms by (auto simp: runtime_inv_defs runtime_ops)

lemma channel_send_inv:
  assumes "runtime_inv cap R w" and "channel_send cap ch c w = Some (res, w')"
  shows "runtime_inv cap R w'"
  using assms by (auto simp: channel_send_def receiver_dropped_def runtime_inv_defs split: if_splits option.splits)

lemma Emitter_send_inv:
  assumes "runtime_inv cap R w" and "Emitter_send cap i c w = Some (res, w')"
  shows "runtime_inv cap R w'"
  using assms by (auto simp: Emitter_send_def split: option.splits sum.splits prod.splits intro: channel_send_inv)

lemma runtime_step_inv: "runtime_step cap R w w' \<Longrightarrow> runtime_inv cap R w \<Longrightarrow> runtime_inv cap R w'"
proof (induction rule: runtime_step.induct)
  case (step_cancelled w ch r)
  then show ?case using run_leave_inv [of cap R w ch r "rn_futures r"] by simp
next
  case (step_closed w ch r)
  then show ?case using run_leave_inv [of cap R w ch r "rn_futures r"] by simp
next
  case (step_failing w ch r e)
  then show ?case using runtime_inv_run(1) [of cap R w ch r]
    by (auto simp: run_shutdown_def intro!: runtime_inv_set_run)
next
  case (step_shutdown w ch r reason)
  then show ?case by (auto simp: run_shutdown_def intro!: runtime_inv_set_run)
next
  case (step_get w i)
  then show ?case by (simp add: Emitter_get_def split: option.split)
qed (simp_all add: run_start_inv run_before_inv run_command_inv run_future_inv run_remove_inv, (blast intro: channel_send_inv Emitter_send_inv)+)

lemma runtime_reach_inv: "runtime_reach cap R w \<Longrightarrow> runtime_inv cap R w"
proof (induction rule: runtime_reach.induct)
  case runtime_init
  then show ?case by (simp add: runtime_inv_def runtime_new_def)
qed (rule runtime_step_inv)

section \<open>Properties\<close>

text \<open>
  C12. Whatever the components, their senders and their tasks do, and however they interleave: the commands that entered a component's channel
  are the ones it has handled followed by the ones that wait, in order; a component in its loop is in the state that handling these
  commands one after the other produces, and it leaves the loop for the reason the last of them gave, or without any of them having given one; no more commands wait than
  the channel has places; and the registry never leads to a component that has left its loop and returned.
\<close>

theorem runtime_serves_in_order:
  assumes "runtime_reach cap R w" and "rt_runs w ch = Some r"
  shows "rt_sent w ch = rn_handled r @ rt_queue w ch \<and> length (rt_queue w ch) \<le> cap
    \<and> (rn_phase r = RunLooping \<longrightarrow> serve R (rn_first r) (rn_handled r) = (rn_state r, None))
    \<and> (\<forall>reason. rn_phase r = RunLeaving reason \<longrightarrow>
         fst (serve R (rn_first r) (rn_handled r)) = rn_state r \<and> snd (serve R (rn_first r) (rn_handled r)) \<in> {None, Some reason})
    \<and> (\<forall>i. mpsc_senders w i = Some ch \<longrightarrow> i = rn_id r \<and> rn_phase r \<noteq> RunEnded)"
proof -
  have inv: "runtime_inv cap R w" using assms(1) by (rule runtime_reach_inv)
  show ?thesis
    using runtime_inv_run [OF inv assms(2)] by (auto simp: chan_ok_def)
qed

text \<open>A component that sums the numbers it is sent and leaves at a zero.\<close>

definition adder :: "(nat, nat, unit) Runnable" where
  "adder = \<lparr> ru_transfer_id = (\<lambda>_. ''adder''), ru_before = (\<lambda>s. (s, Inr (), False)), ru_futures = (\<lambda>s. (s, [()])),
     ru_command = (\<lambda>s c. (s + c, Inr (if c = 0 then HandleExit NormalExit else HandleContinue))), ru_shutdown = (\<lambda>s _. s) \<rparr>"

theorem runtime_serves_in_order_witness:
  "\<exists>w r. runtime_reach 2 adder w \<and> rt_runs w 0 = Some r \<and> rn_phase r = RunLooping \<and> rt_sent w 0 = [5, 7]
     \<and> rn_handled r = [5] \<and> serve adder (rn_first r) (rn_handled r) = (5, None) \<and> rt_sent w 0 = rn_handled r @ rt_queue w 0"
proof -
  define w1 where "w1 = run_start adder 0 (runtime_new :: (nat, nat, unit) runtime)"
  define w2 where "w2 = run_before adder 0 (the (rt_runs w1 0)) w1"
  define w3 where "w3 = snd (the (Emitter_send 2 ''adder'' 5 w2))"
  define w4 where "w4 = snd (the (Emitter_send 2 ''adder'' 7 w3))"
  define w5 where "w5 = run_command adder 0 (the (rt_runs w4 0)) 5 w4"
  note ops = runtime_ops run_start_def run_before_def run_command_def Emitter_send_def channel_send_def receiver_dropped_def
    adder_def runtime_new_def Let_def
  have e1: "w1 = \<lparr> mpsc_senders = [''adder'' \<mapsto> 0], rt_clones = (\<lambda>_. 0)(0 := 1), rt_queue = (\<lambda>_. []), rt_sent = (\<lambda>_. []),
      rt_runs = [0 \<mapsto> \<lparr> rn_id = ''adder'', rn_state = 0, rn_futures = [], rn_phase = RunStarting, rn_handled = [], rn_first = 0 \<rparr>], rt_next = 1 \<rparr>"
    by (simp add: w1_def ops)
  have e2: "w2 = \<lparr> mpsc_senders = [''adder'' \<mapsto> 0], rt_clones = (\<lambda>_. 0)(0 := 0), rt_queue = (\<lambda>_. []), rt_sent = (\<lambda>_. []),
      rt_runs = [0 \<mapsto> \<lparr> rn_id = ''adder'', rn_state = 0, rn_futures = [()], rn_phase = RunLooping, rn_handled = [], rn_first = 0 \<rparr>], rt_next = 1 \<rparr>"
    by (simp add: w2_def e1 ops)
  have s3: "Emitter_send 2 ''adder'' 5 w2 = Some (Inr (), w3)" and s4: "Emitter_send 2 ''adder'' 7 w3 = Some (Inr (), w4)"
    by (simp_all add: w4_def w3_def e2 ops)
  have e4: "rt_runs w4 0 = rt_runs w2 0" "rt_queue w4 0 = [5, 7]" "rt_sent w4 0 = [5, 7]" by (simp_all add: w4_def w3_def e2 ops)
  have "runtime_reach 2 adder w1" unfolding w1_def by (rule runtime_more [OF runtime_init step_start])
  then have "runtime_reach 2 adder w2"
    unfolding w2_def by (rule runtime_more [OF _ step_before]) (simp_all add: e1)
  then have "runtime_reach 2 adder w4"
    by (rule runtime_more [OF runtime_more [OF _ step_emit [OF s3]] step_emit [OF s4]])
  then have re: "runtime_reach 2 adder w5"
    unfolding w5_def by (rule runtime_more [OF _ step_command]) (simp_all add: e4 e2)
  obtain r where r: "rt_runs w5 0 = Some r" "rn_phase r = RunLooping" "rn_handled r = [5]" "rn_state r = 5"
    by (simp add: w5_def e4 e2 ops)
  have "rt_sent w5 0 = [5, 7]" by (simp add: w5_def e4 e2 ops)
  then show ?thesis using re r runtime_serves_in_order [OF re r(1)] by auto
qed

end
