(* ===== verification/Bytes_Util.thy ===== *)
theory Bytes_Util
  imports Prelude
begin

text \<open>
  Byte-order conversions and big-endian writers of \<^verbatim>\<open>doro-util/src/bytes_util.rs\<close>.
  A wire integer of width \<open>n\<close> bytes is a natural number below \<open>256 ^ n\<close>. The locale
  \<open>codec\<close> is the contract of a fixed-width field (encode, decode, width); it is
  interpreted for the 1, 2, 4 and 8 byte big-endian integers.
\<close>

section \<open>Conversions\<close>

text \<open>The standard library's \<^verbatim>\<open>from_be_bytes\<close>, \<^verbatim>\<open>from_le_bytes\<close> and \<^verbatim>\<open>to_be_bytes\<close>.\<close>

definition from_be_bytes :: "bytes \<Rightarrow> nat" where
  "from_be_bytes bs = foldl (\<lambda>acc b. acc * 256 + unat b) 0 bs"

definition from_le_bytes :: "bytes \<Rightarrow> nat" where
  "from_le_bytes bs = foldr (\<lambda>b acc. acc * 256 + unat b) bs 0"

fun to_be_bytes :: "nat \<Rightarrow> nat \<Rightarrow> bytes" where
  "to_be_bytes 0 v = []"
| "to_be_bytes (Suc n) v = to_be_bytes n (v div 256) @ [word_of_nat (v mod 256)]"

text \<open>
  \<^verbatim>\<open>Bytes2Int::from_be_slice\<close> and \<^verbatim>\<open>from_le_slice\<close>: a slice that is too short is padded with
  zeros (on the left for big endian, on the right for little endian), one that is too
  long is cut to its first \<open>sz\<close> bytes.
\<close>

definition from_be_slice :: "nat \<Rightarrow> bytes \<Rightarrow> nat" where
  "from_be_slice sz data =
     (let len = min (length data) sz
      in from_be_bytes (replicate (sz - len) 0 @ take len data))"

definition from_le_slice :: "nat \<Rightarrow> bytes \<Rightarrow> nat" where
  "from_le_slice sz data =
     (let len = min (length data) sz
      in from_le_bytes (take len data @ replicate (sz - len) 0))"

text \<open>\<^verbatim>\<open>WriteBytesBigEndian\<close> on a growing buffer; writing to a \<^verbatim>\<open>Vec\<close> does not fail.\<close>

definition write_u8 :: "u8 \<Rightarrow> bytes \<Rightarrow> bytes" where "write_u8 n out = out @ [n]"
definition write_u16 :: "nat \<Rightarrow> bytes \<Rightarrow> bytes" where "write_u16 n out = out @ to_be_bytes 2 n"
definition write_u32 :: "nat \<Rightarrow> bytes \<Rightarrow> bytes" where "write_u32 n out = out @ to_be_bytes 4 n"
definition write_u64 :: "nat \<Rightarrow> bytes \<Rightarrow> bytes" where "write_u64 n out = out @ to_be_bytes 8 n"
definition write_i32 :: "int \<Rightarrow> bytes \<Rightarrow> bytes" where
  "write_i32 n out = out @ to_be_bytes 4 (nat (n mod 2 ^ 32))"
definition write_bytes :: "bytes \<Rightarrow> bytes \<Rightarrow> bytes" where "write_bytes data out = out @ data"

lemmas write_defs = write_u8_def write_u16_def write_u32_def write_u64_def write_i32_def
  write_bytes_def

section \<open>Lemmas\<close>

lemma from_be_bytes_Nil [simp]: "from_be_bytes [] = 0"
  by (simp add: from_be_bytes_def)

lemma from_be_bytes_snoc: "from_be_bytes (bs @ [b]) = from_be_bytes bs * 256 + unat b"
  by (simp add: from_be_bytes_def)

lemma unat_u8 [simp]: "unat (b :: u8) < 256"
  using unsigned_less [of b, where ?'a = nat] by simp

lemma from_be_bytes_bound: "from_be_bytes bs < 256 ^ length bs"
proof (induction bs rule: rev_induct)
  case Nil
  then show ?case by simp
next
  case (snoc b bs)
  have "from_be_bytes bs * 256 + unat b < Suc (from_be_bytes bs) * 256"
    using unat_u8 [of b] by simp
  also have "\<dots> \<le> 256 ^ length bs * 256"
    using snoc.IH by (intro mult_le_mono1) simp
  finally show ?case by (simp add: from_be_bytes_snoc)
qed

lemma length_to_be_bytes [simp]: "length (to_be_bytes n v) = n"
  by (induction n arbitrary: v) auto

lemma to_be_bytes_4: "to_be_bytes 4 n = [word_of_nat (n div 256 div 256 div 256 mod 256),
    word_of_nat (n div 256 div 256 mod 256), word_of_nat (n div 256 mod 256), word_of_nat (n mod 256)]"
proof -
  have "(4 :: nat) = Suc (Suc (Suc (Suc 0)))" by simp
  then show ?thesis by (simp only: to_be_bytes.simps append.simps)
qed

lemma from_to_be_bytes: "v < 256 ^ n \<Longrightarrow> from_be_bytes (to_be_bytes n v) = v"
proof (induction n arbitrary: v)
  case 0
  then show ?case by simp
next
  case (Suc n)
  then have "v div 256 < 256 ^ n" by (simp add: div_less_iff_less_mult mult.commute)
  from Suc.IH [OF this] show ?case
    by (simp add: from_be_bytes_snoc unat_of_nat)
qed

lemma to_from_be_bytes: "length bs = n \<Longrightarrow> to_be_bytes n (from_be_bytes bs) = bs"
proof (induction bs arbitrary: n rule: rev_induct)
  case Nil
  then show ?case by simp
next
  case (snoc b bs)
  then show ?case
    by (auto simp: from_be_bytes_snoc div_mult_self3 mod_mult_self3)
qed

lemma from_be_bytes_zeros: "from_be_bytes (replicate k 0 @ bs) = from_be_bytes bs"
proof -
  have "foldl (\<lambda>acc b. acc * 256 + unat b) 0 (replicate k (0 :: u8)) = 0"
    by (induction k) auto
  then show ?thesis by (simp add: from_be_bytes_def)
qed

lemma from_be_slice_eq: "from_be_slice n bs = from_be_bytes (take n bs)"
  by (simp add: from_be_slice_def Let_def from_be_bytes_zeros min_def)

lemma from_be_slice_to_be [simp]: "v < 256 ^ n \<Longrightarrow> from_be_slice n (to_be_bytes n v) = v"
  by (simp add: from_be_slice_eq from_to_be_bytes)

lemma from_be_slice_bound: "from_be_slice n bs < 256 ^ n"
proof -
  have "from_be_bytes (take n bs) < 256 ^ length (take n bs)" by (rule from_be_bytes_bound)
  also have "\<dots> \<le> 256 ^ n" by (rule power_increasing) auto
  finally show ?thesis by (simp add: from_be_slice_eq)
qed

lemma from_be_bytes_inj:
  "length xs = length ys \<Longrightarrow> from_be_bytes xs = from_be_bytes ys \<Longrightarrow> xs = ys"
  using to_from_be_bytes [of xs "length xs"] to_from_be_bytes [of ys "length xs"] by simp

lemma from_le_bytes_rev: "from_le_bytes bs = from_be_bytes (rev bs)"
  by (simp add: from_le_bytes_def from_be_bytes_def foldl_conv_foldr)

section \<open>The contract of a fixed-width field\<close>

locale codec =
  fixes enc :: "'a \<Rightarrow> bytes" and dec :: "bytes \<Rightarrow> 'a" and width :: nat and valid :: "'a \<Rightarrow> bool"
  assumes width_pos: "0 < width"
    and length_enc: "valid x \<Longrightarrow> length (enc x) = width"
    and dec_enc: "valid x \<Longrightarrow> dec (enc x) = x"
    and enc_dec: "length bs = width \<Longrightarrow> enc (dec bs) = bs"
    and valid_dec: "length bs = width \<Longrightarrow> valid (dec bs)"
begin

lemma dec_field: "valid x \<Longrightarrow> dec (take width (enc x @ rest)) = x"
  by (simp add: length_enc dec_enc)

lemma skip_field: "valid x \<Longrightarrow> drop width (enc x @ rest) = rest"
  by (simp add: length_enc)

lemma dec_array:
  assumes "\<forall>x \<in> set xs. valid x"
  shows "map dec (chunks width (concat (map enc xs))) = xs"
proof -
  have "\<forall>c \<in> set (map enc xs). length c = width" using assms length_enc by auto
  then have "chunks width (concat (map enc xs)) = map enc xs"
    using width_pos by (rule chunks_concat [rotated])
  then show ?thesis using assms dec_enc by (simp add: map_idI)
qed

lemma enc_array:
  assumes "length bs mod width = 0"
  shows "concat (map enc (map dec (chunks width bs))) = bs"
proof -
  have "map (enc \<circ> dec) (chunks width bs) = chunks width bs"
    using chunks_lengths [OF width_pos assms] enc_dec by (intro map_idI) auto
  then show ?thesis using concat_chunks [OF width_pos] by simp
qed

end

lemma be_codec_laws:
  assumes "0 < n"
  shows "codec (to_be_bytes n) (from_be_slice n) n (\<lambda>v. v < 256 ^ n)"
  by unfold_locales
    (use assms in \<open>auto simp: from_be_slice_eq from_to_be_bytes to_from_be_bytes
      intro: from_be_bytes_bound [THEN less_le_trans]\<close>)

interpretation be16: codec "to_be_bytes 2" "from_be_slice 2" 2 "\<lambda>v. v < 256 ^ 2"
  by (rule be_codec_laws) simp

interpretation be32: codec "to_be_bytes 4" "from_be_slice 4" 4 "\<lambda>v. v < 256 ^ 4"
  by (rule be_codec_laws) simp

interpretation be64: codec "to_be_bytes 8" "from_be_slice 8" 8 "\<lambda>v. v < 256 ^ 8"
  by (rule be_codec_laws) simp

end
