(* ===== verification/Bitmap.thy ===== *)
theory Bitmap
  imports Bytes_Util
begin

text \<open>
  Bit sets stored most significant bit first in byte vectors: \<^verbatim>\<open>bitmap_offset\<close> of
  \<^verbatim>\<open>doro-util/src/bytes_util.rs\<close> and the loop that walks such a bit set to the first
  missing entry, which \<^verbatim>\<open>Piece::add_finish\<close> and \<^verbatim>\<open>Peer::set_metadata_piece\<close> of
  \<^verbatim>\<open>bt/base_peer.rs\<close> share. The locale \<open>bit_array\<close> is the contract the clients use; it is
  interpreted on the byte vector.
\<close>

section \<open>Definitions\<close>

definition bitmap_offset :: "nat \<Rightarrow> nat \<times> u8" where
  "bitmap_offset index = (index div 8, push_bit (7 - index mod 8) 1)"

text \<open>Test and update through \<^verbatim>\<open>get\<close> and \<^verbatim>\<open>get_mut\<close>: an index out of range is ignored.\<close>

definition bitmap_has :: "bytes \<Rightarrow> nat \<Rightarrow> bool" where
  "bitmap_has bs i =
     (let (idx, offset) = bitmap_offset i
      in idx < length bs \<and> bs ! idx AND offset \<noteq> 0)"

definition bitmap_put :: "bytes \<Rightarrow> nat \<Rightarrow> bytes" where
  "bitmap_put bs i =
     (let (idx, offset) = bitmap_offset i
      in if idx < length bs then bs[idx := bs ! idx OR offset] else bs)"

text \<open>
  The loop over one byte (\<^verbatim>\<open>while k != 0\<close>): the flag of the result says whether the loop
  left through \<^verbatim>\<open>break 'first_loop\<close>.
\<close>

function scan_byte :: "('a \<Rightarrow> 'a) \<Rightarrow> u8 \<Rightarrow> u8 \<Rightarrow> 'a \<Rightarrow> 'a \<times> bool" where
  "scan_byte f v k acc =
     (if k = 0 then (acc, False)
      else if v AND k = 0 then (acc, True)
      else scan_byte f v (drop_bit 1 k) (f acc))"
  by pat_completeness auto
termination
  by (relation "measure (\<lambda>(f, v, k, acc). unat k)")
    (auto simp: drop_bit_eq_div unat_div unat_gt_0)

declare scan_byte.simps [simp del]

fun scan_bytes :: "('a \<Rightarrow> 'a) \<Rightarrow> bytes \<Rightarrow> u8 \<Rightarrow> 'a \<Rightarrow> 'a" where
  "scan_bytes f [] offset acc = acc"
| "scan_bytes f (v # vs) offset acc =
     (case scan_byte f v offset acc of
        (acc', True) \<Rightarrow> acc'
      | (acc', False) \<Rightarrow> scan_bytes f vs (push_bit 7 1) acc')"

text \<open>Reference definition: the first index from \<open>i\<close> on that is not set.\<close>

function first_zero :: "bytes \<Rightarrow> nat \<Rightarrow> nat" where
  "first_zero bs i = (if i < 8 * length bs \<and> bitmap_has bs i then first_zero bs (Suc i) else i)"
  by pat_completeness auto
termination
  by (relation "measure (\<lambda>(bs, i). 8 * length bs - i)") auto

declare first_zero.simps [simp del]

section \<open>The bit set\<close>

lemma exp_u8_nonzero: "n < 8 \<Longrightarrow> (2 :: u8) ^ n \<noteq> 0"
  by simp

lemma bitmap_has_iff:
  "bitmap_has bs i \<longleftrightarrow> i div 8 < length bs \<and> bit (bs ! (i div 8)) (7 - i mod 8)"
  by (simp add: bitmap_has_def bitmap_offset_def push_bit_eq_mult and_exp_eq_0_iff_not_bit)

lemma bitmap_has_range: "bitmap_has bs i \<Longrightarrow> i < 8 * length bs"
  by (simp add: bitmap_has_iff div_less_iff_less_mult mult.commute)

lemma length_bitmap_put [simp]: "length (bitmap_put bs i) = length bs"
  by (simp add: bitmap_put_def bitmap_offset_def)

lemma div_mod_8_eq: "i div 8 = j div 8 \<Longrightarrow> 7 - i mod 8 = 7 - j mod (8 :: nat) \<Longrightarrow> i = j"
proof -
  assume a: "i div 8 = j div 8" and "7 - i mod 8 = 7 - j mod 8"
  moreover have "i mod 8 < 8" "j mod 8 < 8" by simp_all
  ultimately have "i mod 8 = j mod 8" by linarith
  with a show ?thesis by (metis div_mult_mod_eq)
qed

lemma bitmap_has_put:
  "bitmap_has (bitmap_put bs i) j \<longleftrightarrow> bitmap_has bs j \<or> j = i \<and> i < 8 * length bs"
proof (cases "i div 8 < length bs")
  case True
  then have "i < 8 * length bs" by (simp add: div_less_iff_less_mult mult.commute)
  with True show ?thesis
    using div_mod_8_eq [of j i]
    by (cases "j div 8 = i div 8")
      (auto simp: bitmap_has_iff bitmap_put_def bitmap_offset_def bit_or_iff bit_exp_iff
        push_bit_eq_mult)
next
  case False
  then have "\<not> i < 8 * length bs" by (simp add: div_less_iff_less_mult mult.commute)
  with False show ?thesis by (simp add: bitmap_put_def bitmap_offset_def)
qed

lemma bitmap_has_replicate [simp]: "\<not> bitmap_has (replicate n 0) i"
  by (auto simp: bitmap_has_iff)

section \<open>The scan\<close>

lemma scan_step:
  assumes "n < 8"
  shows "scan_bytes f (v # vs) (2 ^ n) acc =
    (if bit v n
     then if n = 0 then scan_bytes f vs (2 ^ 7) (f acc) else scan_bytes f (v # vs) (2 ^ (n - 1)) (f acc)
     else acc)"
proof -
  have half: "drop_bit 1 (2 ^ n :: u8) = (if n = 0 then 0 else 2 ^ (n - 1))"
    using assms by (intro bit_word_eqI) (auto simp: bit_drop_bit_eq bit_exp_iff)
  show ?thesis
    using assms
    by (simp add: scan_byte.simps [of f v "2 ^ n"] scan_byte.simps [of f v 0]
        and_exp_eq_0_iff_not_bit half [unfolded One_nat_def] push_bit_eq_mult)
qed

lemma scan_bytes_unfold:
  "scan_bytes f (drop (i div 8) bs) (push_bit (7 - i mod 8) 1) acc =
     (if bitmap_has bs i
      then scan_bytes f (drop (Suc i div 8) bs) (push_bit (7 - Suc i mod 8) 1) (f acc)
      else acc)"
proof (cases "i div 8 < length bs")
  case True
  then have d: "drop (i div 8) bs = bs ! (i div 8) # drop (Suc (i div 8)) bs"
    by (simp add: Cons_nth_drop_Suc)
  show ?thesis
  proof (cases "i mod 8 = 7")
    case last: True
    then have "Suc i div 8 = Suc (i div 8)" and "Suc i mod 8 = 0" by (simp_all add: div_Suc mod_Suc)
    with True last show ?thesis
      by (simp add: d scan_step [of 0, simplified] bitmap_has_iff push_bit_eq_mult)
  next
    case False
    then have s: "Suc i div 8 = i div 8" "Suc i mod 8 = Suc (i mod 8)" by (simp_all add: div_Suc mod_Suc)
    from False have "i mod 8 < 7" using mod_less_divisor [of 8 i] by linarith
    then have "7 - i mod 8 \<noteq> 0" and "7 - i mod 8 - 1 = 7 - Suc (i mod 8)" by auto
    then have "scan_bytes f (bs ! (i div 8) # drop (Suc (i div 8)) bs) (2 ^ (7 - i mod 8)) acc =
        (if bit (bs ! (i div 8)) (7 - i mod 8)
         then scan_bytes f (bs ! (i div 8) # drop (Suc (i div 8)) bs) (2 ^ (7 - Suc (i mod 8))) (f acc)
         else acc)"
      by (subst scan_step) simp_all
    with True s show ?thesis
      by (simp add: d bitmap_has_iff push_bit_eq_mult del: scan_bytes.simps)
  qed
next
  case False
  then show ?thesis by (simp add: bitmap_has_iff)
qed

lemma first_zero_ge: "i \<le> first_zero bs i"
proof (induction bs i rule: first_zero.induct)
  case (1 bs i)
  then show ?case by (subst first_zero.simps) (auto dest: Suc_leD)
qed

theorem scan_bytes_first_zero:
  "scan_bytes f (drop (i div 8) bs) (push_bit (7 - i mod 8) 1) acc =
     (f ^^ (first_zero bs i - i)) acc"
proof (induction bs i arbitrary: acc rule: first_zero.induct)
  case (1 bs i)
  show ?case
  proof (cases "bitmap_has bs i")
    case True
    then have lt: "i < 8 * length bs" by (rule bitmap_has_range)
    have fz: "first_zero bs i = first_zero bs (Suc i)" using True lt by (simp add: first_zero.simps [of bs i])
    have "first_zero bs i - i = Suc (first_zero bs (Suc i) - Suc i)"
      using first_zero_ge [of "Suc i" bs] fz by linarith
    then show ?thesis
      using "1.IH" [OF conjI [OF lt True]] True
      by (subst scan_bytes_unfold) (simp add: funpow_swap1)
  next
    case False
    then show ?thesis by (subst scan_bytes_unfold) (simp add: first_zero.simps [of bs i])
  qed
qed

lemma first_zero_unset: "\<not> bitmap_has bs (first_zero bs i)"
proof (induction bs i rule: first_zero.induct)
  case (1 bs i)
  then show ?case using bitmap_has_range [of bs i] by (subst first_zero.simps) auto
qed

lemma first_zero_set: "i \<le> j \<Longrightarrow> j < first_zero bs i \<Longrightarrow> bitmap_has bs j"
proof (induction bs i rule: first_zero.induct)
  case (1 bs i)
  then show ?case
    by (cases "j = i") (auto simp: first_zero.simps [of bs i] split: if_splits)
qed

lemma first_zero_eqI:
  assumes "i \<le> m" and "\<not> bitmap_has bs m" and "\<And>j. i \<le> j \<Longrightarrow> j < m \<Longrightarrow> bitmap_has bs j"
  shows "first_zero bs i = m"
  using assms first_zero_ge [of i bs] first_zero_unset [of bs i] first_zero_set [of i m bs]
  by (metis linorder_neqE_nat)

lemma first_zero_le: "i \<le> j \<Longrightarrow> \<not> bitmap_has bs j \<Longrightarrow> first_zero bs i \<le> j"
  using first_zero_set [of i j bs] by force

lemma first_zero_max: "i \<le> 8 * length bs \<Longrightarrow> first_zero bs i \<le> 8 * length bs"
  using first_zero_le [of i "8 * length bs" bs] bitmap_has_range [of bs "8 * length bs"] by auto

lemma le_first_zero_iff:
  assumes "i \<le> m"
  shows "m \<le> first_zero bs i \<longleftrightarrow> (\<forall>j. i \<le> j \<longrightarrow> j < m \<longrightarrow> bitmap_has bs j)"
  using assms first_zero_unset [of bs i] first_zero_ge [of i bs] first_zero_set [of i _ bs]
  by (meson leI less_le_trans)

section \<open>The contract of a bit set\<close>

locale bit_array =
  fixes has :: "'s \<Rightarrow> nat \<Rightarrow> bool" and put :: "'s \<Rightarrow> nat \<Rightarrow> 's" and cap :: "'s \<Rightarrow> nat"
  assumes has_put: "has (put s i) j \<longleftrightarrow> has s j \<or> j = i \<and> i < cap s"
    and cap_put: "cap (put s i) = cap s"
    and has_cap: "has s i \<Longrightarrow> i < cap s"
begin

lemma cap_fold_put: "cap (fold (\<lambda>i s. put s i) is s) = cap s"
  by (induction "is" arbitrary: s) (simp_all add: cap_put)

lemma has_fold_put:
  "has (fold (\<lambda>i s. put s i) is s) j \<longleftrightarrow> has s j \<or> j \<in> set is \<and> j < cap s"
  by (induction "is" arbitrary: s) (auto simp: has_put cap_put)

lemma has_put_mono: "has s j \<Longrightarrow> has (put s i) j"
  by (simp add: has_put)

lemma has_fold_put_perm: "set is = set js \<Longrightarrow>
  has (fold (\<lambda>i s. put s i) is s) j \<longleftrightarrow> has (fold (\<lambda>i s. put s i) js s) j"
  by (simp add: has_fold_put)

end

interpretation bm: bit_array bitmap_has bitmap_put "\<lambda>bs. 8 * length bs"
  by unfold_locales (auto simp: bitmap_has_put bitmap_has_range)

end
