(* ===== verification/Piece.thy ===== *)
theory Piece
  imports Bitmap
begin

text \<open>
  \<^verbatim>\<open>Piece\<close> of \<^verbatim>\<open>bt/base_peer.rs\<close>: the record of the blocks of one piece that a peer has
  delivered. Blocks may arrive in any order and more than once; \<open>p_block_offset\<close> is the end of
  the contiguous run that starts where the download of the piece was resumed.
\<close>

section \<open>Definitions\<close>

record Piece =
  p_block_offset :: nat
  p_bitmap :: bytes
  p_block_size :: nat
  p_piece_length :: nat
  p_finish :: bool

definition block_offset_idx :: "nat \<Rightarrow> nat \<Rightarrow> nat result" where
  "block_offset_idx bo bs =
     (if bs = 0 then Inl (Panic ''attempt to divide by zero'') else Inr (div_ceil bo bs))"

definition Piece_new :: "nat \<Rightarrow> nat \<Rightarrow> nat \<Rightarrow> Piece result" where
  "Piece_new bo pl bs =
     and_then (block_offset_idx pl bs) (\<lambda>share.
     let len = wrap32 (share + 7) div 8
     in Inr \<lparr> p_block_offset = bo, p_bitmap = replicate len 0, p_block_size = bs,
             p_piece_length = pl, p_finish = False \<rparr>)"

definition Piece_add_finish :: "nat \<Rightarrow> Piece \<Rightarrow> Piece result" where
  "Piece_add_finish bo p =
     (if p_finish p then Inr p
      else
        and_then (block_offset_idx bo (p_block_size p)) (\<lambda>bo_idx.
        let bm' = bitmap_put (p_bitmap p) bo_idx
        in and_then (block_offset_idx (p_block_offset p) (p_block_size p)) (\<lambda>bo_idx'.
        let (idx, offset) = bitmap_offset bo_idx'
        in if length bm' < idx then Inl (Panic ''range start index out of range'')
           else
             let off' = scan_bytes (\<lambda>o'. wrap32 (o' + p_block_size p)) (drop idx bm') offset (p_block_offset p)
             in Inr (p\<lparr> p_bitmap := bm', p_block_offset := off', p_finish := p_piece_length p \<le> off' \<rparr>))))"

text \<open>The arrival of the blocks at the given offsets, in that order.\<close>

fun Piece_arrivals :: "nat list \<Rightarrow> Piece \<Rightarrow> Piece result" where
  "Piece_arrivals [] p = Inr p"
| "Piece_arrivals (bo # bos) p = and_then (Piece_add_finish bo p) (Piece_arrivals bos)"

section \<open>Invariant\<close>

text \<open>
  \<open>start\<close> is the index of the first block to fetch, \<open>got\<close> the set of block indices that have
  arrived. The size bound keeps every offset that the loop can reach below \<open>2 ^ 32\<close>.
\<close>

definition piece_wf :: "nat \<Rightarrow> Piece \<Rightarrow> bool" where
  "piece_wf start p \<longleftrightarrow>
     0 < p_block_size p \<and> p_piece_length p + 8 * p_block_size p < 2 ^ 32
     \<and> length (p_bitmap p) = (div_ceil (p_piece_length p) (p_block_size p) + 7) div 8
     \<and> start * p_block_size p < p_piece_length p"

definition piece_inv :: "nat \<Rightarrow> nat set \<Rightarrow> Piece \<Rightarrow> bool" where
  "piece_inv start got p \<longleftrightarrow>
     piece_wf start p \<and>
     (if p_finish p
      then {start ..< div_ceil (p_piece_length p) (p_block_size p)} \<subseteq> got \<and> p_piece_length p \<le> p_block_offset p
      else (\<forall>j. bitmap_has (p_bitmap p) j \<longleftrightarrow> j \<in> got \<and> j < 8 * length (p_bitmap p))
           \<and> p_block_offset p = first_zero (p_bitmap p) start * p_block_size p
           \<and> p_block_offset p < p_piece_length p)"

lemma funpow_add_wrap32:
  "0 < (b::nat) \<Longrightarrow> a + n * b < 2 ^ 32 \<Longrightarrow> ((\<lambda>x. wrap32 (x + b)) ^^ n) a = a + n * b"
  by (induction n) (simp_all add: algebra_simps)

lemma piece_wf_cap:
  assumes "piece_wf start p"
  shows "div_ceil (p_piece_length p) (p_block_size p) \<le> 8 * length (p_bitmap p)"
    and "8 * length (p_bitmap p) * p_block_size p < 2 ^ 32"
    and "start < div_ceil (p_piece_length p) (p_block_size p)"
proof -
  define n where "n = div_ceil (p_piece_length p) (p_block_size p)"
  have len: "length (p_bitmap p) = (n + 7) div 8" and pos: "0 < p_block_size p"
    using assms by (simp_all add: piece_wf_def n_def)
  show "n \<le> 8 * length (p_bitmap p)" using len by linarith
  show "start < n"
    using assms pos by (simp add: piece_wf_def n_def less_div_ceil_iff)
  then have "n - 1 < n" by simp
  then have "(n - 1) * p_block_size p < p_piece_length p"
    using pos less_div_ceil_iff unfolding n_def by blast
  moreover have "8 * length (p_bitmap p) \<le> n - 1 + 8" using len by linarith
  then have "8 * length (p_bitmap p) * p_block_size p \<le> (n - 1 + 8) * p_block_size p"
    by (rule mult_le_mono1)
  moreover have "(n - 1 + 8) * p_block_size p = (n - 1) * p_block_size p + 8 * p_block_size p"
    by (rule add_mult_distrib)
  ultimately show "8 * length (p_bitmap p) * p_block_size p < 2 ^ 32"
    using assms unfolding piece_wf_def by linarith
qed

lemma Piece_new_inv:
  assumes "0 < bs" and "pl + 8 * bs < 2 ^ 32" and "start * bs < pl"
  shows "\<exists>p. Piece_new (start * bs) pl bs = Inr p \<and> piece_inv start {} p
    \<and> p_block_size p = bs \<and> p_piece_length p = pl"
proof -
  have "div_ceil pl bs \<le> pl + 1" unfolding div_ceil_def by (simp add: trans_le_add1 le_SucI)
  then have "div_ceil pl bs + 7 < 2 ^ 32" using assms by linarith
  moreover have "first_zero (replicate n 0) start = start" for n
    by (rule first_zero_eqI) auto
  ultimately show ?thesis
    using assms by (auto simp: Piece_new_def block_offset_idx_def piece_inv_def piece_wf_def Let_def)
qed

lemma Piece_add_finish_inv:
  assumes inv: "piece_inv start got p"
  shows "\<exists>p'. Piece_add_finish bo p = Inr p'
    \<and> piece_inv start (insert (div_ceil bo (p_block_size p)) got) p'
    \<and> p_block_size p' = p_block_size p \<and> p_piece_length p' = p_piece_length p
    \<and> p_block_offset p \<le> p_block_offset p'"
proof (cases "p_finish p")
  case True
  with inv show ?thesis by (auto simp: Piece_add_finish_def piece_inv_def)
next
  case False
  define bs where "bs = p_block_size p"
  define i where "i = div_ceil bo bs"
  define bm' where "bm' = bitmap_put (p_bitmap p) i"
  define k where "k = first_zero (p_bitmap p) start"
  define m where "m = first_zero bm' start"
  have wf: "piece_wf start p" and off: "p_block_offset p = k * bs" and lt: "k * bs < p_piece_length p"
    and has: "\<And>j. bitmap_has (p_bitmap p) j \<longleftrightarrow> j \<in> got \<and> j < 8 * length (p_bitmap p)"
    using inv False by (auto simp: piece_inv_def k_def bs_def)
  have pos: "0 < bs" using wf by (simp add: piece_wf_def bs_def)
  note cap = piece_wf_cap [OF wf, folded bs_def]
  have has': "bitmap_has bm' j \<longleftrightarrow> j \<in> insert i got \<and> j < 8 * length bm'" for j
    by (auto simp: bm'_def bm.has_put has)
  have sk: "start \<le> k" unfolding k_def by (rule first_zero_ge)
  have km: "k \<le> m" unfolding m_def
    using sk by (simp add: le_first_zero_iff bm'_def bm.has_put first_zero_set [of start _ "p_bitmap p"] k_def)
  have fz: "first_zero bm' k = m"
    using km first_zero_unset [of bm' start] first_zero_set [of start _ bm'] sk
    by (intro first_zero_eqI) (auto simp: m_def)
  have mcap: "m \<le> 8 * length (p_bitmap p)"
    using first_zero_max [of start bm'] cap by (simp add: m_def bm'_def)
  then have "m * bs \<le> 8 * length (p_bitmap p) * bs" by (rule mult_le_mono1)
  then have small: "m * bs < 2 ^ 32" using cap(2) by linarith
  have "k * bs + (m - k) * bs = m * bs" using km by (metis add_mult_distrib le_add_diff_inverse)
  then have adv: "((\<lambda>x. wrap32 (x + bs)) ^^ (m - k)) (k * bs) = m * bs"
    using funpow_add_wrap32 [OF pos, of "k * bs" "m - k"] small by simp
  have scan: "scan_bytes (\<lambda>x. wrap32 (x + bs)) (drop (k div 8) bm') (push_bit (7 - k mod 8) 1) (k * bs) = m * bs"
    by (simp only: scan_bytes_first_zero fz adv)
  have len: "length bm' = length (p_bitmap p)" by (simp add: bm'_def)
  have idx: "\<not> length (p_bitmap p) < k div 8" using km mcap by linarith
  have step: "Piece_add_finish bo p =
      Inr (p\<lparr>p_bitmap := bm', p_block_offset := m * bs, p_finish := p_piece_length p \<le> m * bs\<rparr>)"
    using False pos idx scan off
    unfolding Piece_add_finish_def block_offset_idx_def bs_def [symmetric]
    by (simp add: i_def [symmetric]
        bm'_def [symmetric] bitmap_offset_def Let_def len)
  have all: "j \<in> insert i got" if "start \<le> j" "j < div_ceil (p_piece_length p) bs" "p_piece_length p \<le> m * bs" for j
  proof -
    have "div_ceil (p_piece_length p) bs \<le> m" using that(3) pos by (simp add: div_ceil_le_iff)
    then show ?thesis using that first_zero_set [of start j bm'] has' by (simp add: m_def)
  qed
  have sub: "p_piece_length p \<le> m * bs \<Longrightarrow> {start ..< div_ceil (p_piece_length p) bs} \<subseteq> insert i got"
    by (rule subsetI, rule all) simp_all
  have "piece_wf start (p\<lparr>p_bitmap := bm', p_block_offset := m * bs, p_finish := f\<rparr>)" for f
    using wf by (simp add: piece_wf_def bm'_def)
  moreover have "k * bs \<le> m * bs" using km by (rule mult_le_mono1)
  ultimately show ?thesis
    using has' off sub
    by (cases "p_piece_length p \<le> m * bs")
      (simp_all add: step piece_inv_def bs_def [symmetric] i_def [symmetric] m_def [symmetric])
qed

lemma Piece_arrivals_inv:
  assumes "piece_inv start got p"
  shows "\<exists>p'. Piece_arrivals bos p = Inr p'
    \<and> piece_inv start (got \<union> (\<lambda>bo. div_ceil bo (p_block_size p)) ` set bos) p'
    \<and> p_block_size p' = p_block_size p \<and> p_piece_length p' = p_piece_length p
    \<and> p_block_offset p \<le> p_block_offset p'"
  using assms
proof (induction bos arbitrary: p got)
  case Nil
  then show ?case by simp
next
  case (Cons bo bos)
  from Piece_add_finish_inv [OF Cons.prems, of bo] obtain q where
    q: "Piece_add_finish bo p = Inr q" "piece_inv start (insert (div_ceil bo (p_block_size p)) got) q"
      "p_block_size q = p_block_size p" "p_piece_length q = p_piece_length p" "p_block_offset p \<le> p_block_offset q"
    by blast
  from Cons.IH [OF q(2)] q(1,3-) show ?case by (auto simp: insert_commute)
qed

lemma piece_inv_finish_iff:
  assumes "piece_inv start got p"
  shows "p_finish p \<longleftrightarrow> {start ..< div_ceil (p_piece_length p) (p_block_size p)} \<subseteq> got"
proof (cases "p_finish p")
  case True
  with assms show ?thesis by (simp add: piece_inv_def)
next
  case False
  let ?k = "first_zero (p_bitmap p) start"
  have wf: "piece_wf start p" using assms by (simp add: piece_inv_def)
  have "?k < div_ceil (p_piece_length p) (p_block_size p)"
    using assms False wf by (simp add: piece_inv_def piece_wf_def less_div_ceil_iff)
  moreover have "?k \<notin> got"
    using assms False first_zero_unset [of "p_bitmap p" start] calculation piece_wf_cap(1) [OF wf]
    by (auto simp: piece_inv_def)
  ultimately show ?thesis using False first_zero_ge [of start "p_bitmap p"] by auto
qed

section \<open>Properties\<close>

text \<open>
  C11. A piece that is resumed at block \<open>start\<close> never panics while blocks arrive, whatever their
  offsets, order and repetitions, and it is marked finished exactly when every block from
  \<open>start\<close> to the end of the piece has arrived.
\<close>

theorem piece_finished_iff_all_blocks:
  assumes "0 < bs" and "pl + 8 * bs < 2 ^ 32" and "start * bs < pl"
  shows "\<exists>p p'. Piece_new (start * bs) pl bs = Inr p \<and> Piece_arrivals bos p = Inr p'
    \<and> (p_finish p' \<longleftrightarrow> (\<forall>j. start \<le> j \<and> j * bs < pl \<longrightarrow> j \<in> (\<lambda>bo. div_ceil bo bs) ` set bos))"
proof -
  from Piece_new_inv [OF assms] obtain p where
    p: "Piece_new (start * bs) pl bs = Inr p" "piece_inv start {} p" "p_block_size p = bs" "p_piece_length p = pl"
    by blast
  from Piece_arrivals_inv [OF p(2), of bos] p(3,4) obtain p' where
    p': "Piece_arrivals bos p = Inr p'" "piece_inv start ((\<lambda>bo. div_ceil bo bs) ` set bos) p'"
      "p_block_size p' = bs" "p_piece_length p' = pl" by auto
  have "{start ..< div_ceil pl bs} = {j. start \<le> j \<and> j * bs < pl}"
    using assms(1) by (auto simp: less_div_ceil_iff)
  then show ?thesis
    using p(1) p'(1) piece_inv_finish_iff [OF p'(2)] p'(3,4) by auto
qed

theorem piece_finished_iff_all_blocks_witness:
  "\<exists>p p'. Piece_new (1 * 16384) 40000 16384 = Inr p \<and> Piece_arrivals [32768, 16384] p = Inr p'
    \<and> (p_finish p' \<longleftrightarrow> (\<forall>j. 1 \<le> j \<and> j * 16384 < 40000 \<longrightarrow>
         j \<in> (\<lambda>bo. div_ceil bo 16384) ` set [32768, 16384 :: nat]))"
  by (rule piece_finished_iff_all_blocks) simp_all

end
