(* ===== verification/Bencode.thy ===== *)
theory Bencode
  imports Bytes_Util
begin

text \<open>
  The bencode library the protocols use (\<^verbatim>\<open>lib/bendy\<close>): the structure checker that watches the
  token stream (\<^verbatim>\<open>state_tracker/state.rs\<close>), the tokeniser and the object reader
  (\<^verbatim>\<open>decoding/decoder.rs\<close>), the encoder (\<^verbatim>\<open>encoding/encoder.rs\<close>) and the codecs of the basic types.

  A decoder is the input still to be read together with the structure checker. An error ends
  the decoding: the source keeps a failed decoder around and reports the same error on every
  later call, so no later call of a reader that propagates its errors can succeed. An object
  that a reader drops is consumed (\<open>consume\<close>), as its destructor does. Loops over the objects of
  a list or a dictionary take fuel; \<open>fuel d\<close>, one more than the bytes left, is always enough
  because every object takes at least one byte.
\<close>

section \<open>Tokens and the structure checker\<close>

definition ascii :: "string \<Rightarrow> bytes" where
  "ascii s = map (\<lambda>c. word_of_nat (of_char c)) s"

datatype Token = TList | TDict | TString bytes | TNum bytes | TEnd

datatype State = Seq | MapKey "bytes option" | MapValue bytes

record StateTracker =
  st_state :: "State list"
  max_depth :: nat
  must_order :: bool

definition StateTracker_new :: StateTracker where
  "StateTracker_new = \<lparr> st_state = [], max_depth = 2048, must_order = True \<rparr>"

text \<open>Order of byte slices.\<close>

fun bytes_less :: "bytes \<Rightarrow> bytes \<Rightarrow> bool" where
  "bytes_less _ [] = False"
| "bytes_less [] (_ # _) = True"
| "bytes_less (x # xs) (y # ys) = (x < y \<or> x = y \<and> bytes_less xs ys)"

definition push_state :: "State \<Rightarrow> StateTracker \<Rightarrow> StateTracker" where
  "push_state s t = t\<lparr> st_state := s # st_state t \<rparr>"

definition push_checked :: "State \<Rightarrow> StateTracker \<Rightarrow> StateTracker result" where
  "push_checked s t =
     (if max_depth t \<le> length (st_state t) then Inl (Err ''NestingTooDeep'') else Inr (push_state s t))"

definition observe_eof :: "StateTracker \<Rightarrow> StateTracker result" where
  "observe_eof t = (if st_state t = [] then Inr t else Inl (Err ''UnexpectedEof''))"

definition observe_token :: "Token \<Rightarrow> StateTracker \<Rightarrow> StateTracker result" where
  "observe_token tok t =
     (case st_state t of
        [] \<Rightarrow>
          (case tok of
             TEnd \<Rightarrow> Inl (Err ''End not allowed at top level'')
           | TList \<Rightarrow> push_checked Seq t
           | TDict \<Rightarrow> push_checked (MapKey None) t
           | _ \<Rightarrow> Inr t)
      | s # ss \<Rightarrow>
          let t' = t\<lparr> st_state := ss \<rparr>
          in case s of
               Seq \<Rightarrow>
                 (case tok of
                    TEnd \<Rightarrow> Inr t'
                  | TList \<Rightarrow> push_checked Seq t
                  | TDict \<Rightarrow> push_checked (MapKey None) t
                  | _ \<Rightarrow> Inr t)
             | MapKey old \<Rightarrow>
                 (case tok of
                    TEnd \<Rightarrow> Inr t'
                  | TString label \<Rightarrow>
                      (case old of
                         None \<Rightarrow> Inr (push_state (MapValue label) t')
                       | Some oldlabel \<Rightarrow>
                           if must_order t \<and> \<not> bytes_less oldlabel label then Inl (Err ''UnsortedKeys'')
                           else Inr (push_state (MapValue label) t'))
                  | _ \<Rightarrow> Inl (Err ''Map keys must be strings''))
             | MapValue label \<Rightarrow>
                 (case tok of
                    TEnd \<Rightarrow> Inl (Err ''Missing map value'')
                  | TList \<Rightarrow> push_checked Seq (push_state (MapKey (Some label)) t')
                  | TDict \<Rightarrow> push_checked (MapKey None) (push_state (MapKey (Some label)) t')
                  | _ \<Rightarrow> Inr (push_state (MapKey (Some label)) t')))"

section \<open>Tokeniser\<close>

datatype IntState = IStart | ISign | IZero | IDigits

definition is_digit :: "u8 \<Rightarrow> bool" where "is_digit c \<longleftrightarrow> 48 \<le> c \<and> c \<le> 57"
definition is_digit19 :: "u8 \<Rightarrow> bool" where "is_digit19 c \<longleftrightarrow> 49 \<le> c \<and> c \<le> 57"

text \<open>
  The automaton of \<^verbatim>\<open>take_int\<close>: the bytes up to the terminator and the input after it.
\<close>

fun take_int :: "u8 \<Rightarrow> IntState \<Rightarrow> bytes \<Rightarrow> (bytes \<times> bytes) result" where
  "take_int end_char s [] = Inl (Err ''UnexpectedEof'')"
| "take_int end_char s (c # cs) =
     (case s of
        IStart \<Rightarrow>
          if c = 45 then and_then (take_int end_char ISign cs) (\<lambda>(i, r). Inr (c # i, r))
          else if c = 48 then and_then (take_int end_char IZero cs) (\<lambda>(i, r). Inr (c # i, r))
          else if is_digit19 c then and_then (take_int end_char IDigits cs) (\<lambda>(i, r). Inr (c # i, r))
          else Inl (Err ''SyntaxError'')
      | IZero \<Rightarrow> if c = end_char then Inr ([], cs) else Inl (Err ''SyntaxError'')
      | ISign \<Rightarrow>
          if is_digit19 c then and_then (take_int end_char IDigits cs) (\<lambda>(i, r). Inr (c # i, r))
          else Inl (Err ''SyntaxError'')
      | IDigits \<Rightarrow>
          if is_digit c then and_then (take_int end_char IDigits cs) (\<lambda>(i, r). Inr (c # i, r))
          else if c = end_char then Inr ([], cs)
          else Inl (Err ''SyntaxError''))"

definition take_chunk :: "nat \<Rightarrow> bytes \<Rightarrow> (bytes \<times> bytes) result" where
  "take_chunk n cs =
     (if n \<le> length cs then Inr (take n cs, drop n cs) else Inl (Err ''UnexpectedEof''))"

text \<open>\<^verbatim>\<open>str::parse\<close> for an unsigned type with maximum \<open>hi\<close> and for \<^verbatim>\<open>i64\<close>, on what \<^verbatim>\<open>take_int\<close> accepts.\<close>

fun digits_value :: "nat \<Rightarrow> bytes \<Rightarrow> nat option" where
  "digits_value acc [] = Some acc"
| "digits_value acc (c # cs) = (if is_digit c then digits_value (acc * 10 + (unat c - 48)) cs else None)"

definition parse_uint :: "nat \<Rightarrow> bytes \<Rightarrow> nat result" where
  "parse_uint hi cs =
     (if cs = [] then Inl (Err ''cannot parse integer from empty string'')
      else case digits_value 0 cs of
             None \<Rightarrow> Inl (Err ''invalid digit found in string'')
           | Some n \<Rightarrow> if n \<le> hi then Inr n else Inl (Err ''number too large to fit in target type''))"

definition parse_i64 :: "bytes \<Rightarrow> int result" where
  "parse_i64 cs =
     (case cs of
        c # ds \<Rightarrow>
          if c = 45 then and_then (parse_uint (2 ^ 63) ds) (\<lambda>n. Inr (- int n))
          else and_then (parse_uint (2 ^ 63 - 1) cs) (\<lambda>n. Inr (int n))
      | [] \<Rightarrow> Inl (Err ''cannot parse integer from empty string''))"

definition raw_next_token :: "bytes \<Rightarrow> (Token \<times> bytes) result" where
  "raw_next_token src =
     (case src of
        [] \<Rightarrow> Inl (Err ''UnexpectedEof'')
      | c # cs \<Rightarrow>
          if c = 101 then Inr (TEnd, cs)
          else if c = 108 then Inr (TList, cs)
          else if c = 100 then Inr (TDict, cs)
          else if c = 105 then and_then (take_int 101 IStart cs) (\<lambda>(i, r). Inr (TNum i, r))
          else if is_digit c then
            and_then (take_int 58 IStart src) (\<lambda>(i, r).
            and_then (parse_uint (2 ^ 64 - 1) i) (\<lambda>n.
            and_then (take_chunk n r) (\<lambda>(s, r'). Inr (TString s, r'))))
          else Inl (Err ''SyntaxError''))"

section \<open>Object reader\<close>

record Decoder =
  d_rest :: bytes
  d_state :: StateTracker

definition Decoder_new :: "bool \<Rightarrow> nat \<Rightarrow> bytes \<Rightarrow> Decoder" where
  "Decoder_new ordered depth src =
     \<lparr> d_rest = src, d_state = StateTracker_new\<lparr> max_depth := depth, must_order := ordered \<rparr> \<rparr>"

definition next_token :: "Decoder \<Rightarrow> (Token option \<times> Decoder) result" where
  "next_token d =
     (if d_rest d = [] then
        and_then (observe_eof (d_state d)) (\<lambda>st. Inr (None, d\<lparr> d_state := st \<rparr>))
      else
        and_then (raw_next_token (d_rest d)) (\<lambda>(tok, r).
        and_then (observe_token tok (d_state d)) (\<lambda>st.
        Inr (Some tok, d\<lparr> d_rest := r, d_state := st \<rparr>))))"

text \<open>Lists and dictionaries carry the input from their first byte on (\<^verbatim>\<open>start_point\<close>).\<close>

datatype Object = OList bytes | ODict bytes | OInteger bytes | OBytes bytes

definition next_object :: "Decoder \<Rightarrow> (Object option \<times> Decoder) result" where
  "next_object d =
     and_then (next_token d) (\<lambda>(tok, d').
       case tok of
         None \<Rightarrow> Inr (None, d')
       | Some TEnd \<Rightarrow> Inr (None, d')
       | Some TList \<Rightarrow> Inr (Some (OList (d_rest d)), d')
       | Some TDict \<Rightarrow> Inr (Some (ODict (d_rest d)), d')
       | Some (TString s) \<Rightarrow> Inr (Some (OBytes s), d')
       | Some (TNum s) \<Rightarrow> Inr (Some (OInteger s), d'))"

definition next_pair :: "Decoder \<Rightarrow> ((bytes \<times> Object) option \<times> Decoder) result" where
  "next_pair d =
     and_then (next_object d) (\<lambda>(key, d').
       case key of
         Some (OBytes k) \<Rightarrow>
           and_then (next_object d') (\<lambda>(v, d'').
             case v of Some v \<Rightarrow> Inr (Some (k, v), d'')
             | None \<Rightarrow> Inl (Panic ''called Option::unwrap() on a None value''))
       | _ \<Rightarrow> Inr (None, d'))"

definition fuel :: "Decoder \<Rightarrow> nat" where "fuel d = Suc (length (d_rest d))"

fun consume :: "nat \<Rightarrow> Object \<Rightarrow> Decoder \<Rightarrow> Decoder result" where
  "consume 0 v d = Inl (Err ''out of fuel'')"
| "consume (Suc n) (OBytes _) d = Inr d"
| "consume (Suc n) (OInteger _) d = Inr d"
| "consume (Suc n) (OList s) d =
     and_then (next_object d) (\<lambda>(v, d').
       case v of None \<Rightarrow> Inr d'
       | Some v \<Rightarrow> and_then (consume n v d') (consume n (OList s)))"
| "consume (Suc n) (ODict s) d =
     and_then (next_pair d) (\<lambda>(kv, d').
       case kv of None \<Rightarrow> Inr d'
       | Some (k, v) \<Rightarrow> and_then (consume n v d') (consume n (ODict s)))"

text \<open>Dropping an object, and \<^verbatim>\<open>DictDecoder::into_raw\<close>.\<close>

definition drop_object :: "Object \<Rightarrow> Decoder \<Rightarrow> Decoder result" where
  "drop_object v d = consume (Suc (fuel d)) v d"

definition into_raw :: "bytes \<Rightarrow> Decoder \<Rightarrow> (bytes \<times> Decoder) result" where
  "into_raw s d =
     and_then (consume (Suc (fuel d)) (ODict s) d) (\<lambda>d'.
       Inr (take (length s - length (d_rest d')) s, d'))"

text \<open>The loops \<^verbatim>\<open>while let Some(..) = dict.next_pair()?\<close> and \<^verbatim>\<open>while let Some(..) = list.next_object()?\<close>.\<close>

fun dict_fold :: "nat \<Rightarrow> (bytes \<Rightarrow> Object \<Rightarrow> 'a \<Rightarrow> Decoder \<Rightarrow> ('a \<times> Decoder) result) \<Rightarrow> 'a \<Rightarrow> Decoder
    \<Rightarrow> ('a \<times> Decoder) result" where
  "dict_fold 0 f acc d = Inl (Err ''out of fuel'')"
| "dict_fold (Suc n) f acc d =
     and_then (next_pair d) (\<lambda>(kv, d').
       case kv of None \<Rightarrow> Inr (acc, d')
       | Some (k, v) \<Rightarrow> and_then (f k v acc d') (\<lambda>(acc', d''). dict_fold n f acc' d''))"

fun list_fold :: "nat \<Rightarrow> (Object \<Rightarrow> 'a \<Rightarrow> Decoder \<Rightarrow> ('a \<times> Decoder) result) \<Rightarrow> 'a \<Rightarrow> Decoder
    \<Rightarrow> ('a \<times> Decoder) result" where
  "list_fold 0 f acc d = Inl (Err ''out of fuel'')"
| "list_fold (Suc n) f acc d =
     and_then (next_object d) (\<lambda>(v, d').
       case v of None \<Rightarrow> Inr (acc, d')
       | Some v \<Rightarrow> and_then (f v acc d') (\<lambda>(acc', d''). list_fold n f acc' d''))"

section \<open>Decoding the basic types\<close>

type_synonym 'a reader = "Object \<Rightarrow> Decoder \<Rightarrow> ('a \<times> Decoder) result"

definition try_into_bytes :: "Object \<Rightarrow> bytes result" where
  "try_into_bytes v = (case v of OBytes s \<Rightarrow> Inr s | _ \<Rightarrow> Inl (Err ''unexpected token, expected String''))"

definition try_into_integer :: "Object \<Rightarrow> bytes result" where
  "try_into_integer v = (case v of OInteger s \<Rightarrow> Inr s | _ \<Rightarrow> Inl (Err ''unexpected token, expected Num''))"

definition try_into_list :: "Object \<Rightarrow> bytes result" where
  "try_into_list v = (case v of OList s \<Rightarrow> Inr s | _ \<Rightarrow> Inl (Err ''unexpected token, expected List''))"

definition try_into_dictionary :: "Object \<Rightarrow> bytes result" where
  "try_into_dictionary v = (case v of ODict s \<Rightarrow> Inr s | _ \<Rightarrow> Inl (Err ''unexpected token, expected Dict''))"

text \<open>\<^verbatim>\<open>String::from_utf8\<close>: well-formed UTF-8 (RFC 3629).\<close>

definition cont_byte :: "u8 \<Rightarrow> bool" where "cont_byte c \<longleftrightarrow> 128 \<le> c \<and> c \<le> 191"

fun utf8_valid :: "bytes \<Rightarrow> bool" where
  "utf8_valid [] = True"
| "utf8_valid (a # r) =
     (if a < 128 then utf8_valid r
      else if 194 \<le> a \<and> a \<le> 223 then (case r of b # r' \<Rightarrow> cont_byte b \<and> utf8_valid r' | _ \<Rightarrow> False)
      else if 224 \<le> a \<and> a \<le> 239 then
        (case r of b # c # r' \<Rightarrow>
           cont_byte b \<and> cont_byte c \<and> (a = 224 \<longrightarrow> 160 \<le> b) \<and> (a = 237 \<longrightarrow> b \<le> 159) \<and> utf8_valid r'
         | _ \<Rightarrow> False)
      else if 240 \<le> a \<and> a \<le> 244 then
        (case r of b # c # e # r' \<Rightarrow>
           cont_byte b \<and> cont_byte c \<and> cont_byte e \<and> (a = 240 \<longrightarrow> 144 \<le> b) \<and> (a = 244 \<longrightarrow> b \<le> 143)
           \<and> utf8_valid r'
         | _ \<Rightarrow> False)
      else False)"

definition string_of :: "bytes \<Rightarrow> string" where
  "string_of bs = map (\<lambda>b. char_of (unat b)) bs"

definition decode_uint :: "nat \<Rightarrow> nat reader" where
  "decode_uint hi v d =
     and_then (try_into_integer v) (\<lambda>s. and_then (parse_uint hi s) (\<lambda>n. Inr (n, d)))"

definition decode_String :: "string reader" where
  "decode_String v d =
     and_then (try_into_bytes v) (\<lambda>s.
       if utf8_valid s then Inr (string_of s, d) else Inl (Err ''invalid utf-8 sequence''))"

definition decode_AsString :: "bytes reader" where
  "decode_AsString v d = and_then (try_into_bytes v) (\<lambda>s. Inr (s, d))"

definition decode_Vec :: "'a reader \<Rightarrow> 'a list reader" where
  "decode_Vec item v d =
     and_then (try_into_list v) (\<lambda>_.
       list_fold (fuel d) (\<lambda>v acc d. and_then (item v d) (\<lambda>(x, d'). Inr (acc @ [x], d'))) [] d)"

text \<open>A map as the list of its entries in the order of insertion; a later entry replaces an earlier one.\<close>

definition map_insert :: "'k \<Rightarrow> 'v \<Rightarrow> ('k \<times> 'v) list \<Rightarrow> ('k \<times> 'v) list" where
  "map_insert k v m = filter (\<lambda>(k', _). k' \<noteq> k) m @ [(k, v)]"

definition decode_HashMap :: "'v reader \<Rightarrow> (string \<times> 'v) list reader" where
  "decode_HashMap item v d =
     and_then (try_into_dictionary v) (\<lambda>_.
       dict_fold (fuel d) (\<lambda>k v acc d.
         and_then (decode_String (OBytes k) d) (\<lambda>(key, d').
         and_then (item v d') (\<lambda>(x, d''). Inr (map_insert key x acc, d'')))) [] d)"

text \<open>\<^verbatim>\<open>BTreeMap::insert\<close>, the map as its entries in ascending order of the keys.\<close>

fun btree_insert :: "bytes \<Rightarrow> 'v \<Rightarrow> (bytes \<times> 'v) list \<Rightarrow> (bytes \<times> 'v) list" where
  "btree_insert k v [] = [(k, v)]"
| "btree_insert k v ((k', v') # m) =
     (if k = k' then (k, v) # m
      else if bytes_less k k' then (k, v) # (k', v') # m
      else (k', v') # btree_insert k v m)"

text \<open>\<^verbatim>\<open>Value\<close> of \<^verbatim>\<open>value.rs\<close>; a dictionary is kept as its entries in the order of the keys.\<close>

datatype Value = VBytes bytes | VDict "(bytes \<times> Value) list" | VInteger int | VList "Value list"

fun decode_Value :: "nat \<Rightarrow> Value reader" where
  "decode_Value 0 v d = Inl (Err ''out of fuel'')"
| "decode_Value (Suc n) v d =
     (case v of
        OBytes s \<Rightarrow> Inr (VBytes s, d)
      | OInteger s \<Rightarrow> and_then (parse_i64 s) (\<lambda>i. Inr (VInteger i, d))
      | OList s \<Rightarrow>
          and_then (list_fold (fuel d) (\<lambda>v acc d. and_then (decode_Value n v d) (\<lambda>(x, d'). Inr (acc @ [x], d'))) [] d)
            (\<lambda>(xs, d'). Inr (VList xs, d'))
      | ODict s \<Rightarrow>
          and_then (dict_fold (fuel d) (\<lambda>k v acc d. and_then (decode_Value n v d) (\<lambda>(x, d'). Inr (btree_insert k x acc, d'))) [] d)
            (\<lambda>(xs, d'). Inr (VDict xs, d')))"

definition from_bencode :: "bool \<Rightarrow> nat \<Rightarrow> 'a reader \<Rightarrow> bytes \<Rightarrow> 'a result" where
  "from_bencode ordered depth rd src =
     and_then (next_object (Decoder_new ordered depth src)) (\<lambda>(v, d).
       case v of None \<Rightarrow> Inl (Err ''UnexpectedEof'')
       | Some v \<Rightarrow> and_then (rd v d) (\<lambda>(x, _). Inr x))"

text \<open>\<^verbatim>\<open>from_bencode_first\<close> leaves the default of the checker, sorted keys, in place.\<close>

definition from_bencode_first :: "nat \<Rightarrow> 'a reader \<Rightarrow> bytes \<Rightarrow> ('a \<times> nat) result" where
  "from_bencode_first depth rd src =
     and_then (next_object (Decoder_new True depth src)) (\<lambda>(v, d).
       case v of None \<Rightarrow> Inl (Err ''UnexpectedEof'')
       | Some v \<Rightarrow> and_then (rd v d) (\<lambda>(x, d'). Inr (x, length src - length (d_rest d'))))"

section \<open>Encoder\<close>

record Encoder =
  e_state :: StateTracker
  e_output :: bytes

type_synonym writer = "Encoder \<Rightarrow> Encoder result"

definition Encoder_new :: "nat \<Rightarrow> Encoder" where
  "Encoder_new depth = \<lparr> e_state = StateTracker_new\<lparr> max_depth := depth \<rparr>, e_output = [] \<rparr>"

fun to_dec :: "nat \<Rightarrow> bytes" where
  "to_dec n = (if n < 10 then [word_of_nat (48 + n)] else to_dec (n div 10) @ [word_of_nat (48 + n mod 10)])"

declare to_dec.simps [simp del]

definition token_bytes :: "Token \<Rightarrow> bytes" where
  "token_bytes tok =
     (case tok of
        TList \<Rightarrow> [108] | TDict \<Rightarrow> [100] | TEnd \<Rightarrow> [101]
      | TString s \<Rightarrow> to_dec (length s) @ 58 # s
      | TNum s \<Rightarrow> 105 # s @ [101])"

definition emit_token :: "Token \<Rightarrow> writer" where
  "emit_token tok e =
     and_then (observe_token tok (e_state e)) (\<lambda>st.
       Inr (e\<lparr> e_state := st, e_output := e_output e @ token_bytes tok \<rparr>))"

definition emit_int :: "nat \<Rightarrow> writer" where
  "emit_int n e =
     and_then (observe_token (TNum []) (e_state e)) (\<lambda>st.
       Inr (e\<lparr> e_state := st, e_output := e_output e @ 105 # to_dec n @ [101] \<rparr>))"

text \<open>The decimal form of a signed integer.\<close>

definition int_dec :: "int \<Rightarrow> bytes" where
  "int_dec i = (if i < 0 then 45 # to_dec (nat (- i)) else to_dec (nat i))"

definition emit_i64 :: "int \<Rightarrow> writer" where
  "emit_i64 i e =
     and_then (observe_token (TNum []) (e_state e)) (\<lambda>st.
       Inr (e\<lparr> e_state := st, e_output := e_output e @ 105 # int_dec i @ [101] \<rparr>))"

definition emit_bytes :: "bytes \<Rightarrow> writer" where "emit_bytes s = emit_token (TString s)"
definition emit_str :: "string \<Rightarrow> writer" where "emit_str s = emit_token (TString (ascii s))"

definition emit_dict :: "writer \<Rightarrow> writer" where
  "emit_dict content e =
     and_then (emit_token TDict e) (\<lambda>e. and_then (content e) (emit_token TEnd))"

definition emit_list :: "writer \<Rightarrow> writer" where
  "emit_list content e =
     and_then (emit_token TList e) (\<lambda>e. and_then (content e) (emit_token TEnd))"

definition emit_pair :: "bytes \<Rightarrow> writer \<Rightarrow> writer" where
  "emit_pair k w e = and_then (emit_token (TString k) e) w"

fun emit_all :: "writer list \<Rightarrow> writer" where
  "emit_all [] e = Inr e"
| "emit_all (w # ws) e = and_then (w e) (emit_all ws)"

fun emit_Value :: "Value \<Rightarrow> writer" where
  "emit_Value (VBytes s) = emit_bytes s"
| "emit_Value (VDict m) = emit_dict (emit_all (map (\<lambda>(k, v). emit_pair k (emit_Value v)) m))"
| "emit_Value (VInteger i) = emit_i64 i"
| "emit_Value (VList vs) = emit_list (emit_all (map emit_Value vs))"

definition to_bencode :: "nat \<Rightarrow> writer \<Rightarrow> bytes result" where
  "to_bencode depth w =
     and_then (w (Encoder_new depth)) (\<lambda>e.
       and_then (observe_eof (e_state e)) (\<lambda>_. Inr (e_output e)))"

section \<open>Decimal numbers\<close>

lemma is_digit_dec: "n < 10 \<Longrightarrow> is_digit (word_of_nat (48 + n)) \<and> unat (word_of_nat (48 + n) :: u8) - 48 = n"
  and is_digit19_dec: "n < 10 \<Longrightarrow> 0 < n \<Longrightarrow> is_digit19 (word_of_nat (48 + n))"
proof -
  have e: "unat (word_of_nat (48 + n) :: u8) = 48 + n" if "n < 10" using that by (simp add: unat_of_nat del: of_nat_add)
  show "n < 10 \<Longrightarrow> is_digit (word_of_nat (48 + n)) \<and> unat (word_of_nat (48 + n) :: u8) - 48 = n"
    by (simp add: is_digit_def word_le_nat_alt e del: of_nat_add)
  show "n < 10 \<Longrightarrow> 0 < n \<Longrightarrow> is_digit19 (word_of_nat (48 + n))"
    by (simp add: is_digit19_def word_le_nat_alt e del: of_nat_add)
qed

lemma to_dec_digits: "\<forall>c \<in> set (to_dec n). is_digit c"
proof (induction n rule: to_dec.induct)
  case (1 n)
  then show ?case using is_digit_dec [of n] is_digit_dec [of "n mod 10"]
    by (subst to_dec.simps) (auto simp del: of_nat_add)
qed

lemma digits_value_append:
  "digits_value a (xs @ ys) = (case digits_value a xs of None \<Rightarrow> None | Some b \<Rightarrow> digits_value b ys)"
  by (induction xs arbitrary: a) auto

lemma digits_value_to_dec: "digits_value 0 (to_dec n) = Some n"
proof (induction n rule: to_dec.induct)
  case (1 n)
  show ?case
  proof (cases "n < 10")
    case True
    then show ?thesis using is_digit_dec [of n] by (simp add: to_dec.simps [of n] del: of_nat_add)
  next
    case False
    then show ?thesis
      using 1 is_digit_dec [of "n mod 10"] by (simp add: to_dec.simps [of n] digits_value_append del: of_nat_add)
  qed
qed

lemma to_dec_nonempty [simp]: "to_dec n \<noteq> []"
  by (subst to_dec.simps) simp

lemma parse_uint_to_dec [simp]: "n \<le> hi \<Longrightarrow> parse_uint hi (to_dec n) = Inr n"
  by (simp add: parse_uint_def digits_value_to_dec)

lemma take_int_digits:
  assumes "\<forall>c \<in> set ds. is_digit c" and "\<not> is_digit t"
  shows "take_int t IDigits (ds @ t # r) = Inr (ds, r)"
  using assms by (induction ds) auto

text \<open>The leading digit of a positive number is not zero.\<close>

lemma to_dec_lead: "0 < n \<Longrightarrow> \<exists>c ds. to_dec n = c # ds \<and> is_digit19 c \<and> (\<forall>x \<in> set ds. is_digit x)"
proof (induction n rule: to_dec.induct)
  case (1 n)
  show ?case
  proof (cases "n < 10")
    case True
    then show ?thesis using 1 is_digit19_dec [of n] by (simp add: to_dec.simps [of n] del: of_nat_add)
  next
    case False
    then have "0 < n div 10" by (simp add: div_greater_zero_iff)
    with 1 False obtain c ds where "to_dec (n div 10) = c # ds" "is_digit19 c" "\<forall>x \<in> set ds. is_digit x"
      by auto
    then show ?thesis
      using False is_digit_dec [of "n mod 10"] by (auto simp: to_dec.simps [of n] simp del: of_nat_add)
  qed
qed

lemma take_int_sign_dec:
  assumes "0 < n" and "\<not> is_digit t"
  shows "take_int t ISign (to_dec n @ t # r) = Inr (to_dec n, r)"
proof -
  from to_dec_lead [OF assms(1)] obtain c ds where
    "to_dec n = c # ds" "is_digit19 c" "\<forall>x \<in> set ds. is_digit x" by blast
  then show ?thesis using take_int_digits [OF _ assms(2), of ds r] by simp
qed

lemma is_digit19_ne: "is_digit19 c \<Longrightarrow> c \<noteq> 45 \<and> c \<noteq> 48"
  by (auto simp: is_digit19_def word_le_nat_alt)

lemma to_dec_0 [simp]: "to_dec 0 = [48]"
  by (simp add: to_dec.simps)

lemma take_int_dec:
  assumes "\<not> is_digit t"
  shows "take_int t IStart (to_dec n @ t # r) = Inr (to_dec n, r)"
proof (cases "n = 0")
  case False
  then obtain c ds where
    "to_dec n = c # ds" "is_digit19 c" "\<forall>x \<in> set ds. is_digit x" using to_dec_lead by blast
  then show ?thesis using take_int_digits [OF _ assms, of ds r] is_digit19_ne [of c] by simp
qed simp

lemma take_int_int_dec:
  assumes "\<not> is_digit t"
  shows "take_int t IStart (int_dec i @ t # r) = Inr (int_dec i, r)"
  using take_int_dec [OF assms] take_int_sign_dec [OF _ assms, of "nat (- i)"]
  by (simp add: int_dec_def)

lemma parse_i64_int_dec:
  assumes "- (2 ^ 63) \<le> i" and "i < 2 ^ 63"
  shows "parse_i64 (int_dec i) = Inr i"
proof (cases "i < 0")
  case True
  then show ?thesis using assms by (simp add: int_dec_def parse_i64_def)
next
  case False
  obtain c ds where c: "to_dec (nat i) = c # ds" by (meson list.exhaust to_dec_nonempty)
  then have "is_digit c" using to_dec_digits [of "nat i"] by simp
  then have "c \<noteq> 45" by (auto simp: is_digit_def word_le_nat_alt)
  moreover have "parse_uint (2 ^ 63 - 1) (to_dec (nat i)) = Inr (nat i)" using False assms by simp
  ultimately show ?thesis using False by (simp add: int_dec_def parse_i64_def c)
qed

section \<open>Tokens\<close>

text \<open>Tokens an encoder of this program writes: numbers in decimal, strings of a length that fits.\<close>

definition token_ok :: "Token \<Rightarrow> bool" where
  "token_ok tok = (case tok of TString s \<Rightarrow> length s < 2 ^ 64 | TNum s \<Rightarrow> (\<exists>i. s = int_dec i) | _ \<Rightarrow> True)"

lemma not_digit_marks [simp]: "\<not> is_digit 58" "\<not> is_digit 101" "\<not> is_digit 108" "\<not> is_digit 100" "\<not> is_digit 105"
  by (simp_all add: is_digit_def word_le_nat_alt)

lemma raw_next_token_bytes:
  assumes "token_ok tok"
  shows "raw_next_token (token_bytes tok @ r) = Inr (tok, r)"
proof (cases tok)
  case (TString s)
  have i: "take_int 58 IStart (to_dec (length s) @ 58 # s @ r) = Inr (to_dec (length s), s @ r)"
    by (rule take_int_dec) simp
  obtain c ds where c: "to_dec (length s) = c # ds" by (meson list.exhaust to_dec_nonempty)
  then have "is_digit c" using to_dec_digits [of "length s"] by simp
  then have "c \<noteq> 101" "c \<noteq> 108" "c \<noteq> 100" "c \<noteq> 105" by auto
  moreover have "length s \<le> 2 ^ 64 - 1" using assms TString by (simp add: token_ok_def)
  then have "parse_uint (2 ^ 64 - 1) (to_dec (length s)) = Inr (length s)" by (rule parse_uint_to_dec)
  ultimately show ?thesis
    using i c \<open>is_digit c\<close> by (simp add: TString token_bytes_def raw_next_token_def take_chunk_def)
next
  case (TNum s)
  then obtain i where "s = int_dec i" using assms by (auto simp: token_ok_def)
  then show ?thesis
    using take_int_int_dec [of 101 i r] by (simp add: TNum token_bytes_def raw_next_token_def)
qed (simp_all add: token_bytes_def raw_next_token_def)

lemma token_bytes_nonempty [simp]: "token_bytes tok \<noteq> []"
  by (simp add: token_bytes_def split: Token.split)

lemma next_token_bytes:
  assumes "token_ok tok" and "d_rest d = token_bytes tok @ r" and "observe_token tok (d_state d) = Inr st"
  shows "next_token d = Inr (Some tok, d\<lparr> d_rest := r, d_state := st \<rparr>)"
  using assms raw_next_token_bytes [OF assms(1), of r] by (simp add: next_token_def)

section \<open>Values\<close>

text \<open>The text of a value.\<close>

fun value_bytes :: "Value \<Rightarrow> bytes" where
  "value_bytes (VBytes s) = token_bytes (TString s)"
| "value_bytes (VInteger i) = token_bytes (TNum (int_dec i))"
| "value_bytes (VList vs) = 108 # concat (map value_bytes vs) @ [101]"
| "value_bytes (VDict m) = 100 # concat (map (\<lambda>(k, v). token_bytes (TString k) @ value_bytes v) m) @ [101]"

lemma value_bytes_nonempty [simp]: "value_bytes v \<noteq> []"
  by (cases v) simp_all

text \<open>Strictly ascending keys.\<close>

fun keys_sorted :: "bytes option \<Rightarrow> bytes list \<Rightarrow> bool" where
  "keys_sorted old [] = True"
| "keys_sorted old (k # ks) = ((case old of None \<Rightarrow> True | Some o' \<Rightarrow> bytes_less o' k) \<and> keys_sorted (Some k) ks)"

fun value_ok :: "Value \<Rightarrow> bool" where
  "value_ok (VBytes s) = (length s < 2 ^ 64)"
| "value_ok (VInteger i) = (- (2 ^ 63) \<le> i \<and> i < 2 ^ 63)"
| "value_ok (VList vs) = (\<forall>v \<in> set vs. value_ok v)"
| "value_ok (VDict m) = ((\<forall>(k, v) \<in> set m. length k < 2 ^ 64 \<and> value_ok v) \<and> keys_sorted None (map fst m))"

fun depth :: "Value \<Rightarrow> nat" where
  "depth (VList vs) = Suc (foldr max (map depth vs) 0)"
| "depth (VDict m) = Suc (foldr max (map (\<lambda>(k, v). depth v) m) 0)"
| "depth _ = 0"

text \<open>States in which a value may come next, and the state after it.\<close>

definition value_next :: "StateTracker \<Rightarrow> bool" where
  "value_next t \<longleftrightarrow> (case st_state t of MapKey _ # _ \<Rightarrow> False | _ \<Rightarrow> True)"

definition advance :: "StateTracker \<Rightarrow> StateTracker" where
  "advance t = (case st_state t of MapValue l # ss \<Rightarrow> t\<lparr> st_state := MapKey (Some l) # ss \<rparr> | _ \<Rightarrow> t)"

lemma advance_simps [simp]:
  "length (st_state (advance t)) = length (st_state t)" "max_depth (advance t) = max_depth t"
  "must_order (advance t) = must_order t"
  by (simp_all add: advance_def split: list.split State.split)

lemma observe_atom:
  assumes "value_next t"
  shows "observe_token (TNum s) t = Inr (advance t)" and "observe_token (TString s) t = Inr (advance t)"
  using assms
  by (auto simp: observe_token_def value_next_def advance_def push_state_def Let_def split: list.splits State.splits)

lemma observe_open:
  assumes "value_next t" and "length (st_state t) < max_depth t"
  shows "observe_token TList t = Inr (push_state Seq (advance t))"
    and "observe_token TDict t = Inr (push_state (MapKey None) (advance t))"
  using assms
  by (auto simp: observe_token_def value_next_def advance_def push_state_def push_checked_def Let_def
      split: list.splits State.splits)

lemma observe_close:
  "observe_token TEnd (push_state Seq t) = Inr t"
  "observe_token TEnd (push_state (MapKey k) t) = Inr t"
  by (simp_all add: observe_token_def push_state_def Let_def)

lemma observe_key:
  assumes "case old of None \<Rightarrow> True | Some o' \<Rightarrow> bytes_less o' k"
  shows "observe_token (TString k) (push_state (MapKey old) t) = Inr (push_state (MapValue k) t)"
  using assms by (auto simp: observe_token_def push_state_def Let_def split: option.splits)

lemma push_simps [simp]:
  "value_next (push_state Seq t)" "value_next (push_state (MapValue k) t)"
  "advance (push_state Seq t) = push_state Seq t"
  "advance (push_state (MapValue k) t) = push_state (MapKey (Some k)) t"
  "length (st_state (push_state s t)) = Suc (length (st_state t))"
  "max_depth (push_state s t) = max_depth t" "must_order (push_state s t) = must_order t"
  by (simp_all add: push_state_def value_next_def advance_def)

lemma length_concat_nonempty: "(\<And>x. x \<in> set xs \<Longrightarrow> f x \<noteq> []) \<Longrightarrow> length xs \<le> length (concat (map f xs))"
proof (induction xs)
  case (Cons x xs)
  then have "1 \<le> length (f x)" and "length xs \<le> length (concat (map f xs))"
    by (simp_all add: Suc_le_eq)
  then have "1 + length xs \<le> length (f x) + length (concat (map f xs))" by (rule add_mono)
  then show ?case by simp
qed simp

lemma depth_item: "v \<in> set vs \<Longrightarrow> depth v \<le> foldr max (map depth vs) 0"
  by (induction vs) auto

lemma depth_entry: "(k, v) \<in> set m \<Longrightarrow> depth v \<le> foldr max (map (\<lambda>(k, v). depth v) m) 0"
  by (induction m) auto

text \<open>A reader reads a value: from any position where the value comes next it returns it and stops after it.\<close>

definition reads :: "Value reader \<Rightarrow> Value \<Rightarrow> bool" where
  "reads rd v \<longleftrightarrow> (\<forall>d r. value_next (d_state d) \<longrightarrow>
     depth v + length (st_state (d_state d)) \<le> max_depth (d_state d) \<longrightarrow> d_rest d = value_bytes v @ r \<longrightarrow>
     (\<exists>ob d1. next_object d = Inr (Some ob, d1)
        \<and> rd ob d1 = Inr (v, d\<lparr> d_rest := r, d_state := advance (d_state d) \<rparr>)))"

lemma readsD:
  assumes "reads rd v" and "value_next (d_state d)"
    and "depth v + length (st_state (d_state d)) \<le> max_depth (d_state d)" and "d_rest d = value_bytes v @ r"
  obtains ob d1 where "next_object d = Inr (Some ob, d1)"
    and "rd ob d1 = Inr (v, d\<lparr> d_rest := r, d_state := advance (d_state d) \<rparr>)"
  using assms unfolding reads_def by blast

lemma next_object_end:
  assumes "d_rest d = 101 # r" and "observe_token TEnd (d_state d) = Inr t"
  shows "next_object d = Inr (None, d\<lparr> d_rest := r, d_state := t \<rparr>)"
  using next_token_bytes [of TEnd d r t] assms by (simp add: next_object_def token_bytes_def token_ok_def)

lemma next_object_atom:
  assumes "value_next (d_state d)"
  shows "d_rest d = token_bytes (TString s) @ r \<Longrightarrow> length s < 2 ^ 64 \<Longrightarrow>
      next_object d = Inr (Some (OBytes s), d\<lparr> d_rest := r, d_state := advance (d_state d) \<rparr>)"
    and "d_rest d = token_bytes (TNum (int_dec i)) @ r \<Longrightarrow>
      next_object d = Inr (Some (OInteger (int_dec i)), d\<lparr> d_rest := r, d_state := advance (d_state d) \<rparr>)"
proof -
  have n: "token_ok (TNum (int_dec i))" by (auto simp: token_ok_def)
  show "d_rest d = token_bytes (TString s) @ r \<Longrightarrow> length s < 2 ^ 64 \<Longrightarrow>
      next_object d = Inr (Some (OBytes s), d\<lparr> d_rest := r, d_state := advance (d_state d) \<rparr>)"
    using next_token_bytes [of "TString s" d r "advance (d_state d)"] observe_atom [OF assms]
    by (simp add: next_object_def token_ok_def)
  show "d_rest d = token_bytes (TNum (int_dec i)) @ r \<Longrightarrow>
      next_object d = Inr (Some (OInteger (int_dec i)), d\<lparr> d_rest := r, d_state := advance (d_state d) \<rparr>)"
    using next_token_bytes [OF n, of d r "advance (d_state d)"] observe_atom [OF assms]
    by (simp add: next_object_def)
qed

lemma list_fold_values:
  assumes "\<forall>v \<in> set vs. reads rd v \<and> depth v + Suc (length (st_state t)) \<le> max_depth t" and "length vs < m"
    and "d_rest d = concat (map value_bytes vs) @ 101 # r" and "d_state d = push_state Seq t"
  shows "list_fold m (\<lambda>v acc d. and_then (rd v d) (\<lambda>(x, d'). Inr (acc @ [x], d'))) acc d =
    Inr (acc @ vs, d\<lparr> d_rest := r, d_state := t \<rparr>)"
  using assms
proof (induction vs arbitrary: m acc d)
  case Nil
  then obtain m' where "m = Suc m'" by (cases m) auto
  with Nil next_object_end [of d r t] show ?case by (simp add: observe_close)
next
  case (Cons v vs)
  then obtain m' where m: "m = Suc m'" "length vs < m'" by (cases m) auto
  let ?r = "concat (map value_bytes vs) @ 101 # r"
  have "reads rd v" using Cons.prems(1) by simp
  moreover have "value_next (d_state d)" using Cons.prems(4) by simp
  moreover have "depth v + length (st_state (d_state d)) \<le> max_depth (d_state d)"
    using Cons.prems(1,4) by simp
  moreover have "d_rest d = value_bytes v @ ?r" using Cons.prems(3) by simp
  ultimately obtain ob d1 where "next_object d = Inr (Some ob, d1)"
    "rd ob d1 = Inr (v, d\<lparr> d_rest := ?r, d_state := advance (d_state d) \<rparr>)" by (rule readsD)
  with m Cons show ?case by (simp add: Cons.prems(4))
qed

lemma bytes_less_irrefl [simp]: "\<not> bytes_less x x"
  by (induction x) auto

lemma bytes_less_trans: "bytes_less x y \<Longrightarrow> bytes_less y z \<Longrightarrow> bytes_less x z"
proof (induction x y arbitrary: z rule: bytes_less.induct)
  case (2 y ys)
  then show ?case by (cases z) auto
next
  case (3 x xs y ys)
  then show ?case by (cases z) (auto dest: less_trans)
qed simp

lemma keys_sorted_append:
  "keys_sorted old (ks @ [k]) \<longleftrightarrow> keys_sorted old ks
     \<and> (case old of None \<Rightarrow> True | Some o' \<Rightarrow> bytes_less o' k) \<and> (\<forall>x \<in> set ks. bytes_less x k)"
  by (induction ks arbitrary: old) (auto intro: bytes_less_trans split: option.splits)

lemma bytes_less_asym: "bytes_less x y \<Longrightarrow> \<not> bytes_less y x"
  using bytes_less_trans bytes_less_irrefl by blast

lemma btree_insert_last: "\<forall>x \<in> fst ` set m. bytes_less x k \<Longrightarrow> btree_insert k v m = m @ [(k, v)]"
  by (induction m) (auto dest: bytes_less_asym)

lemma fold_btree_insert:
  "keys_sorted None (map fst m) \<Longrightarrow> fold (\<lambda>(k, x) acc. btree_insert k x acc) m [] = m"
  by (induction m rule: rev_induct) (auto simp: keys_sorted_append btree_insert_last)

lemma next_pair_value:
  assumes "reads rd v" and "depth v + Suc (length (st_state t)) \<le> max_depth t" and "length k < 2 ^ 64"
    and "d_rest d = token_bytes (TString k) @ value_bytes v @ r" and "d_state d = push_state (MapKey old) t"
    and "case old of None \<Rightarrow> True | Some o' \<Rightarrow> bytes_less o' k"
  shows "\<exists>ob d1. next_pair d = Inr (Some (k, ob), d1)
    \<and> rd ob d1 = Inr (v, d\<lparr> d_rest := r, d_state := push_state (MapKey (Some k)) t \<rparr>)"
proof -
  define d0 where "d0 = d\<lparr> d_rest := value_bytes v @ r, d_state := push_state (MapValue k) t \<rparr>"
  have "next_token d = Inr (Some (TString k), d0)"
    using next_token_bytes [of "TString k" d "value_bytes v @ r" "push_state (MapValue k) t"]
      assms(3-5) observe_key [OF assms(6), of t] by (simp add: token_ok_def d0_def)
  then have k: "next_object d = Inr (Some (OBytes k), d0)" by (simp add: next_object_def)
  have "value_next (d_state d0)" and "depth v + length (st_state (d_state d0)) \<le> max_depth (d_state d0)"
    and "d_rest d0 = value_bytes v @ r" using assms(2) by (simp_all add: d0_def)
  with assms(1) obtain ob d1 where "next_object d0 = Inr (Some ob, d1)"
    "rd ob d1 = Inr (v, d0\<lparr> d_rest := r, d_state := advance (d_state d0) \<rparr>)" by (rule readsD)
  with k show ?thesis by (simp add: next_pair_def d0_def)
qed

lemma dict_fold_values:
  assumes "\<forall>(k, v) \<in> set m. reads rd v \<and> depth v + Suc (length (st_state t)) \<le> max_depth t \<and> length k < 2 ^ 64"
    and "length m < n" and "keys_sorted old (map fst m)"
    and "d_rest d = concat (map (\<lambda>(k, v). token_bytes (TString k) @ value_bytes v) m) @ 101 # r"
    and "d_state d = push_state (MapKey old) t"
  shows "dict_fold n (\<lambda>k v acc d. and_then (rd v d) (\<lambda>(x, d'). Inr (g k x acc, d'))) acc d =
    Inr (fold (\<lambda>(k, x) acc. g k x acc) m acc, d\<lparr> d_rest := r, d_state := t \<rparr>)"
  using assms
proof (induction m arbitrary: n acc d old)
  case Nil
  then obtain n' where "n = Suc n'" by (cases n) auto
  with Nil next_object_end [of d r t] show ?case by (simp add: observe_close next_pair_def)
next
  case (Cons kv m)
  obtain k v where kv: "kv = (k, v)" by fastforce
  from Cons obtain n' where n: "n = Suc n'" "length m < n'" by (cases n) auto
  let ?r = "concat (map (\<lambda>(k, v). token_bytes (TString k) @ value_bytes v) m) @ 101 # r"
  from next_pair_value [of rd v t k d ?r old] Cons.prems obtain ob d1 where
    "next_pair d = Inr (Some (k, ob), d1)"
    "rd ob d1 = Inr (v, d\<lparr> d_rest := ?r, d_state := push_state (MapKey (Some k)) t \<rparr>)"
    by (auto simp: kv)
  with n Cons.IH [of n' "Some k" "d\<lparr> d_rest := ?r, d_state := push_state (MapKey (Some k)) t \<rparr>"] Cons.prems
  show ?case by (simp add: kv)
qed

lemma decode_Value_reads: "value_ok v \<Longrightarrow> depth v < n \<Longrightarrow> reads (decode_Value n) v"
proof (induction v arbitrary: n)
  case (VBytes s)
  then obtain n' where "n = Suc n'" by (cases n) auto
  then show ?case
    using VBytes by (simp add: reads_def next_object_atom(1))
next
  case (VInteger i)
  then obtain n' where "n = Suc n'" by (cases n) auto
  then show ?case
    using VInteger by (simp add: reads_def next_object_atom(2) parse_i64_int_dec)
next
  case (VList vs)
  then obtain n' where n: "n = Suc n'" by (cases n) auto
  have vs: "\<forall>v \<in> set vs. reads (decode_Value n') v"
    using VList n depth_item [of _ vs] by (fastforce intro: VList.IH)
  show ?case unfolding reads_def
  proof (intro allI impI)
    fix d :: Decoder and r
    assume nx: "value_next (d_state d)" and dp: "depth (VList vs) + length (st_state (d_state d)) \<le> max_depth (d_state d)"
      and rest: "d_rest d = value_bytes (VList vs) @ r"
    define d1 where "d1 = d\<lparr> d_rest := concat (map value_bytes vs) @ 101 # r, d_state := push_state Seq (advance (d_state d)) \<rparr>"
    have t: "next_token d = Inr (Some TList, d1)"
      using next_token_bytes [of TList d "concat (map value_bytes vs) @ 101 # r"] rest observe_open [OF nx] dp
      by (simp add: token_ok_def token_bytes_def d1_def)
    have "length vs < fuel d1"
      using length_concat_nonempty [of vs value_bytes] by (simp add: fuel_def d1_def)
    moreover have "\<forall>v \<in> set vs. reads (decode_Value n') v \<and>
        depth v + Suc (length (st_state (advance (d_state d)))) \<le> max_depth (advance (d_state d))"
      using vs dp depth_item [of _ vs] by fastforce
    ultimately have "list_fold (fuel d1) (\<lambda>v acc d. and_then (decode_Value n' v d) (\<lambda>(x, d'). Inr (acc @ [x], d'))) [] d1 =
        Inr ([] @ vs, d1\<lparr> d_rest := r, d_state := advance (d_state d) \<rparr>)"
      by (intro list_fold_values) (simp_all add: d1_def)
    then show "\<exists>ob d1. next_object d = Inr (Some ob, d1) \<and>
        decode_Value n ob d1 = Inr (VList vs, d\<lparr> d_rest := r, d_state := advance (d_state d) \<rparr>)"
      using t by (simp add: next_object_def n d1_def)
  qed
next
  case (VDict m)
  then obtain n' where n: "n = Suc n'" by (cases n) auto
  have vs: "\<forall>(k, v) \<in> set m. reads (decode_Value n') v"
    using VDict n depth_entry [of _ _ m] by (fastforce intro: VDict.IH)
  let ?c = "concat (map (\<lambda>(k, v). token_bytes (TString k) @ value_bytes v) m)"
  show ?case unfolding reads_def
  proof (intro allI impI)
    fix d :: Decoder and r
    assume nx: "value_next (d_state d)" and dp: "depth (VDict m) + length (st_state (d_state d)) \<le> max_depth (d_state d)"
      and rest: "d_rest d = value_bytes (VDict m) @ r"
    define d1 where "d1 = d\<lparr> d_rest := ?c @ 101 # r, d_state := push_state (MapKey None) (advance (d_state d)) \<rparr>"
    have t: "next_token d = Inr (Some TDict, d1)"
      using next_token_bytes [of TDict d "?c @ 101 # r"] rest observe_open [OF nx] dp
      by (simp add: token_ok_def token_bytes_def d1_def)
    have "length m < fuel d1"
      using length_concat_nonempty [of m "\<lambda>(k, v). token_bytes (TString k) @ value_bytes v"]
      by (auto simp: fuel_def d1_def)
    moreover have "\<forall>(k, v) \<in> set m. reads (decode_Value n') v \<and>
        depth v + Suc (length (st_state (advance (d_state d)))) \<le> max_depth (advance (d_state d)) \<and> length k < 2 ^ 64"
      using vs dp depth_entry [of _ _ m] VDict.prems(1) by fastforce
    moreover have sk: "keys_sorted None (map fst m)" using VDict.prems(1) by simp
    ultimately have "dict_fold (fuel d1) (\<lambda>k v acc d. and_then (decode_Value n' v d) (\<lambda>(x, d'). Inr (btree_insert k x acc, d'))) [] d1 =
        Inr (fold (\<lambda>(k, x) acc. btree_insert k x acc) m [], d1\<lparr> d_rest := r, d_state := advance (d_state d) \<rparr>)"
      by (intro dict_fold_values) (simp_all add: d1_def)
    then show "\<exists>ob d1. next_object d = Inr (Some ob, d1) \<and>
        decode_Value n ob d1 = Inr (VDict m, d\<lparr> d_rest := r, d_state := advance (d_state d) \<rparr>)"
      using t fold_btree_insert [OF sk] by (simp add: next_object_def n d1_def)
  qed
qed

section \<open>Encoding of values\<close>

text \<open>A writer writes a value: wherever a value may come next it appends the text of the value.\<close>

definition writes :: "writer \<Rightarrow> Value \<Rightarrow> bool" where
  "writes w v \<longleftrightarrow> (\<forall>e. value_next (e_state e) \<longrightarrow>
     depth v + length (st_state (e_state e)) \<le> max_depth (e_state e) \<longrightarrow>
     w e = Inr (e\<lparr> e_state := advance (e_state e), e_output := e_output e @ value_bytes v \<rparr>))"

lemma writes_atom:
  "writes (emit_bytes s) (VBytes s)" "writes (emit_i64 i) (VInteger i)" "writes (emit_int n) (VInteger (int n))"
  by (simp_all add: writes_def emit_bytes_def emit_token_def emit_i64_def emit_int_def observe_atom token_bytes_def
      int_dec_def)

lemma emit_all_values:
  assumes "\<forall>(w, v) \<in> set wvs. writes w v \<and> depth v + Suc (length (st_state t)) \<le> max_depth t"
    and "e_state e = push_state Seq t"
  shows "emit_all (map fst wvs) e = Inr (e\<lparr> e_output := e_output e @ concat (map (\<lambda>(w, v). value_bytes v) wvs) \<rparr>)"
  using assms
proof (induction wvs arbitrary: e)
  case Nil
  then show ?case by simp
next
  case (Cons wv wvs)
  obtain w v where wv: "wv = (w, v)" by fastforce
  have "w e = Inr (e\<lparr> e_state := push_state Seq t, e_output := e_output e @ value_bytes v \<rparr>)"
    using Cons.prems by (simp add: wv writes_def)
  then show ?case using Cons by (simp add: wv)
qed

lemma emit_all_pairs:
  assumes "\<forall>(k, w, v) \<in> set m. writes w v \<and> depth v + Suc (length (st_state t)) \<le> max_depth t"
    and "keys_sorted old (map fst m)" and "e_state e = push_state (MapKey old) t"
  shows "\<exists>old'. emit_all (map (\<lambda>(k, w, v). emit_pair k w) m) e =
    Inr (e\<lparr> e_state := push_state (MapKey old') t,
           e_output := e_output e @ concat (map (\<lambda>(k, w, v). token_bytes (TString k) @ value_bytes v) m) \<rparr>)"
  using assms
proof (induction m arbitrary: e old)
  case Nil
  then show ?case by (auto intro!: exI [of _ old])
next
  case (Cons x m)
  obtain k w v where x: "x = (k, w, v)" by (cases x)
  define e1 where "e1 = e\<lparr> e_state := push_state (MapKey (Some k)) t,
      e_output := e_output e @ token_bytes (TString k) @ value_bytes v \<rparr>"
  have "emit_pair k w e = Inr e1"
    using Cons.prems observe_key [where old = old and k = k and t = t] by (simp add: x emit_pair_def emit_token_def writes_def e1_def)
  moreover from Cons.IH [of "Some k" e1] Cons.prems(1,2) obtain old' where
    "emit_all (map (\<lambda>(k, w, v). emit_pair k w) m) e1 = Inr (e1\<lparr> e_state := push_state (MapKey old') t,
       e_output := e_output e1 @ concat (map (\<lambda>(k, w, v). token_bytes (TString k) @ value_bytes v) m) \<rparr>)"
    by (auto simp: x e1_def)
  ultimately show ?case by (auto simp: x e1_def)
qed

lemma writes_list:
  assumes "\<forall>(w, v) \<in> set wvs. writes w v"
  shows "writes (emit_list (emit_all (map fst wvs))) (VList (map snd wvs))"
  unfolding writes_def
proof (intro allI impI)
  fix e :: Encoder
  assume nx: "value_next (e_state e)"
    and dp: "depth (VList (map snd wvs)) + length (st_state (e_state e)) \<le> max_depth (e_state e)"
  define e1 where "e1 = e\<lparr> e_state := push_state Seq (advance (e_state e)), e_output := e_output e @ [108] \<rparr>"
  have "emit_token TList e = Inr e1"
    using observe_open [OF nx] dp by (simp add: emit_token_def token_bytes_def e1_def)
  moreover have "\<forall>(w, v) \<in> set wvs. writes w v \<and>
      depth v + Suc (length (st_state (advance (e_state e)))) \<le> max_depth (advance (e_state e))"
    using assms dp depth_item [of _ "map snd wvs"] by fastforce
  then have "emit_all (map fst wvs) e1 = Inr (e1\<lparr> e_output := e_output e1 @ concat (map (\<lambda>(w, v). value_bytes v) wvs) \<rparr>)"
    by (rule emit_all_values) (simp add: e1_def)
  moreover have "map (\<lambda>(w, v). value_bytes v) wvs = map value_bytes (map snd wvs)" by auto
  ultimately show "emit_list (emit_all (map fst wvs)) e =
      Inr (e\<lparr> e_state := advance (e_state e), e_output := e_output e @ value_bytes (VList (map snd wvs)) \<rparr>)"
    by (simp add: emit_list_def e1_def emit_token_def observe_close token_bytes_def)
qed

lemma writes_dict:
  assumes "\<forall>(k, w, v) \<in> set m. writes w v" and "keys_sorted None (map fst m)"
  shows "writes (emit_dict (emit_all (map (\<lambda>(k, w, v). emit_pair k w) m))) (VDict (map (\<lambda>(k, w, v). (k, v)) m))"
  unfolding writes_def
proof (intro allI impI)
  fix e :: Encoder
  let ?v = "VDict (map (\<lambda>(k, w, v). (k, v)) m)"
  assume nx: "value_next (e_state e)" and dp: "depth ?v + length (st_state (e_state e)) \<le> max_depth (e_state e)"
  define e1 where "e1 = e\<lparr> e_state := push_state (MapKey None) (advance (e_state e)), e_output := e_output e @ [100] \<rparr>"
  have "emit_token TDict e = Inr e1"
    using observe_open [OF nx] dp by (simp add: emit_token_def token_bytes_def e1_def)
  moreover have "writes w v \<and> depth v + Suc (length (st_state (advance (e_state e)))) \<le> max_depth (advance (e_state e))"
    if "(k, w, v) \<in> set m" for k w v
  proof -
    have "(k, v) \<in> set (map (\<lambda>(k, w, v). (k, v)) m)" using that by force
    from depth_entry [OF this] show ?thesis using that assms(1) dp by fastforce
  qed
  then have "\<forall>(k, w, v) \<in> set m. writes w v \<and>
      depth v + Suc (length (st_state (advance (e_state e)))) \<le> max_depth (advance (e_state e))" by blast
  then obtain old' where "emit_all (map (\<lambda>(k, w, v). emit_pair k w) m) e1 =
      Inr (e1\<lparr> e_state := push_state (MapKey old') (advance (e_state e)),
        e_output := e_output e1 @ concat (map (\<lambda>(k, w, v). token_bytes (TString k) @ value_bytes v) m) \<rparr>)"
    using emit_all_pairs [of m "advance (e_state e)" None e1] assms(2) by (auto simp: e1_def)
  moreover have "value_bytes ?v = 100 # concat (map (\<lambda>(k, w, v). token_bytes (TString k) @ value_bytes v) m) @ [101]"
    by (simp add: comp_def case_prod_unfold)
  moreover have "token_bytes TEnd = [101]" by (simp add: token_bytes_def)
  ultimately show "emit_dict (emit_all (map (\<lambda>(k, w, v). emit_pair k w) m)) e =
      Inr (e\<lparr> e_state := advance (e_state e), e_output := e_output e @ value_bytes ?v \<rparr>)"
    by (simp add: emit_dict_def e1_def emit_token_def [of TEnd] observe_close del: value_bytes.simps)
qed

lemma writes_Value: "value_ok v \<Longrightarrow> writes (emit_Value v) v"
proof (induction v)
  case (VList vs)
  then show ?case using writes_list [of "map (\<lambda>v. (emit_Value v, v)) vs"] by (simp add: comp_def)
next
  case (VDict m)
  define x where "x = map (\<lambda>(k, v). (k, emit_Value v, v)) m"
  have e: "map (\<lambda>(k, w, v). emit_pair k w) x = map (\<lambda>(k, v). emit_pair k (emit_Value v)) m" "map fst x = map fst m"
    by (auto simp: x_def)
  have m: "map (\<lambda>(k, w, v). (k, v)) x = m" unfolding x_def map_map by (rule map_idI) auto
  have "\<forall>(k, w, v) \<in> set x. writes w v" using VDict by (fastforce simp: x_def)
  then have "writes (emit_dict (emit_all (map (\<lambda>(k, w, v). emit_pair k w) x))) (VDict (map (\<lambda>(k, w, v). (k, v)) x))"
    using VDict.prems by (intro writes_dict) (simp_all add: e(2))
  then show ?case by (simp only: e(1) m emit_Value.simps)
qed (simp_all add: writes_atom)

lemma to_bencode_writes: "writes w v \<Longrightarrow> depth v \<le> dp \<Longrightarrow> to_bencode dp w = Inr (value_bytes v)"
  by (simp add: writes_def to_bencode_def Encoder_new_def StateTracker_new_def value_next_def advance_def observe_eof_def)

lemma from_bencode_reads: "reads rd v \<Longrightarrow> depth v \<le> dp \<Longrightarrow> from_bencode ord dp rd (value_bytes v @ r) = Inr v"
proof -
  let ?d = "Decoder_new ord dp (value_bytes v @ r)"
  assume "reads rd v" and "depth v \<le> dp"
  moreover have "value_next (d_state ?d)" and "d_rest ?d = value_bytes v @ r"
    by (simp_all add: Decoder_new_def StateTracker_new_def value_next_def)
  moreover have "depth v + length (st_state (d_state ?d)) \<le> max_depth (d_state ?d)"
    using \<open>depth v \<le> dp\<close> by (simp add: Decoder_new_def StateTracker_new_def)
  ultimately obtain ob d1 where "next_object ?d = Inr (Some ob, d1)"
    "rd ob d1 = Inr (v, ?d\<lparr> d_rest := r, d_state := advance (d_state ?d) \<rparr>)" by (metis readsD)
  then show ?thesis by (simp add: from_bencode_def)
qed

section \<open>Dictionaries of atoms\<close>

text \<open>Most messages are dictionaries whose values are byte strings and numbers.\<close>

definition obj_of :: "Value \<Rightarrow> Object" where
  "obj_of v = (case v of VBytes s \<Rightarrow> OBytes s | VInteger i \<Rightarrow> OInteger (int_dec i) | _ \<Rightarrow> OBytes [])"

definition atom :: "Value \<Rightarrow> bool" where
  "atom v = (case v of VBytes s \<Rightarrow> length s < 2 ^ 64 | VInteger _ \<Rightarrow> True | _ \<Rightarrow> False)"

lemma next_pair_atom:
  assumes "atom v" and "length k < 2 ^ 64"
    and "d_rest d = token_bytes (TString k) @ value_bytes v @ r" and "d_state d = push_state (MapKey old) t"
    and "case old of None \<Rightarrow> True | Some o' \<Rightarrow> bytes_less o' k"
  shows "next_pair d = Inr (Some (k, obj_of v), d\<lparr> d_rest := r, d_state := push_state (MapKey (Some k)) t \<rparr>)"
proof -
  define d0 where "d0 = d\<lparr> d_rest := value_bytes v @ r, d_state := push_state (MapValue k) t \<rparr>"
  have "next_token d = Inr (Some (TString k), d0)"
    using next_token_bytes [of "TString k" d "value_bytes v @ r" "push_state (MapValue k) t"]
      assms(2-4) observe_key [OF assms(5), of t] by (simp add: token_ok_def d0_def)
  then have k: "next_object d = Inr (Some (OBytes k), d0)" by (simp add: next_object_def)
  have n: "value_next (d_state d0)" by (simp add: d0_def)
  have "next_object d0 = Inr (Some (obj_of v), d0\<lparr> d_rest := r, d_state := advance (d_state d0) \<rparr>)"
    using assms(1) next_object_atom [OF n]
    by (cases v) (simp_all add: obj_of_def atom_def d0_def)
  with k show ?thesis by (simp add: next_pair_def d0_def)
qed

lemma dict_fold_atoms:
  assumes "\<forall>(k, v) \<in> set m. atom v \<and> length k < 2 ^ 64"
    and "\<forall>(k, v) \<in> set m. \<forall>acc d. f k (obj_of v) acc d = Inr (g k v acc, d)"
    and "length m < n" and "keys_sorted old (map fst m)"
    and "d_rest d = concat (map (\<lambda>(k, v). token_bytes (TString k) @ value_bytes v) m) @ 101 # r"
    and "d_state d = push_state (MapKey old) t"
  shows "dict_fold n f acc d = Inr (fold (\<lambda>(k, v) acc. g k v acc) m acc, d\<lparr> d_rest := r, d_state := t \<rparr>)"
  using assms
proof (induction m arbitrary: n acc d old)
  case Nil
  then obtain n' where "n = Suc n'" by (cases n) auto
  with Nil next_object_end [of d r t] show ?case by (simp add: observe_close next_pair_def)
next
  case (Cons kv m)
  obtain k v where kv: "kv = (k, v)" by fastforce
  from Cons obtain n' where n: "n = Suc n'" "length m < n'" by (cases n) auto
  let ?r = "concat (map (\<lambda>(k, v). token_bytes (TString k) @ value_bytes v) m) @ 101 # r"
  let ?d = "d\<lparr> d_rest := ?r, d_state := push_state (MapKey (Some k)) t \<rparr>"
  have "next_pair d = Inr (Some (k, obj_of v), ?d)"
    using next_pair_atom [of v k d ?r old t] Cons.prems by (auto simp: kv)
  with n Cons.IH [of n' "Some k" ?d] Cons.prems show ?case by (simp add: kv)
qed

text \<open>A dictionary as a value: the reader is left in front of its first entry.\<close>

abbreviation entries_bytes :: "(bytes \<times> Value) list \<Rightarrow> bytes" where
  "entries_bytes m \<equiv> concat (map (\<lambda>(k, v). token_bytes (TString k) @ value_bytes v) m)"

lemma next_object_dict:
  assumes "value_next (d_state d)" and "length (st_state (d_state d)) < max_depth (d_state d)"
    and "d_rest d = value_bytes (VDict m) @ r"
  shows "next_object d = Inr (Some (ODict (d_rest d)),
    d\<lparr> d_rest := entries_bytes m @ 101 # r, d_state := push_state (MapKey None) (advance (d_state d)) \<rparr>)"
  using next_token_bytes [of TDict d "entries_bytes m @ 101 # r"] observe_open [OF assms(1,2)] assms(3)
  by (simp add: next_object_def token_ok_def token_bytes_def)

lemma next_pair_dict:
  assumes "Suc (length (st_state t)) < max_depth t" and "length k < 2 ^ 64"
    and "d_rest d = token_bytes (TString k) @ value_bytes (VDict m) @ r" and "d_state d = push_state (MapKey old) t"
    and "case old of None \<Rightarrow> True | Some o' \<Rightarrow> bytes_less o' k"
  shows "\<exists>s. next_pair d = Inr (Some (k, ODict s), d\<lparr> d_rest := entries_bytes m @ 101 # r,
    d_state := push_state (MapKey None) (push_state (MapKey (Some k)) t) \<rparr>)"
proof -
  define d0 where "d0 = d\<lparr> d_rest := value_bytes (VDict m) @ r, d_state := push_state (MapValue k) t \<rparr>"
  have "next_token d = Inr (Some (TString k), d0)"
    using next_token_bytes [of "TString k" d "value_bytes (VDict m) @ r" "push_state (MapValue k) t"]
      assms(2-4) observe_key [OF assms(5), of t] by (simp add: token_ok_def d0_def)
  then have "next_object d = Inr (Some (OBytes k), d0)" by (simp add: next_object_def)
  moreover have "value_next (d_state d0)" "length (st_state (d_state d0)) < max_depth (d_state d0)"
    "d_rest d0 = value_bytes (VDict m) @ r" using assms(1) by (simp_all add: d0_def)
  note next_object_dict [OF this]
  ultimately show ?thesis by (simp add: next_pair_def d0_def)
qed

lemma d_rest_new: "d_rest (Decoder_new ord dp src) = src"
  by (simp add: Decoder_new_def)

lemma entries_fuel: "length m \<le> length (entries_bytes m)"
  using length_concat_nonempty [of m "\<lambda>(k, v). token_bytes (TString k) @ value_bytes v"] by auto

lemma next_object_top:
  assumes "0 < dp"
  shows "next_object (Decoder_new ord dp (value_bytes (VDict m) @ r)) =
    Inr (Some (ODict (value_bytes (VDict m) @ r)),
      (Decoder_new ord dp (entries_bytes m @ 101 # r))\<lparr> d_state := push_state (MapKey None) (d_state (Decoder_new ord dp [])) \<rparr>)"
  using next_object_dict [of "Decoder_new ord dp (value_bytes (VDict m) @ r)" m r] assms
  by (simp add: Decoder_new_def StateTracker_new_def value_next_def advance_def)

text \<open>Reading a dictionary of atoms at the top level.\<close>

lemma dict_fold_top:
  assumes "\<forall>(k, v) \<in> set m. atom v \<and> length k < 2 ^ 64"
    and "\<forall>(k, v) \<in> set m. \<forall>acc d. f k (obj_of v) acc d = Inr (g k v acc, d)"
    and "keys_sorted None (map fst m)"
    and "d = (Decoder_new ord dp (entries_bytes m @ 101 # r))\<lparr> d_state := push_state (MapKey None) (d_state (Decoder_new ord dp [])) \<rparr>"
  shows "dict_fold (fuel d) f acc0 d = Inr (fold (\<lambda>(k, v) acc. g k v acc) m acc0, Decoder_new ord dp r)"
proof -
  have "dict_fold (fuel d) f acc0 d = Inr (fold (\<lambda>(k, v) acc. g k v acc) m acc0,
      d\<lparr> d_rest := r, d_state := d_state (Decoder_new ord dp []) \<rparr>)"
    using assms(1-3) entries_fuel [of m]
    by (intro dict_fold_atoms) (simp_all add: assms(4) fuel_def Decoder_new_def)
  then show ?thesis by (simp add: assms(4) Decoder_new_def)
qed

lemma from_bencode_atoms:
  assumes "\<forall>(k, v) \<in> set m. atom v \<and> length k < 2 ^ 64"
    and "\<forall>(k, v) \<in> set m. \<forall>acc d. f k (obj_of v) acc d = Inr (g k v acc, d)"
    and "keys_sorted None (map fst m)" and "0 < dp"
    and "\<And>s d. rd (ODict s) d = and_then (dict_fold (fuel d) f acc0 d) h"
    and "h (fold (\<lambda>(k, v) acc. g k v acc) m acc0, Decoder_new ord dp r) = Inr (x, Decoder_new ord dp r)"
  shows "from_bencode ord dp rd (value_bytes (VDict m) @ r) = Inr x"
  using dict_fold_top [OF assms(1-3) refl, of ord dp r acc0] assms(5,6)
  by (simp add: from_bencode_def next_object_top [OF assms(4)] del: value_bytes.simps)

lemma from_bencode_first_atoms:
  assumes "\<forall>(k, v) \<in> set m. atom v \<and> length k < 2 ^ 64"
    and "\<forall>(k, v) \<in> set m. \<forall>acc d. f k (obj_of v) acc d = Inr (g k v acc, d)"
    and "keys_sorted None (map fst m)" and "0 < dp"
    and "\<And>s d. rd (ODict s) d = and_then (dict_fold (fuel d) f acc0 d) h"
    and "h (fold (\<lambda>(k, v) acc. g k v acc) m acc0, Decoder_new True dp r) = Inr (x, Decoder_new True dp r)"
  shows "from_bencode_first dp rd (value_bytes (VDict m) @ r) = Inr (x, length (value_bytes (VDict m)))"
  using dict_fold_top [OF assms(1-3) refl, of True dp r acc0] assms(5,6)
  by (simp add: from_bencode_first_def next_object_top [OF assms(4)] d_rest_new del: value_bytes.simps)

section \<open>Fuel\<close>

text \<open>Every token takes at least one byte, so a reader that goes through an input never runs out of fuel.\<close>

definition fuel_err :: "'a result \<Rightarrow> bool" where "fuel_err r \<longleftrightarrow> r = Inl (Err ''out of fuel'')"

lemma fuel_err_simps [simp]: "\<not> fuel_err (Inr x)" "fuel_err (Inl e) \<longleftrightarrow> e = Err ''out of fuel''"
  by (simp_all add: fuel_err_def)

lemma fuel_err_and_then: "fuel_err (and_then r f) \<longleftrightarrow> fuel_err r \<or> (\<exists>x. r = Inr x \<and> fuel_err (f x))"
  by (cases r) (auto simp: fuel_err_def)

lemma take_int_no_fuel: "\<not> fuel_err (take_int t s cs)"
proof (induction cs arbitrary: s)
  case (Cons c cs)
  then show ?case by (cases s) (auto simp: fuel_err_and_then)
qed simp

lemma take_int_progress: "take_int t s cs = Inr (i, r) \<Longrightarrow> length r < length cs"
proof (induction cs arbitrary: s i)
  case (Cons c cs)
  have "(\<exists>s' i'. take_int t s' cs = Inr (i', r)) \<or> r = cs"
    using Cons.prems by (cases s) (auto simp: and_then_Inr_iff split: if_split_asm)
  then show ?case using Cons.IH by (auto dest: less_SucI)
qed simp

lemma raw_next_token_progress:
  "\<not> fuel_err (raw_next_token cs)"
  "raw_next_token cs = Inr (tok, r) \<Longrightarrow> length r < length cs"
proof -
  show "\<not> fuel_err (raw_next_token cs)"
    using take_int_no_fuel
    by (auto simp: raw_next_token_def fuel_err_and_then parse_uint_def take_chunk_def
        split: list.splits option.splits if_splits)
  show "length r < length cs" if t: "raw_next_token cs = Inr (tok, r)"
  proof -
    obtain c cs' where cs: "cs = c # cs'" using t by (cases cs) (auto simp: raw_next_token_def)
    have "r = cs' \<or> (\<exists>x i. take_int x IStart cs' = Inr (i, r))
        \<or> (\<exists>x i r' k. take_int x IStart cs = Inr (i, r') \<and> r = drop k r')"
      using t unfolding cs
      by (auto simp: raw_next_token_def and_then_Inr_iff take_chunk_def simp del: take_int.simps split: if_split_asm) blast
    then consider "r = cs'" | x i where "take_int x IStart cs' = Inr (i, r)"
      | x i r' k where "take_int x IStart cs = Inr (i, r')" "r = drop k r'" by blast
    then show ?thesis
    proof cases
      case 3
      from take_int_progress [OF 3(1)] 3(2) show ?thesis by simp
    qed (use cs in \<open>auto dest: take_int_progress\<close>)
  qed
qed

lemma observe_token_no_fuel: "\<not> fuel_err (observe_token tok t)"
  by (auto simp: observe_token_def push_checked_def Let_def split: list.splits Token.splits State.splits option.splits)

lemma next_object_progress:
  "\<not> fuel_err (next_object d)"
  "next_object d = Inr (Some ob, d') \<Longrightarrow> length (d_rest d') < length (d_rest d)"
  "next_object d = Inr (None, d') \<Longrightarrow> length (d_rest d') \<le> length (d_rest d)"
proof -
  show "\<not> fuel_err (next_object d)"
    using raw_next_token_progress(1) observe_token_no_fuel
    by (auto simp: next_object_def next_token_def observe_eof_def fuel_err_and_then split: option.splits Token.splits)
  have p: "length (d_rest d1) < length (d_rest d)" if "next_token d = Inr (Some tok, d1)" for tok d1
    using that raw_next_token_progress(2)
    by (auto simp: next_token_def observe_eof_def and_then_Inr_iff split: if_split_asm)
  have n: "length (d_rest d1) \<le> length (d_rest d)" if "next_token d = Inr (None, d1)" for d1
    using that by (auto simp: next_token_def observe_eof_def and_then_Inr_iff split: if_split_asm)
  have cases: "(\<exists>tok. next_token d = Inr (Some tok, d')) \<or> (ob' = None \<and> next_token d = Inr (None, d'))"
    if h: "next_object d = Inr (ob', d')" for ob'
  proof -
    obtain tok d1 where t: "next_token d = Inr (tok, d1)" using h by (cases "next_token d") (auto simp: next_object_def)
    then show ?thesis using h by (cases tok) (auto simp: next_object_def split: Token.split_asm)
  qed
  show "next_object d = Inr (Some ob, d') \<Longrightarrow> length (d_rest d') < length (d_rest d)"
    using p cases by blast
  show "next_object d = Inr (None, d') \<Longrightarrow> length (d_rest d') \<le> length (d_rest d)"
    using p n cases by (meson less_imp_le)
qed

lemma next_pair_progress:
  "\<not> fuel_err (next_pair d)"
  "next_pair d = Inr (Some kv, d') \<Longrightarrow> length (d_rest d') < length (d_rest d)"
  "next_pair d = Inr (None, d') \<Longrightarrow> length (d_rest d') \<le> length (d_rest d)"
proof -
  show "\<not> fuel_err (next_pair d)"
    using next_object_progress(1)
    by (auto simp: next_pair_def fuel_err_and_then split: option.splits Object.splits)
  have cases: "\<exists>k d1. next_object d = Inr (k, d1) \<and>
      (if kv' = None then d1 = d' else \<exists>k' v. k = Some k' \<and> next_object d1 = Inr (Some v, d'))"
    if h: "next_pair d = Inr (kv', d')" for kv'
  proof -
    obtain k d1 where t: "next_object d = Inr (k, d1)" using h by (cases "next_object d") (auto simp: next_pair_def)
    show ?thesis
    proof (cases "\<exists>s. k = Some (OBytes s)")
      case True
      then obtain v d2 where v: "next_object d1 = Inr (v, d2)"
        using h t by (cases "next_object d1") (auto simp: next_pair_def)
      then show ?thesis using h t True by (cases v) (auto simp: next_pair_def)
    next
      case False
      then show ?thesis using h t by (auto simp: next_pair_def split: option.split_asm Object.split_asm)
    qed
  qed
  show "next_pair d = Inr (Some kv, d') \<Longrightarrow> length (d_rest d') < length (d_rest d)"
    using cases [of "Some kv"] next_object_progress(2) [of d] next_object_progress(2) [of _ _ d']
    by (fastforce intro: less_trans)
  show "next_pair d = Inr (None, d') \<Longrightarrow> length (d_rest d') \<le> length (d_rest d)"
    using cases [of None] next_object_progress(2,3) by (metis less_imp_le option.exhaust)
qed

lemma consume_step:
  assumes "\<And>v d. length (d_rest d) < n \<Longrightarrow> \<not> fuel_err (consume n v d)
      \<and> (\<forall>d'. consume n v d = Inr d' \<longrightarrow> length (d_rest d') \<le> length (d_rest d))"
    and "length (d_rest d1) < n"
  shows "\<not> fuel_err (and_then (consume n v d1) (consume n w))
    \<and> (\<forall>d'. and_then (consume n v d1) (consume n w) = Inr d' \<longrightarrow> length (d_rest d') \<le> length (d_rest d1))"
proof (cases "consume n v d1")
  case (Inl e)
  then show ?thesis using assms(1) [OF assms(2), of v] by simp
next
  case (Inr d2)
  then have "length (d_rest d2) \<le> length (d_rest d1)" using assms(1) [OF assms(2), of v] by simp
  then show ?thesis using Inr assms(1) [of d2 w] assms(2) by (auto intro: le_trans)
qed

lemma consume_progress:
  "length (d_rest d) < n \<Longrightarrow> \<not> fuel_err (consume n v d)
     \<and> (\<forall>d'. consume n v d = Inr d' \<longrightarrow> length (d_rest d') \<le> length (d_rest d))"
proof (induction n arbitrary: v d)
  case (Suc n)
  have step: "\<not> fuel_err (and_then (consume n w d1) (consume n x))
    \<and> (\<forall>d'. and_then (consume n w d1) (consume n x) = Inr d' \<longrightarrow> length (d_rest d') \<le> length (d_rest d))"
    if "length (d_rest d1) < length (d_rest d)" for w x d1
    using consume_step [OF Suc.IH, of d1 w x] Suc.prems that by (auto intro: order.trans)
  show ?case
  proof (cases v)
    case (OList s)
    show ?thesis
      using step next_object_progress [of d]
      by (cases "next_object d") (auto simp: OList split: option.splits)
  next
    case (ODict s)
    show ?thesis
      using step next_pair_progress [of d]
      by (cases "next_pair d") (auto simp: ODict split: option.splits)
  qed simp_all
qed simp

lemma drop_object_total: "\<not> fuel_err (drop_object v d)"
  using consume_progress [of d "Suc (fuel d)" v] by (simp add: drop_object_def fuel_def)

text \<open>The loop over a dictionary, for a body that never rewinds the input.\<close>

lemma dict_fold_progress:
  assumes "\<And>k v acc d. \<not> fuel_err (f k v acc d)"
    and "\<And>k v acc d acc' d'. f k v acc d = Inr (acc', d') \<Longrightarrow> length (d_rest d') \<le> length (d_rest d)"
    and "length (d_rest d) < n"
  shows "\<not> fuel_err (dict_fold n f acc d)"
  using assms(3)
proof (induction n arbitrary: acc d)
  case (Suc n)
  show ?case
  proof (cases "next_pair d")
    case (Inl e)
    then show ?thesis using next_pair_progress(1) [of d] by simp
  next
    case (Inr x)
    obtain kv d1 where x: "x = (kv, d1)" by fastforce
    show ?thesis
    proof (cases kv)
      case (Some p)
      obtain k v where p: "p = (k, v)" by fastforce
      have "length (d_rest d1) < n" using next_pair_progress(2) [of d p d1] Inr x Some Suc.prems by simp
      then show ?thesis
        using Inr x Some p assms(1) [of k v acc d1] assms(2) [of k v acc d1] Suc.IH
        by (cases "f k v acc d1") (auto intro: le_less_trans)
    qed (use Inr x in simp)
  qed
qed simp

section \<open>Properties\<close>

text \<open>
  C34. Skipping an object of any input never runs out of the fuel its loops are given: the destructors
  of the list and dictionary readers terminate.
\<close>

theorem drop_object_terminates:
  "drop_object v d \<noteq> Inl (Err ''out of fuel'')"
  using drop_object_total [of v d] by (simp add: fuel_err_def)

end
