(* ===== verification/Bendy_Ext.thy ===== *)
theory Bendy_Ext
  imports Bencode
begin

text \<open>
  Compact socket addresses (\<^verbatim>\<open>doro-util/src/bendy_ext.rs\<close>): 6 bytes for an IPv4 address and its port,
  18 bytes for an IPv6 one, and the lists of them that trackers and DHT nodes send. The fixed-width
  records are instances of the contract \<open>codec\<close>.
\<close>

section \<open>Definitions\<close>

definition addr6_to_object :: "bytes \<Rightarrow> SocketAddr" where
  "addr6_to_object bs = SocketAddrV4 (take 4 bs) (from_be_slice 2 (drop 4 bs))"

definition addr18_to_object :: "bytes \<Rightarrow> SocketAddr" where
  "addr18_to_object bs = SocketAddrV6 (take 16 bs) (from_be_slice 2 (drop 16 bs))"

definition SocketAddrExt_to_object :: "bytes \<Rightarrow> SocketAddr result" where
  "SocketAddrExt_to_object bs =
     (if length bs = 6 then Inr (addr6_to_object bs)
      else if length bs = 18 then Inr (addr18_to_object bs)
      else Inl (Err ''6 or 18 bytes expected''))"

definition SocketAddrExt_decode :: "SocketAddr reader" where
  "SocketAddrExt_decode v d =
     and_then (try_into_bytes v) (\<lambda>bs. and_then (SocketAddrExt_to_object bs) (\<lambda>a. Inr (a, d)))"

fun addr_bytes :: "SocketAddr \<Rightarrow> bytes" where
  "addr_bytes (SocketAddrV4 ip port) = ip @ to_be_bytes 2 port"
| "addr_bytes (SocketAddrV6 ip port) = ip @ to_be_bytes 2 port"

definition SocketAddrExt_encode :: "SocketAddr \<Rightarrow> writer" where
  "SocketAddrExt_encode a = emit_bytes (addr_bytes a)"

definition addrs_to_object :: "bytes \<Rightarrow> SocketAddr list result" where
  "addrs_to_object bs =
     (if length bs mod 6 = 0 then map_result SocketAddrExt_to_object (chunks 6 bs)
      else if length bs mod 18 = 0 then map_result SocketAddrExt_to_object (chunks 18 bs)
      else Inl (Err ''6 or 18 bytes per socket address expected''))"

section \<open>Records of fixed width\<close>

fun addr4_ok :: "SocketAddr \<Rightarrow> bool" where
  "addr4_ok (SocketAddrV4 ip port) = (length ip = 4 \<and> port < 2 ^ 16)"
| "addr4_ok (SocketAddrV6 ip port) = False"

fun addr6_ok :: "SocketAddr \<Rightarrow> bool" where
  "addr6_ok (SocketAddrV6 ip port) = (length ip = 16 \<and> port < 2 ^ 16)"
| "addr6_ok (SocketAddrV4 ip port) = False"

lemma port_roundtrip [simp]: "p < 65536 \<Longrightarrow> from_be_slice 2 (to_be_bytes 2 p) = p"
  using be16.dec_enc [of p] by simp

lemma port_roundtrip' : "length bs = 2 \<Longrightarrow> to_be_bytes 2 (from_be_slice 2 bs) = bs \<and> from_be_slice 2 bs < 65536"
  using be16.enc_dec [of bs] be16.valid_dec [of bs] by simp

interpretation a4: codec addr_bytes addr6_to_object 6 addr4_ok
proof
  show "addr4_ok a \<Longrightarrow> length (addr_bytes a) = 6" for a by (cases a) simp_all
  show "addr4_ok a \<Longrightarrow> addr6_to_object (addr_bytes a) = a" for a
    by (cases a) (simp_all add: addr6_to_object_def)
  show "length bs = 6 \<Longrightarrow> addr_bytes (addr6_to_object bs) = bs" for bs
    using port_roundtrip' [of "drop 4 bs"] by (simp add: addr6_to_object_def)
  show "length bs = 6 \<Longrightarrow> addr4_ok (addr6_to_object bs)" for bs
    using port_roundtrip' [of "drop 4 bs"] by (simp add: addr6_to_object_def)
qed simp

interpretation a6: codec addr_bytes addr18_to_object 18 addr6_ok
proof
  show "addr6_ok a \<Longrightarrow> length (addr_bytes a) = 18" for a by (cases a) simp_all
  show "addr6_ok a \<Longrightarrow> addr18_to_object (addr_bytes a) = a" for a
    by (cases a) (simp_all add: addr18_to_object_def)
  show "length bs = 18 \<Longrightarrow> addr_bytes (addr18_to_object bs) = bs" for bs
    using port_roundtrip' [of "drop 16 bs"] by (simp add: addr18_to_object_def)
  show "length bs = 18 \<Longrightarrow> addr6_ok (addr18_to_object bs)" for bs
    using port_roundtrip' [of "drop 16 bs"] by (simp add: addr18_to_object_def)
qed simp

lemma SocketAddrExt_roundtrip:
  "addr4_ok a \<or> addr6_ok a \<Longrightarrow> SocketAddrExt_to_object (addr_bytes a) = Inr a"
  using a4.length_enc [of a] a4.dec_enc [of a] a6.length_enc [of a] a6.dec_enc [of a]
  by (auto simp: SocketAddrExt_to_object_def)

lemma addrs4_decode:
  assumes "length bs mod 6 = 0"
  shows "addrs_to_object bs = Inr (map addr6_to_object (chunks 6 bs))"
proof -
  have "\<forall>c \<in> set (chunks 6 bs). SocketAddrExt_to_object c = Inr (addr6_to_object c)"
    using chunks_lengths [OF a4.width_pos assms] by (simp add: SocketAddrExt_to_object_def)
  then show ?thesis using assms by (simp add: addrs_to_object_def map_result_Inr)
qed

lemma length_concat_width: "\<forall>x \<in> set xs. length (f x) = w \<Longrightarrow> length (concat (map f xs)) = w * length xs"
  by (induction xs) (auto simp: algebra_simps)

section \<open>Properties\<close>

text \<open>
  A compact list of IPv4 addresses is decoded to the addresses it was built from, and every list
  whose length is a multiple of six is the compact form of what it is decoded to.
\<close>

theorem compact_ipv4_roundtrip:
  "((\<forall>a \<in> set as. addr4_ok a) \<longrightarrow> addrs_to_object (concat (map addr_bytes as)) = Inr as)
    \<and> (length bs mod 6 = 0 \<longrightarrow> (\<exists>as. addrs_to_object bs = Inr as \<and> concat (map addr_bytes as) = bs))"
proof (intro conjI impI)
  assume ok: "\<forall>a \<in> set as. addr4_ok a"
  then have "length (concat (map addr_bytes as)) = 6 * length as"
    using a4.length_enc by (intro length_concat_width) blast
  then have "addrs_to_object (concat (map addr_bytes as)) = Inr (map addr6_to_object (chunks 6 (concat (map addr_bytes as))))"
    by (intro addrs4_decode) simp
  then show "addrs_to_object (concat (map addr_bytes as)) = Inr as" using a4.dec_array [OF ok] by simp
next
  assume "length bs mod 6 = 0"
  then show "\<exists>as. addrs_to_object bs = Inr as \<and> concat (map addr_bytes as) = bs"
    using a4.enc_array addrs4_decode by auto
qed

theorem compact_ipv4_roundtrip_witness:
  "addrs_to_object (concat (map addr_bytes [SocketAddrV4 [127, 0, 0, 1] 6881, SocketAddrV4 [10, 0, 0, 7] 51413])) =
     Inr [SocketAddrV4 [127, 0, 0, 1] 6881, SocketAddrV4 [10, 0, 0, 7] 51413]
    \<and> (\<exists>as. addrs_to_object [1, 2, 3, 4, 5, 6] = Inr as \<and> concat (map addr_bytes as) = [1, 2, 3, 4, 5, 6])"
  using compact_ipv4_roundtrip [of "[SocketAddrV4 [127, 0, 0, 1] 6881, SocketAddrV4 [10, 0, 0, 7] 51413]" "[1, 2, 3, 4, 5, 6]"]
  by simp

text \<open>
  The list decoder never returns an IPv6 address: a list of IPv6 addresses has a length that is a
  multiple of 18, hence of 6, and each of its entries is decoded to three IPv4 addresses.
\<close>

theorem compact_ipv6_list_misread:
  assumes "\<forall>a \<in> set as. addr6_ok a"
  shows "\<exists>bs. addrs_to_object (concat (map addr_bytes as)) = Inr bs
    \<and> length bs = 3 * length as \<and> list_all addr4_ok bs"
proof -
  let ?bs = "concat (map addr_bytes as)"
  have l: "length ?bs = 18 * length as"
    using assms a6.length_enc by (intro length_concat_width) blast
  then have m: "length ?bs mod 6 = 0" by presburger
  have r: "addrs_to_object ?bs = Inr (map addr6_to_object (chunks 6 ?bs))" using m by (rule addrs4_decode)
  have c: "\<forall>x \<in> set (chunks 6 ?bs). length x = 6" using chunks_lengths [OF a4.width_pos m] by blast
  then have "length (concat (map (\<lambda>x. x) (chunks 6 ?bs))) = 6 * length (chunks 6 ?bs)"
    by (rule length_concat_width)
  then have "length (chunks 6 ?bs) = 3 * length as" using concat_chunks [of 6 ?bs] l by simp
  then show ?thesis using r c a4.valid_dec by (auto simp: list_all_iff)
qed

theorem compact_ipv6_list_misread_witness:
  "\<exists>bs. addrs_to_object (concat (map addr_bytes [SocketAddrV6 (replicate 16 1) 80])) = Inr bs
    \<and> length bs = 3 * length [SocketAddrV6 (replicate 16 1) 80] \<and> list_all addr4_ok bs"
  by (rule compact_ipv6_list_misread) simp

end
