(* ===== verification/Extend_Data.thy ===== *)
theory Extend_Data
  imports Bendy_Ext
begin

text \<open>
  The bencoded bodies of the extension protocol (\<^verbatim>\<open>bt/default_servant/extend_data.rs\<close>): the extension
  handshake and the metadata messages that fetch the info dictionary of a magnet link. \<open>U16_MAX\<close> and
  its siblings are the limits of the integer types the fields are parsed to; the depth limit of the
  encoders is \<^verbatim>\<open>MAX_DEPTH\<close> of \<^verbatim>\<open>core/config.rs\<close>.
\<close>

definition MAX_DEPTH :: nat where "MAX_DEPTH = 10"
definition U8_MAX :: nat where "U8_MAX = 255"
definition U16_MAX :: nat where "U16_MAX = 65535"

text \<open>Storing an optional field and skipping an unknown one.\<close>

definition set_field :: "('a \<times> Decoder) result \<Rightarrow> ('a \<Rightarrow> 'acc) \<Rightarrow> ('acc \<times> Decoder) result" where
  "set_field r upd = and_then r (\<lambda>(x, d). Inr (upd x, d))"

definition skip_field :: "Object \<Rightarrow> 'acc \<Rightarrow> Decoder \<Rightarrow> ('acc \<times> Decoder) result" where
  "skip_field v acc d = and_then (drop_object v d) (\<lambda>d'. Inr (acc, d'))"

definition missing_field :: "string \<Rightarrow> 'a result" where
  "missing_field f = Inl (Err (''missing field: '' @ f))"

definition ok_or_missing :: "string \<Rightarrow> 'a option \<Rightarrow> 'a result" where
  "ok_or_missing f x = (case x of Some y \<Rightarrow> Inr y | None \<Rightarrow> missing_field f)"

section \<open>Extension handshake\<close>

record HandshakeData =
  hs_m :: "(string \<times> nat) list"
  hs_p :: "nat option"
  hs_v :: "string option"
  hs_yourip :: "bytes option"
  hs_ipv6 :: "bytes option"
  hs_ipv4 :: "bytes option"
  hs_reqq :: "nat option"
  hs_metadata_size :: "nat option"

definition HandshakeData_new :: HandshakeData where
  "HandshakeData_new = \<lparr> hs_m = [], hs_p = None, hs_v = None, hs_yourip = None, hs_ipv6 = None,
     hs_ipv4 = None, hs_reqq = None, hs_metadata_size = None \<rparr>"

text \<open>The body of the loop; the first component of the accumulator says whether \<^verbatim>\<open>m\<close> was seen.\<close>

definition HandshakeData_entry ::
  "bytes \<Rightarrow> Object \<Rightarrow> bool \<times> HandshakeData \<Rightarrow> Decoder \<Rightarrow> ((bool \<times> HandshakeData) \<times> Decoder) result" where
  "HandshakeData_entry k v acc d =
     (case acc of (seen, h) \<Rightarrow>
       if k = ascii ''m'' then
         set_field (decode_HashMap (decode_uint U8_MAX) v d) (\<lambda>x. (True, h\<lparr> hs_m := x \<rparr>))
       else if k = ascii ''p'' then set_field (decode_uint U16_MAX v d) (\<lambda>x. (seen, h\<lparr> hs_p := Some x \<rparr>))
       else if k = ascii ''v'' then set_field (decode_String v d) (\<lambda>x. (seen, h\<lparr> hs_v := Some x \<rparr>))
       else if k = ascii ''yourip'' then set_field (decode_AsString v d) (\<lambda>x. (seen, h\<lparr> hs_yourip := Some x \<rparr>))
       else if k = ascii ''ipv6'' then set_field (decode_AsString v d) (\<lambda>x. (seen, h\<lparr> hs_ipv6 := Some x \<rparr>))
       else if k = ascii ''ipv4'' then set_field (decode_AsString v d) (\<lambda>x. (seen, h\<lparr> hs_ipv4 := Some x \<rparr>))
       else if k = ascii ''reqq'' then set_field (decode_uint U64_MAX v d) (\<lambda>x. (seen, h\<lparr> hs_reqq := Some x \<rparr>))
       else if k = ascii ''metadata_size'' then
         set_field (decode_uint U32_MAX v d) (\<lambda>x. (seen, h\<lparr> hs_metadata_size := Some x \<rparr>))
       else skip_field v acc d)"

definition HandshakeData_decode :: "HandshakeData reader" where
  "HandshakeData_decode v d =
     and_then (try_into_dictionary v) (\<lambda>_.
     and_then (dict_fold (fuel d) HandshakeData_entry (False, HandshakeData_new) d) (\<lambda>((seen, h), d').
       if seen then Inr (h, d') else missing_field ''m''))"

text \<open>
  A map is written in the order of its keys. The IP fields are byte vectors, which the encoder of
  vectors writes as a list of integers.
\<close>

definition emit_HashMap :: "(string \<times> nat) list \<Rightarrow> writer" where
  "emit_HashMap m =
     emit_dict (emit_all (map (\<lambda>(k, n). emit_pair k (emit_int n))
       (fold (\<lambda>(k, n). btree_insert (ascii k) n) m [])))"

definition emit_byte_vec :: "bytes \<Rightarrow> writer" where
  "emit_byte_vec bs = emit_list (emit_all (map (\<lambda>b. emit_int (unat b)) bs))"

definition opt_pair :: "string \<Rightarrow> 'a option \<Rightarrow> ('a \<Rightarrow> writer) \<Rightarrow> writer list" where
  "opt_pair k x w = (case x of None \<Rightarrow> [] | Some y \<Rightarrow> [emit_pair (ascii k) (w y)])"

definition HandshakeData_encode :: "HandshakeData \<Rightarrow> writer" where
  "HandshakeData_encode h =
     emit_dict (emit_all
       (emit_pair (ascii ''m'') (emit_HashMap (hs_m h))
        # opt_pair ''p'' (hs_p h) emit_int
        @ opt_pair ''v'' (hs_v h) emit_str
        @ opt_pair ''yourip'' (hs_yourip h) emit_byte_vec
        @ opt_pair ''ipv6'' (hs_ipv6 h) emit_byte_vec
        @ opt_pair ''ipv4'' (hs_ipv4 h) emit_byte_vec
        @ opt_pair ''reqq'' (hs_reqq h) emit_int
        @ opt_pair ''metadata_size'' (hs_metadata_size h) emit_int))"

section \<open>Metadata messages\<close>

datatype MetadataType = MtRequest | MtData | MtReject

definition MetadataType_decode :: "MetadataType reader" where
  "MetadataType_decode v d =
     and_then (decode_uint U8_MAX v d) (\<lambda>(t, d').
       if t = 0 then Inr (MtRequest, d') else if t = 1 then Inr (MtData, d')
       else if t = 2 then Inr (MtReject, d') else Inl (Err ''unexpected token, expected MetadataDataType''))"

fun MetadataType_code :: "MetadataType \<Rightarrow> nat" where
  "MetadataType_code MtRequest = 0"
| "MetadataType_code MtData = 1"
| "MetadataType_code MtReject = 2"

definition MetadataType_encode :: "MetadataType \<Rightarrow> writer" where
  "MetadataType_encode t = emit_int (MetadataType_code t)"

record Metadata =
  md_msg_type :: MetadataType
  md_piece :: nat
  md_total_size :: "nat option"

definition Metadata_request :: "nat \<Rightarrow> Metadata" where
  "Metadata_request p = \<lparr> md_msg_type = MtRequest, md_piece = p, md_total_size = None \<rparr>"

type_synonym MetadataAcc = "MetadataType option \<times> nat option \<times> nat option"

definition Metadata_entry ::
  "bytes \<Rightarrow> Object \<Rightarrow> MetadataAcc \<Rightarrow> Decoder \<Rightarrow> (MetadataAcc \<times> Decoder) result" where
  "Metadata_entry k v acc d =
     (case acc of (mt, p, ts) \<Rightarrow>
       if k = ascii ''msg_type'' then set_field (MetadataType_decode v d) (\<lambda>x. (Some x, p, ts))
       else if k = ascii ''piece'' then set_field (decode_uint U32_MAX v d) (\<lambda>x. (mt, Some x, ts))
       else if k = ascii ''total_size'' then set_field (decode_uint U32_MAX v d) (\<lambda>x. (mt, p, Some x))
       else skip_field v acc d)"

definition Metadata_finish :: "MetadataAcc \<Rightarrow> Metadata result" where
  "Metadata_finish acc =
     (case acc of (mt, p, ts) \<Rightarrow>
       and_then (ok_or_missing ''msg_type'' mt) (\<lambda>mt.
       and_then (ok_or_missing ''piece'' p) (\<lambda>p.
       if mt = MtData \<and> ts = None then missing_field ''total_size''
       else Inr \<lparr> md_msg_type = mt, md_piece = p, md_total_size = ts \<rparr>)))"

definition Metadata_decode :: "Metadata reader" where
  "Metadata_decode v d =
     and_then (try_into_dictionary v) (\<lambda>_.
     and_then (dict_fold (fuel d) Metadata_entry (None, None, None) d) (\<lambda>(acc, d').
     and_then (Metadata_finish acc) (\<lambda>x. Inr (x, d'))))"

definition Metadata_encode :: "Metadata \<Rightarrow> writer" where
  "Metadata_encode m =
     emit_dict (emit_all
       (emit_pair (ascii ''msg_type'') (MetadataType_encode (md_msg_type m))
        # emit_pair (ascii ''piece'') (emit_int (md_piece m))
        # opt_pair ''total_size'' (md_total_size m) emit_int))"

section \<open>Lemmas\<close>

lemma int_dec_nat: "int_dec (int n) = to_dec n"
  by (simp add: int_dec_def)

lemma decode_uint_obj: "n \<le> hi \<Longrightarrow> decode_uint hi (obj_of (VInteger (int n))) d = Inr (n, d)"
  by (simp add: decode_uint_def obj_of_def try_into_integer_def int_dec_nat)

lemma set_field_Inr [simp]: "set_field (Inr (x, d)) upd = Inr (upd x, d)"
  by (simp add: set_field_def)

lemma ascii_simps [simp]: "ascii [] = []" "ascii (c # s) = word_of_nat (of_char c) # ascii s"
  by (simp_all add: ascii_def)

text \<open>The entries of a metadata message.\<close>

definition Metadata_entries :: "Metadata \<Rightarrow> (bytes \<times> Value) list" where
  "Metadata_entries m =
     [(ascii ''msg_type'', VInteger (int (MetadataType_code (md_msg_type m)))),
      (ascii ''piece'', VInteger (int (md_piece m)))]
     @ (case md_total_size m of None \<Rightarrow> [] | Some n \<Rightarrow> [(ascii ''total_size'', VInteger (int n))])"

definition Metadata_store :: "bytes \<Rightarrow> Value \<Rightarrow> MetadataAcc \<Rightarrow> MetadataAcc" where
  "Metadata_store k v acc =
     (case acc of (mt, p, ts) \<Rightarrow>
       case v of VInteger i \<Rightarrow>
         if k = ascii ''msg_type'' then (Some (if i = 0 then MtRequest else if i = 1 then MtData else MtReject), p, ts)
         else if k = ascii ''piece'' then (mt, Some (nat i), ts)
         else (mt, p, Some (nat i))
       | _ \<Rightarrow> acc)"

definition metadata_ok :: "Metadata \<Rightarrow> bool" where
  "metadata_ok m \<longleftrightarrow> md_piece m < 2 ^ 32
     \<and> (case md_total_size m of None \<Rightarrow> md_msg_type m \<noteq> MtData | Some n \<Rightarrow> n < 2 ^ 32)"

lemma Metadata_entries_sorted: "keys_sorted None (map fst (Metadata_entries m))"
  by (simp add: Metadata_entries_def split: option.split)

lemma Metadata_entries_atoms: "\<forall>(k, v) \<in> set (Metadata_entries m). atom v \<and> length k < 2 ^ 64"
  by (auto simp: Metadata_entries_def atom_def split: option.splits)

lemma MetadataType_decode_code:
  "MetadataType_decode (obj_of (VInteger (int (MetadataType_code t)))) d = Inr (t, d)"
  by (cases t) (simp_all add: MetadataType_decode_def decode_uint_obj [of 0, simplified] decode_uint_obj [of 1, simplified]
      decode_uint_obj [of 2, simplified] U8_MAX_def)

lemma Metadata_entry_store:
  assumes "metadata_ok m"
  shows "\<forall>(k, v) \<in> set (Metadata_entries m). \<forall>acc d. Metadata_entry k (obj_of v) acc d = Inr (Metadata_store k v acc, d)"
proof -
  have t: "Metadata_entry (ascii ''msg_type'') (obj_of (VInteger (int (MetadataType_code (md_msg_type m))))) acc d =
      Inr (Metadata_store (ascii ''msg_type'') (VInteger (int (MetadataType_code (md_msg_type m)))) acc, d)" for acc d
    using MetadataType_decode_code [of "md_msg_type m" d]
    by (cases acc; cases "md_msg_type m") (simp_all add: Metadata_entry_def Metadata_store_def)
  show ?thesis
    using assms t
    by (auto simp: Metadata_entries_def metadata_ok_def Metadata_entry_def decode_uint_obj U32_MAX_def
        Metadata_store_def split: option.splits prod.split)
qed

lemma Metadata_finish_store:
  "metadata_ok m \<Longrightarrow> Metadata_finish (fold (\<lambda>(k, v) acc. Metadata_store k v acc) (Metadata_entries m) (None, None, None)) = Inr m"
  by (cases "md_msg_type m")
    (auto simp: Metadata_entries_def Metadata_store_def Metadata_finish_def ok_or_missing_def metadata_ok_def
      split: option.splits)

lemma Metadata_encode_writes: "writes (Metadata_encode m) (VDict (Metadata_entries m))"
proof -
  define x where "x = [(ascii ''msg_type'', MetadataType_encode (md_msg_type m), VInteger (int (MetadataType_code (md_msg_type m)))),
      (ascii ''piece'', emit_int (md_piece m), VInteger (int (md_piece m)))]
     @ (case md_total_size m of None \<Rightarrow> [] | Some n \<Rightarrow> [(ascii ''total_size'', emit_int n, VInteger (int n))])"
  have "\<forall>(k, w, v) \<in> set x. writes w v"
    by (auto simp: x_def MetadataType_encode_def writes_atom split: option.split)
  moreover have "keys_sorted None (map fst x)" by (simp add: x_def split: option.split)
  ultimately have "writes (emit_dict (emit_all (map (\<lambda>(k, w, v). emit_pair k w) x))) (VDict (map (\<lambda>(k, w, v). (k, v)) x))"
    by (rule writes_dict)
  moreover have "map (\<lambda>(k, w, v). (k, v)) x = Metadata_entries m"
    by (simp add: x_def Metadata_entries_def split: option.split)
  moreover have "emit_dict (emit_all (map (\<lambda>(k, w, v). emit_pair k w) x)) = Metadata_encode m"
    by (simp add: x_def Metadata_encode_def opt_pair_def split: option.split)
  ultimately show ?thesis by simp
qed

lemma metadata_decodes:
  assumes "metadata_ok m"
  defines "bs \<equiv> value_bytes (VDict (Metadata_entries m))"
  shows "to_bencode MAX_DEPTH (Metadata_encode m) = Inr bs"
    and "from_bencode_first 2048 Metadata_decode (bs @ payload) = Inr (m, length bs)"
    and "from_bencode False 2048 Metadata_decode (bs @ payload) = Inr m"
proof -
  let ?v = "VDict (Metadata_entries m)"
  have "depth ?v \<le> MAX_DEPTH" by (simp add: Metadata_entries_def MAX_DEPTH_def split: option.split)
  then show "to_bencode MAX_DEPTH (Metadata_encode m) = Inr bs"
    unfolding bs_def using Metadata_encode_writes by (rule to_bencode_writes [rotated])
  define h where "h = (\<lambda>(acc, d' :: Decoder). and_then (Metadata_finish acc) (\<lambda>x. Inr (x, d')))"
  have rd: "Metadata_decode (ODict s) d = and_then (dict_fold (fuel d) Metadata_entry (None, None, None) d) h" for s d
    by (simp add: Metadata_decode_def try_into_dictionary_def h_def)
  note args = Metadata_entries_atoms Metadata_entry_store [OF assms(1)] Metadata_entries_sorted
  show "from_bencode_first 2048 Metadata_decode (bs @ payload) = Inr (m, length bs)" unfolding bs_def
    by (rule from_bencode_first_atoms [where m = "Metadata_entries m" and rd = Metadata_decode
        and f = Metadata_entry and g = Metadata_store and h = h and ?acc0.0 = "(None, None, None)", OF args _ rd])
      (simp_all add: h_def Metadata_finish_store [OF assms(1)])
  show "from_bencode False 2048 Metadata_decode (bs @ payload) = Inr m" unfolding bs_def
    by (rule from_bencode_atoms [where m = "Metadata_entries m" and rd = Metadata_decode
        and f = Metadata_entry and g = Metadata_store and h = h and ?acc0.0 = "(None, None, None)", OF args _ rd])
      (simp_all add: h_def Metadata_finish_store [OF assms(1)])
qed

section \<open>Properties\<close>

text \<open>
  A metadata message whose numbers fit 32 bits (and that carries the total size when it is a data
  message) is encoded without error; decoding the text followed by any payload gives the message
  and the exact position where the payload starts.
\<close>

theorem metadata_roundtrip:
  assumes "metadata_ok m"
  shows "\<exists>bs. to_bencode MAX_DEPTH (Metadata_encode m) = Inr bs
    \<and> from_bencode_first 2048 Metadata_decode (bs @ payload) = Inr (m, length bs)
    \<and> from_bencode False 2048 Metadata_decode (bs @ payload) = Inr m"
  using metadata_decodes [OF assms] by blast

theorem metadata_roundtrip_witness:
  "\<exists>bs. to_bencode MAX_DEPTH (Metadata_encode \<lparr>md_msg_type = MtData, md_piece = 3, md_total_size = Some 40000\<rparr>) = Inr bs
    \<and> from_bencode_first 2048 Metadata_decode (bs @ [1, 2, 3]) =
        Inr (\<lparr>md_msg_type = MtData, md_piece = 3, md_total_size = Some 40000\<rparr>, length bs)
    \<and> from_bencode False 2048 Metadata_decode (bs @ [1, 2, 3]) =
        Inr \<lparr>md_msg_type = MtData, md_piece = 3, md_total_size = Some 40000\<rparr>"
  by (rule metadata_roundtrip) (simp add: metadata_ok_def)

text \<open>
  The encoder of the extension handshake writes its keys in the order of the structure's fields,
  which is not the order bencode demands: a handshake that announces a port and a metadata size
  cannot be encoded.
\<close>

theorem handshake_encode_unsorted:
  assumes "hs_m h = []" and "hs_p h = Some p" and "hs_v h = None" and "hs_yourip h = None" and "hs_ipv6 h = None"
    and "hs_ipv4 h = None" and "hs_reqq h = None" and "hs_metadata_size h = Some n"
  shows "to_bencode MAX_DEPTH (HandshakeData_encode h) = Inl (Err ''UnsortedKeys'')"
  using assms
  by (simp add: to_bencode_def HandshakeData_encode_def opt_pair_def emit_HashMap_def emit_dict_def emit_pair_def
      emit_token_def emit_int_def Encoder_new_def StateTracker_new_def observe_token_def push_checked_def
      push_state_def Let_def MAX_DEPTH_def)

theorem handshake_encode_unsorted_witness:
  "to_bencode MAX_DEPTH (HandshakeData_encode (HandshakeData_new\<lparr>hs_p := Some 6881, hs_metadata_size := Some 31235\<rparr>)) =
     Inl (Err ''UnsortedKeys'')"
  by (rule handshake_encode_unsorted [where p = 6881 and n = 31235]) (simp_all add: HandshakeData_new_def)

end
