(* ===== verification/Peer_Wire.thy ===== *)
theory Peer_Wire
  imports Extend_Data
begin

text \<open>
  The peer wire protocol: message types and extension numbers, the messages a peer sends
  (\<^verbatim>\<open>bt/base_peer.rs\<close>), the protocol handshake, and the reader that cuts the byte stream of a connection
  into messages (\<^verbatim>\<open>base_peer/peer_resp.rs\<close>, \<^verbatim>\<open>base_peer/listener.rs\<close>, \<^verbatim>\<open>doro-util/src/net.rs\<close>).
  A stream is the list of what its reads return: data, in pieces of any size, or an error; an empty piece
  is the end of the stream, and the end of the list means that nothing more has arrived yet.
\<close>

section \<open>Message types\<close>

datatype MsgType =
    Choke | UnChoke | Interested | NotInterested | Have | Bitfield | Request | PieceMsg | Cancel | Port
  | Suggest | HaveAll | HaveNone | RejectRequest | AllowedFast | ExtensionProtocol
  | HashRequest | Hashes | HashReject

fun MsgType_code :: "MsgType \<Rightarrow> u8" where
  "MsgType_code Choke = 0"
| "MsgType_code UnChoke = 1"
| "MsgType_code Interested = 2"
| "MsgType_code NotInterested = 3"
| "MsgType_code Have = 4"
| "MsgType_code Bitfield = 5"
| "MsgType_code Request = 6"
| "MsgType_code PieceMsg = 7"
| "MsgType_code Cancel = 8"
| "MsgType_code Port = 9"
| "MsgType_code Suggest = 13"
| "MsgType_code HaveAll = 14"
| "MsgType_code HaveNone = 15"
| "MsgType_code RejectRequest = 16"
| "MsgType_code AllowedFast = 17"
| "MsgType_code ExtensionProtocol = 20"
| "MsgType_code HashRequest = 21"
| "MsgType_code Hashes = 22"
| "MsgType_code HashReject = 23"

definition MsgType_list :: "MsgType list" where
  "MsgType_list = [Choke, UnChoke, Interested, NotInterested, Have, Bitfield, Request, PieceMsg, Cancel, Port,
     Suggest, HaveAll, HaveNone, RejectRequest, AllowedFast, ExtensionProtocol, HashRequest, Hashes, HashReject]"

text \<open>The transmuted value is the constructor whose code it is.\<close>

definition MsgType_try_from :: "u8 \<Rightarrow> MsgType result" where
  "MsgType_try_from v =
     (if v \<le> 9 \<or> 13 \<le> v \<and> v \<le> 17 \<or> 20 \<le> v \<and> v \<le> 23
      then (case find (\<lambda>m. MsgType_code m = v) MsgType_list of Some m \<Rightarrow> Inr m | None \<Rightarrow> Inl (Panic ''invalid enum value''))
      else Inl (Err ''Invalid message type''))"

datatype ExtendedId = EHandshake | UtPex | UtMetadata | UploadOnly | UtHolepunch | UtComment

fun ExtendedId_get_value :: "ExtendedId \<Rightarrow> u8" where
  "ExtendedId_get_value EHandshake = 0"
| "ExtendedId_get_value UtPex = 1"
| "ExtendedId_get_value UtMetadata = 2"
| "ExtendedId_get_value UploadOnly = 3"
| "ExtendedId_get_value UtHolepunch = 4"
| "ExtendedId_get_value UtComment = 6"

fun ExtendedId_get_name :: "ExtendedId \<Rightarrow> string" where
  "ExtendedId_get_name EHandshake = ''handshake''"
| "ExtendedId_get_name UtPex = ''ut_pex''"
| "ExtendedId_get_name UtMetadata = ''ut_metadata''"
| "ExtendedId_get_name UploadOnly = ''upload_only''"
| "ExtendedId_get_name UtHolepunch = ''ut_holepunch''"
| "ExtendedId_get_name UtComment = ''ut_comment''"

definition ExtendedId_from_name :: "string \<Rightarrow> ExtendedId option" where
  "ExtendedId_from_name s =
     (if s = ''handshake'' then Some EHandshake else if s = ''ut_pex'' then Some UtPex
      else if s = ''ut_metadata'' then Some UtMetadata else if s = ''upload_only'' then Some UploadOnly
      else if s = ''ut_holepunch'' then Some UtHolepunch else if s = ''ut_comment'' then Some UtComment
      else None)"

section \<open>Messages sent\<close>

definition bitfield_bytes :: "bytes \<Rightarrow> bytes" where
  "bitfield_bytes bits = write_bytes bits (write_u8 (MsgType_code Bitfield) (write_u32 (wrap32 (1 + length bits)) []))"

definition interested_bytes :: bytes where
  "interested_bytes = write_u8 (MsgType_code Interested) (write_u32 1 [])"

definition un_choke_bytes :: bytes where
  "un_choke_bytes = write_u8 (MsgType_code UnChoke) (write_u32 1 [])"

definition choke_bytes :: bytes where
  "choke_bytes = write_u8 (MsgType_code Choke) (write_u32 1 [])"

definition request_piece_bytes :: "nat \<Rightarrow> nat \<Rightarrow> nat \<Rightarrow> bytes" where
  "request_piece_bytes piece_idx block_offset block_size =
     write_u32 block_size (write_u32 block_offset (write_u32 piece_idx
       (write_u8 (MsgType_code Request) (write_u32 13 []))))"

definition extend_handshake_bytes :: "bytes result" where
  "extend_handshake_bytes =
     and_then (to_bencode MAX_DEPTH (HandshakeData_encode
       (HandshakeData_new\<lparr> hs_m := [(ExtendedId_get_name UtMetadata, unat (ExtendedId_get_value UtMetadata))] \<rparr>))) (\<lambda>hs.
       Inr (write_bytes hs (write_u8 (ExtendedId_get_value EHandshake)
         (write_u8 (MsgType_code ExtensionProtocol) (write_u32 (wrap32 (2 + length hs)) [])))))"

definition metadata_piece_bytes :: "u8 \<Rightarrow> nat \<Rightarrow> bytes result" where
  "metadata_piece_bytes msg_type piece =
     and_then (to_bencode MAX_DEPTH (Metadata_encode (Metadata_request piece))) (\<lambda>md.
       Inr (write_bytes md (write_u8 msg_type
         (write_u8 (MsgType_code ExtensionProtocol) (write_u32 (wrap32 (2 + length md)) [])))))"

section \<open>The protocol handshake\<close>

definition BIT_TORRENT_PROTOCOL :: bytes where "BIT_TORRENT_PROTOCOL = ascii ''BitTorrent protocol''"
definition BIT_TORRENT_PROTOCOL_LEN :: u8 where "BIT_TORRENT_PROTOCOL_LEN = 19"
definition LTEP :: nat where "LTEP = 2 ^ 20"
definition DHT_BIT :: nat where "DHT_BIT = 1"

definition handshake_bytes :: "bytes \<Rightarrow> bytes \<Rightarrow> bytes" where
  "handshake_bytes info_hash peer_id =
     write_bytes peer_id (write_bytes info_hash (write_u64 (LTEP OR DHT_BIT)
       (write_bytes BIT_TORRENT_PROTOCOL (write_u8 BIT_TORRENT_PROTOCOL_LEN []))))"

text \<open>
  A range of a slice, which panics when it is out of bounds; then the check of what one read of the
  answer returned: \<open>resp\<close> are the bytes read, \<open>own\<close> is the message that was sent.
\<close>

definition slice :: "bytes \<Rightarrow> nat \<Rightarrow> nat \<Rightarrow> bytes result" where
  "slice bs i j = (if i \<le> j \<and> j \<le> length bs then Inr (take (j - i) (drop i bs)) else Inl (Panic ''range out of bounds''))"

definition protocol_handshake :: "bytes \<Rightarrow> bytes \<Rightarrow> bytes \<Rightarrow> (bytes \<times> nat) result" where
  "protocol_handshake own info_hash resp =
     (if length resp \<noteq> length own then Inl (Err ''unexpected handshake length'')
      else if resp = [] then Inl (Panic ''index out of bounds'')
      else
        let pl = unat (hd resp) in
        and_then (slice resp (1 + pl) (1 + pl + 8)) (\<lambda>rs.
        and_then (slice resp (1 + pl + 8) (1 + pl + 8 + 20)) (\<lambda>ih.
        and_then (slice resp (1 + pl + 8 + 20) (length resp)) (\<lambda>pid.
          if ih \<noteq> info_hash then Inl (Err ''info_hash differs'')
          else if length pid \<noteq> 20 then Inl (Err ''could not convert slice to array'')
          else Inr (pid, from_be_slice 8 rs)))))"

section \<open>Reading\<close>

datatype io_event = Data bytes | IoError string

type_synonym stream = "io_event list"

datatype 'a poll = Pending | Ready 'a

text \<open>
  \<^verbatim>\<open>ReaderHandle::poll\<close>: \<open>cap\<close> is the capacity of the buffer, which the buffer type allocates as asked for.
\<close>

fun reader_poll :: "nat \<Rightarrow> bytes \<Rightarrow> stream \<Rightarrow> bytes result poll \<times> bytes \<times> stream" where
  "reader_poll cap buf [] = (if cap = 0 then (Ready (Inr []), buf, []) else (Pending, buf, []))"
| "reader_poll cap buf (IoError e # r) =
     (if cap = 0 then (Ready (Inr []), buf, IoError e # r) else (Ready (Inl (Err e)), buf, r))"
| "reader_poll cap buf (Data d # r) =
     (if cap = 0 then (Ready (Inr []), buf, Data d # r)
      else if d = [] then (Ready (Inl (Err ''ConnectionAborted'')), buf, r)
      else
        let k = cap - length buf; buf' = buf @ take k d in
        if cap \<le> length buf' then (Ready (Inr buf'), [], if length d \<le> k then r else Data (drop k d) # r)
        else reader_poll cap buf' r)"

datatype RespState = RHead | RContent | RFinished

datatype RespType = Normal MsgType bytes | Heartbeat

record PeerResp =
  pr_cap :: nat
  pr_buf :: bytes
  pr_state :: RespState
  pr_msg_type :: "MsgType option"

definition PeerResp_new :: PeerResp where
  "PeerResp_new = \<lparr> pr_cap = 5, pr_buf = [], pr_state = RHead, pr_msg_type = None \<rparr>"

function PeerResp_poll :: "PeerResp \<Rightarrow> stream \<Rightarrow> RespType result poll \<times> PeerResp \<times> stream" where
  "PeerResp_poll p evs =
     (case reader_poll (pr_cap p) (pr_buf p) evs of
        (Pending, b, r) \<Rightarrow> (Pending, p\<lparr> pr_buf := b \<rparr>, r)
      | (Ready (Inl e), b, r) \<Rightarrow> (Ready (Inl e), p\<lparr> pr_buf := b \<rparr>, r)
      | (Ready (Inr buf), b, r) \<Rightarrow>
          (case pr_state p of
             RHead \<Rightarrow>
               if length buf < 5 then (Ready (Inr Heartbeat), p\<lparr> pr_buf := b \<rparr>, r)
               else
                 let len = from_be_slice 4 (take 4 buf) in
                 (case MsgType_try_from (buf ! 4) of
                    Inl _ \<Rightarrow> (Ready (Inl (Err ''unknown message type'')), p\<lparr> pr_buf := b \<rparr>, r)
                  | Inr mt \<Rightarrow>
                      if 1 < len
                      then PeerResp_poll (p\<lparr> pr_cap := len - 1, pr_buf := [], pr_state := RContent, pr_msg_type := Some mt \<rparr>) r
                      else (Ready (Inr (Normal mt [])), p\<lparr> pr_buf := b \<rparr>, r))
           | RContent \<Rightarrow>
               (case pr_msg_type p of
                  Some mt \<Rightarrow> (Ready (Inr (Normal mt buf)), p\<lparr> pr_buf := b, pr_state := RFinished, pr_msg_type := None \<rparr>, r)
                | None \<Rightarrow> (Ready (Inl (Panic ''unwrap of None'')), p\<lparr> pr_buf := b, pr_state := RFinished \<rparr>, r))
           | RFinished \<Rightarrow> (Ready (Inl (Err ''parse finished'')), p\<lparr> pr_buf := b \<rparr>, r)))"
  by pat_completeness auto
termination
  by (relation "measure (\<lambda>(p, evs). case pr_state p of RHead \<Rightarrow> 1 | _ \<Rightarrow> 0)") auto

declare PeerResp_poll.simps [simp del]

text \<open>\<^verbatim>\<open>ReadFuture::run\<close>: what the listener reports for a stream, at most \<open>n\<close> messages of it.\<close>

datatype listener_out = Ack nat | PeerTransfer MsgType bytes nat | HeartbeatCmd | ExitCmd bool

fun ReadFuture_run :: "nat \<Rightarrow> stream \<Rightarrow> listener_out list \<times> stream" where
  "ReadFuture_run 0 evs = ([], evs)"
| "ReadFuture_run (Suc n) evs =
     (case PeerResp_poll PeerResp_new evs of
        (Pending, _, _) \<Rightarrow> ([], evs)
      | (Ready (Inr (Normal mt buf)), _, r) \<Rightarrow>
          (let (out, r') = ReadFuture_run n r in
           ((if mt = PieceMsg then [Ack (wrap32 (5 + length buf))] else [])
            @ PeerTransfer mt buf (5 + length buf) # out, r'))
      | (Ready (Inr Heartbeat), _, r) \<Rightarrow>
          (let (out, r') = ReadFuture_run n r in (HeartbeatCmd # out, r'))
      | (Ready (Inl e), _, r) \<Rightarrow> ([ExitCmd (e = Err ''ConnectionAborted'' \<or> e = Err ''ConnectionReset'')], r))"

section \<open>Lemmas on reading\<close>

fun event_bytes :: "io_event \<Rightarrow> bytes" where
  "event_bytes (Data d) = d"
| "event_bytes (IoError _) = []"

definition stream_bytes :: "stream \<Rightarrow> bytes" where
  "stream_bytes evs = concat (map event_bytes evs)"

definition data_stream :: "stream \<Rightarrow> bool" where
  "data_stream evs \<longleftrightarrow> (\<forall>e \<in> set evs. \<exists>d. d \<noteq> [] \<and> e = Data d)"

lemma stream_simps [simp]:
  "stream_bytes [] = []" "stream_bytes (e # r) = event_bytes e @ stream_bytes r"
  "stream_bytes (xs @ ys) = stream_bytes xs @ stream_bytes ys"
  "data_stream []" "data_stream (Data d # r) \<longleftrightarrow> d \<noteq> [] \<and> data_stream r" "\<not> data_stream (IoError e' # r)"
  "data_stream (xs @ ys) \<longleftrightarrow> data_stream xs \<and> data_stream ys"
  by (auto simp: stream_bytes_def data_stream_def)

text \<open>A read of \<open>cap\<close> bytes is complete as soon as that many have arrived, however they are cut.\<close>

lemma reader_poll_full:
  assumes "data_stream evs" and "length buf < cap" and "cap - length buf \<le> length (stream_bytes evs)"
  shows "\<exists>r. reader_poll cap buf evs = (Ready (Inr (buf @ take (cap - length buf) (stream_bytes evs))), [], r)
    \<and> data_stream r \<and> stream_bytes r = drop (cap - length buf) (stream_bytes evs)"
  using assms
proof (induction evs arbitrary: buf)
  case (Cons e r)
  then obtain d where e: "e = Data d" "d \<noteq> []" "data_stream r" by (cases e) auto
  let ?k = "cap - length buf"
  show ?case
  proof (cases "?k \<le> length d")
    case True
    then show ?thesis using Cons.prems e by (auto simp: Let_def)
  next
    case False
    have "length (buf @ d) < cap" "cap - length (buf @ d) \<le> length (stream_bytes r)" using False Cons.prems e by auto
    from Cons.IH [OF e(3) this] obtain r' where r': "reader_poll cap (buf @ d) r =
        (Ready (Inr ((buf @ d) @ take (cap - length (buf @ d)) (stream_bytes r))), [], r')"
        "data_stream r'" "stream_bytes r' = drop (cap - length (buf @ d)) (stream_bytes r)" by blast
    have c: "cap - length (buf @ d) = ?k - length d" by simp
    have k: "?k > length d" using False by simp
    then have "\<not> cap \<le> length buf + length d" by linarith
    then have "reader_poll cap buf (e # r) = reader_poll cap (buf @ d) r"
      using Cons.prems(2) e(2) k by (simp add: e(1) Let_def)
    moreover have "take ?k (stream_bytes (e # r)) = d @ take (?k - length d) (stream_bytes r)"
      "drop ?k (stream_bytes (e # r)) = drop (?k - length d) (stream_bytes r)"
      using k by (simp_all add: e(1) drop_append)
    ultimately show ?thesis using r' unfolding c by simp
  qed
qed simp

lemma reader_poll_pending:
  assumes "data_stream evs" and "length buf + length (stream_bytes evs) < cap"
  shows "reader_poll cap buf evs = (Pending, buf @ stream_bytes evs, [])"
  using assms
proof (induction evs arbitrary: buf)
  case (Cons e r)
  then obtain d where "e = Data d" "d \<noteq> []" "data_stream r" by (cases e) auto
  then show ?case using Cons.prems Cons.IH [of "buf @ d"] by (simp add: Let_def)
qed simp

text \<open>A poll goes on where the one before it stopped.\<close>

lemma reader_poll_resume:
  "reader_poll cap buf evs = (Pending, b, r) \<Longrightarrow> r = [] \<and> reader_poll cap buf (evs @ evs2) = reader_poll cap b evs2"
proof (induction cap buf evs rule: reader_poll.induct)
  case (3 cap buf d r)
  then show ?case by (auto simp: Let_def split: if_splits)
qed (auto split: if_splits)

lemma reader_poll_done:
  "reader_poll cap buf evs = (Ready x, b, r) \<Longrightarrow> reader_poll cap buf (evs @ evs2) = (Ready x, b, r @ evs2)"
proof (induction cap buf evs rule: reader_poll.induct)
  case (1 cap buf)
  then have "cap = 0 \<and> x = Inr [] \<and> b = buf \<and> r = []" by (auto split: if_splits)
  then show ?case by (cases "(cap, buf, evs2)" rule: reader_poll.cases) auto
next
  case (3 cap buf d r)
  then show ?case by (auto simp: Let_def split: if_splits)
qed (auto split: if_splits)

section \<open>Messages of a stream\<close>

definition frame :: "MsgType \<Rightarrow> bytes \<Rightarrow> bytes" where
  "frame mt p = to_be_bytes 4 (1 + length p) @ MsgType_code mt # p"

lemma length_frame [simp]: "length (frame mt p) = 5 + length p"
  by (simp add: frame_def)

lemma MsgType_try_from_code [simp]: "MsgType_try_from (MsgType_code m) = Inr m"
  by (cases m) (simp_all add: MsgType_try_from_def MsgType_list_def)

lemma MsgType_try_from_Inr: "MsgType_try_from v = Inr m \<Longrightarrow> MsgType_code m = v"
  by (auto simp: MsgType_try_from_def find_Some_iff split: option.splits if_splits)

lemma PeerResp_poll_Head:
  assumes "reader_poll (pr_cap p) (pr_buf p) evs = (Ready (Inr buf), b, r)" and "pr_state p = RHead" and "5 \<le> length buf"
    and "MsgType_try_from (buf ! 4) = Inr mt" and "from_be_slice 4 (take 4 buf) = len"
  shows "PeerResp_poll p evs =
    (if 1 < len then PeerResp_poll (p\<lparr> pr_cap := len - 1, pr_buf := [], pr_state := RContent, pr_msg_type := Some mt \<rparr>) r
     else (Ready (Inr (Normal mt [])), p\<lparr> pr_buf := b \<rparr>, r))"
  using assms by (simp add: PeerResp_poll.simps [of p evs])

lemma PeerResp_poll_same:
  assumes "reader_poll (pr_cap p) (pr_buf p) evs = reader_poll (pr_cap p) b evs2"
  shows "PeerResp_poll p evs = PeerResp_poll (p\<lparr> pr_buf := b \<rparr>) evs2"
proof -
  obtain x b' r where r: "reader_poll (pr_cap p) b evs2 = (x, b', r)"
    by (cases "reader_poll (pr_cap p) b evs2") auto
  show ?thesis
    unfolding PeerResp_poll.simps [of p evs] PeerResp_poll.simps [of "p\<lparr> pr_buf := b \<rparr>" evs2] assms
    by (simp add: r Let_def split: poll.split sum.split RespState.split option.split)
qed

text \<open>Reading the head of a message, then its content.\<close>

lemma PeerResp_head:
  assumes "data_stream evs" and "stream_bytes evs = h @ r" and "length h = 5"
  obtains evs' where "reader_poll 5 [] evs = (Ready (Inr h), [], evs')" and "data_stream evs'" and "stream_bytes evs' = r"
  using reader_poll_full [of evs "[]" 5] assms by auto

lemma PeerResp_poll_content:
  assumes "data_stream evs" and "stream_bytes evs = c @ r" and "c \<noteq> []" and "pr_state p = RContent" and "pr_cap p = length c"
    and "pr_buf p = []" and "pr_msg_type p = Some mt"
  shows "\<exists>p' evs'. PeerResp_poll p evs = (Ready (Inr (Normal mt c)), p', evs') \<and> data_stream evs' \<and> stream_bytes evs' = r"
  using reader_poll_full [of evs "[]" "length c"] assms by (subst PeerResp_poll.simps) auto

lemma PeerResp_poll_head:
  assumes "data_stream evs" and "stream_bytes evs = to_be_bytes 4 n @ MsgType_code mt # c @ r" and "n < 2 ^ 32"
    and "length c = n - 1"
  shows "\<exists>p' evs'. PeerResp_poll PeerResp_new evs = (Ready (Inr (Normal mt c)), p', evs')
    \<and> data_stream evs' \<and> stream_bytes evs' = r"
proof -
  let ?h = "to_be_bytes 4 n @ [MsgType_code mt]"
  obtain e1 where e1: "reader_poll 5 [] evs = (Ready (Inr ?h), [], e1)" "data_stream e1" "stream_bytes e1 = c @ r"
    by (rule PeerResp_head [OF assms(1), of ?h "c @ r"]) (use assms(2) in simp_all)
  have n: "from_be_slice 4 (take 4 ?h) = n" and mt: "?h ! 4 = MsgType_code mt"
    using assms(3) by (simp_all add: nth_append)
  let ?p = "PeerResp_new\<lparr> pr_cap := n - 1, pr_buf := [], pr_state := RContent, pr_msg_type := Some mt \<rparr>"
  have step: "PeerResp_poll PeerResp_new evs =
      (if 1 < n then PeerResp_poll ?p e1 else (Ready (Inr (Normal mt [])), PeerResp_new\<lparr> pr_buf := [] \<rparr>, e1))"
  proof (rule PeerResp_poll_Head)
    show "MsgType_try_from (?h ! 4) = Inr mt" unfolding mt by simp
  qed (use e1(1) n in \<open>simp_all add: PeerResp_new_def\<close>)
  show ?thesis
  proof (cases "1 < n")
    case True
    have "c \<noteq> []" using True assms(4) by auto
    then have "\<exists>p' evs'. PeerResp_poll ?p e1 = (Ready (Inr (Normal mt c)), p', evs') \<and> data_stream evs' \<and> stream_bytes evs' = r"
      using e1(2,3) assms(4) by (intro PeerResp_poll_content) (simp_all add: PeerResp_new_def)
    then show ?thesis using step True by simp
  next
    case False
    then have "c = []" using assms(4) by simp
    then show ?thesis using step False e1 by simp
  qed
qed

lemma PeerResp_poll_frame:
  assumes "data_stream evs" and "stream_bytes evs = frame mt c @ r" and "length c + 1 < 2 ^ 32"
  shows "\<exists>p' evs'. PeerResp_poll PeerResp_new evs = (Ready (Inr (Normal mt c)), p', evs')
    \<and> data_stream evs' \<and> stream_bytes evs' = r"
  using assms by (intro PeerResp_poll_head [where n = "1 + length c"]) (simp_all add: frame_def)

text \<open>Polling again when more data has arrived is the same as one poll on all the data.\<close>

lemma PeerResp_poll_resume:
  "PeerResp_poll p evs = (Pending, p', r) \<Longrightarrow> r = [] \<and> PeerResp_poll p (evs @ evs2) = PeerResp_poll p' evs2"
proof (induction p evs arbitrary: p' r rule: PeerResp_poll.induct)
  case (1 p evs)
  obtain x b r1 where rp: "reader_poll (pr_cap p) (pr_buf p) evs = (x, b, r1)" by (cases "reader_poll (pr_cap p) (pr_buf p) evs") auto
  show ?case
  proof (cases x)
    case Pending
    note res = reader_poll_resume [OF rp [unfolded Pending], of evs2]
    have "p' = p\<lparr> pr_buf := b \<rparr>" "r = []" using 1(2) rp Pending res by (simp_all add: PeerResp_poll.simps [of p evs])
    then show ?thesis using res PeerResp_poll_same by blast
  next
    case (Ready y)
    then obtain buf where y: "y = Inr buf" using 1(2) rp by (cases y) (auto simp: PeerResp_poll.simps [of p evs])
    note rp' = reader_poll_done [OF rp [unfolded Ready y], of evs2]
    have h: "pr_state p = RHead" "\<not> length buf < 5"
      using 1(2) rp Ready y by (auto simp: PeerResp_poll.simps [of p evs] split: RespState.splits option.splits if_splits)
    then obtain mt where mt: "MsgType_try_from (buf ! 4) = Inr mt"
      using 1(2) rp Ready y by (cases "MsgType_try_from (buf ! 4)") (auto simp: PeerResp_poll.simps [of p evs])
    let ?len = "from_be_slice 4 (take 4 buf)"
    have len: "1 < ?len" using 1(2) rp Ready y h mt by (auto simp: PeerResp_poll.simps [of p evs] Let_def split: if_splits)
    let ?p = "p\<lparr> pr_cap := ?len - 1, pr_buf := [], pr_state := RContent, pr_msg_type := Some mt \<rparr>"
    have "PeerResp_poll p evs = PeerResp_poll ?p r1" "PeerResp_poll p (evs @ evs2) = PeerResp_poll ?p (r1 @ evs2)"
      using PeerResp_poll_Head [OF _ h(1) _ mt refl] rp rp' Ready y h(2) len by simp_all
    then show ?thesis
      using 1(1) [OF rp [symmetric] Ready y refl h refl mt len, of p' r] 1(2) by simp
  qed
qed

text \<open>Polls as data arrives: each call sees the data that came since the one before.\<close>

fun poll_arrivals :: "PeerResp \<Rightarrow> stream list \<Rightarrow> RespType result poll \<times> stream list" where
  "poll_arrivals p [] = (Pending, [])"
| "poll_arrivals p (evs # evss) =
     (case PeerResp_poll p evs of
        (Pending, p', _) \<Rightarrow> poll_arrivals p' evss
      | (Ready x, _, r) \<Rightarrow> (Ready x, r # evss))"

lemma PeerResp_poll_done:
  "PeerResp_poll p evs = (Ready x, p', r) \<Longrightarrow> PeerResp_poll p (evs @ evs2) = (Ready x, p', r @ evs2)"
proof (induction p evs arbitrary: p' r rule: PeerResp_poll.induct)
  case (1 p evs)
  obtain y b r1 where rp: "reader_poll (pr_cap p) (pr_buf p) evs = (y, b, r1)" by (cases "reader_poll (pr_cap p) (pr_buf p) evs") auto
  then obtain z where y: "y = Ready z" using 1(2) by (cases y) (auto simp: PeerResp_poll.simps [of p evs])
  note rp' = reader_poll_done [OF rp [unfolded y], of evs2]
  show ?case
  proof (cases "\<exists>buf mt. z = Inr buf \<and> pr_state p = RHead \<and> \<not> length buf < 5 \<and> MsgType_try_from (buf ! 4) = Inr mt
      \<and> 1 < from_be_slice 4 (take 4 buf)")
    case True
    then obtain buf mt where z: "z = Inr buf" and h: "pr_state p = RHead" "\<not> length buf < 5"
      and mt: "MsgType_try_from (buf ! 4) = Inr mt" and len: "1 < from_be_slice 4 (take 4 buf)" by blast
    have "PeerResp_poll p evs = PeerResp_poll (p\<lparr> pr_cap := from_be_slice 4 (take 4 buf) - 1, pr_buf := [], pr_state := RContent, pr_msg_type := Some mt \<rparr>) r1"
      and "PeerResp_poll p (evs @ evs2) = PeerResp_poll (p\<lparr> pr_cap := from_be_slice 4 (take 4 buf) - 1, pr_buf := [], pr_state := RContent, pr_msg_type := Some mt \<rparr>) (r1 @ evs2)"
      using PeerResp_poll_Head [OF _ h(1) _ mt refl] rp rp' y z h(2) len by simp_all
    then show ?thesis using 1(1) [OF rp [symmetric] y z refl h refl mt len] 1(2) by simp
  next
    case False
    then show ?thesis
      using 1(2) rp rp' y unfolding PeerResp_poll.simps [of p evs] PeerResp_poll.simps [of p "evs @ evs2"]
      by (auto simp: Let_def split: sum.splits RespState.splits option.splits if_splits)
  qed
qed

lemma poll_arrivals_concat:
  "PeerResp_poll p (concat evss) = (Ready x, p', r) \<Longrightarrow> evss \<noteq> [] \<Longrightarrow>
     \<exists>rs. poll_arrivals p evss = (Ready x, rs) \<and> concat rs = r"
proof (induction evss arbitrary: p)
  case (Cons evs evss)
  obtain y q r1 where q: "PeerResp_poll p evs = (y, q, r1)" by (cases "PeerResp_poll p evs") auto
  show ?case
  proof (cases y)
    case Pending
    have q': "PeerResp_poll q (concat evss) = (Ready x, p', r)"
      using PeerResp_poll_resume [of p evs q r1 "concat evss"] q Pending Cons.prems(1) by simp
    have "evss \<noteq> []"
    proof
      assume "evss = []"
      then have "PeerResp_poll p evs = (Ready x, p', r)" using Cons.prems(1) by simp
      then show False using q Pending by simp
    qed
    then show ?thesis using Cons.IH [OF q'] q Pending by simp
  next
    case (Ready z)
    then have "PeerResp_poll p (evs @ concat evss) = (Ready z, q, r1 @ concat evss)"
      using PeerResp_poll_done [of p evs z q r1 "concat evss"] q by simp
    then show ?thesis using q Ready Cons.prems(1) by auto
  qed
qed simp

definition report :: "MsgType \<times> bytes \<Rightarrow> listener_out list" where
  "report m = (case m of (mt, c) \<Rightarrow>
     (if mt = PieceMsg then [Ack (wrap32 (5 + length c))] else []) @ [PeerTransfer mt c (5 + length c)])"

lemma ReadFuture_run_frames:
  "data_stream evs \<Longrightarrow> stream_bytes evs = concat (map (\<lambda>(mt, c). frame mt c) ms) @ rest \<Longrightarrow>
     \<forall>(mt, c) \<in> set ms. length c + 1 < 2 ^ 32 \<Longrightarrow>
     \<exists>r. ReadFuture_run (length ms) evs = (concat (map report ms), r) \<and> data_stream r \<and> stream_bytes r = rest"
proof (induction ms arbitrary: evs)
  case (Cons m ms)
  obtain mt c where m: "m = (mt, c)" by fastforce
  obtain p' r where r: "PeerResp_poll PeerResp_new evs = (Ready (Inr (Normal mt c)), p', r)" "data_stream r"
    "stream_bytes r = concat (map (\<lambda>(mt, c). frame mt c) ms) @ rest"
    using PeerResp_poll_frame [of evs mt c "concat (map (\<lambda>(mt, c). frame mt c) ms) @ rest"] Cons.prems by (auto simp: m)
  moreover obtain r' where "ReadFuture_run (length ms) r = (concat (map report ms), r')" "data_stream r'" "stream_bytes r' = rest"
    using Cons.IH [OF r(2,3)] Cons.prems(3) by auto
  ultimately show ?case by (simp add: m report_def [of "(mt, c)"])
qed simp

lemma reader_poll_length: "reader_poll cap buf evs = (Ready (Inr x), b, r) \<Longrightarrow> cap \<le> length x"
  by (induction cap buf evs rule: reader_poll.induct) (auto simp: Let_def split: if_splits)

lemma PeerResp_poll_no_heartbeat: "(pr_state p = RHead \<longrightarrow> pr_cap p = 5) \<Longrightarrow> fst (PeerResp_poll p evs) \<noteq> Ready (Inr Heartbeat)"
proof (induction p evs rule: PeerResp_poll.induct)
  case (1 p evs)
  obtain y b r1 where rp: "reader_poll (pr_cap p) (pr_buf p) evs = (y, b, r1)" by (cases "reader_poll (pr_cap p) (pr_buf p) evs") auto
  have l: "pr_cap p \<le> length buf" if "y = Ready (Inr buf)" for buf
    using reader_poll_length [of "pr_cap p" "pr_buf p" evs buf b r1] rp that by simp
  have ih: "fst (PeerResp_poll (p\<lparr> pr_cap := from_be_slice 4 (take 4 buf) - 1, pr_buf := [], pr_state := RContent, pr_msg_type := Some mt \<rparr>) r1)
      \<noteq> Ready (Inr Heartbeat)"
    if "y = Ready (Inr buf)" "pr_state p = RHead" "\<not> length buf < 5" "MsgType_try_from (buf ! 4) = Inr mt"
      "1 < from_be_slice 4 (take 4 buf)" for buf mt
    using 1(1) [OF rp [symmetric] that(1) refl refl that(2,3) refl that(4,5)] by simp
  show ?case
    unfolding PeerResp_poll.simps [of p evs] rp
    using l ih 1(2) by (auto simp: Let_def split: poll.splits sum.splits RespState.splits option.splits)
qed

lemma frame_zero_head:
  assumes "length c + 1 < 2 ^ 24"
  shows "frame mt c = 0 # tl (frame mt c)"
proof -
  have "(1 + length c) div (256 * 256 * 256) = 0" using assms by (simp add: div_eq_0_iff)
  then have "(1 + length c) div 256 div 256 div 256 = 0" by (simp only: div_mult2_eq)
  then show ?thesis by (simp add: frame_def to_be_bytes_4)
qed

lemma request_frames:
  "bitfield_bytes bits = (if 1 + length bits < 2 ^ 32 then frame Bitfield bits else bitfield_bytes bits)"
  "interested_bytes = frame Interested []" "un_choke_bytes = frame UnChoke []" "choke_bytes = frame Choke []"
  "request_piece_bytes i off n = frame Request (to_be_bytes 4 i @ to_be_bytes 4 off @ to_be_bytes 4 n)"
  by (simp_all add: bitfield_bytes_def interested_bytes_def un_choke_bytes_def choke_bytes_def request_piece_bytes_def
      frame_def write_defs del: to_be_bytes.simps)

section \<open>Properties\<close>

text \<open>
  C17. However the bytes of a message are cut into reads and wake-ups, the reader returns exactly the
  message and leaves exactly the bytes after it.
\<close>

theorem message_framing:
  assumes "evss \<noteq> []" and "data_stream (concat evss)" and "stream_bytes (concat evss) = frame mt payload @ rest"
    and "length payload + 1 < 2 ^ 32"
  shows "\<exists>rs. poll_arrivals PeerResp_new evss = (Ready (Inr (Normal mt payload)), rs) \<and> stream_bytes (concat rs) = rest"
proof -
  obtain p' r where "PeerResp_poll PeerResp_new (concat evss) = (Ready (Inr (Normal mt payload)), p', r)" "stream_bytes r = rest"
    using PeerResp_poll_frame [OF assms(2-4)] by blast
  then show ?thesis using poll_arrivals_concat [OF _ assms(1)] by blast
qed

theorem message_framing_witness:
  "\<exists>rs. poll_arrivals PeerResp_new [[Data [0, 0]], [Data [0], Data [5, 4, 0, 0]], [Data [1, 2, 9]]] =
      (Ready (Inr (Normal Have [0, 0, 1, 2])), rs) \<and> stream_bytes (concat rs) = [9]"
  by (rule message_framing) (simp_all add: frame_def to_be_bytes_4)

text \<open>
  C18. A stream that is a sequence of messages is reported message by message, in order, with the
  sizes of the messages; every piece is acknowledged to the rate control with its size.
\<close>

theorem stream_reported_in_order:
  assumes "data_stream evs" and "stream_bytes evs = concat (map (\<lambda>(mt, c). frame mt c) ms) @ rest"
    and "\<forall>(mt, c) \<in> set ms. length c + 1 < 2 ^ 32"
  shows "\<exists>r. ReadFuture_run (length ms) evs = (concat (map report ms), r) \<and> stream_bytes r = rest"
  using ReadFuture_run_frames [OF assms] by blast

theorem stream_reported_in_order_witness:
  "\<exists>r. ReadFuture_run (length [(UnChoke, []), (PieceMsg, [1 :: u8, 2, 3])]) [Data [0, 0, 0, 1, 1, 0], Data [0, 0, 4, 7, 1, 2, 3, 5]] =
     (concat (map report [(UnChoke, []), (PieceMsg, [1, 2, 3])]), r) \<and> stream_bytes r = [5]"
  by (rule stream_reported_in_order) (simp_all add: frame_def to_be_bytes_4)

text \<open>
  A keep-alive message (four zero bytes) is not recognised: the reader takes five bytes, so it
  returns a \<^verbatim>\<open>Choke\<close> message and loses the first byte of the message that follows. The heartbeat branch
  is never taken.
\<close>

theorem keep_alive_read_as_choke:
  assumes "data_stream evs" and "stream_bytes evs = [0, 0, 0, 0] @ frame mt c @ rest" and "length c + 1 < 2 ^ 24"
  shows "(\<exists>p r. PeerResp_poll PeerResp_new evs = (Ready (Inr (Normal Choke [])), p, r)
      \<and> stream_bytes r = tl (frame mt c) @ rest)
    \<and> fst (PeerResp_poll PeerResp_new evs') \<noteq> Ready (Inr Heartbeat)"
proof
  have "stream_bytes evs = to_be_bytes 4 0 @ MsgType_code Choke # [] @ (tl (frame mt c) @ rest)"
    using assms(2) by (subst (asm) frame_zero_head [OF assms(3)]) (simp add: to_be_bytes_4)
  then show "\<exists>p r. PeerResp_poll PeerResp_new evs = (Ready (Inr (Normal Choke [])), p, r) \<and> stream_bytes r = tl (frame mt c) @ rest"
    using PeerResp_poll_head [OF assms(1), of 0 Choke "[]"] by auto
qed (rule PeerResp_poll_no_heartbeat, simp add: PeerResp_new_def)

theorem keep_alive_read_as_choke_witness:
  "(\<exists>p r. PeerResp_poll PeerResp_new [Data [0, 0, 0, 0, 0, 0, 0, 1, 1]] = (Ready (Inr (Normal Choke [])), p, r)
      \<and> stream_bytes r = tl (frame UnChoke []) @ [])
    \<and> fst (PeerResp_poll PeerResp_new []) \<noteq> Ready (Inr Heartbeat)"
  by (rule keep_alive_read_as_choke) (simp_all add: frame_def to_be_bytes_4)

lemma length_handshake_bytes: "length ih = 20 \<Longrightarrow> length (handshake_bytes ih x) = 48 + length x"
  by (simp add: handshake_bytes_def write_defs BIT_TORRENT_PROTOCOL_def)

lemma handshake_accepted:
  assumes "length ih = 20" and "length own_id = 20" and "length peer_id = 20"
  shows "protocol_handshake (handshake_bytes ih own_id) ih (handshake_bytes ih peer_id) = Inr (peer_id, LTEP OR DHT_BIT)"
proof -
  have b: "LTEP OR DHT_BIT = 1048577" by (simp add: LTEP_def DHT_BIT_def)
  have l: "length BIT_TORRENT_PROTOCOL = 19" by (simp add: BIT_TORRENT_PROTOCOL_def)
  show ?thesis
    using assms l
    by (simp add: protocol_handshake_def length_handshake_bytes Let_def slice_def)
      (simp add: handshake_bytes_def write_defs BIT_TORRENT_PROTOCOL_LEN_def b del: to_be_bytes.simps)
qed

text \<open>
  The handshake of a peer with the same torrent is accepted and gives its identifier and its
  extension bits; an answer of the right length whose first byte is above 39 makes the handshake panic.
\<close>

theorem handshake_accepts_or_panics:
  assumes "length ih = 20" and "length own_id = 20" and "length peer_id = 20" and "length resp = 68" and "39 < unat (hd resp)"
  shows "protocol_handshake (handshake_bytes ih own_id) ih (handshake_bytes ih peer_id) = Inr (peer_id, LTEP OR DHT_BIT)
    \<and> panics (protocol_handshake (handshake_bytes ih own_id) ih resp)"
  using handshake_accepted [OF assms(1-3)] assms
  by (auto simp: protocol_handshake_def length_handshake_bytes Let_def slice_def panics_def and_then_def)

theorem handshake_accepts_or_panics_witness:
  "protocol_handshake (handshake_bytes (replicate 20 1) (replicate 20 2)) (replicate 20 1) (handshake_bytes (replicate 20 1) (replicate 20 3)) =
      Inr (replicate 20 3, LTEP OR DHT_BIT)
    \<and> panics (protocol_handshake (handshake_bytes (replicate 20 1) (replicate 20 2)) (replicate 20 1) (replicate 68 255))"
  by (rule handshake_accepts_or_panics) simp_all

end
