(* ===== verification/Collection.thy ===== *)
theory Collection
  imports Prelude
begin

text \<open>
  The bounded queue of \<^verbatim>\<open>doro-util/src/collection.rs\<close> and the queue of recent bandwidth samples
  built on it (\<^verbatim>\<open>TimeFixeQueue\<close> of \<^verbatim>\<open>bt/base_peer/rate_control/probe.rs\<close>), whose running sum is
  maintained by wrapping 64-bit arithmetic. The locale \<open>bounded_queue\<close> is the contract of the
  former; the latter relies on it.
\<close>

section \<open>FixedQueue\<close>

record 'a FixedQueue =
  fq_queue :: "'a list"
  fq_limit :: nat

definition FixedQueue_new :: "nat \<Rightarrow> 'a FixedQueue" where
  "FixedQueue_new l = \<lparr> fq_queue = [], fq_limit = l \<rparr>"

definition FixedQueue_pop_front :: "'a FixedQueue \<Rightarrow> 'a option \<times> 'a FixedQueue" where
  "FixedQueue_pop_front q =
     (case fq_queue q of [] \<Rightarrow> (None, q) | x # xs \<Rightarrow> (Some x, q\<lparr> fq_queue := xs \<rparr>))"

definition FixedQueue_push :: "'a \<Rightarrow> 'a FixedQueue \<Rightarrow> 'a option \<times> 'a FixedQueue" where
  "FixedQueue_push item q =
     (let (res, q) = (if length (fq_queue q) = fq_limit q then FixedQueue_pop_front q else (None, q))
      in (res, q\<lparr> fq_queue := fq_queue q @ [item] \<rparr>))"

definition FixedQueue_clear :: "'a FixedQueue \<Rightarrow> 'a FixedQueue" where
  "FixedQueue_clear q = q\<lparr> fq_queue := [] \<rparr>"

definition FixedQueue_back :: "'a FixedQueue \<Rightarrow> 'a option" where
  "FixedQueue_back q = (if fq_queue q = [] then None else Some (last (fq_queue q)))"

definition FixedQueue_peek_front :: "'a FixedQueue \<Rightarrow> 'a option" where
  "FixedQueue_peek_front q = (if fq_queue q = [] then None else Some (hd (fq_queue q)))"

section \<open>TimeFixeQueue\<close>

definition UPDATE_INTERVAL :: nat where "UPDATE_INTERVAL = 1000"

record TimeFixeQueue =
  tq_queue :: "(nat \<times> nat) FixedQueue"
  tq_sum :: nat

definition TimeFixeQueue_new :: "nat \<Rightarrow> TimeFixeQueue" where
  "TimeFixeQueue_new l = \<lparr> tq_queue = FixedQueue_new l, tq_sum = 0 \<rparr>"

text \<open>
  The loop of \<^verbatim>\<open>expires\<close> on the elements: leading samples older than \<open>limit\<close> update intervals
  are removed and subtracted from the sum.
\<close>

fun expires_loop :: "nat \<Rightarrow> nat \<Rightarrow> (nat \<times> nat) list \<Rightarrow> nat \<Rightarrow> (nat \<times> nat) list \<times> nat" where
  "expires_loop now l [] s = ([], s)"
| "expires_loop now l (x # xs) s =
     (if wrap64 (snd x + wrap64 (UPDATE_INTERVAL * l)) < now
      then expires_loop now l xs (sub64 s (fst x)) else (x # xs, s))"

definition TimeFixeQueue_expires :: "nat \<Rightarrow> TimeFixeQueue \<Rightarrow> TimeFixeQueue" where
  "TimeFixeQueue_expires now q =
     (let (xs, s) = expires_loop now (fq_limit (tq_queue q)) (fq_queue (tq_queue q)) (tq_sum q)
      in q\<lparr> tq_queue := (tq_queue q)\<lparr> fq_queue := xs \<rparr>, tq_sum := s \<rparr>)"

definition TimeFixeQueue_push :: "nat \<Rightarrow> nat \<times> nat \<Rightarrow> TimeFixeQueue \<Rightarrow> TimeFixeQueue" where
  "TimeFixeQueue_push now item q =
     (let q = TimeFixeQueue_expires now q;
          s = wrap64 (tq_sum q + fst item);
          (r, fq) = FixedQueue_push item (tq_queue q)
      in q\<lparr> tq_queue := fq, tq_sum := (case r of None \<Rightarrow> s | Some x \<Rightarrow> sub64 s (fst x)) \<rparr>)"

definition TimeFixeQueue_get_sum :: "nat \<Rightarrow> TimeFixeQueue \<Rightarrow> nat \<times> TimeFixeQueue" where
  "TimeFixeQueue_get_sum now q = (let q = TimeFixeQueue_expires now q in (tq_sum q, q))"

definition TimeFixeQueue_avg :: "nat \<Rightarrow> TimeFixeQueue \<Rightarrow> (nat \<times> TimeFixeQueue) result" where
  "TimeFixeQueue_avg now q =
     (let q = TimeFixeQueue_expires now q; l = fq_limit (tq_queue q)
      in if l = 0 then Inl (Panic ''attempt to divide by zero'') else Inr (tq_sum q div l, q))"

section \<open>The contract of a bounded queue\<close>

locale bounded_queue =
  fixes push :: "'x \<Rightarrow> 'q \<Rightarrow> 'x option \<times> 'q" and items :: "'q \<Rightarrow> 'x list" and limit :: "'q \<Rightarrow> nat"
  assumes items_push: "0 < limit q \<Longrightarrow>
      items (snd (push x q)) = (if length (items q) = limit q then tl (items q) else items q) @ [x]"
    and evicted: "0 < limit q \<Longrightarrow>
      fst (push x q) = (if length (items q) = limit q then Some (hd (items q)) else None)"
    and limit_push: "limit (snd (push x q)) = limit q"
begin

definition bounded :: "'q \<Rightarrow> bool" where
  "bounded q \<longleftrightarrow> 0 < limit q \<and> length (items q) \<le> limit q"

lemma bounded_push: "bounded q \<Longrightarrow> bounded (snd (push x q))"
  by (auto simp: bounded_def items_push limit_push)

lemma items_push_last:
  "bounded q \<Longrightarrow> items (snd (push x q)) = drop (Suc (length (items q)) - limit q) (items q @ [x])"
  by (cases "items q") (auto simp: bounded_def items_push limit_push le_Suc_eq)

lemma limit_pushes: "limit (fold (\<lambda>x q. snd (push x q)) xs q) = limit q"
  by (induction xs arbitrary: q) (simp_all add: limit_push)

lemma items_pushes:
  assumes "bounded q" and "items q = []"
  shows "items (fold (\<lambda>x q. snd (push x q)) xs q) = drop (length xs - limit q) xs"
    and "bounded (fold (\<lambda>x q. snd (push x q)) xs q)"
proof (induction xs rule: rev_induct)
  case Nil
  { case 1 show ?case using assms by simp }
  { case 2 show ?case using assms by simp }
next
  case (snoc x xs)
  let ?q = "fold (\<lambda>x q. snd (push x q)) xs q"
  { case 1
    have "items (snd (push x ?q)) = drop (Suc (length (items ?q)) - limit ?q) (items ?q @ [x])"
      using snoc.IH(2) by (rule items_push_last)
    then show ?case using snoc.IH(1) assms
      by (cases "limit q \<le> length xs") (auto simp: limit_pushes bounded_def Suc_diff_le) }
  { case 2 show ?case using bounded_push [OF snoc.IH(2)] by simp }
qed

end

interpretation fq: bounded_queue FixedQueue_push fq_queue fq_limit
  by unfold_locales
    (auto simp: FixedQueue_push_def FixedQueue_pop_front_def Let_def split: list.split)

section \<open>The running sum\<close>

definition entries_sum :: "(nat \<times> nat) list \<Rightarrow> nat" where
  "entries_sum xs = sum_list (map fst xs)"

definition tq_inv :: "TimeFixeQueue \<Rightarrow> bool" where
  "tq_inv q \<longleftrightarrow> tq_sum q = entries_sum (fq_queue (tq_queue q)) \<and> fq.bounded (tq_queue q)
     \<and> (\<forall>x \<in> set (fq_queue (tq_queue q)). fst x < 2 ^ 32) \<and> fq_limit (tq_queue q) < 2 ^ 31"

lemma entries_sum_simps [simp]:
  "entries_sum [] = 0" "entries_sum (x # xs) = fst x + entries_sum xs"
  "entries_sum (xs @ ys) = entries_sum xs + entries_sum ys"
  by (simp_all add: entries_sum_def)

lemma entries_sum_bound: "\<forall>x \<in> set xs. fst x < b \<Longrightarrow> entries_sum xs \<le> length xs * b"
  by (induction xs) auto

lemma expires_loop_sum:
  "expires_loop now l xs (entries_sum xs) = (ys, s) \<Longrightarrow> s = entries_sum ys \<and> (\<exists>zs. xs = zs @ ys)"
proof (induction xs)
  case Nil
  then show ?case by simp
next
  case (Cons x xs)
  show ?case
  proof (cases "wrap64 (snd x + wrap64 (UPDATE_INTERVAL * l)) < now")
    case True
    with Cons.prems have "expires_loop now l xs (entries_sum xs) = (ys, s)" by simp
    with Cons.IH obtain zs where "s = entries_sum ys" "xs = zs @ ys" by blast
    then show ?thesis by (intro conjI exI [of _ "x # zs"]) simp_all
  next
    case False
    with Cons.prems show ?thesis by auto
  qed
qed

lemma tq_inv_expires: "tq_inv q \<Longrightarrow> tq_inv (TimeFixeQueue_expires now q)"
proof -
  assume inv: "tq_inv q"
  obtain ys s where e: "expires_loop now (fq_limit (tq_queue q)) (fq_queue (tq_queue q)) (tq_sum q) = (ys, s)"
    by fastforce
  then have "s = entries_sum ys \<and> (\<exists>zs. fq_queue (tq_queue q) = zs @ ys)"
    using inv by (intro expires_loop_sum) (simp add: tq_inv_def)
  then show ?thesis using inv e by (auto simp: TimeFixeQueue_expires_def tq_inv_def fq.bounded_def)
qed

lemma tq_inv_push:
  assumes "tq_inv q" and "fst item < 2 ^ 32"
  shows "tq_inv (TimeFixeQueue_push now item q)"
proof -
  let ?q = "TimeFixeQueue_expires now q"
  let ?fq = "tq_queue ?q"
  have inv: "tq_inv ?q" using assms(1) by (rule tq_inv_expires)
  obtain r fq' where p: "FixedQueue_push item ?fq = (r, fq')" by fastforce
  have b: "fq.bounded ?fq" and pos: "0 < fq_limit ?fq" using inv by (simp_all add: tq_inv_def fq.bounded_def)
  have "fq.bounded fq'" using fq.bounded_push [OF b, of item] p by simp
  moreover have "fq_limit fq' = fq_limit ?fq" using fq.limit_push [of item ?fq] p by simp
  moreover have items: "fq_queue fq' = (if length (fq_queue ?fq) = fq_limit ?fq then tl (fq_queue ?fq) else fq_queue ?fq) @ [item]"
    and r: "r = (if length (fq_queue ?fq) = fq_limit ?fq then Some (hd (fq_queue ?fq)) else None)"
    using fq.items_push [OF pos, of item] fq.evicted [OF pos, of item] p by simp_all
  moreover have small: "tq_sum ?q + fst item < 2 ^ 64"
  proof -
    have "entries_sum (fq_queue ?fq) \<le> length (fq_queue ?fq) * 2 ^ 32"
      using inv by (intro entries_sum_bound) (simp add: tq_inv_def)
    also have "\<dots> \<le> 2 ^ 31 * 2 ^ 32"
      using inv by (intro mult_le_mono1) (simp add: tq_inv_def fq.bounded_def)
    finally show ?thesis using inv assms(2) by (simp add: tq_inv_def)
  qed
  ultimately show ?thesis
    using inv assms(2) p pos
    by (cases "fq_queue ?fq")
      (auto simp: TimeFixeQueue_push_def tq_inv_def Let_def split: if_splits)
qed

section \<open>Properties\<close>

text \<open>
  C31. Whatever samples are pushed at whatever times, the queue of the average bandwidth never holds
  more samples than its limit, and its 64-bit running sum is the sum of the samples it holds:
  the wrapping subtractions never underflow.
\<close>

theorem bandwidth_sum_exact:
  assumes "0 < l" and "l < 2 ^ 31" and "\<forall>(now, item) \<in> set ps. fst item < 2 ^ 32"
    and "q = fold (\<lambda>(now, item). TimeFixeQueue_push now item) ps (TimeFixeQueue_new l)"
  shows "tq_sum q = sum_list (map fst (fq_queue (tq_queue q))) \<and> length (fq_queue (tq_queue q)) \<le> l"
proof -
  have new: "tq_inv (TimeFixeQueue_new l) \<and> fq_limit (tq_queue (TimeFixeQueue_new l)) = l"
    using assms(1,2) by (simp add: tq_inv_def TimeFixeQueue_new_def FixedQueue_new_def fq.bounded_def)
  have step: "fq_limit (tq_queue (TimeFixeQueue_push now item q)) = fq_limit (tq_queue q)" for now item q
    using fq.limit_push [of item "tq_queue (TimeFixeQueue_expires now q)"]
    by (auto simp: TimeFixeQueue_push_def TimeFixeQueue_expires_def Let_def split: prod.splits)
  have "tq_inv q0 \<and> fq_limit (tq_queue q0) = l \<Longrightarrow>
      tq_inv (fold (\<lambda>(now, item). TimeFixeQueue_push now item) ps q0)
      \<and> fq_limit (tq_queue (fold (\<lambda>(now, item). TimeFixeQueue_push now item) ps q0)) = l" for q0
    using assms(3) by (induction ps arbitrary: q0) (auto simp: tq_inv_push step)
  from this [OF new] show ?thesis
    unfolding assms(4) by (auto simp: tq_inv_def entries_sum_def fq.bounded_def)
qed

theorem bandwidth_sum_exact_witness:
  "tq_sum (fold (\<lambda>(now, item). TimeFixeQueue_push now item) [(0, 5, 0), (1, 7, 1), (2, 9, 2)] (TimeFixeQueue_new 2)) = 16"
  using bandwidth_sum_exact [OF _ _ _ refl, of 2 "[(0, 5, 0), (1, 7, 1), (2, 9, 2)]"]
  by (simp add: TimeFixeQueue_push_def TimeFixeQueue_expires_def TimeFixeQueue_new_def FixedQueue_new_def
      FixedQueue_push_def FixedQueue_pop_front_def UPDATE_INTERVAL_def wrap64_def)

end
