(* ===== verification/Win_Minmax.thy ===== *)
theory Win_Minmax
  imports Prelude
begin

text \<open>
  The windowed maximum filter of \<^verbatim>\<open>doro-util/src/win_minmax.rs\<close>: three samples in descending
  order of value and ascending order of time estimate the largest measurement of the last
  \<open>win\<close> time units. Times are 32-bit values and their differences wrap.
\<close>

section \<open>Definitions\<close>

record MinmaxSample =
  mm_t :: nat
  mm_v :: nat

record Minmax =
  s0 :: MinmaxSample
  s1 :: MinmaxSample
  s2 :: MinmaxSample

definition Minmax_new :: Minmax where
  "Minmax_new = (let z = \<lparr> mm_t = 0, mm_v = 0 \<rparr> in \<lparr> s0 = z, s1 = z, s2 = z \<rparr>)"

definition minmax_get :: "Minmax \<Rightarrow> nat" where
  "minmax_get m = mm_v (s0 m)"

definition minmax_reset :: "nat \<Rightarrow> nat \<Rightarrow> Minmax \<Rightarrow> nat \<times> Minmax" where
  "minmax_reset t meas m =
     (let v = \<lparr> mm_t = t, mm_v = meas \<rparr> in (meas, m\<lparr> s0 := v, s1 := v, s2 := v \<rparr>))"

definition minmax_subwin_update :: "nat \<Rightarrow> MinmaxSample \<Rightarrow> Minmax \<Rightarrow> nat \<times> Minmax" where
  "minmax_subwin_update win val m =
     (let dt = sub32 (mm_t val) (mm_t (s0 m));
          m' = (if win < dt then
                  let m1 = m\<lparr> s2 := val, s1 := s2 m, s0 := s1 m \<rparr>
                  in if win < sub32 (mm_t val) (mm_t (s0 m1))
                     then m1\<lparr> s1 := val, s0 := s1 m1 \<rparr> else m1
                else if mm_t (s1 m) = mm_t (s0 m) \<and> win div 4 < dt then m\<lparr> s2 := val, s1 := val \<rparr>
                else if mm_t (s2 m) = mm_t (s1 m) \<and> win div 2 < dt then m\<lparr> s2 := val \<rparr>
                else m)
      in (mm_v (s0 m'), m'))"

definition minmax_running_max :: "nat \<Rightarrow> nat \<Rightarrow> nat \<Rightarrow> Minmax \<Rightarrow> nat \<times> Minmax" where
  "minmax_running_max win t meas m =
     (let val = \<lparr> mm_t = t, mm_v = meas \<rparr>
      in if mm_v (s0 m) \<le> meas \<or> win < sub32 t (mm_t (s2 m)) then minmax_reset t meas m
         else
           let m' = (if mm_v (s1 m) \<le> meas then m\<lparr> s2 := val, s1 := val \<rparr>
                     else if mm_v (s2 m) \<le> meas then m\<lparr> s2 := val \<rparr> else m)
           in minmax_subwin_update win val m')"

definition minmax_running_min :: "nat \<Rightarrow> nat \<Rightarrow> nat \<Rightarrow> Minmax \<Rightarrow> nat \<times> Minmax" where
  "minmax_running_min win t meas m =
     (let val = \<lparr> mm_t = t, mm_v = meas \<rparr>
      in if meas \<le> mm_v (s0 m) \<or> win < sub32 t (mm_t (s2 m)) then minmax_reset t meas m
         else
           let m' = (if meas \<le> mm_v (s1 m) then m\<lparr> s2 := val, s1 := val \<rparr>
                     else if meas \<le> mm_v (s2 m) then m\<lparr> s2 := val \<rparr> else m)
           in minmax_subwin_update win val m')"

section \<open>Invariant\<close>

text \<open>
  \<open>hist\<close> holds the measurements made so far. The samples are among them, ordered by value and
  by time, and none is later than \<open>now\<close>. The order of values is a parameter: descending for
  the maximum, ascending for the minimum.
\<close>

definition mm_inv :: "(nat \<Rightarrow> nat \<Rightarrow> bool) \<Rightarrow> (nat \<times> nat) set \<Rightarrow> nat \<Rightarrow> Minmax \<Rightarrow> bool" where
  "mm_inv le hist now m \<longleftrightarrow>
     (\<forall>s \<in> {s0 m, s1 m, s2 m}. (mm_t s, mm_v s) \<in> hist)
     \<and> mm_t (s0 m) \<le> mm_t (s1 m) \<and> mm_t (s1 m) \<le> mm_t (s2 m) \<and> mm_t (s2 m) \<le> now
     \<and> le (mm_v (s1 m)) (mm_v (s0 m)) \<and> le (mm_v (s2 m)) (mm_v (s1 m))"

lemma mm_inv_new: "le 0 0 \<Longrightarrow> mm_inv le {(0, 0)} 0 Minmax_new"
  by (simp add: mm_inv_def Minmax_new_def Let_def)

lemma mm_inv_reset: "le v v \<Longrightarrow> minmax_reset t v m = (r, m') \<Longrightarrow>
    mm_inv le (insert (t, v) hist) t m' \<and> mm_v (s0 m') = r \<and> mm_t (s0 m') = t \<and> r = v"
  by (auto simp: mm_inv_def minmax_reset_def Let_def)

lemma mm_inv_subwin:
  assumes "mm_inv le hist t m" and "(t, mm_v val) \<in> hist" and "mm_t val = t"
    and "le (mm_v val) (mm_v (s2 m))" and "t - mm_t (s2 m) \<le> win"
    and "\<And>a b c. le a b \<Longrightarrow> le b c \<Longrightarrow> le a c" and "\<And>a. le a a"
    and "minmax_subwin_update win val m = (r, m')"
  shows "mm_inv le hist t m' \<and> r = mm_v (s0 m') \<and> t - mm_t (s0 m') \<le> win \<and> le (mm_v val) r"
  using assms(1-5,7,8) assms(6) [of "mm_v val" "mm_v (s2 m)" "mm_v (s1 m)"]
    assms(6) [of "mm_v val" "mm_v (s1 m)" "mm_v (s0 m)"]
  by (auto simp: minmax_subwin_update_def mm_inv_def Let_def split: if_splits)

text \<open>One measurement, for the maximum and for the minimum filter.\<close>

lemma mm_inv_running_max:
  assumes "mm_inv (\<le>) hist now m" and "now \<le> t" and "minmax_running_max win t v m = (r, m')"
  shows "mm_inv (\<le>) (insert (t, v) hist) t m' \<and> r = minmax_get m' \<and> v \<le> r
    \<and> t - mm_t (s0 m') \<le> win \<and> (mm_t (s0 m'), r) \<in> insert (t, v) hist"
proof (cases "mm_v (s0 m) \<le> v \<or> win < sub32 t (mm_t (s2 m))")
  case True
  then have "minmax_reset t v m = (r, m')" using assms(3) by (simp add: minmax_running_max_def Let_def)
  from mm_inv_reset [OF _ this, of "(\<le>)" hist] show ?thesis
    by (auto simp: minmax_get_def)
next
  case False
  let ?val = "\<lparr>mm_t = t, mm_v = v\<rparr>"
  define m1 where "m1 = (if mm_v (s1 m) \<le> v then m\<lparr>s2 := ?val, s1 := ?val\<rparr>
    else if mm_v (s2 m) \<le> v then m\<lparr>s2 := ?val\<rparr> else m)"
  have u: "minmax_subwin_update win ?val m1 = (r, m')"
    using False assms(3) by (simp add: minmax_running_max_def Let_def m1_def)
  have "mm_inv (\<le>) (insert (t, v) hist) t m1"
    using assms(1,2) False by (auto simp: mm_inv_def m1_def)
  moreover have "t - mm_t (s2 m1) \<le> win"
    using assms(1,2) False by (auto simp: mm_inv_def m1_def)
  moreover have "v \<le> mm_v (s2 m1)" by (simp add: m1_def)
  ultimately have "mm_inv (\<le>) (insert (t, v) hist) t m' \<and> r = mm_v (s0 m') \<and> t - mm_t (s0 m') \<le> win \<and> v \<le> r"
    using mm_inv_subwin [of "(\<le>)" "insert (t, v) hist" t m1 ?val win r m'] u by simp
  then show ?thesis by (auto simp: mm_inv_def minmax_get_def)
qed

text \<open>A run of measurements, given as (time, value) pairs.\<close>

fun running_max :: "nat \<Rightarrow> (nat \<times> nat) list \<Rightarrow> Minmax \<Rightarrow> Minmax" where
  "running_max win [] m = m"
| "running_max win ((t, v) # ms) m = running_max win ms (snd (minmax_running_max win t v m))"

lemma running_max_append: "running_max win (xs @ ys) m = running_max win ys (running_max win xs m)"
  by (induction win xs m rule: running_max.induct) auto

lemma running_max_inv:
  assumes "sorted (map fst ms)"
  shows "mm_inv (\<le>) (insert (0, 0) (set ms)) (if ms = [] then 0 else fst (last ms)) (running_max win ms Minmax_new)"
  using assms
proof (induction ms rule: rev_induct)
  case Nil
  then show ?case using mm_inv_new [of "(\<le>)"] by simp
next
  case (snoc x ms)
  obtain t v where x: "x = (t, v)" by fastforce
  let ?m = "running_max win ms Minmax_new" and ?now = "if ms = [] then 0 else fst (last ms)"
  have IH: "mm_inv (\<le>) (insert (0, 0) (set ms)) ?now ?m" using snoc by (simp add: sorted_append)
  have "?now \<le> t" using snoc.prems by (auto simp: x sorted_append)
  from mm_inv_running_max [OF IH this, of win v] show ?case
    by (cases "minmax_running_max win t v ?m") (simp add: running_max_append x insert_commute)
qed

section \<open>Properties\<close>

text \<open>
  After a series of measurements at nondecreasing times, the filter's estimate is at least the
  newest measurement and is itself a measurement made within the last \<open>win\<close> time units.
\<close>

theorem windowed_max_estimate:
  assumes "sorted (map fst (ms @ [(t, v)]))"
  shows "v \<le> minmax_get (running_max win (ms @ [(t, v)]) Minmax_new)
    \<and> (\<exists>t'. (t', minmax_get (running_max win (ms @ [(t, v)]) Minmax_new)) \<in> insert (0, 0) (set (ms @ [(t, v)]))
         \<and> t' \<le> t \<and> t - t' \<le> win)"
proof -
  let ?m = "running_max win ms Minmax_new" and ?now = "if ms = [] then 0 else fst (last ms)"
  have "mm_inv (\<le>) (insert (0, 0) (set ms)) ?now ?m"
    using assms by (intro running_max_inv) (simp add: sorted_append)
  moreover have "?now \<le> t" using assms by (auto simp: sorted_append)
  moreover obtain r m' where r: "minmax_running_max win t v ?m = (r, m')" by fastforce
  ultimately have "mm_inv (\<le>) (insert (t, v) (insert (0, 0) (set ms))) t m' \<and> r = minmax_get m' \<and> v \<le> r
      \<and> t - mm_t (s0 m') \<le> win \<and> (mm_t (s0 m'), r) \<in> insert (t, v) (insert (0, 0) (set ms))"
    using mm_inv_running_max by blast
  then show ?thesis
    by (auto simp: running_max_append r mm_inv_def intro!: exI [of _ "mm_t (s0 m')"])
qed

theorem windowed_max_estimate_witness:
  "7 \<le> minmax_get (running_max 3 ([(1, 9), (2, 4)] @ [(6, 7)]) Minmax_new)
    \<and> (\<exists>t'. (t', minmax_get (running_max 3 ([(1, 9), (2, 4)] @ [(6, 7)]) Minmax_new))
           \<in> insert (0, 0) (set ([(1, 9), (2, 4)] @ [(6 :: nat, 7)])) \<and> t' \<le> 6 \<and> 6 - t' \<le> 3)"
  by (rule windowed_max_estimate) simp

end
