(* ===== verification/Rate_Control.thy ===== *)
theory Rate_Control
  imports Collection Win_Minmax
begin

text \<open>
  The congestion controller of a peer connection
  (\<^verbatim>\<open>bt/base_peer/rate_control.rs\<close>, \<^verbatim>\<open>bt/base_peer/rate_control/probe.rs\<close>). The dashboard is shared between
  the reader of the connection and the requests of the client, so the operations of the
  probe take it as a separate part of the state. \<open>now\<close> is the clock in milliseconds; the
  several readings of the clock in one \<^verbatim>\<open>ack\<close> are one value here.
\<close>

section \<open>Constants\<close>

definition SCALE :: nat where "SCALE = 8"
definition UNIT :: nat where "UNIT = 256"
definition CWND_HIGHT_GAIN :: nat where "CWND_HIGHT_GAIN = UNIT * 5 div 4"
definition CWND_LOW_GAIN :: nat where "CWND_LOW_GAIN = UNIT * 4 div 5"
definition BW_UP_THRESH :: nat where "BW_UP_THRESH = UNIT * 5 div 4"
definition BW_UP_KEEP_THRESH :: nat where "BW_UP_KEEP_THRESH = UNIT * 11 div 10"
definition BW_DOWN_THRESH :: nat where "BW_DOWN_THRESH = UNIT * 4 div 5"
definition MILLIS_PER_SEC :: nat where "MILLIS_PER_SEC = 1000"
definition MAX_BW_CWND :: nat where "MAX_BW_CWND = 3"
definition HIGHT_GAIN_CYCLE :: nat where "HIGHT_GAIN_CYCLE = 3"
definition LOW_GAIN_CYCLE :: nat where "LOW_GAIN_CYCLE = 3"
definition NORMAL_GAIN_CYCLE :: nat where "NORMAL_GAIN_CYCLE = 3"
definition MIN_CWND :: nat where "MIN_CWND = 4"
definition MAX_CWND :: nat where "MAX_CWND = 25"
definition BW_RATE_THRESH :: nat where "BW_RATE_THRESH = 10"
definition FULL_BW_CNT :: nat where "FULL_BW_CNT = 3"
definition STARTUP_GAIN :: nat where "STARTUP_GAIN = UNIT * 3 div 2"
definition FULL_BW_THRESH :: nat where "FULL_BW_THRESH = UNIT div 2"
definition MAX_GAIN_KEEP_RATE :: nat where "MAX_GAIN_KEEP_RATE = UNIT * 2 div 3"
definition FULL_BW_KEEP_CYCLE :: nat where "FULL_BW_KEEP_CYCLE = 3"

lemmas rc_consts = SCALE_def UNIT_def CWND_HIGHT_GAIN_def CWND_LOW_GAIN_def BW_UP_THRESH_def
  BW_UP_KEEP_THRESH_def BW_DOWN_THRESH_def MILLIS_PER_SEC_def MAX_BW_CWND_def HIGHT_GAIN_CYCLE_def
  LOW_GAIN_CYCLE_def NORMAL_GAIN_CYCLE_def MIN_CWND_def MAX_CWND_def BW_RATE_THRESH_def
  FULL_BW_CNT_def STARTUP_GAIN_def FULL_BW_THRESH_def MAX_GAIN_KEEP_RATE_def FULL_BW_KEEP_CYCLE_def

section \<open>Dashboard\<close>

record Dashbord =
  cwnd :: nat
  inflight :: nat
  acked_bytes :: nat
  dash_bw :: TimeFixeQueue

definition Dashbord_new :: Dashbord where
  "Dashbord_new = \<lparr> cwnd = MIN_CWND, inflight = 0, acked_bytes = 0,
     dash_bw = TimeFixeQueue_new BW_RATE_THRESH \<rparr>"

definition Dashbord_update_bw :: "nat \<Rightarrow> nat \<Rightarrow> Dashbord \<Rightarrow> Dashbord" where
  "Dashbord_update_bw now bw d = d\<lparr> dash_bw := TimeFixeQueue_push now (bw, now) (dash_bw d) \<rparr>"

definition Dashbord_bw :: "nat \<Rightarrow> Dashbord \<Rightarrow> (nat \<times> Dashbord) result" where
  "Dashbord_bw now d =
     and_then (TimeFixeQueue_avg now (dash_bw d)) (\<lambda>(a, q). Inr (a, d\<lparr> dash_bw := q \<rparr>))"

definition Dashbord_clear_ing :: "Dashbord \<Rightarrow> Dashbord" where
  "Dashbord_clear_ing d = d\<lparr> inflight := 0, cwnd := MIN_CWND \<rparr>"

definition Dashbord_send :: "Dashbord \<Rightarrow> Dashbord" where
  "Dashbord_send d = d\<lparr> inflight := wrap32 (inflight d + 1) \<rparr>"

section \<open>Probe\<close>

record Probe =
  pr_bw :: Minmax
  last_ack_stamp :: nat
  last_ack_bytes :: nat
  sample_update_cnt :: nat
  cwnd_gain :: nat
  cwnd_high_gain_cnt :: nat
  cwnd_high_gain :: bool
  cwnd_low_gain_cnt :: nat
  cwnd_normal_gain_cnt :: nat
  full_bw :: nat
  full_bw_cnt :: nat
  full_bw_keep_cnt :: nat
  full_bw_reached :: bool
  last_high_bw :: nat
  high_gain_valid_cnt :: nat
  starup_gain :: bool

definition Probe_new :: Probe where
  "Probe_new = \<lparr> pr_bw = Minmax_new, last_ack_stamp = 0, last_ack_bytes = 0, sample_update_cnt = 0,
     cwnd_gain = UNIT, cwnd_high_gain_cnt = 0, cwnd_high_gain = False, cwnd_low_gain_cnt = 0,
     cwnd_normal_gain_cnt = 0, full_bw = 0, full_bw_cnt = 0, full_bw_keep_cnt = 0,
     full_bw_reached = False, last_high_bw = 0, high_gain_valid_cnt = 0, starup_gain = False \<rparr>"

definition inflight_dec :: "Dashbord \<Rightarrow> Dashbord" where
  "inflight_dec d = d\<lparr> inflight := sub32 (inflight d) 1 \<rparr>"

text \<open>The bandwidth of the sample; a zero interval divides by zero.\<close>

definition get_rate_sample :: "nat \<Rightarrow> Dashbord \<Rightarrow> Probe \<Rightarrow> (nat \<times> Probe) result" where
  "get_rate_sample now d p =
     (let interval_ms = sub64 now (last_ack_stamp p);
          interval_bytes = sub64 (acked_bytes d) (last_ack_bytes p);
          p' = p\<lparr> last_ack_stamp := now, last_ack_bytes := acked_bytes d,
                  sample_update_cnt := wrap32 (sample_update_cnt p + 1) \<rparr>
      in if interval_ms = 0 then Inl (Panic ''attempt to divide by zero'')
         else Inr (div_ceil (wrap64 (interval_bytes * MILLIS_PER_SEC)) interval_ms, p'))"

definition update_avg_bw :: "nat \<Rightarrow> nat \<Rightarrow> Dashbord \<Rightarrow> Dashbord" where
  "update_avg_bw now rs d = Dashbord_update_bw now (wrap32 rs) d"

definition Probe_update_bw :: "nat \<Rightarrow> Probe \<Rightarrow> nat \<times> Probe" where
  "Probe_update_bw rs p =
     (minmax_get (pr_bw p),
      p\<lparr> pr_bw := snd (minmax_running_max MAX_BW_CWND (sample_update_cnt p) (wrap32 rs) (pr_bw p)) \<rparr>)"

text \<open>
  \<^verbatim>\<open>check_full_bw\<close>. The first test leaves the state of a limited link or returns; then a link that
  is being filled is waited for; otherwise growth of the maximum is looked at.
\<close>

definition full_bw_growth :: "Probe \<Rightarrow> Probe" where
  "full_bw_growth p =
     (if 0 < full_bw_keep_cnt p then
        let k = full_bw_keep_cnt p - 1
        in p\<lparr> full_bw_keep_cnt := k, full_bw := max (full_bw p) (minmax_get (pr_bw p)),
              starup_gain := (k = 0) \<rparr>
      else
        let p = p\<lparr> starup_gain := False \<rparr>;
            bw_thresh = wrap32 (wrap64 (full_bw p * BW_UP_THRESH) div 2 ^ SCALE)
        in if bw_thresh < minmax_get (pr_bw p)
           then p\<lparr> full_bw_keep_cnt := FULL_BW_KEEP_CYCLE, full_bw_cnt := 0, full_bw := minmax_get (pr_bw p) \<rparr>
           else p\<lparr> full_bw_cnt := wrap32 (full_bw_cnt p + 1),
                   full_bw_reached := (FULL_BW_CNT \<le> wrap32 (full_bw_cnt p + 1)) \<rparr>)"

definition check_full_bw :: "Dashbord \<Rightarrow> Probe \<Rightarrow> Probe" where
  "check_full_bw d p =
     (if full_bw_reached p then
        if cwnd d \<le> MIN_CWND \<or> minmax_get (pr_bw p) < wrap32 (full_bw p * FULL_BW_THRESH) div 2 ^ SCALE
        then full_bw_growth (p\<lparr> full_bw := 0, full_bw_reached := False \<rparr>)
        else p
      else full_bw_growth p)"

text \<open>\<^verbatim>\<open>update_gain\<close>, in the three stages of its body.\<close>

definition high_gain_stage :: "nat \<Rightarrow> Probe \<Rightarrow> Probe" where
  "high_gain_stage bw p =
     (if 0 < cwnd_high_gain_cnt p then
        let p = p\<lparr> cwnd_high_gain_cnt := cwnd_high_gain_cnt p - 1, cwnd_gain := UNIT \<rparr>;
            p = (if wrap64 (last_high_bw p * BW_UP_KEEP_THRESH) \<le> wrap64 (bw * UNIT)
                 then p\<lparr> high_gain_valid_cnt := wrap32 (high_gain_valid_cnt p + 1) \<rparr> else p)
        in if HIGHT_GAIN_CYCLE * MAX_GAIN_KEEP_RATE \<le> wrap32 (high_gain_valid_cnt p * UNIT)
           then p\<lparr> cwnd_high_gain_cnt := 0 \<rparr>
           else p\<lparr> cwnd_high_gain := (cwnd_high_gain_cnt p = 0) \<rparr>
      else p)"

definition low_gain_stage :: "nat \<Rightarrow> nat \<Rightarrow> Probe \<Rightarrow> Probe" where
  "low_gain_stage bw origin_bw p =
     (if wrap64 (bw * UNIT) \<le> wrap64 (origin_bw * BW_DOWN_THRESH)
      then p\<lparr> cwnd_low_gain_cnt := wrap32 (cwnd_low_gain_cnt p + 1), cwnd_gain := UNIT \<rparr> else p)"

definition gain_stage :: "nat \<Rightarrow> Probe \<Rightarrow> Probe" where
  "gain_stage origin_bw p =
     (if NORMAL_GAIN_CYCLE \<le> cwnd_normal_gain_cnt p then
        p\<lparr> cwnd_low_gain_cnt := 0, cwnd_normal_gain_cnt := 0, high_gain_valid_cnt := 0,
           cwnd_gain := CWND_HIGHT_GAIN, cwnd_high_gain_cnt := HIGHT_GAIN_CYCLE, last_high_bw := origin_bw \<rparr>
      else if cwnd_high_gain p \<or> LOW_GAIN_CYCLE \<le> cwnd_low_gain_cnt p then
        p\<lparr> cwnd_low_gain_cnt := 0, cwnd_normal_gain_cnt := 0, cwnd_high_gain := False,
           cwnd_gain := CWND_LOW_GAIN \<rparr>
      else if cwnd_high_gain_cnt p = 0 then
        p\<lparr> cwnd_normal_gain_cnt := wrap32 (cwnd_normal_gain_cnt p + 1), cwnd_gain := UNIT \<rparr>
      else p)"

definition update_gain :: "nat \<Rightarrow> nat \<Rightarrow> Probe \<Rightarrow> Probe" where
  "update_gain bw origin_bw p =
     (if \<not> full_bw_reached p then p\<lparr> cwnd_gain := (if starup_gain p then STARTUP_GAIN else UNIT) \<rparr>
      else gain_stage origin_bw (low_gain_stage bw origin_bw (high_gain_stage bw p)))"

definition clamp :: "nat \<Rightarrow> nat \<Rightarrow> nat \<Rightarrow> nat" where
  "clamp lo hi x = (if x < lo then lo else if hi < x then hi else x)"

definition update_cwnd :: "nat \<Rightarrow> Dashbord \<Rightarrow> Dashbord" where
  "update_cwnd gain d =
     (let c = (if gain = CWND_HIGHT_GAIN \<or> gain = STARTUP_GAIN then wrap32 (cwnd d + 2)
               else if gain = CWND_LOW_GAIN then sub32 (cwnd d) 1 else cwnd d);
          c' = wrap32 (wrap64 (c * gain) div 2 ^ SCALE)
      in d\<lparr> cwnd := clamp MIN_CWND MAX_CWND c' \<rparr>)"

definition Probe_ack :: "nat \<Rightarrow> nat \<Rightarrow> Dashbord \<times> Probe \<Rightarrow> (Dashbord \<times> Probe) result" where
  "Probe_ack now read_size dp =
     (case dp of (d, p) \<Rightarrow>
       let d = inflight_dec d;
           d = d\<lparr> acked_bytes := wrap64 (acked_bytes d + read_size) \<rparr>
       in if now < wrap64 (last_ack_stamp p + UPDATE_INTERVAL) then Inr (d, p)
          else
            and_then (get_rate_sample now d p) (\<lambda>(rs, p).
            let (origin_bw, p) = Probe_update_bw rs p;
                d = update_avg_bw now rs d;
                p = check_full_bw d p;
                p = update_gain rs origin_bw p
            in Inr (update_cwnd (cwnd_gain p) d, p)))"

section \<open>Runs of the controller\<close>

datatype rc_event = Send | Ack nat nat | ReadBw nat | ClearIng

fun rc_step :: "rc_event \<Rightarrow> Dashbord \<times> Probe \<Rightarrow> (Dashbord \<times> Probe) result" where
  "rc_step Send (d, p) = Inr (Dashbord_send d, p)"
| "rc_step (Ack now sz) (d, p) = Probe_ack now sz (d, p)"
| "rc_step (ReadBw now) (d, p) = and_then (Dashbord_bw now d) (\<lambda>(_, d'). Inr (d', p))"
| "rc_step ClearIng (d, p) = Inr (Dashbord_clear_ing d, p)"

fun rc_run :: "rc_event list \<Rightarrow> Dashbord \<times> Probe \<Rightarrow> (Dashbord \<times> Probe) result" where
  "rc_run [] s = Inr s"
| "rc_run (e # es) s = and_then (rc_step e s) (rc_run es)"

fun clock_ok :: "rc_event \<Rightarrow> bool" where
  "clock_ok (Ack now sz) = (now < 2 ^ 63)"
| "clock_ok _ = True"

definition rc_inv :: "Dashbord \<times> Probe \<Rightarrow> bool" where
  "rc_inv s \<longleftrightarrow> (case s of (d, p) \<Rightarrow>
     MIN_CWND \<le> cwnd d \<and> cwnd d \<le> MAX_CWND \<and> last_ack_stamp p < 2 ^ 63
     \<and> fq_limit (tq_queue (dash_bw d)) = BW_RATE_THRESH)"

lemma update_cwnd_bounds: "MIN_CWND \<le> cwnd (update_cwnd g d) \<and> cwnd (update_cwnd g d) \<le> MAX_CWND"
  by (simp add: update_cwnd_def Let_def clamp_def rc_consts)

lemma update_cwnd_frame [simp]:
  "dash_bw (update_cwnd g d) = dash_bw d" "inflight (update_cwnd g d) = inflight d"
  "acked_bytes (update_cwnd g d) = acked_bytes d"
  by (simp_all add: update_cwnd_def Let_def)

lemma tq_limit [simp]:
  "fq_limit (tq_queue (TimeFixeQueue_expires now q)) = fq_limit (tq_queue q)"
  "fq_limit (tq_queue (TimeFixeQueue_push now item q)) = fq_limit (tq_queue q)"
proof -
  show e: "fq_limit (tq_queue (TimeFixeQueue_expires now q)) = fq_limit (tq_queue q)" for q
    by (simp add: TimeFixeQueue_expires_def Let_def case_prod_unfold)
  show "fq_limit (tq_queue (TimeFixeQueue_push now item q)) = fq_limit (tq_queue q)"
    using e [of q] fq.limit_push [of item "tq_queue (TimeFixeQueue_expires now q)"]
    by (simp add: TimeFixeQueue_push_def Let_def case_prod_unfold)
qed

lemma stamp_frame [simp]:
  "last_ack_stamp (full_bw_growth p) = last_ack_stamp p"
  "last_ack_stamp (check_full_bw d p) = last_ack_stamp p"
  "last_ack_stamp (update_gain a b p) = last_ack_stamp p"
  by (simp_all add: full_bw_growth_def check_full_bw_def update_gain_def gain_stage_def low_gain_stage_def
      high_gain_stage_def Let_def)

lemma Probe_ack_total:
  assumes "last_ack_stamp p < 2 ^ 63" and "now < 2 ^ 63"
  shows "\<exists>d' p'. Probe_ack now sz (d, p) = Inr (d', p')
    \<and> inflight d' = sub32 (inflight d) 1 \<and> last_ack_stamp p' \<in> {last_ack_stamp p, now}
    \<and> fq_limit (tq_queue (dash_bw d')) = fq_limit (tq_queue (dash_bw d))
    \<and> (cwnd d' = cwnd d \<or> (MIN_CWND \<le> cwnd d' \<and> cwnd d' \<le> MAX_CWND))"
proof (cases "now < wrap64 (last_ack_stamp p + UPDATE_INTERVAL)")
  case True
  then show ?thesis by (simp add: Probe_ack_def inflight_dec_def Let_def)
next
  case False
  have "wrap64 (last_ack_stamp p + UPDATE_INTERVAL) = last_ack_stamp p + UPDATE_INTERVAL"
    using assms(1) by (intro wrap64_small) (simp add: UPDATE_INTERVAL_def)
  with False have lt: "last_ack_stamp p < now" by (simp add: UPDATE_INTERVAL_def)
  define d1 where "d1 = (inflight_dec d)\<lparr>acked_bytes := wrap64 (acked_bytes d + sz)\<rparr>"
  from lt obtain rs p1 where r: "get_rate_sample now d1 p = Inr (rs, p1)" "last_ack_stamp p1 = now"
    by (simp add: get_rate_sample_def Let_def)
  obtain ob p2 where u: "Probe_update_bw rs p1 = (ob, p2)" by fastforce
  then have "last_ack_stamp p2 = now" using r(2) by (auto simp: Probe_update_bw_def)
  moreover have "Probe_ack now sz (d, p) =
      (let d2 = update_avg_bw now rs d1; p3 = update_gain rs ob (check_full_bw d2 p2)
       in Inr (update_cwnd (cwnd_gain p3) d2, p3))"
    using False r(1) u by (simp add: Probe_ack_def Let_def d1_def inflight_dec_def)
  ultimately show ?thesis
    using update_cwnd_bounds
    by (simp add: Let_def update_avg_bw_def Dashbord_update_bw_def d1_def inflight_dec_def)
qed

lemma rc_step_inv:
  assumes "rc_inv s" and "clock_ok e"
  shows "\<exists>s'. rc_step e s = Inr s' \<and> rc_inv s'"
proof (cases e)
  case (Ack now sz)
  obtain d p where s: "s = (d, p)" by fastforce
  have "last_ack_stamp p < 2 ^ 63" "now < 2 ^ 63" using assms s Ack by (simp_all add: rc_inv_def)
  from Probe_ack_total [OF this, of sz d] assms s Ack show ?thesis
    by (auto simp: rc_inv_def)
next
  case (ReadBw now)
  with assms show ?thesis
    by (cases s) (auto simp: rc_inv_def Dashbord_bw_def TimeFixeQueue_avg_def Let_def BW_RATE_THRESH_def)
qed (use assms in \<open>cases s; auto simp: rc_inv_def Dashbord_send_def Dashbord_clear_ing_def rc_consts\<close>)+

lemma rc_run_inv: "rc_inv s \<Longrightarrow> \<forall>e \<in> set es. clock_ok e \<Longrightarrow> \<exists>s'. rc_run es s = Inr s' \<and> rc_inv s'"
proof (induction es arbitrary: s)
  case (Cons e es)
  then obtain s1 where "rc_step e s = Inr s1" "rc_inv s1" using rc_step_inv [of s e] by auto
  with Cons show ?case by simp
qed simp

lemma rc_inv_new: "rc_inv (Dashbord_new, Probe_new)"
  by (simp add: rc_inv_def Dashbord_new_def Probe_new_def rc_consts TimeFixeQueue_new_def FixedQueue_new_def)

section \<open>Properties\<close>

text \<open>
  C26. No sequence of sends, acknowledgements, reads of the average and resets makes the controller
  panic, and the congestion window stays between 4 and 25 throughout.
\<close>

theorem cwnd_always_in_range:
  assumes "\<forall>e \<in> set es. clock_ok e"
  shows "\<exists>d p. rc_run es (Dashbord_new, Probe_new) = Inr (d, p) \<and> 4 \<le> cwnd d \<and> cwnd d \<le> 25"
  using rc_run_inv [OF rc_inv_new assms] by (auto simp: rc_inv_def MIN_CWND_def MAX_CWND_def)

theorem cwnd_always_in_range_witness:
  "\<exists>d p. rc_run [Send, Ack 5000 16397, ClearIng, ReadBw 7000] (Dashbord_new, Probe_new) = Inr (d, p)
    \<and> 4 \<le> cwnd d \<and> cwnd d \<le> 25"
  by (rule cwnd_always_in_range) simp

fun sends :: "rc_event list \<Rightarrow> nat" where
  "sends [] = 0"
| "sends (e # es) = (if e = Send then 1 else 0) + sends es"

fun acks :: "rc_event list \<Rightarrow> nat" where
  "acks [] = 0"
| "acks (e # es) = (case e of Ack _ _ \<Rightarrow> 1 | _ \<Rightarrow> 0) + acks es"

lemma inflight_step:
  assumes "rc_inv s" and "clock_ok e" and "e \<noteq> ClearIng" and "rc_step e s = Inr s'" and "inflight (fst s) < 2 ^ 32"
  shows "int (inflight (fst s')) = (int (inflight (fst s)) + int (sends [e]) - int (acks [e])) mod 2 ^ 32"
proof (cases e)
  case Send
  then show ?thesis using assms(4) by (cases s) (auto simp: Dashbord_send_def wrap32_def zmod_int add.commute)
next
  case (Ack now sz)
  obtain d p where s: "s = (d, p)" by fastforce
  have "last_ack_stamp p < 2 ^ 63" "now < 2 ^ 63" using assms s Ack by (simp_all add: rc_inv_def)
  from Probe_ack_total [OF this, of sz d] assms(4) s Ack have "inflight (fst s') = sub32 (inflight d) 1" by auto
  then show ?thesis using assms(5) s Ack by (cases "inflight d = 0") (auto simp: sub32_def of_nat_diff)
next
  case (ReadBw now)
  then show ?thesis
    using assms(4,5) by (cases s) (auto simp: Dashbord_bw_def TimeFixeQueue_avg_def Let_def split: if_splits)
next
  case ClearIng
  then show ?thesis using assms(3) by simp
qed

lemma inflight_run:
  assumes "rc_inv s" and "\<forall>e \<in> set es. clock_ok e \<and> e \<noteq> ClearIng" and "rc_run es s = Inr s'"
    and "inflight (fst s) < 2 ^ 32"
  shows "int (inflight (fst s')) = (int (inflight (fst s)) + int (sends es) - int (acks es)) mod 2 ^ 32"
  using assms
proof (induction es arbitrary: s)
  case Nil
  then show ?case by simp
next
  case (Cons e es)
  from rc_step_inv [OF Cons.prems(1), of e] Cons.prems(2) obtain s1 where
    s1: "rc_step e s = Inr s1" "rc_inv s1" by auto
  have i: "int (inflight (fst s1)) = (int (inflight (fst s)) + int (sends [e]) - int (acks [e])) mod 2 ^ 32"
    using inflight_step [OF Cons.prems(1) _ _ s1(1) Cons.prems(4)] Cons.prems(2) by simp
  then have "int (inflight (fst s1)) < 2 ^ 32" by simp
  then have "inflight (fst s1) < 2 ^ 32" by simp
  from Cons.IH [OF s1(2) _ _ this] Cons.prems(2,3) s1(1)
  have "int (inflight (fst s')) = (int (inflight (fst s1)) + int (sends es) - int (acks es)) mod 2 ^ 32" by simp
  also have "\<dots> = (int (inflight (fst s)) + int (sends [e]) - int (acks [e]) + int (sends es) - int (acks es)) mod 2 ^ 32"
    unfolding i by (simp add: mod_add_left_eq mod_diff_left_eq add_diff_eq [symmetric])
  finally show ?case by (simp add: algebra_simps)
qed

text \<open>
  The number of packets in flight is the number of requests minus the number of received blocks
  modulo \<open>2 ^ 32\<close>: it is exact while no more blocks than requests were seen, and one block too
  many makes it the largest 32-bit number.
\<close>

theorem inflight_counts_requests:
  assumes "\<forall>e \<in> set es. clock_ok e \<and> e \<noteq> ClearIng"
    and "rc_run es (Dashbord_new, Probe_new) = Inr (d, p)"
  shows "int (inflight d) = (int (sends es) - int (acks es)) mod 2 ^ 32"
  using inflight_run [OF rc_inv_new assms] by (simp add: Dashbord_new_def)

theorem inflight_counts_requests_witness:
  "\<exists>d p. rc_run [Send, Ack 5000 16397, Ack 5001 16397] (Dashbord_new, Probe_new) = Inr (d, p)
    \<and> inflight d = 2 ^ 32 - 1"
proof -
  let ?es = "[Send, Ack 5000 16397, Ack 5001 16397]"
  obtain d p where r: "rc_run ?es (Dashbord_new, Probe_new) = Inr (d, p)"
    using rc_run_inv [OF rc_inv_new, of ?es] by auto
  have "int (inflight d) = (int (sends ?es) - int (acks ?es)) mod 2 ^ 32"
    by (rule inflight_counts_requests [OF _ r]) simp
  then show ?thesis using r by simp
qed

text \<open>
  A gain above one makes a window in range grow until it reaches 25, a gain below one makes it
  shrink until it reaches 4 and the unit gain keeps it.
\<close>

theorem gain_moves_cwnd:
  assumes "4 \<le> cwnd d" and "cwnd d \<le> 25"
  shows "(g = CWND_HIGHT_GAIN \<or> g = STARTUP_GAIN \<longrightarrow> cwnd (update_cwnd g d) = 25 \<or> cwnd d < cwnd (update_cwnd g d))
    \<and> (g = CWND_LOW_GAIN \<longrightarrow> cwnd (update_cwnd g d) = 4 \<or> cwnd (update_cwnd g d) < cwnd d)
    \<and> (g = UNIT \<longrightarrow> cwnd (update_cwnd g d) = cwnd d)"
proof -
  let ?c = "cwnd d"
  have w: "wrap64 (c * k) = c * k" "wrap32 (c * k div 256) = c * k div 256" if "c \<le> 30" "k \<le> 400" for c k
  proof -
    have "c * k \<le> 30 * 400" using that by (rule mult_le_mono)
    then show "wrap64 (c * k) = c * k" "wrap32 (c * k div 256) = c * k div 256" by simp_all
  qed
  show ?thesis
    using assms w [of "?c + 2" 320] w [of "?c + 2" 384] w [of "?c - 1" 204] w [of ?c 256]
    by (auto simp: update_cwnd_def clamp_def rc_consts Let_def)
qed

theorem gain_moves_cwnd_witness:
  "cwnd (update_cwnd CWND_LOW_GAIN (Dashbord_new\<lparr>cwnd := 20\<rparr>)) < 20"
  using gain_moves_cwnd [of "Dashbord_new\<lparr>cwnd := 20\<rparr>" CWND_LOW_GAIN]
  by (simp add: update_cwnd_def clamp_def rc_consts Let_def wrap32_def wrap64_def)

text \<open>
  The threshold that ends the limited-bandwidth state is computed in 32 bits: at any multiple of
  \<open>2 ^ 25\<close> bytes per second it is zero, and a collapse of the measured bandwidth to zero is not noticed.
\<close>

theorem full_bw_threshold_wraps:
  assumes "full_bw_reached p" and "4 < cwnd d" and "full_bw p = k * 2 ^ 25"
  shows "check_full_bw d p = p"
proof -
  have "wrap32 (full_bw p * FULL_BW_THRESH) = k * 2 ^ 32 mod 2 ^ 32"
    using assms(3) by (simp add: wrap32_def rc_consts mult.assoc)
  also have "\<dots> = 0" by (rule mod_mult_self2_is_0)
  finally show ?thesis using assms(1,2) by (simp add: check_full_bw_def rc_consts)
qed

theorem full_bw_threshold_wraps_witness:
  "check_full_bw (Dashbord_new\<lparr>cwnd := 10\<rparr>) (Probe_new\<lparr>full_bw := 33554432, full_bw_reached := True\<rparr>) =
     Probe_new\<lparr>full_bw := 33554432, full_bw_reached := True\<rparr>"
  by (rule full_bw_threshold_wraps [where k = 1]) (simp_all add: Dashbord_new_def)

end
