(* ===== verification/Peer_State.thy ===== *)
theory Peer_State
  imports Piece Peer_Wire Rate_Control
begin

text \<open>
  The state of a connected peer (\<^verbatim>\<open>Peer\<close> and \<^verbatim>\<open>PeerInner\<close> of \<^verbatim>\<open>bt/base_peer.rs\<close>): what has been
  requested from it and received, its choke states and bit field, the extension numbers, and the metadata
  that is being fetched from it. \<open>bs\<close> is the configured block size. \<open>pe_sent\<close> is the content of the
  channel to the writing task, oldest message first.
\<close>

section \<open>State\<close>

definition METADATA_PIECE_SIZE :: nat where "METADATA_PIECE_SIZE = 16384"

datatype Status = StChoke | StUnChoke | StWait

record Peer =
  pe_id :: nat
  pe_runnable :: bool
  request_pieces :: "nat \<rightharpoonup> nat"
  response_pieces :: "nat \<rightharpoonup> Piece"
  pe_status :: Status
  pe_op_status :: Status
  pe_op_bitfield :: bytes
  pe_op_reserved :: nat
  recv_bitfield :: bool
  pe_dashbord :: Dashbord
  extend_id_map :: "u8 \<rightharpoonup> u8"
  extend_handshake_data :: "HandshakeData option"
  pe_metadata :: "bytes option"
  pe_metadata_bitfield :: "bytes option"
  metadata_piece_idx :: nat
  pe_sent :: "bytes list"

definition Peer_new :: "nat \<Rightarrow> Dashbord \<Rightarrow> nat \<Rightarrow> Peer" where
  "Peer_new i d reserved = \<lparr> pe_id = i, pe_runnable = True, request_pieces = Map.empty, response_pieces = Map.empty,
     pe_status = StChoke, pe_op_status = StChoke, pe_op_bitfield = [], pe_op_reserved = reserved,
     recv_bitfield = False, pe_dashbord = d, extend_id_map = [0 \<mapsto> ExtendedId_get_value EHandshake],
     extend_handshake_data = None, pe_metadata = None, pe_metadata_bitfield = None, metadata_piece_idx = 0,
     pe_sent = [] \<rparr>"

section \<open>Sending\<close>

definition Peer_send :: "bytes \<Rightarrow> Peer \<Rightarrow> Peer" where
  "Peer_send bs p = p\<lparr> pe_sent := pe_sent p @ [bs] \<rparr>"

definition check_runnable :: "Peer \<Rightarrow> unit result" where
  "check_runnable p = (if pe_runnable p then Inr () else Inl (Err ''peer closed''))"

definition is_ltep :: "Peer \<Rightarrow> bool" where
  "is_ltep p \<longleftrightarrow> pe_op_reserved p AND LTEP \<noteq> 0"

definition check_extend_support :: "ExtendedId \<Rightarrow> Peer \<Rightarrow> bool" where
  "check_extend_support e p =
     (case extend_handshake_data p of None \<Rightarrow> False | Some h \<Rightarrow> map_of (hs_m h) (ExtendedId_get_name e) \<noteq> None)"

definition is_can_be_request_metadata :: "Peer \<Rightarrow> bool" where
  "is_can_be_request_metadata p \<longleftrightarrow> is_ltep p \<and> check_extend_support UtMetadata p"

definition request_bitfield :: "bytes \<Rightarrow> Peer \<Rightarrow> Peer result" where
  "request_bitfield bits p = and_then (check_runnable p) (\<lambda>_. Inr (Peer_send (bitfield_bytes bits) p))"

definition request_interested :: "Peer \<Rightarrow> Peer result" where
  "request_interested p = and_then (check_runnable p) (\<lambda>_. Inr (Peer_send interested_bytes p))"

definition request_un_choke :: "Peer \<Rightarrow> Peer result" where
  "request_un_choke p = and_then (check_runnable p) (\<lambda>_. Inr (Peer_send un_choke_bytes p))"

definition request_choke :: "Peer \<Rightarrow> Peer result" where
  "request_choke p = and_then (check_runnable p) (\<lambda>_. Inr (Peer_send choke_bytes p))"

definition Peer_request_piece :: "nat \<Rightarrow> nat \<Rightarrow> nat \<Rightarrow> Peer \<Rightarrow> Peer result" where
  "Peer_request_piece i off n p = and_then (check_runnable p) (\<lambda>_. Inr (Peer_send (request_piece_bytes i off n) p))"

definition request_extend_handsake :: "Peer \<Rightarrow> Peer result" where
  "request_extend_handsake p =
     and_then (check_runnable p) (\<lambda>_.
       if \<not> is_ltep p then Inl (Err ''no extension protocol'')
       else and_then extend_handshake_bytes (\<lambda>bs. Inr (Peer_send bs p)))"

definition Peer_request_metadata_piece :: "nat \<Rightarrow> Peer \<Rightarrow> Peer result" where
  "Peer_request_metadata_piece i p =
     and_then (check_runnable p) (\<lambda>_.
       if \<not> is_can_be_request_metadata p then Inl (Err ''no ut_metadata'')
       else
         (case extend_handshake_data p of
            None \<Rightarrow> Inl (Panic ''unwrap of None'')
          | Some h \<Rightarrow>
              (case map_of (hs_m h) (ExtendedId_get_name UtMetadata) of
                 None \<Rightarrow> Inl (Panic ''unwrap of None'')
               | Some t \<Rightarrow> and_then (metadata_piece_bytes (word_of_nat t) i) (\<lambda>bs. Inr (Peer_send bs p)))))"

definition shutdown :: "Peer \<Rightarrow> Peer" where
  "shutdown p = p\<lparr> pe_runnable := False \<rparr>"

section \<open>Choke states and bit field\<close>

definition is_can_be_download :: "Peer \<Rightarrow> bool" where
  "is_can_be_download p \<longleftrightarrow> pe_status p = StUnChoke \<and> recv_bitfield p"

definition set_op_bitfield :: "bytes \<Rightarrow> Peer \<Rightarrow> Peer" where
  "set_op_bitfield bits p = p\<lparr> pe_op_bitfield := bits, recv_bitfield := True \<rparr>"

definition has_transfer_data :: "Peer \<Rightarrow> bool" where
  "has_transfer_data p \<longleftrightarrow>
     dom (response_pieces p) \<noteq> {} \<and> 0 < inflight (pe_dashbord p) \<or> pe_status p = StUnChoke \<and> \<not> recv_bitfield p"

definition has_send_window_space :: "Peer \<Rightarrow> bool" where
  "has_send_window_space p \<longleftrightarrow> inflight (pe_dashbord p) \<le> cwnd (pe_dashbord p)"

section \<open>Requested and received pieces\<close>

definition insert_response_pieces :: "nat \<Rightarrow> nat \<Rightarrow> nat \<Rightarrow> nat \<Rightarrow> Peer \<Rightarrow> Peer result" where
  "insert_response_pieces bs i off len p =
     and_then (Piece_new off len bs) (\<lambda>x. Inr (p\<lparr> response_pieces := (response_pieces p)(i \<mapsto> x) \<rparr>))"

definition reset_request_piece_origin :: "nat \<Rightarrow> nat \<Rightarrow> nat \<Rightarrow> nat \<Rightarrow> Peer \<Rightarrow> Peer result" where
  "reset_request_piece_origin bs i off len p =
     (if case request_pieces p i of Some origin \<Rightarrow> origin < off | None \<Rightarrow> False then Inr p
      else
        and_then (insert_response_pieces bs i off len p) (\<lambda>p.
          Inr (p\<lparr> request_pieces := (request_pieces p)(i \<mapsto> off) \<rparr>)))"

definition is_valid_piece_response :: "nat \<Rightarrow> Peer \<Rightarrow> bool" where
  "is_valid_piece_response i p \<longleftrightarrow> response_pieces p i \<noteq> None"

definition piece_recv_finish :: "nat \<Rightarrow> Peer \<Rightarrow> bool" where
  "piece_recv_finish i p = (case response_pieces p i of None \<Rightarrow> False | Some x \<Rightarrow> p_finish x)"

definition update_resoponse_piece :: "nat \<Rightarrow> nat \<Rightarrow> Peer \<Rightarrow> Peer result" where
  "update_resoponse_piece i off p =
     (case response_pieces p i of
        None \<Rightarrow> Inr p
      | Some x \<Rightarrow> and_then (Piece_add_finish off x) (\<lambda>x. Inr (p\<lparr> response_pieces := (response_pieces p)(i \<mapsto> x) \<rparr>)))"

definition get_seq_last_piece_block_offset :: "nat \<Rightarrow> Peer \<Rightarrow> nat option" where
  "get_seq_last_piece_block_offset i p = map_option p_block_offset (response_pieces p i)"

definition Peer_remove_finish_piece :: "nat \<Rightarrow> Peer \<Rightarrow> Peer" where
  "Peer_remove_finish_piece i p = p\<lparr> response_pieces := (response_pieces p)(i := None) \<rparr>"

section \<open>Extension protocol and metadata\<close>

definition extend_id_transform :: "u8 \<Rightarrow> Peer \<Rightarrow> u8 option" where
  "extend_id_transform i p = extend_id_map p i"

definition add_extend_id :: "u8 \<Rightarrow> ExtendedId \<Rightarrow> Peer \<Rightarrow> Peer" where
  "add_extend_id source target p = p\<lparr> extend_id_map := (extend_id_map p)(source \<mapsto> ExtendedId_get_value target) \<rparr>"

definition set_extend_handshake_data :: "HandshakeData \<Rightarrow> Peer \<Rightarrow> Peer result" where
  "set_extend_handshake_data h p =
     (case extend_handshake_data p of
        None \<Rightarrow> Inr (p\<lparr> extend_handshake_data := Some h \<rparr>)
      | Some _ \<Rightarrow> Inl (Err ''handshake data already set''))"

definition get_metadata_size :: "Peer \<Rightarrow> nat option" where
  "get_metadata_size p = (case extend_handshake_data p of None \<Rightarrow> None | Some h \<Rightarrow> hs_metadata_size h)"

definition init_metadata_piece :: "nat \<Rightarrow> Peer \<Rightarrow> Peer" where
  "init_metadata_piece sz p =
     (let p = (case pe_metadata p of None \<Rightarrow> p\<lparr> pe_metadata := Some (replicate sz 0) \<rparr> | Some _ \<Rightarrow> p) in
      case pe_metadata_bitfield p of
        None \<Rightarrow> p\<lparr> pe_metadata_bitfield := Some (replicate ((div_ceil sz METADATA_PIECE_SIZE + 7) div 8) 0) \<rparr>
      | Some _ \<Rightarrow> p)"

definition set_metadata_piece :: "nat \<Rightarrow> bytes \<Rightarrow> Peer \<Rightarrow> Peer result" where
  "set_metadata_piece i data p =
     (case pe_metadata p of
        None \<Rightarrow> Inl (Panic ''unwrap of None'')
      | Some md \<Rightarrow>
          let index = i * METADATA_PIECE_SIZE in
          if length md < index + length data then Inl (Err ''metadata piece out of range'')
          else
            let p = p\<lparr> pe_metadata := Some (overwrite md index data) \<rparr> in
            (case pe_metadata_bitfield p of
               None \<Rightarrow> Inl (Panic ''unwrap of None'')
             | Some bf \<Rightarrow>
                 let (idx, offset) = bitmap_offset i in
                 if length bf \<le> idx then Inl (Panic ''index out of bounds'')
                 else
                   let bf = bf[idx := bf ! idx OR offset];
                       (idx, offset) = bitmap_offset (wrap32 (metadata_piece_idx p)) in
                   if length bf < idx then Inl (Panic ''range start index out of range'')
                   else
                     Inr (p\<lparr> pe_metadata_bitfield := Some bf,
                            metadata_piece_idx := scan_bytes Suc (drop idx bf) offset (metadata_piece_idx p) \<rparr>)))"

definition is_metadata_complete :: "Peer \<Rightarrow> bool result" where
  "is_metadata_complete p =
     (case pe_metadata p of
        None \<Rightarrow> Inl (Panic ''unwrap of None'')
      | Some md \<Rightarrow> Inr (div_ceil (length md) METADATA_PIECE_SIZE \<le> metadata_piece_idx p))"

section \<open>Assembling the metadata\<close>

text \<open>The piece \<open>i\<close> of the metadata \<open>md\<close>, and the arrival of pieces in the given order.\<close>

definition metadata_chunk :: "bytes \<Rightarrow> nat \<Rightarrow> bytes" where
  "metadata_chunk md i = take METADATA_PIECE_SIZE (drop (i * METADATA_PIECE_SIZE) md)"

fun metadata_arrivals :: "bytes \<Rightarrow> nat list \<Rightarrow> Peer \<Rightarrow> Peer result" where
  "metadata_arrivals md [] p = Inr p"
| "metadata_arrivals md (i # is) p =
     and_then (set_metadata_piece i (metadata_chunk md i) p) (metadata_arrivals md is)"

definition md_inv :: "bytes \<Rightarrow> nat set \<Rightarrow> Peer \<Rightarrow> bool" where
  "md_inv md got p \<longleftrightarrow> (\<exists>m bf. pe_metadata p = Some m \<and> length m = length md
     \<and> (\<forall>i < length md. i div METADATA_PIECE_SIZE \<in> got \<longrightarrow> m ! i = md ! i)
     \<and> pe_metadata_bitfield p = Some bf \<and> length bf = (div_ceil (length md) METADATA_PIECE_SIZE + 7) div 8
     \<and> (\<forall>j. bitmap_has bf j \<longleftrightarrow> j \<in> got) \<and> metadata_piece_idx p = first_zero bf 0
     \<and> got \<subseteq> {..<div_ceil (length md) METADATA_PIECE_SIZE})"

lemma overwrite_chunk:
  assumes "length m = length md" and "\<forall>i < length md. i div METADATA_PIECE_SIZE \<in> got \<longrightarrow> m ! i = md ! i"
    and "k < div_ceil (length md) METADATA_PIECE_SIZE"
  defines "m' \<equiv> overwrite m (k * METADATA_PIECE_SIZE) (metadata_chunk md k)"
  shows "k * METADATA_PIECE_SIZE + length (metadata_chunk md k) \<le> length m"
    and "length m' = length md \<and> (\<forall>i < length md. i div METADATA_PIECE_SIZE \<in> insert k got \<longrightarrow> m' ! i = md ! i)"
proof -
  let ?s = METADATA_PIECE_SIZE
  have s: "0 < ?s" by (simp add: METADATA_PIECE_SIZE_def)
  have "k * ?s < length md" using assms(3) s by (simp add: less_div_ceil_iff)
  then show b: "k * ?s + length (metadata_chunk md k) \<le> length m" using assms(1) by (simp add: metadata_chunk_def)
  have "m' ! i = md ! i" if i: "i < length md" and d: "i div ?s \<in> insert k got" for i
  proof (cases "k * ?s \<le> i \<and> i < k * ?s + length (metadata_chunk md k)")
    case True
    then have "m' ! i = metadata_chunk md k ! (i - k * ?s)" using b i assms(1) by (simp add: m'_def nth_overwrite)
    also have "i - k * ?s < ?s" using True by (simp add: metadata_chunk_def min_def split: if_splits; linarith)
    then have "metadata_chunk md k ! (i - k * ?s) = md ! i" using True i by (simp add: metadata_chunk_def)
    finally show ?thesis .
  next
    case False
    have "i div ?s \<noteq> k"
    proof
      assume k: "i div ?s = k"
      then have "k * ?s \<le> i" using div_times_less_eq_dividend [of i ?s] by simp
      moreover have "i < k * ?s + ?s" using k s dividend_less_div_times [of ?s i] by simp
      ultimately show False using False i by (simp add: metadata_chunk_def)
    qed
    then show ?thesis using False b i d assms(1,2) by (auto simp: m'_def nth_overwrite)
  qed
  then show "length m' = length md \<and> (\<forall>i < length md. i div ?s \<in> insert k got \<longrightarrow> m' ! i = md ! i)"
    using b assms(1) by (simp add: m'_def length_overwrite)
qed

lemma md_inv_init:
  assumes "pe_metadata p = None" and "pe_metadata_bitfield p = None" and "metadata_piece_idx p = 0"
  shows "md_inv md {} (init_metadata_piece (length md) p)"
proof -
  have "first_zero (replicate n 0) 0 = 0" for n by (rule first_zero_eqI) auto
  then show ?thesis using assms by (simp add: md_inv_def init_metadata_piece_def)
qed

lemma md_inv_set:
  assumes inv: "md_inv md got p" and k: "k < div_ceil (length md) METADATA_PIECE_SIZE" and len: "length md < 2 ^ 32"
  shows "\<exists>p'. set_metadata_piece k (metadata_chunk md k) p = Inr p' \<and> md_inv md (insert k got) p'"
proof -
  let ?N = "div_ceil (length md) METADATA_PIECE_SIZE"
  obtain m bf where m: "pe_metadata p = Some m" "length m = length md"
      "\<forall>i < length md. i div METADATA_PIECE_SIZE \<in> got \<longrightarrow> m ! i = md ! i"
    and bf: "pe_metadata_bitfield p = Some bf" "length bf = (?N + 7) div 8" "\<And>j. bitmap_has bf j \<longleftrightarrow> j \<in> got"
      "metadata_piece_idx p = first_zero bf 0" "got \<subseteq> {..<?N}" using inv unfolding md_inv_def by blast
  note oc = overwrite_chunk [OF m(2,3) k]
  define bf' where "bf' = bitmap_put bf k"
  define q where "q = first_zero bf 0"
  have N: "?N \<le> 8 * length bf" using bf(2) by linarith
  have has': "bitmap_has bf' j \<longleftrightarrow> j \<in> insert k got" for j using k N by (auto simp: bf'_def bm.has_put bf(3))
  have idx: "k div 8 < length bf" using k N by linarith
  have "?N \<le> length md" by (simp add: div_ceil_le_iff METADATA_PIECE_SIZE_def)
  moreover have "q \<le> ?N" unfolding q_def using bf(3,5) by (intro first_zero_le) auto
  ultimately have q: "q < 2 ^ 32" "q div 8 \<le> length bf" using len N by linarith+
  have "first_zero bf' q = first_zero bf' 0"
  proof (rule first_zero_eqI)
    show "q \<le> first_zero bf' 0"
      by (simp add: le_first_zero_iff has') (metis bf(3) first_zero_set le0 q_def)
    show "\<not> bitmap_has bf' (first_zero bf' 0)" by (rule first_zero_unset)
    show "bitmap_has bf' j" if "q \<le> j" "j < first_zero bf' 0" for j using that(2) by (intro first_zero_set [of 0]) auto
  qed
  moreover have "(Suc ^^ n) x = x + n" for n x by (induction n) auto
  moreover have "q \<le> first_zero bf' q" by (rule first_zero_ge)
  ultimately have scan: "scan_bytes Suc (drop (q div 8) bf') (2 ^ (7 - q mod 8)) q = first_zero bf' 0"
    using scan_bytes_first_zero [of Suc q bf' q] by simp
  have put: "bf[k div 8 := bf ! (k div 8) OR 2 ^ (7 - k mod 8)] = bf'" and l: "length bf' = length bf"
    using idx by (simp_all add: bf'_def bitmap_put_def bitmap_offset_def)
  let ?m' = "overwrite m (k * METADATA_PIECE_SIZE) (metadata_chunk md k)"
  have "set_metadata_piece k (metadata_chunk md k) p =
      Inr (p\<lparr> pe_metadata := Some ?m', pe_metadata_bitfield := Some bf', metadata_piece_idx := first_zero bf' 0 \<rparr>)"
    using m(1) bf(1,4) oc(1) idx q scan
    by (simp add: set_metadata_piece_def Let_def bitmap_offset_def put l q_def [symmetric])
  moreover have "md_inv md (insert k got) (p\<lparr> pe_metadata := Some ?m', pe_metadata_bitfield := Some bf',
      metadata_piece_idx := first_zero bf' 0 \<rparr>)"
    using oc(2) bf(2,5) has' k by (simp add: md_inv_def bf'_def)
  ultimately show ?thesis by blast
qed

lemma md_inv_arrivals:
  assumes "md_inv md got p" and "\<forall>k \<in> set ks. k < div_ceil (length md) METADATA_PIECE_SIZE" and "length md < 2 ^ 32"
  shows "\<exists>p'. metadata_arrivals md ks p = Inr p' \<and> md_inv md (got \<union> set ks) p'"
  using assms
proof (induction ks arbitrary: got p)
  case (Cons k ks)
  obtain q where "set_metadata_piece k (metadata_chunk md k) p = Inr q" "md_inv md (insert k got) q"
    using md_inv_set [OF Cons.prems(1) _ assms(3), of k] Cons.prems(2) by auto
  then show ?case using Cons.IH [of "insert k got" q] Cons.prems(2,3) by auto
qed simp

lemma md_inv_complete:
  assumes "md_inv md got p"
  shows "is_metadata_complete p = Inr ({..<div_ceil (length md) METADATA_PIECE_SIZE} \<subseteq> got)"
    and "{..<div_ceil (length md) METADATA_PIECE_SIZE} \<subseteq> got \<Longrightarrow> pe_metadata p = Some md"
proof -
  let ?N = "div_ceil (length md) METADATA_PIECE_SIZE"
  obtain m bf where m: "pe_metadata p = Some m" "length m = length md"
      "\<forall>i < length md. i div METADATA_PIECE_SIZE \<in> got \<longrightarrow> m ! i = md ! i"
    and bf: "\<And>j. bitmap_has bf j \<longleftrightarrow> j \<in> got" "metadata_piece_idx p = first_zero bf 0"
    using assms unfolding md_inv_def by blast
  show "is_metadata_complete p = Inr ({..<?N} \<subseteq> got)"
    using m(1,2) bf by (auto simp: is_metadata_complete_def le_first_zero_iff)
  have "i div METADATA_PIECE_SIZE < ?N" if "i < length md" for i
  proof -
    have "i div METADATA_PIECE_SIZE * METADATA_PIECE_SIZE < length md"
      using that div_times_less_eq_dividend [of i METADATA_PIECE_SIZE] by linarith
    then show ?thesis by (simp add: less_div_ceil_iff METADATA_PIECE_SIZE_def)
  qed
  then show "pe_metadata p = Some md" if "{..<?N} \<subseteq> got"
    using that m by (auto intro!: nth_equalityI) (meson lessThan_iff subsetD)
qed

section \<open>Properties\<close>

text \<open>
  C23. The pieces of the metadata may arrive in any order and more than once: no arrival fails, the
  metadata is reported complete exactly when every piece has arrived, and then it is the metadata that
  was cut into the pieces.
\<close>

theorem metadata_assembled:
  assumes "\<forall>k \<in> set ks. k < div_ceil (length md) METADATA_PIECE_SIZE" and "length md < 2 ^ 32"
  shows "\<exists>p'. metadata_arrivals md ks (init_metadata_piece (length md) (Peer_new i d r)) = Inr p'
    \<and> is_metadata_complete p' = Inr ({..<div_ceil (length md) METADATA_PIECE_SIZE} \<subseteq> set ks)
    \<and> (is_metadata_complete p' = Inr True \<longrightarrow> pe_metadata p' = Some md)"
proof -
  have "md_inv md {} (init_metadata_piece (length md) (Peer_new i d r))"
    by (rule md_inv_init) (simp_all add: Peer_new_def)
  from md_inv_arrivals [OF this assms] obtain p' where
    p: "metadata_arrivals md ks (init_metadata_piece (length md) (Peer_new i d r)) = Inr p'" "md_inv md (set ks) p'"
    by auto
  then show ?thesis using md_inv_complete [OF p(2)] by auto
qed

theorem metadata_assembled_witness:
  "\<exists>p'. metadata_arrivals [1, 2, 3] [0, 0] (init_metadata_piece (length [1 :: u8, 2, 3]) (Peer_new 7 Dashbord_new 0)) = Inr p'
    \<and> is_metadata_complete p' = Inr ({..<div_ceil (length [1 :: u8, 2, 3]) METADATA_PIECE_SIZE} \<subseteq> set [0, 0])
    \<and> (is_metadata_complete p' = Inr True \<longrightarrow> pe_metadata p' = Some [1, 2, 3])"
  by (rule metadata_assembled) (simp_all add: div_ceil_def METADATA_PIECE_SIZE_def)

end
