(* ===== verification/Torrent.thy ===== *)
theory Torrent
  imports Bytes_Util
begin

text \<open>
  The data model of a torrent and its piece arithmetic (\<^verbatim>\<open>bt/torrent.rs\<close>): the number and the
  lengths of the info_pieces, and the translation of a range inside a piece to ranges of the
  files the torrent consists of (\<^verbatim>\<open>calculate_file_piece\<close>, \<^verbatim>\<open>find_file_of_piece_index\<close>).
  Decoding a torrent from bencode is in the theory \<open>Torrent_Parse\<close>.
\<close>

section \<open>Paths and binary search\<close>

text \<open>\<^verbatim>\<open>PathBuf::push\<close>, \<^verbatim>\<open>Path::join\<close> and \<^verbatim>\<open>collect::<PathBuf>\<close> of the standard library on Unix.\<close>

definition path_push :: "string \<Rightarrow> string \<Rightarrow> string" where
  "path_push self p =
     (if p \<noteq> [] \<and> hd p = CHR ''/'' then p
      else if self \<noteq> [] \<and> last self \<noteq> CHR ''/'' then self @ ''/'' @ p
      else self @ p)"

definition path_collect :: "string list \<Rightarrow> string" where
  "path_collect ps = foldl path_push [] ps"

text \<open>\<^verbatim>\<open>slice::partition_point\<close>: the binary search of the standard library.\<close>

function partition_loop :: "('a \<Rightarrow> bool) \<Rightarrow> 'a list \<Rightarrow> nat \<Rightarrow> nat \<Rightarrow> nat" where
  "partition_loop P xs base sz =
     (if sz \<le> 1 then base
      else let half = sz div 2; mid = base + half
           in partition_loop P xs (if P (xs ! mid) then mid else base) (sz - half))"
  by pat_completeness auto
termination
  by (relation "measure (\<lambda>(P, xs, base, sz). sz)") auto

declare partition_loop.simps [simp del]

definition partition_point :: "('a \<Rightarrow> bool) \<Rightarrow> 'a list \<Rightarrow> nat" where
  "partition_point P xs =
     (if xs = [] then 0
      else let base = partition_loop P xs 0 (length xs)
           in if P (xs ! base) then base + 1 else base)"

section \<open>Data\<close>

record File =
  file_length :: nat
  file_path :: "string list"
  length_prefix_sum :: nat
  file_md5sum :: "string option"

record Info =
  info_length :: nat
  info_piece_length :: nat
  info_pieces :: bytes
  info_name :: string
  info_files :: "File list"
  info_md5sum :: "string option"
  info_private :: "nat option"
  file_piece :: "(nat \<times> nat) list"

record Torrent =
  announce :: string
  announce_list :: "string list list"
  created_by :: "string option"
  creation_date :: nat
  info :: Info
  info_hash :: bytes
  comment :: "string option"
  encoding :: "string option"

record BlockInfo =
  bi_filepath :: string
  bi_start :: nat
  bi_len :: nat
  bi_file_len :: nat

definition File_new :: "nat \<Rightarrow> string list \<Rightarrow> string option \<Rightarrow> File" where
  "File_new l p m = \<lparr> file_length = l, file_path = p, length_prefix_sum = 0, file_md5sum = m \<rparr>"

definition Torrent_new :: "Info \<Rightarrow> bytes \<Rightarrow> string list \<Rightarrow> Torrent" where
  "Torrent_new i h announces =
     \<lparr> announce = [], announce_list = [announces], created_by = None, creation_date = 0,
       info = i, info_hash = h, comment = None, encoding = None \<rparr>"

definition get_trackers :: "Torrent \<Rightarrow> string list list" where
  "get_trackers t = [announce t] # announce_list t"

section \<open>Operations\<close>

definition piece_num :: "Torrent \<Rightarrow> nat" where
  "piece_num t = length (info_pieces (info t)) div 20"

definition bitfield_len :: "Torrent \<Rightarrow> nat" where
  "bitfield_len t = (piece_num t + 7) div 8"

text \<open>
  \<^verbatim>\<open>Torrent::piece_length\<close>: the product is a 64-bit one, the subtraction saturates and the
  result is cut to 32 bits.
\<close>

definition Torrent_piece_length :: "Torrent \<Rightarrow> nat \<Rightarrow> nat" where
  "Torrent_piece_length t piece_idx =
     (let pl = info_piece_length (info t); rl = info_length (info t)
      in wrap32 (min pl (rl - wrap64 (piece_idx * pl))))"

text \<open>
  The loop of \<^verbatim>\<open>calculate_file_piece\<close>; the state is \<^verbatim>\<open>sum\<close> and \<^verbatim>\<open>prev\<close>, the result the updated
  files and the pairs of first and last piece of each file.
\<close>

primrec file_piece_loop :: "nat \<Rightarrow> File list \<Rightarrow> nat \<Rightarrow> nat \<Rightarrow> (File list \<times> (nat \<times> nat) list) result" where
  "file_piece_loop pl [] acc prev = Inr ([], [])"
| "file_piece_loop pl (f # fs) acc prev =
     (if pl = 0 then Inl (Panic ''attempt to calculate the remainder with a divisor of zero'')
      else
        let first = wrap64 (prev + (if acc mod pl = 0 then 1 else 0));
            acc' = wrap64 (acc + file_length f);
            fin = div_ceil acc' pl
        in and_then (file_piece_loop pl fs acc' fin) (\<lambda>(fs', fps).
           Inr (f\<lparr> length_prefix_sum := acc' \<rparr> # fs',
                (sub32 (wrap32 first) 1, sub32 (wrap32 fin) 1) # fps)))"

definition calculate_file_piece :: "File list \<Rightarrow> nat \<Rightarrow> (File list \<times> (nat \<times> nat) list) result" where
  "calculate_file_piece fs pl = file_piece_loop pl fs 0 0"

definition Info_new ::
  "string \<Rightarrow> nat \<Rightarrow> nat \<Rightarrow> bytes \<Rightarrow> File list \<Rightarrow> string option \<Rightarrow> nat option \<Rightarrow> Info result" where
  "Info_new nm l pl ps fs m pr =
     and_then (calculate_file_piece fs pl) (\<lambda>(fs', fp).
     Inr \<lparr> info_length = l, info_piece_length = pl, info_pieces = ps, info_name = nm, info_files = fs',
           info_md5sum = m, info_private = pr, file_piece = fp \<rparr>)"

text \<open>
  The loop over the candidate files \<^verbatim>\<open>m_low..n_high\<close> of \<^verbatim>\<open>find_file_of_piece_index\<close>; its list
  argument holds the files at these indices.
\<close>

definition block_filepath :: "string \<Rightarrow> string \<Rightarrow> File \<Rightarrow> string" where
  "block_filepath root nm f = path_push (path_push root nm) (path_collect (file_path f))"

primrec block_loop :: "(File \<Rightarrow> string) \<Rightarrow> nat \<Rightarrow> nat \<Rightarrow> File list \<Rightarrow> nat \<Rightarrow> BlockInfo list" where
  "block_loop fpath begin finish [] left = []"
| "block_loop fpath begin finish (f # fs) left =
     (let lps = length_prefix_sum f; lo = sub64 lps (file_length f)
      in if begin \<le> lps \<and> lo < finish then
           let st = (if begin \<le> lo then 0 else begin - lo);
               ln = min (if finish \<le> lps then finish - lo else sub64 (file_length f) st) left
           in \<lparr> bi_filepath = fpath f, bi_start = st, bi_len = ln, bi_file_len = file_length f \<rparr>
              # block_loop fpath begin finish fs (left - ln)
         else block_loop fpath begin finish fs left)"

definition find_file_of_piece_index :: "Info \<Rightarrow> string \<Rightarrow> nat \<Rightarrow> nat \<Rightarrow> nat \<Rightarrow> BlockInfo list result" where
  "find_file_of_piece_index i root piece_index offset ln =
     (if file_piece i = [] then
        Inr [\<lparr> bi_filepath = path_push root (info_name i),
               bi_start = wrap64 (wrap64 (piece_index * info_piece_length i) + offset),
               bi_len = ln, bi_file_len = info_length i \<rparr>]
      else
        let m_low = partition_point (\<lambda>(_, r). r < piece_index) (file_piece i);
            n_high = partition_point (\<lambda>(l, _). l \<le> piece_index) (file_piece i);
            begin = wrap64 (wrap64 (piece_index * info_piece_length i) + offset);
            finish = wrap64 (begin + ln)
        in if m_low < n_high \<and> length (info_files i) < n_high then Inl (Panic ''index out of bounds'')
           else Inr (block_loop (block_filepath root (info_name i)) begin finish
                      (drop m_low (take n_high (info_files i))) ln))"

section \<open>Binary search\<close>

text \<open>A list is partitioned when the elements that satisfy the predicate come first.\<close>

definition partitioned :: "('a \<Rightarrow> bool) \<Rightarrow> 'a list \<Rightarrow> bool" where
  "partitioned P xs \<longleftrightarrow> (\<forall>i j. i \<le> j \<longrightarrow> j < length xs \<longrightarrow> P (xs ! j) \<longrightarrow> P (xs ! i))"

lemma partition_loop_inv:
  assumes "partitioned P xs" and "0 < sz" and "base + sz \<le> length xs"
    and "base = 0 \<or> P (xs ! base)" and "\<forall>j. base + sz \<le> j \<longrightarrow> j < length xs \<longrightarrow> \<not> P (xs ! j)"
  shows "let b = partition_loop P xs base sz
    in b < length xs \<and> (b = 0 \<or> P (xs ! b)) \<and> (\<forall>j. b < j \<longrightarrow> j < length xs \<longrightarrow> \<not> P (xs ! j))"
  using assms
proof (induction P xs base sz rule: partition_loop.induct)
  case (1 P xs base sz)
  show ?case
  proof (cases "sz \<le> 1")
    case True
    then show ?thesis using "1.prems" by (subst partition_loop.simps) (auto simp: Let_def)
  next
    case False
    define half where "half = sz div 2"
    have h: "0 < half" "half < sz" "half \<le> sz - half" using False by (auto simp: half_def)
    define base' where "base' = (if P (xs ! (base + half)) then base + half else base)"
    have unfold: "partition_loop P xs base sz = partition_loop P xs base' (sz - half)"
      using False by (subst partition_loop.simps) (simp add: Let_def half_def base'_def)
    have fails: "\<not> P (xs ! j)" if "base' + (sz - half) \<le> j" "j < length xs" for j
    proof (cases "P (xs ! (base + half))")
      case True
      then show ?thesis using that h "1.prems"(5) by (simp add: base'_def)
    next
      case False
      have "base + half \<le> j" using False that(1) h by (simp add: base'_def)
      then show ?thesis using False that "1.prems"(1) unfolding partitioned_def by blast
    qed
    have "let b = partition_loop P xs base' (sz - half)
      in b < length xs \<and> (b = 0 \<or> P (xs ! b)) \<and> (\<forall>j. b < j \<longrightarrow> j < length xs \<longrightarrow> \<not> P (xs ! j))"
    proof (rule "1.IH" [OF False half_def refl, folded base'_def])
      show "partitioned P xs" and "0 < sz - half" using "1.prems" h by simp_all
      show "base' + (sz - half) \<le> length xs" using "1.prems"(3) h
        by (cases "P (xs ! (base + half))") (simp_all add: base'_def)
      show "base' = 0 \<or> P (xs ! base')" using "1.prems"(4) by (simp add: base'_def)
      show "\<forall>j. base' + (sz - half) \<le> j \<longrightarrow> j < length xs \<longrightarrow> \<not> P (xs ! j)" using fails by blast
    qed
    then show ?thesis by (simp only: unfold)
  qed
qed

lemma partition_point_boundary:
  assumes "partitioned P xs"
  shows "partition_point P xs \<le> length xs"
    and "i < partition_point P xs \<Longrightarrow> P (xs ! i)"
    and "partition_point P xs \<le> i \<Longrightarrow> i < length xs \<Longrightarrow> \<not> P (xs ! i)"
proof -
  define b where "b = partition_loop P xs 0 (length xs)"
  have b: "b < length xs \<and> (b = 0 \<or> P (xs ! b)) \<and> (\<forall>j. b < j \<longrightarrow> j < length xs \<longrightarrow> \<not> P (xs ! j))"
    if "xs \<noteq> []"
    using partition_loop_inv [OF assms, of "length xs" 0] that by (simp add: Let_def b_def)
  have mono: "i \<le> j \<Longrightarrow> j < length xs \<Longrightarrow> P (xs ! j) \<Longrightarrow> P (xs ! i)" for i j
    using assms by (auto simp: partitioned_def)
  show "partition_point P xs \<le> length xs"
    using b by (auto simp: partition_point_def Let_def b_def)
  show "i < partition_point P xs \<Longrightarrow> P (xs ! i)"
    using b mono [of i b] by (auto simp: partition_point_def Let_def b_def [symmetric] split: if_splits)
  show "partition_point P xs \<le> i \<Longrightarrow> i < length xs \<Longrightarrow> \<not> P (xs ! i)"
    using b by (cases "i = b") (auto simp: partition_point_def Let_def b_def [symmetric] split: if_splits)
qed

lemma partition_point_eq:
  assumes "partitioned P xs"
  shows "partition_point P xs = length (takeWhile P xs)"
proof -
  note pp = partition_point_boundary [OF assms]
  let ?n = "partition_point P xs"
  have "take ?n xs = takeWhile P xs"
  proof (rule takeWhile_eq_take_P_nth [symmetric])
    show "\<And>i. i < ?n \<Longrightarrow> i < length xs \<Longrightarrow> P (xs ! i)" using pp(2) by blast
    show "?n < length xs \<Longrightarrow> \<not> P (xs ! ?n)" using pp(3) by blast
  qed
  then show ?thesis using pp(1) by (metis length_take min.absorb2)
qed

section \<open>Prefix sums\<close>

definition prefix_sum :: "File list \<Rightarrow> nat \<Rightarrow> nat" where
  "prefix_sum fs k = sum_list (map file_length (take k fs))"

lemma prefix_sum_0 [simp]: "prefix_sum fs 0 = 0"
  by (simp add: prefix_sum_def)

lemma prefix_sum_Cons [simp]: "prefix_sum (f # fs) (Suc k) = file_length f + prefix_sum fs k"
  by (simp add: prefix_sum_def)

lemma prefix_sum_Suc: "k < length fs \<Longrightarrow> prefix_sum fs (Suc k) = prefix_sum fs k + file_length (fs ! k)"
  by (simp add: prefix_sum_def take_Suc_conv_app_nth)

lemma prefix_sum_mono: "i \<le> j \<Longrightarrow> prefix_sum fs i \<le> prefix_sum fs j"
proof -
  assume "i \<le> j"
  then have "take j fs = take i fs @ take (j - i) (drop i fs)"
    by (metis le_add_diff_inverse take_add)
  then show ?thesis by (simp add: prefix_sum_def)
qed

lemma prefix_sum_all: "length fs \<le> k \<Longrightarrow> prefix_sum fs k = sum_list (map file_length fs)"
  by (simp add: prefix_sum_def)

lemma sub32_wrap32_Suc: "n < 2 ^ 32 \<Longrightarrow> sub32 (wrap32 (Suc n)) 1 = n"
  by (cases "Suc n = 2 ^ 32") (auto simp: wrap32_def sub32_def)

lemma div_ceil_first: "0 < pl \<Longrightarrow> div_ceil acc pl + (if acc mod pl = 0 then 1 else 0) = Suc (acc div pl)"
  by (simp add: div_ceil_def)

lemma div_le_div_ceil: "0 < b \<Longrightarrow> a \<le> c \<Longrightarrow> a div b \<le> div_ceil c b"
  unfolding div_ceil_def by (meson div_le_mono trans_le_add1)

text \<open>
  What the loop computes: file \<open>k\<close> occupies the bytes from the prefix sum at \<open>k\<close> to the one at
  \<open>k + 1\<close>, and the pieces from the one its first byte lies in to the one before the rounded-up end.
\<close>

lemma file_piece_loop_spec:
  assumes "0 < pl" and "acc + sum_list (map file_length fs) < 2 ^ 64"
    and "div_ceil (acc + sum_list (map file_length fs)) pl < 2 ^ 32"
  shows "\<exists>fs' fps. file_piece_loop pl fs acc (div_ceil acc pl) = Inr (fs', fps)
    \<and> length fs' = length fs \<and> length fps = length fs
    \<and> (\<forall>k < length fs. fs' ! k = (fs ! k)\<lparr>length_prefix_sum := acc + prefix_sum fs (Suc k)\<rparr>
         \<and> fps ! k = ((acc + prefix_sum fs k) div pl, sub32 (div_ceil (acc + prefix_sum fs (Suc k)) pl) 1))"
  using assms
proof (induction fs arbitrary: acc)
  case Nil
  then show ?case by simp
next
  case (Cons f fs)
  define acc' where "acc' = acc + file_length f"
  have small: "acc' < 2 ^ 64" using Cons.prems(2) by (simp add: acc'_def)
  have "acc' \<le> acc + sum_list (map file_length (f # fs))" by (simp add: acc'_def)
  then have fin: "div_ceil acc' pl < 2 ^ 32"
    using div_ceil_mono [OF Cons.prems(1)] Cons.prems(3) by (meson le_less_trans)
  have q: "acc div pl < 2 ^ 32"
    using div_le_div_ceil [OF Cons.prems(1), of acc acc'] fin by (simp add: acc'_def)
  have first: "sub32 (wrap32 (wrap64 (div_ceil acc pl + (if acc mod pl = 0 then 1 else 0)))) 1 = acc div pl"
  proof -
    have "wrap64 (Suc (acc div pl)) = Suc (acc div pl)" using q by (intro wrap64_small) simp
    then show ?thesis
      using div_ceil_first [OF Cons.prems(1), of acc] sub32_wrap32_Suc [OF q] by simp
  qed
  from Cons.IH [of acc'] Cons.prems obtain fs' fps where
    r: "file_piece_loop pl fs acc' (div_ceil acc' pl) = Inr (fs', fps)"
    and l: "length fs' = length fs" "length fps = length fs"
    and e: "\<forall>k < length fs. fs' ! k = (fs ! k)\<lparr>length_prefix_sum := acc' + prefix_sum fs (Suc k)\<rparr>
         \<and> fps ! k = ((acc' + prefix_sum fs k) div pl, sub32 (div_ceil (acc' + prefix_sum fs (Suc k)) pl) 1)"
    by (auto simp: acc'_def algebra_simps)
  have "file_piece_loop pl (f # fs) acc (div_ceil acc pl) =
      Inr (f\<lparr>length_prefix_sum := acc'\<rparr> # fs', (acc div pl, sub32 (div_ceil acc' pl) 1) # fps)"
    using Cons.prems(1) small fin r first by (simp add: Let_def acc'_def)
  moreover have "(f\<lparr>length_prefix_sum := acc'\<rparr> # fs') ! k
        = ((f # fs) ! k)\<lparr>length_prefix_sum := acc + prefix_sum (f # fs) (Suc k)\<rparr>
      \<and> ((acc div pl, sub32 (div_ceil acc' pl) 1) # fps) ! k
        = ((acc + prefix_sum (f # fs) k) div pl, sub32 (div_ceil (acc + prefix_sum (f # fs) (Suc k)) pl) 1)"
    if "k < length (f # fs)" for k
    using that e by (cases k) (simp_all add: acc'_def add.assoc)
  ultimately show ?case using l by simp
qed

section \<open>From piece ranges to file ranges\<close>

text \<open>What a client reads through a list of block descriptors, for a file system \<open>fs\<close>.\<close>

definition read_block :: "(string \<Rightarrow> bytes) \<Rightarrow> BlockInfo \<Rightarrow> bytes" where
  "read_block fs b = take (bi_len b) (drop (bi_start b) (fs (bi_filepath b)))"

definition read_blocks :: "(string \<Rightarrow> bytes) \<Rightarrow> BlockInfo list \<Rightarrow> bytes" where
  "read_blocks fs bs = concat (map (read_block fs) bs)"

lemma read_blocks_simps [simp]:
  "read_blocks fs [] = []"
  "read_blocks fs (b # bs) = read_block fs b @ read_blocks fs bs"
  by (simp_all add: read_blocks_def)

text \<open>Files with consecutive prefix sums from \<open>s\<close> on.\<close>

fun prefix_ok :: "nat \<Rightarrow> File list \<Rightarrow> bool" where
  "prefix_ok s [] = True"
| "prefix_ok s (f # fs) = (length_prefix_sum f = s + file_length f \<and> prefix_ok (s + file_length f) fs)"

lemma block_loop_beyond:
  assumes "prefix_ok s fs" and "e \<le> s"
  shows "read_blocks fsys (block_loop fp b e fs l) = []"
  using assms by (induction fs arbitrary: s) (auto simp: Let_def)

lemma block_loop_read:
  assumes "prefix_ok s fs" and "\<forall>f \<in> set fs. length (fsys (fp f)) = file_length f" and "b \<le> e"
  shows "read_blocks fsys (block_loop fp b e fs (e - max b s)) =
    take (e - max b s) (drop (b - s) (concat (map (fsys \<circ> fp) fs)))"
  using assms(1,2)
proof (induction fs arbitrary: s)
  case Nil
  then show ?case by simp
next
  case (Cons f fs)
  define L where "L = file_length f"
  define rest where "rest = concat (map (fsys \<circ> fp) fs)"
  have lps: "length_prefix_sum f = s + L" and lo: "sub64 (s + L) L = s" and len: "length (fsys (fp f)) = L"
    and ok: "prefix_ok (s + L) fs"
    using Cons.prems by (simp_all add: L_def)
  note IH = Cons.IH [OF ok, folded rest_def]
  consider (before) "s + L < b" | (beyond) "e \<le> s" | (ends) "b \<le> s + L" "s < e" "e \<le> s + L"
    | (through) "b \<le> s + L" "s + L < e" by linarith
  then show ?case
  proof cases
    case before
    then have "e - max b s = e - max b (s + L)" by simp
    then show ?thesis
      using before Cons.prems(2) IH
      by (simp add: lps lo L_def [symmetric] rest_def comp_def len Let_def)
  next
    case beyond
    then have "e - max b s = 0" using assms(3) by simp
    then show ?thesis using block_loop_beyond [OF Cons.prems(1) beyond] by simp
  next
    case ends
    have "min (e - s) (e - max b s) = e - max b s" by simp
    then have "read_blocks fsys (block_loop fp b e (f # fs) (e - max b s)) =
        take (e - max b s) (drop (b - s) (fsys (fp f)))"
      using ends block_loop_beyond [OF ok ends(3)]
      by (auto simp: lps lo L_def [symmetric] Let_def read_block_def)
    moreover have "e - max b s - (L - (b - s)) = 0" using ends by linarith
    ultimately show ?thesis by (simp add: len)
  next
    case through
    have l: "min (L - (b - s)) (e - max b s) = L - (b - s)"
      and l': "e - max b s - (L - (b - s)) = e - max b (s + L)" using through by linarith+
    have st: "(if b \<le> s then 0 else b - s) = b - s" "\<not> e \<le> s + L" "s < e" "sub64 L (b - s) = L - (b - s)" using through by simp_all
    then have "block_loop fp b e (f # fs) (e - max b s) =
        \<lparr> bi_filepath = fp f, bi_start = b - s, bi_len = L - (b - s), bi_file_len = L \<rparr> # block_loop fp b e fs (e - max b (s + L))"
      using through(1) l l' by (simp only: block_loop.simps Let_def lps lo L_def [symmetric]) simp
    then have "read_blocks fsys (block_loop fp b e (f # fs) (e - max b s)) =
        take (L - (b - s)) (drop (b - s) (fsys (fp f))) @ take (e - max b (s + L)) (drop (b - (s + L)) rest)"
      using IH Cons.prems(2) by (simp add: read_block_def)
    moreover have "b - (s + L) = 0" "b - s - L = 0" using through by simp_all
    ultimately show ?thesis using l' through by (simp add: len rest_def comp_def)
  qed
qed

text \<open>The result of \<^verbatim>\<open>Info::new\<close> on a list of files that fits the integer types.\<close>

lemma Info_new_files:
  assumes "0 < pl" and "sum_list (map file_length fs) < 2 ^ 64"
    and "div_ceil (sum_list (map file_length fs)) pl < 2 ^ 32"
  shows "\<exists>i. Info_new nm l pl ps fs md pr = Inr i \<and> info_name i = nm \<and> info_length i = l
    \<and> info_piece_length i = pl \<and> info_pieces i = ps
    \<and> length (info_files i) = length fs \<and> length (file_piece i) = length fs
    \<and> (\<forall>k < length fs. info_files i ! k = (fs ! k)\<lparr>length_prefix_sum := prefix_sum fs (Suc k)\<rparr>
         \<and> file_piece i ! k = (prefix_sum fs k div pl, sub32 (div_ceil (prefix_sum fs (Suc k)) pl) 1))"
  using file_piece_loop_spec [OF assms(1), of 0 fs] assms(2,3)
  by (auto simp: Info_new_def calculate_file_piece_def)

lemma prefix_ok_nth:
  assumes "\<And>k. k < length fs \<Longrightarrow> length_prefix_sum (fs ! k) = s + prefix_sum fs (Suc k)"
  shows "prefix_ok s fs"
  using assms
proof (induction fs arbitrary: s)
  case Nil
  then show ?case by simp
next
  case (Cons f fs)
  have "length_prefix_sum (fs ! k) = (s + file_length f) + prefix_sum fs (Suc k)" if "k < length fs" for k
    using Cons.prems [of "Suc k"] that by (simp add: add.assoc)
  then show ?case using Cons.IH Cons.prems [of 0] by simp
qed

lemma prefix_sum_drop: "prefix_sum (drop m fs) k + prefix_sum fs m = prefix_sum fs (m + k)"
  by (simp add: prefix_sum_def take_add)

lemma prefix_sum_take: "k \<le> n \<Longrightarrow> prefix_sum (take n fs) k = prefix_sum fs k"
  by (simp add: prefix_sum_def min_def)

lemma length_concat_files:
  "\<forall>f \<in> set fs. length (g f) = file_length f \<Longrightarrow> length (concat (map g fs)) = sum_list (map file_length fs)"
  by (induction fs) auto

lemma file_bounds_partitioned:
  assumes "0 < pl" and "length fp = length fs" and "0 < file_length (hd fs)" and "fs \<noteq> []"
    and "\<forall>k < length fs. fp ! k = (prefix_sum fs k div pl, sub32 (div_ceil (prefix_sum fs (Suc k)) pl) 1)"
  shows "partitioned (\<lambda>(_, r). r < x) fp" and "partitioned (\<lambda>(l, _). l \<le> x) fp"
    and "\<And>k. k < length fs \<Longrightarrow> snd (fp ! k) = div_ceil (prefix_sum fs (Suc k)) pl - 1"
    and "\<And>k. k < length fs \<Longrightarrow> 0 < div_ceil (prefix_sum fs (Suc k)) pl"
proof -
  have pos: "0 < prefix_sum fs (Suc k)" for k
    using assms(3,4) by (cases fs) auto
  show dpos: "0 < div_ceil (prefix_sum fs (Suc k)) pl" for k
    using pos [of k] less_div_ceil_iff [OF assms(1), of 0] by simp
  show r: "snd (fp ! k) = div_ceil (prefix_sum fs (Suc k)) pl - 1" if "k < length fs" for k
    using assms(5) that dpos [of k] by (simp add: Suc_le_eq)
  have "snd (fp ! i) \<le> snd (fp ! j)" if "i \<le> j" "j < length fs" for i j
    using r [of i] r [of j] that div_ceil_mono [OF assms(1) prefix_sum_mono, of "Suc i" "Suc j" fs]
    by (simp add: diff_le_mono)
  moreover have "fst (fp ! i) \<le> fst (fp ! j)" if "i \<le> j" "j < length fs" for i j
    using assms(5) that by (simp add: div_le_mono prefix_sum_mono)
  ultimately show "partitioned (\<lambda>(_, r). r < x) fp" and "partitioned (\<lambda>(l, _). l \<le> x) fp"
    unfolding partitioned_def using assms(2) by (simp_all add: case_prod_unfold) (meson le_less_trans le_trans)+
qed

text \<open>The files between the two binary searches cover the range.\<close>

lemma block_loop_range:
  assumes ok: "\<And>k. k < length fs \<Longrightarrow> length_prefix_sum (fs ! k) = prefix_sum fs (Suc k)"
    and len: "\<forall>f \<in> set fs. length (fsys (fp f)) = file_length f"
    and m: "m \<le> n" "n \<le> length fs" "prefix_sum fs m \<le> b" and n: "e \<le> prefix_sum fs n" and "b \<le> e"
  shows "read_blocks fsys (block_loop fp b e (drop m (take n fs)) (e - b)) =
    take (e - b) (drop b (concat (map (fsys \<circ> fp) fs)))"
proof -
  let ?c = "\<lambda>xs. concat (map (fsys \<circ> fp) xs)"
  let ?mid = "drop m (take n fs)"
  have "length_prefix_sum (?mid ! k) = prefix_sum fs m + prefix_sum ?mid (Suc k)" if "k < length ?mid" for k
    using ok [of "m + k"] that m prefix_sum_drop [of m "take n fs" "Suc k"]
      prefix_sum_take [of "m + Suc k" n fs] prefix_sum_take [of m n fs] by simp
  then have "prefix_ok (prefix_sum fs m) ?mid" by (rule prefix_ok_nth)
  moreover have "\<forall>f \<in> set ?mid. length (fsys (fp f)) = file_length f"
    using len by (auto dest: in_set_dropD in_set_takeD)
  ultimately have "read_blocks fsys (block_loop fp b e ?mid (e - max b (prefix_sum fs m))) =
      take (e - max b (prefix_sum fs m)) (drop (b - prefix_sum fs m) (?c ?mid))"
    using assms(7) by (rule block_loop_read)
  then have 1: "read_blocks fsys (block_loop fp b e ?mid (e - b)) =
      take (e - b) (drop (b - prefix_sum fs m) (?c ?mid))"
    using m(3) by simp
  have tn: "take n fs = take m fs @ ?mid" using m by (metis append_take_drop_id min.absorb1 take_take)
  then have fs: "fs = take m fs @ ?mid @ drop n fs" by (metis append_assoc append_take_drop_id)
  have lm: "length (?c (take m fs)) = prefix_sum fs m"
    using len by (subst length_concat_files) (auto simp: prefix_sum_def dest: in_set_takeD)
  have "length (?c (take n fs)) = prefix_sum fs n"
    using len by (subst length_concat_files) (auto simp: prefix_sum_def dest: in_set_takeD)
  moreover have "?c (take n fs) = ?c (take m fs) @ ?c ?mid" by (subst tn) simp
  ultimately have "length (?c ?mid) = prefix_sum fs n - prefix_sum fs m" using lm by simp
  then have "take (e - b) (drop (b - prefix_sum fs m) (?c ?mid @ ?c (drop n fs))) =
      take (e - b) (drop (b - prefix_sum fs m) (?c ?mid))"
    using n m(3) by simp
  moreover have "drop b (?c fs) = drop (b - prefix_sum fs m) (?c ?mid @ ?c (drop n fs))"
    using lm m(3) by (subst fs) simp
  ultimately show ?thesis using 1 by simp
qed

text \<open>
  The block descriptors of a range inside one piece: the loop runs over consecutive files that cover
  the range, with their prefix sums set.
\<close>

lemma find_file_blocks:
  assumes "0 < pl" and "sum_list (map file_length fs) < 2 ^ 64"
    and "div_ceil (sum_list (map file_length fs)) pl < 2 ^ 32"
    and "fs \<noteq> []" and "0 < file_length (hd fs)"
    and "off + ln \<le> pl" and "p * pl + off + ln \<le> sum_list (map file_length fs)"
  shows "\<exists>i m n. Info_new nm (sum_list (map file_length fs)) pl ps fs md pr = Inr i
    \<and> find_file_of_piece_index i root p off ln = Inr (block_loop (block_filepath root nm) (p * pl + off) (p * pl + off + ln)
        (drop m (take n (info_files i))) ln)
    \<and> length (info_files i) = length fs
    \<and> (\<forall>k < length fs. info_files i ! k = (fs ! k)\<lparr>length_prefix_sum := prefix_sum fs (Suc k)\<rparr>)
    \<and> m \<le> n \<and> n \<le> length fs \<and> prefix_sum fs m \<le> p * pl + off \<and> p * pl + off + ln \<le> prefix_sum fs n"
proof -
  let ?total = "sum_list (map file_length fs)"
  from Info_new_files [OF assms(1-3), of nm ?total ps md pr] obtain i where
    i: "Info_new nm ?total pl ps fs md pr = Inr i" "info_name i = nm" "info_piece_length i = pl"
      "length (info_files i) = length fs" "length (file_piece i) = length fs"
    and ifs: "\<And>k. k < length fs \<Longrightarrow> info_files i ! k = (fs ! k)\<lparr>length_prefix_sum := prefix_sum fs (Suc k)\<rparr>"
    and ifp: "\<forall>k < length fs. file_piece i ! k = (prefix_sum fs k div pl, sub32 (div_ceil (prefix_sum fs (Suc k)) pl) 1)"
    by blast
  let ?b = "p * pl + off" and ?e = "p * pl + off + ln"
  let ?m = "partition_point (\<lambda>(_, r). r < p) (file_piece i)"
  let ?n = "partition_point (\<lambda>(l, _). l \<le> p) (file_piece i)"
  note fb = file_bounds_partitioned [OF assms(1) i(5) assms(5,4) ifp]
  note pm = partition_point_boundary [OF fb(1) [of p]]
  note pn = partition_point_boundary [OF fb(2) [of p]]
  have nfp: "file_piece i \<noteq> []" using i(5) assms(4) by auto
  have small: "?e < 2 ^ 64" using assms(2,7) by linarith
  have mb: "prefix_sum fs ?m \<le> ?b"
  proof (cases ?m)
    case (Suc k)
    then have "snd (file_piece i ! k) < p" using pm(2) [of k] by (simp add: case_prod_unfold)
    then have "div_ceil (prefix_sum fs ?m) pl \<le> p"
      using fb(3) [of k] Suc pm(1) i(5) by simp
    then show ?thesis using assms(1) by (simp add: div_ceil_le_iff trans_le_add1)
  qed simp
  have ne: "?e \<le> prefix_sum fs ?n"
  proof (cases "?n < length fs")
    case True
    then have "\<not> prefix_sum fs ?n div pl \<le> p" using pn(3) [of ?n] ifp i(5) by simp
    then have "Suc p \<le> prefix_sum fs ?n div pl" by simp
    then have "Suc p * pl \<le> prefix_sum fs ?n"
      by (rule less_eq_div_iff_mult_less_eq [OF assms(1), THEN iffD1])
    then show ?thesis using assms(6) by simp
  next
    case False
    then show ?thesis using assms(7) by (simp add: prefix_sum_all)
  qed
  have "prefix_sum fs (min ?m ?n) \<le> ?b" using mb prefix_sum_mono [of "min ?m ?n" ?m fs] by simp
  moreover have "find_file_of_piece_index i root p off ln =
      Inr (block_loop (block_filepath root nm) ?b ?e (drop (min ?m ?n) (take ?n (info_files i))) ln)"
    using nfp small pn(1) i by (simp add: find_file_of_piece_index_def Let_def min_def)
  moreover have "min ?m ?n \<le> ?n" "?n \<le> length fs" using pn(1) i(5) by simp_all
  ultimately show ?thesis using i(1,4) ifs ne by blast
qed

lemma block_filepath_prefix [simp]: "block_filepath root nm (f\<lparr>length_prefix_sum := v\<rparr>) = block_filepath root nm f"
  by (simp add: block_filepath_def)

text \<open>The files of the parsed torrent differ from the given ones only in their prefix sums.\<close>

lemma map_prefix_irrelevant:
  assumes "length fs' = length fs" and "\<forall>k < length fs. fs' ! k = (fs ! k)\<lparr>length_prefix_sum := g k\<rparr>"
    and "\<And>x v. f (x\<lparr>length_prefix_sum := v\<rparr>) = f x"
  shows "map f fs' = map f fs"
  using assms by (intro nth_equalityI) auto

lemma prefix_sum_irrelevant:
  assumes "length fs' = length fs" and "\<forall>k < length fs. fs' ! k = (fs ! k)\<lparr>length_prefix_sum := g k\<rparr>"
  shows "prefix_sum fs' k = prefix_sum fs k"
  using map_prefix_irrelevant [OF assms, of file_length] by (simp add: prefix_sum_def take_map [symmetric])

lemma in_set_prefix:
  assumes "length fs' = length fs" and "\<forall>k < length fs. fs' ! k = (fs ! k)\<lparr>length_prefix_sum := g k\<rparr>" and "f \<in> set fs'"
  obtains f' v where "f' \<in> set fs" "f = f'\<lparr>length_prefix_sum := v\<rparr>"
  using assms by (metis in_set_conv_nth)

text \<open>
  C14. The file ranges \<^verbatim>\<open>find_file_of_piece_index\<close> returns for a range inside one piece of a
  multi-file torrent are, read one after the other, exactly that range of the concatenation
  of the files, for files of any lengths (the first one not empty) and any placement of the
  range; nothing panics.
\<close>

theorem find_file_reads_piece_range:
  assumes "0 < pl" and "sum_list (map file_length fs) < 2 ^ 64"
    and "div_ceil (sum_list (map file_length fs)) pl < 2 ^ 32"
    and "fs \<noteq> []" and "0 < file_length (hd fs)"
    and "\<forall>f \<in> set fs. length (fsys (block_filepath root nm f)) = file_length f"
    and "off + ln \<le> pl" and "p * pl + off + ln \<le> sum_list (map file_length fs)"
  shows "\<exists>i blocks. Info_new nm (sum_list (map file_length fs)) pl ps fs md pr = Inr i
    \<and> find_file_of_piece_index i root p off ln = Inr blocks
    \<and> read_blocks fsys blocks =
        take ln (drop (p * pl + off) (concat (map (\<lambda>f. fsys (block_filepath root nm f)) fs)))"
proof -
  let ?b = "p * pl + off" and ?e = "p * pl + off + ln" and ?fp = "block_filepath root nm"
  from find_file_blocks [OF assms(1-5,7,8)] obtain i m n where
    i: "Info_new nm (sum_list (map file_length fs)) pl ps fs md pr = Inr i"
      "find_file_of_piece_index i root p off ln = Inr (block_loop ?fp ?b ?e (drop m (take n (info_files i))) ln)"
    and same: "length (info_files i) = length fs"
      "\<forall>k < length fs. info_files i ! k = (fs ! k)\<lparr>length_prefix_sum := prefix_sum fs (Suc k)\<rparr>"
    and mn: "m \<le> n" "n \<le> length fs" "prefix_sum fs m \<le> ?b" "?e \<le> prefix_sum fs n" by blast
  note psum = prefix_sum_irrelevant [OF same]
  have all: "map (fsys \<circ> ?fp) (info_files i) = map (fsys \<circ> ?fp) fs" by (rule map_prefix_irrelevant [OF same]) simp
  have "\<forall>f \<in> set (info_files i). length (fsys (?fp f)) = file_length f"
    using assms(6) by (auto elim!: in_set_prefix [OF same])
  from block_loop_range [OF _ this, of m n ?b ?e] mn same
  have "read_blocks fsys (block_loop ?fp ?b ?e (drop m (take n (info_files i))) ln)
      = take ln (drop ?b (concat (map (\<lambda>f. fsys (?fp f)) fs)))"
    by (simp add: psum all [unfolded comp_def] comp_def)
  with i show ?thesis by blast
qed

theorem find_file_reads_piece_range_witness:
  "\<exists>i blocks. Info_new ''n'' 6 4 [] [File_new 3 [''a''] None, File_new 3 [''b''] None] None None = Inr i
    \<and> find_file_of_piece_index i ''d'' 0 1 3 = Inr blocks
    \<and> read_blocks (\<lambda>p. if p = ''d/n/a'' then [1, 2, 3] else [4, 5, 6]) blocks = [2, 3, 4]"
  using find_file_reads_piece_range [of 4 "[File_new 3 [''a''] None, File_new 3 [''b''] None]"
      "\<lambda>p. if p = ''d/n/a'' then [1, 2, 3] else [4, 5, 6]" "''d''" "''n''" 1 3 0 "[]" None None]
  by (simp add: File_new_def block_filepath_def path_push_def path_collect_def div_ceil_def)

section \<open>Piece lengths\<close>

lemma Torrent_piece_length_eq:
  assumes "info_piece_length (info t) < 2 ^ 32" and "k < 2 ^ 32"
  shows "Torrent_piece_length t k =
    min (info_piece_length (info t)) (info_length (info t) - k * info_piece_length (info t))"
proof -
  have "k * info_piece_length (info t) \<le> (2 ^ 32 - 1) * (2 ^ 32 - 1)"
    using assms by (intro mult_le_mono) simp_all
  then have "k * info_piece_length (info t) < 2 ^ 64" by simp
  then show ?thesis using assms(1) by (simp add: Torrent_piece_length_def Let_def min_def)
qed

lemma sum_min_pieces: "0 < pl \<Longrightarrow> (\<Sum>k<n. min pl (l - k * pl)) = min (n * pl) (l :: nat)"
proof (induction n)
  case 0
  then show ?case by simp
next
  case (Suc n)
  then show ?case by (auto simp: min_def)
qed

text \<open>
  The lengths of the pieces add up to the length of the content, and a piece index has a
  nonzero length exactly when it is one of the rounded-up number of pieces.
\<close>

theorem piece_lengths_partition:
  assumes "0 < info_piece_length (info t)" and "info_piece_length (info t) < 2 ^ 32"
    and "div_ceil (info_length (info t)) (info_piece_length (info t)) \<le> 2 ^ 32"
  shows "(\<Sum>k < div_ceil (info_length (info t)) (info_piece_length (info t)). Torrent_piece_length t k)
      = info_length (info t)
    \<and> (\<forall>k < 2 ^ 32. 0 < Torrent_piece_length t k \<longleftrightarrow>
         k < div_ceil (info_length (info t)) (info_piece_length (info t)))"
proof -
  let ?pl = "info_piece_length (info t)" and ?l = "info_length (info t)"
  have "(\<Sum>k < div_ceil ?l ?pl. Torrent_piece_length t k) = (\<Sum>k < div_ceil ?l ?pl. min ?pl (?l - k * ?pl))"
    using assms(2,3) by (intro sum.cong) (auto simp: Torrent_piece_length_eq)
  also have "\<dots> = ?l" using assms(1) div_ceil_ge [of ?pl ?l] by (simp add: sum_min_pieces)
  finally show ?thesis
    using assms(1,2) by (simp add: Torrent_piece_length_eq less_div_ceil_iff)
qed

theorem piece_lengths_partition_witness:
  "(\<Sum>k < div_ceil 10 4. Torrent_piece_length
      (Torrent_new \<lparr>info_length = 10, info_piece_length = 4, info_pieces = [], info_name = ''n'',
         info_files = [], info_md5sum = None, info_private = None, file_piece = []\<rparr> [] []) k) = 10"
  using piece_lengths_partition [of "Torrent_new \<lparr>info_length = 10, info_piece_length = 4, info_pieces = [],
      info_name = ''n'', info_files = [], info_md5sum = None, info_private = None, file_piece = []\<rparr> [] []"]
  by (simp add: Torrent_new_def div_ceil_def)

lemma bitfield_covers_pieces: "k < piece_num t \<Longrightarrow> k div 8 < bitfield_len t"
  by (simp add: bitfield_len_def div_less_iff_less_mult)

end
