(* ===== verification/Store.thy ===== *)
theory Store
  imports Torrent
begin

text \<open>
  The storage service (\<^verbatim>\<open>bt/store.rs\<close>): one writer per file, which maps the file into memory and copies
  blocks into it, a count of the bytes not yet flushed, and the check of a piece against its hash.
  \<open>st_fs\<close> is the file system; a mapping is shared with its file, so a copy is seen by a read. The
  record \<open>io\<close> says which files can be opened and flushed, \<open>it\<close> is the order in which the map of the
  writers is traversed and \<open>sha1\<close> the hash function.
\<close>

section \<open>Writers\<close>

record io =
  io_open :: "string \<Rightarrow> bool"
  io_flush :: "string \<Rightarrow> bool"

record FileWriter =
  fw_path :: string
  fw_mapped :: bool
  fw_buf_size :: nat
  fw_file_len :: nat
  fw_write_len :: nat

definition FileWriter_new :: "string \<Rightarrow> nat \<Rightarrow> FileWriter" where
  "FileWriter_new path len = \<lparr> fw_path = path, fw_mapped = False, fw_buf_size = 0, fw_file_len = len, fw_write_len = 0 \<rparr>"

text \<open>\<^verbatim>\<open>get_file\<close>: the file is created when it is missing and extended with zeros.\<close>

definition get_file :: "io \<Rightarrow> FileWriter \<Rightarrow> (string \<rightharpoonup> bytes) \<Rightarrow> (string \<rightharpoonup> bytes) result" where
  "get_file io fw fs =
     (if \<not> io_open io (fw_path fw) then Inl (Err ''cannot open file'')
      else
        let b = (case fs (fw_path fw) of None \<Rightarrow> [] | Some b \<Rightarrow> b) in
        Inr (fs(fw_path fw \<mapsto> b @ replicate (fw_file_len fw - length b) 0)))"

definition FileWriter_flush :: "io \<Rightarrow> FileWriter \<Rightarrow> (bool \<times> nat) result \<times> FileWriter" where
  "FileWriter_flush io fw =
     (if \<not> fw_mapped fw then (Inr (False, 0), fw)
      else if \<not> io_flush io (fw_path fw) then (Inl (Err ''cannot flush file''), fw)
      else
        let wl = wrap64 (fw_write_len fw + fw_buf_size fw) in
        (Inr (fw_file_len fw \<le> wl, fw_buf_size fw), fw\<lparr> fw_write_len := wl, fw_buf_size := 0 \<rparr>))"

definition FileWriter_write :: "io \<Rightarrow> nat \<Rightarrow> bytes \<Rightarrow> FileWriter \<times> (string \<rightharpoonup> bytes)
    \<Rightarrow> unit result \<times> FileWriter \<times> (string \<rightharpoonup> bytes)" where
  "FileWriter_write io offset data s =
     (case s of (fw, fs) \<Rightarrow>
       let fw = fw\<lparr> fw_buf_size := wrap64 (fw_buf_size fw + length data) \<rparr> in
       case (if fw_mapped fw then Inr fs else get_file io fw fs) of
         Inl e \<Rightarrow> (Inl e, fw, fs)
       | Inr fs \<Rightarrow>
           let fw = fw\<lparr> fw_mapped := True \<rparr>;
               finish = wrap64 (offset + length data) in
           if fw_file_len fw < finish then (Inl (Err ''file length exceeded''), fw, fs)
           else
             (case fs (fw_path fw) of
                None \<Rightarrow> (Inl (Panic ''mapping lost''), fw, fs)
              | Some b \<Rightarrow>
                  if finish < offset \<or> length b < finish then (Inl (Panic ''range out of bounds''), fw, fs)
                  else (Inr (), fw, fs(fw_path fw \<mapsto> overwrite b offset data))))"

section \<open>Store\<close>

record Store =
  file_writer :: "string \<rightharpoonup> FileWriter"
  st_buf_size :: nat
  st_fs :: "string \<rightharpoonup> bytes"

definition Store_new :: "(string \<rightharpoonup> bytes) \<Rightarrow> Store" where
  "Store_new fs = \<lparr> file_writer = Map.empty, st_buf_size = 0, st_fs = fs \<rparr>"

definition Store_flush :: "io \<Rightarrow> string \<Rightarrow> Store \<Rightarrow> unit result \<times> Store" where
  "Store_flush io path s =
     (case file_writer s path of
        None \<Rightarrow> (Inr (), s)
      | Some fw \<Rightarrow>
          (case FileWriter_flush io fw of
             (Inl e, fw) \<Rightarrow> (Inl e, s\<lparr> file_writer := (file_writer s)(path \<mapsto> fw) \<rparr>)
           | (Inr (r, n), fw) \<Rightarrow>
               (Inr (), s\<lparr> file_writer := (file_writer s)(path := (if r then None else Some fw)),
                          st_buf_size := sub64 (st_buf_size s) n \<rparr>)))"

text \<open>\<^verbatim>\<open>flush_all\<close>: the first loop collects the finished writers, the second one removes them.\<close>

fun flush_loop :: "io \<Rightarrow> string list \<Rightarrow> string list \<Rightarrow> Store \<Rightarrow> string list result \<times> Store" where
  "flush_loop io [] done s = (Inr done, s)"
| "flush_loop io (path # it) done s =
     (case file_writer s path of
        None \<Rightarrow> flush_loop io it done s
      | Some fw \<Rightarrow>
          (case FileWriter_flush io fw of
             (Inl e, fw) \<Rightarrow> (Inl e, s\<lparr> file_writer := (file_writer s)(path \<mapsto> fw) \<rparr>)
           | (Inr (r, n), fw) \<Rightarrow>
               flush_loop io it (if r then done @ [path] else done) (s\<lparr> file_writer := (file_writer s)(path \<mapsto> fw) \<rparr>)))"

definition flush_all :: "io \<Rightarrow> string list \<Rightarrow> Store \<Rightarrow> unit result \<times> Store" where
  "flush_all io it s =
     (case flush_loop io it [] s of
        (Inl e, s) \<Rightarrow> (Inl e, s)
      | (Inr done, s) \<Rightarrow>
          (Inr (), s\<lparr> file_writer := fold (\<lambda>path m. m(path := None)) done (file_writer s), st_buf_size := 0 \<rparr>))"

definition Store_write :: "io \<Rightarrow> string list \<Rightarrow> nat \<Rightarrow> BlockInfo \<Rightarrow> bytes \<Rightarrow> Store \<Rightarrow> unit result \<times> Store" where
  "Store_write io it buf_limit bi data s =
     (let s = s\<lparr> st_buf_size := wrap64 (st_buf_size s + bi_len bi) \<rparr>;
          fw = (case file_writer s (bi_filepath bi) of
                  Some fw \<Rightarrow> fw | None \<Rightarrow> FileWriter_new (bi_filepath bi) (bi_file_len bi))
      in case FileWriter_write io (bi_start bi) data (fw, st_fs s) of
           (Inl e, fw, fs) \<Rightarrow> (Inl e, s\<lparr> file_writer := (file_writer s)(bi_filepath bi \<mapsto> fw), st_fs := fs \<rparr>)
         | (Inr _, fw, fs) \<Rightarrow>
             let s = s\<lparr> file_writer := (file_writer s)(bi_filepath bi \<mapsto> fw), st_fs := fs \<rparr> in
             if buf_limit \<le> st_buf_size s then flush_all io it s else (Inr (), s))"

text \<open>
  The loop of \<^verbatim>\<open>checkout\<close> over one block: it ends when all bytes of the block have been read, which it
  never does when the file is too short.
\<close>

partial_function (option) read_loop :: "nat \<Rightarrow> bytes \<Rightarrow> nat \<Rightarrow> bytes \<Rightarrow> bytes option" where
  "read_loop chunk bs k acc =
     (if k = 0 then Some acc
      else
        let finish = min chunk k; n = min finish (length bs) in
        read_loop chunk (drop n bs) (k - n) (acc @ take n bs))"

fun checkout_loop :: "io \<Rightarrow> nat \<Rightarrow> BlockInfo list \<Rightarrow> bytes \<Rightarrow> Store \<Rightarrow> (bytes result \<times> Store) option" where
  "checkout_loop io chunk [] acc s = Some (Inr acc, s)"
| "checkout_loop io chunk (bi # bis) acc s =
     (case Store_flush io (bi_filepath bi) s of
        (Inl e, s) \<Rightarrow> Some (Inl e, s)
      | (Inr _, s) \<Rightarrow>
          (case st_fs s (bi_filepath bi) of
             None \<Rightarrow> Some (Inl (Err ''cannot open file''), s)
           | Some b \<Rightarrow>
               if \<not> io_open io (bi_filepath bi) then Some (Inl (Err ''cannot open file''), s)
               else
                 (case read_loop chunk (drop (bi_start bi) b) (bi_len bi) acc of
                    None \<Rightarrow> None
                  | Some acc \<Rightarrow> checkout_loop io chunk bis acc s)))"

definition checkout :: "io \<Rightarrow> nat \<Rightarrow> (bytes \<Rightarrow> bytes) \<Rightarrow> BlockInfo list \<Rightarrow> bytes \<Rightarrow> Store \<Rightarrow> (bool result \<times> Store) option" where
  "checkout io chunk sha1 bis hash s =
     (case checkout_loop io chunk bis [] s of
        None \<Rightarrow> None
      | Some (Inl e, s) \<Rightarrow> Some (Inl e, s)
      | Some (Inr data, s) \<Rightarrow> Some (Inr (sha1 data = hash), s))"

text \<open>The loop of \<^verbatim>\<open>DefaultServant::write_file\<close> that stores the parts of a block; it stops at the first failure.\<close>

fun write_blocks :: "io \<Rightarrow> string list \<Rightarrow> nat \<Rightarrow> BlockInfo list \<Rightarrow> bytes \<Rightarrow> Store \<Rightarrow> unit result \<times> Store" where
  "write_blocks io it buf_limit [] data s = (Inr (), s)"
| "write_blocks io it buf_limit (bi # bis) data s =
     (if length data < bi_len bi then (Inl (Panic ''split_to out of bounds''), s)
      else
        (case Store_write io it buf_limit bi (take (bi_len bi) data) s of
           (Inl e, s) \<Rightarrow> (Inl e, s)
         | (Inr _, s) \<Rightarrow> write_blocks io it buf_limit bis (drop (bi_len bi) data) s))"

section \<open>Lemmas\<close>

definition content :: "Store \<Rightarrow> string \<Rightarrow> bytes" where
  "content s p = (case st_fs s p of None \<Rightarrow> [] | Some b \<Rightarrow> b)"

definition pad :: "nat \<Rightarrow> bytes \<Rightarrow> bytes" where
  "pad n b = b @ replicate (n - length b) 0"

definition store_ok :: "Store \<Rightarrow> bool" where
  "store_ok s \<longleftrightarrow> (\<forall>p fw. file_writer s p = Some fw \<longrightarrow> fw_path fw = p
     \<and> (fw_mapped fw \<longrightarrow> (\<exists>b. st_fs s p = Some b \<and> fw_file_len fw \<le> length b)))"

text \<open>A writer that is open for the file was opened with the given length.\<close>

definition len_agrees :: "Store \<Rightarrow> string \<Rightarrow> nat \<Rightarrow> bool" where
  "len_agrees s p n \<longleftrightarrow> (\<forall>fw. file_writer s p = Some fw \<longrightarrow> fw_file_len fw = n)"

definition io_ok :: "io \<Rightarrow> bool" where
  "io_ok io \<longleftrightarrow> (\<forall>p. io_open io p \<and> io_flush io p)"

lemma FileWriter_flush_keeps:
  assumes "FileWriter_flush io fw = (r, fw')"
  shows "fw_path fw' = fw_path fw" "fw_mapped fw' = fw_mapped fw" "fw_file_len fw' = fw_file_len fw"
    and "io_ok io \<Longrightarrow> \<exists>x. r = Inr x"
  using assms by (auto simp: FileWriter_flush_def Let_def io_ok_def split: if_splits)

text \<open>What flushing keeps: the files, and everything about the writers but their counters.\<close>

definition same_files :: "Store \<Rightarrow> Store \<Rightarrow> bool" where
  "same_files s s' \<longleftrightarrow> st_fs s' = st_fs s \<and> (store_ok s \<longrightarrow> store_ok s') \<and> (\<forall>p n. len_agrees s p n \<longrightarrow> len_agrees s' p n)"

lemma same_files_refl: "same_files s s"
  by (simp add: same_files_def)

lemma same_files_trans: "same_files s t \<Longrightarrow> same_files t u \<Longrightarrow> same_files s u"
  by (simp add: same_files_def)

lemma same_files_update:
  assumes "file_writer s p = Some fw" and "fw_path fw' = fw_path fw" "fw_mapped fw' = fw_mapped fw" "fw_file_len fw' = fw_file_len fw"
  shows "same_files s (s\<lparr> file_writer := (file_writer s)(p \<mapsto> fw') \<rparr>)"
  using assms by (auto simp: same_files_def store_ok_def len_agrees_def)

lemma same_files_remove: "same_files s (s\<lparr> file_writer := (file_writer s)(p := None) \<rparr>)"
  by (auto simp: same_files_def store_ok_def len_agrees_def)

lemma buf_size_irrelevant [simp]: "store_ok (s\<lparr> st_buf_size := n \<rparr>) = store_ok s"
  "len_agrees (s\<lparr> st_buf_size := n \<rparr>) p l = len_agrees s p l"
  by (simp_all add: store_ok_def len_agrees_def)

lemma same_files_buf_size: "same_files s s' \<Longrightarrow> same_files s (s'\<lparr> st_buf_size := n \<rparr>)"
  by (simp add: same_files_def)

lemma same_files_remove_all: "same_files s (s\<lparr> file_writer := fold (\<lambda>path m. m(path := None)) ps (file_writer s) \<rparr>)"
proof (induction ps arbitrary: s)
  case (Cons p ps)
  from same_files_trans [OF same_files_remove [of s p] Cons [of "s\<lparr> file_writer := (file_writer s)(p := None) \<rparr>"]]
  show ?case by simp
qed (simp add: same_files_refl)

lemma flush_loop_same: "flush_loop io it d s = (r, s') \<Longrightarrow> same_files s s' \<and> (io_ok io \<longrightarrow> (\<exists>x. r = Inr x))"
proof (induction it arbitrary: d s)
  case (Cons p it)
  show ?case
  proof (cases "file_writer s p")
    case (Some fw)
    obtain r1 fw1 where f: "FileWriter_flush io fw = (r1, fw1)" by fastforce
    note keeps = FileWriter_flush_keeps [OF f]
    let ?s = "s\<lparr> file_writer := (file_writer s)(p \<mapsto> fw1) \<rparr>"
    have same: "same_files s ?s" using Some keeps by (intro same_files_update) auto
    show ?thesis
    proof (cases r1)
      case (Inl e)
      then have "s' = ?s" "r = Inl e" "\<not> io_ok io" using Cons.prems Some f keeps(4) by auto
      then show ?thesis using same by simp
    next
      case (Inr x)
      then obtain d' where "flush_loop io it d' ?s = (r, s')" using Cons.prems Some f by (cases x) auto
      from Cons.IH [OF this] show ?thesis using same_files_trans [OF same] by blast
    qed
  qed (use Cons in auto)
qed (auto simp: same_files_refl)

lemma flush_all_same:
  assumes "flush_all io it s = (r, s')"
  shows "same_files s s'" and "io_ok io \<Longrightarrow> r = Inr ()"
proof -
  obtain r1 s1 where l: "flush_loop io it [] s = (r1, s1)" by fastforce
  note same = flush_loop_same [OF l]
  have "same_files s s' \<and> (io_ok io \<longrightarrow> r = Inr ())"
  proof (cases r1)
    case (Inl e)
    then show ?thesis using assms l same by (auto simp: flush_all_def)
  next
    case (Inr d)
    then have "s' = (s1\<lparr> file_writer := fold (\<lambda>path m. m(path := None)) d (file_writer s1) \<rparr>)\<lparr> st_buf_size := 0 \<rparr>" "r = Inr ()"
      using assms l by (auto simp: flush_all_def)
    then show ?thesis
      using same_files_buf_size [OF same_files_trans [OF conjunct1 [OF same] same_files_remove_all]] by simp
  qed
  then show "same_files s s'" and "io_ok io \<Longrightarrow> r = Inr ()" by simp_all
qed

lemma Store_flush_same:
  assumes "Store_flush io p s = (r, s')"
  shows "same_files s s'" and "io_ok io \<Longrightarrow> r = Inr ()"
proof -
  have "same_files s s' \<and> (io_ok io \<longrightarrow> r = Inr ())"
  proof (cases "file_writer s p")
    case None
    then show ?thesis using assms by (simp add: Store_flush_def same_files_refl)
  next
    case (Some fw)
    obtain r1 fw1 where f: "FileWriter_flush io fw = (r1, fw1)" by fastforce
    note keeps = FileWriter_flush_keeps [OF f]
    have same: "same_files s (s\<lparr> file_writer := (file_writer s)(p \<mapsto> fw1) \<rparr>)"
      using Some keeps by (intro same_files_update) auto
    show ?thesis
    proof (cases r1)
      case (Inl e)
      then show ?thesis using assms Some f same keeps(4) by (auto simp: Store_flush_def)
    next
      case (Inr x)
      obtain d n where x: "x = (d, n)" by fastforce
      have "s' = (s\<lparr> file_writer := (file_writer s)(p := (if d then None else Some fw1)) \<rparr>)\<lparr> st_buf_size := sub64 (st_buf_size s) n \<rparr>"
        "r = Inr ()"
        using assms Some f Inr x by (auto simp: Store_flush_def)
      then show ?thesis using same_files_buf_size [OF same] same_files_buf_size [OF same_files_remove [of s p]] by (cases d) simp_all
    qed
  qed
  then show "same_files s s'" and "io_ok io \<Longrightarrow> r = Inr ()" by simp_all
qed

lemma get_file_ok:
  assumes "io_ok io"
  shows "get_file io fw fs = Inr (fs(fw_path fw \<mapsto> pad (fw_file_len fw) (case fs (fw_path fw) of None \<Rightarrow> [] | Some b \<Rightarrow> b)))"
  using assms by (simp add: get_file_def io_ok_def pad_def Let_def)

lemma length_pad: "n \<le> length (pad n b)"
  by (simp add: pad_def)

lemma pad_id: "n \<le> length b \<Longrightarrow> pad n b = b"
  by (simp add: pad_def)

text \<open>A write within the length of the file replaces exactly the bytes of its range.\<close>

lemma FileWriter_write_ok:
  assumes "io_ok io" and "fw_mapped fw \<Longrightarrow> \<exists>b. fs (fw_path fw) = Some b \<and> fw_file_len fw \<le> length b"
    and "offset + length data \<le> fw_file_len fw" and "fw_file_len fw < 2 ^ 64"
  shows "\<exists>fw'. FileWriter_write io offset data (fw, fs) = (Inr (), fw',
      fs(fw_path fw \<mapsto> overwrite (pad (fw_file_len fw) (case fs (fw_path fw) of None \<Rightarrow> [] | Some b \<Rightarrow> b)) offset data))
    \<and> fw_path fw' = fw_path fw \<and> fw_file_len fw' = fw_file_len fw"
proof -
  let ?b = "pad (fw_file_len fw) (case fs (fw_path fw) of None \<Rightarrow> [] | Some b \<Rightarrow> b)"
  have len: "offset + length data \<le> length ?b" using assms(3) length_pad le_trans by blast
  have lt: "offset + length data < 2 ^ 64" using assms(3,4) by simp
  show ?thesis
  proof (cases "fw_mapped fw")
    case True
    then obtain b where b: "fs (fw_path fw) = Some b" "fw_file_len fw \<le> length b" using assms(2) by blast
    then have "?b = b" by (simp add: pad_id)
    then show ?thesis using True b len lt assms(3) by (simp add: FileWriter_write_def Let_def)
  next
    case False
    have "get_file io (fw\<lparr> fw_buf_size := n \<rparr>) fs = Inr (fs(fw_path fw \<mapsto> ?b))" for n
      by (simp add: get_file_ok [OF assms(1)])
    then show ?thesis using False len lt assms(3) by (simp add: FileWriter_write_def Let_def)
  qed
qed

lemma writer_path: "store_ok s \<Longrightarrow> file_writer s p = Some fw \<Longrightarrow> fw_path fw = p"
  by (simp add: store_ok_def)

lemma writer_mapped: "store_ok s \<Longrightarrow> file_writer s p = Some fw \<Longrightarrow> fw_mapped fw
    \<Longrightarrow> \<exists>b. st_fs s p = Some b \<and> fw_file_len fw \<le> length b"
  by (simp add: store_ok_def)

lemma Store_write_ok:
  assumes "io_ok io" and "store_ok s" and "len_agrees s (bi_filepath bi) (bi_file_len bi)"
    and "bi_start bi + length data \<le> bi_file_len bi" and "bi_file_len bi < 2 ^ 64"
  shows "\<exists>s'. Store_write io it lim bi data s = (Inr (), s') \<and> store_ok s'
    \<and> st_fs s' = (st_fs s)(bi_filepath bi \<mapsto> overwrite (pad (bi_file_len bi) (content s (bi_filepath bi))) (bi_start bi) data)
    \<and> (\<forall>p n. len_agrees s p n \<longrightarrow> p \<noteq> bi_filepath bi \<longrightarrow> len_agrees s' p n)"
proof -
  let ?p = "bi_filepath bi"
  let ?b = "overwrite (pad (bi_file_len bi) (content s ?p)) (bi_start bi) data"
  define fw where "fw = (case file_writer s ?p of Some fw \<Rightarrow> fw | None \<Rightarrow> FileWriter_new ?p (bi_file_len bi))"
  have fw: "fw_path fw = ?p" "fw_file_len fw = bi_file_len bi"
    "fw_mapped fw \<Longrightarrow> \<exists>b. st_fs s (fw_path fw) = Some b \<and> fw_file_len fw \<le> length b"
  proof -
    consider (a) "fw = FileWriter_new ?p (bi_file_len bi)" | (b) "file_writer s ?p = Some fw"
      by (cases "file_writer s ?p") (auto simp: fw_def)
    then have "fw_path fw = ?p \<and> fw_file_len fw = bi_file_len bi
      \<and> (fw_mapped fw \<longrightarrow> (\<exists>b. st_fs s (fw_path fw) = Some b \<and> fw_file_len fw \<le> length b))"
    proof cases
      case b
      with writer_path [OF assms(2) b] writer_mapped [OF assms(2) b] assms(3) show ?thesis
        by (simp add: len_agrees_def)
    qed (simp add: FileWriter_new_def)
    then show "fw_path fw = ?p" "fw_file_len fw = bi_file_len bi"
      "fw_mapped fw \<Longrightarrow> \<exists>b. st_fs s (fw_path fw) = Some b \<and> fw_file_len fw \<le> length b" by blast+
  qed
  have "\<exists>fw'. FileWriter_write io (bi_start bi) data (fw, st_fs s) = (Inr (), fw', (st_fs s)(?p \<mapsto> ?b))
      \<and> fw_path fw' = ?p \<and> fw_file_len fw' = bi_file_len bi"
    using FileWriter_write_ok [of io fw "st_fs s" "bi_start bi" data, OF assms(1) fw(3)] assms(4,5)
    by (simp add: fw(1,2) content_def)
  then obtain fw' where w: "FileWriter_write io (bi_start bi) data (fw, st_fs s) = (Inr (), fw', (st_fs s)(?p \<mapsto> ?b))"
    "fw_path fw' = ?p" "fw_file_len fw' = bi_file_len bi" by blast
  define s1 where "s1 = s\<lparr> st_buf_size := wrap64 (st_buf_size s + bi_len bi), file_writer := (file_writer s)(?p \<mapsto> fw'), st_fs := (st_fs s)(?p \<mapsto> ?b) \<rparr>"
  have "bi_file_len bi \<le> length ?b"
    using assms(4) length_pad [of "bi_file_len bi" "content s ?p"] by (simp add: length_overwrite)
  then have ok1: "store_ok s1" using assms(2) w(2,3) by (auto simp: store_ok_def s1_def)
  have la: "len_agrees s p n \<Longrightarrow> p \<noteq> ?p \<Longrightarrow> len_agrees s1 p n" for p n by (simp add: len_agrees_def s1_def)
  have step: "Store_write io it lim bi data s = (if lim \<le> st_buf_size s1 then flush_all io it s1 else (Inr (), s1))"
    using w(1) by (simp add: Store_write_def Let_def fw_def s1_def split: option.split)
  obtain r s2 where f: "flush_all io it s1 = (r, s2)" by fastforce
  note same = flush_all_same [OF f]
  show ?thesis
    using step f same ok1 la assms(1) by (auto simp: same_files_def s1_def)
qed

text \<open>The loop of \<^verbatim>\<open>checkout\<close> returns exactly when the file holds the bytes.\<close>

lemma read_loop_enough: "0 < chunk \<Longrightarrow> k \<le> length bs \<Longrightarrow> read_loop chunk bs k acc = Some (acc @ take k bs)"
proof (induction k arbitrary: bs acc rule: less_induct)
  case (less k)
  show ?case
  proof (cases "k = 0")
    case True
    then show ?thesis by (simp add: read_loop.simps)
  next
    case False
    let ?n = "min (min chunk k) (length bs)"
    have n: "?n = min chunk k" "0 < ?n" "?n \<le> k" using less.prems False by auto
    have "read_loop chunk bs k acc = read_loop chunk (drop ?n bs) (k - ?n) (acc @ take ?n bs)"
      using False by (subst read_loop.simps) (simp add: Let_def)
    also have "\<dots> = Some ((acc @ take ?n bs) @ take (k - ?n) (drop ?n bs))"
      using n less.prems by (intro less.IH) auto
    finally have step: "read_loop chunk bs k acc = Some ((acc @ take ?n bs) @ take (k - ?n) (drop ?n bs))" .
    have "take k bs = take ?n bs @ take (k - ?n) (drop ?n bs)"
      using n(3) by (metis take_add le_add_diff_inverse)
    then show ?thesis using step by simp
  qed
qed

lemma read_loop_returns: "read_loop chunk bs k acc = Some y \<Longrightarrow> k \<le> length bs"
proof (induction chunk bs k acc y rule: read_loop.raw_induct [rotated, consumes 1, case_names step])
  case (step f chunk bs k acc y)
  let ?n = "min (min chunk k) (length bs)"
  show ?case
  proof (cases "k = 0")
    case False
    then have "f chunk (drop ?n bs) (k - ?n) (acc @ take ?n bs) = Some y" using step(2) by (simp add: Let_def)
    then have "k - ?n \<le> length (drop ?n bs)" by (rule step(1))
    then show ?thesis by (simp add: min_def split: if_splits)
  qed simp
qed

lemma read_loop_short: "length bs < k \<Longrightarrow> read_loop chunk bs k acc = None"
  using read_loop_returns by (cases "read_loop chunk bs k acc") fastforce+

text \<open>
  The effect of storing a block on the contents of the files, and the conditions under which it is
  stored: the ranges lie inside their files, and no file occurs twice.
\<close>

fun write_fs :: "(string \<Rightarrow> bytes) \<Rightarrow> BlockInfo list \<Rightarrow> bytes \<Rightarrow> string \<Rightarrow> bytes" where
  "write_fs c [] data = c"
| "write_fs c (bi # bis) data =
     write_fs (c(bi_filepath bi := overwrite (pad (bi_file_len bi) (c (bi_filepath bi))) (bi_start bi) (take (bi_len bi) data)))
       bis (drop (bi_len bi) data)"

definition blocks_ok :: "Store \<Rightarrow> BlockInfo list \<Rightarrow> bool" where
  "blocks_ok s bis \<longleftrightarrow> distinct (map bi_filepath bis) \<and>
     list_all (\<lambda>bi. bi_start bi + bi_len bi \<le> bi_file_len bi \<and> bi_file_len bi < 2 ^ 64) bis \<and>
     list_all (\<lambda>bi. len_agrees s (bi_filepath bi) (bi_file_len bi)) bis"

lemma write_fs_other: "p \<notin> bi_filepath ` set bis \<Longrightarrow> write_fs c bis data p = c p"
  by (induction bis arbitrary: c data) auto

lemma write_fs_reads_back:
  "distinct (map bi_filepath bis) \<Longrightarrow> list_all (\<lambda>bi. bi_start bi + bi_len bi \<le> bi_file_len bi) bis
    \<Longrightarrow> length data = sum_list (map bi_len bis) \<Longrightarrow> read_blocks (write_fs c bis data) bis = data"
proof (induction bis arbitrary: c data)
  case (Cons bi bis)
  let ?d = "take (bi_len bi) data"
  have d: "length ?d = bi_len bi" using Cons.prems(3) by simp
  have "bi_start bi + length ?d \<le> length (pad (bi_file_len bi) (c (bi_filepath bi)))"
    using Cons.prems(2) d length_pad [of "bi_file_len bi" "c (bi_filepath bi)"] by (simp add: le_trans)
  then have "read_block (write_fs c (bi # bis) data) bi = ?d"
    using Cons.prems(1) take_drop_overwrite [of "bi_start bi" ?d] d by (simp add: read_block_def write_fs_other)
  then show ?case using Cons by simp
qed simp

lemma write_fs_covers:
  "distinct (map bi_filepath bis) \<Longrightarrow> list_all (\<lambda>bi. bi_start bi + bi_len bi \<le> bi_file_len bi) bis
    \<Longrightarrow> length data = sum_list (map bi_len bis) \<Longrightarrow> bi \<in> set bis
    \<Longrightarrow> bi_start bi + bi_len bi \<le> length (write_fs c bis data (bi_filepath bi))"
proof (induction bis arbitrary: c data)
  case (Cons b bis)
  let ?c = "c(bi_filepath b := overwrite (pad (bi_file_len b) (c (bi_filepath b))) (bi_start b) (take (bi_len b) data))"
  show ?case
  proof (cases "bi \<in> set bis")
    case True
    then show ?thesis using Cons by simp
  next
    case False
    then have "bi = b" using Cons.prems(4) by simp
    have "bi_start b + bi_len b \<le> length (pad (bi_file_len b) (c (bi_filepath b)))"
      using Cons.prems(2) length_pad [of "bi_file_len b" "c (bi_filepath b)"] by (simp add: le_trans)
    then have "bi_start b + bi_len b \<le> length (?c (bi_filepath b))" using Cons.prems(3) by (simp add: length_overwrite)
    then show ?thesis using \<open>bi = b\<close> write_fs_other Cons.prems(1) by simp
  qed
qed simp

lemma blocks_ok_Cons:
  assumes "blocks_ok s (bi # bis)" and "\<And>p n. len_agrees s p n \<Longrightarrow> p \<noteq> bi_filepath bi \<Longrightarrow> len_agrees s1 p n"
  shows "blocks_ok s1 bis"
proof -
  have "bi_filepath bi \<notin> bi_filepath ` set bis" using assms(1) by (simp add: blocks_ok_def)
  then have "bi_filepath b \<noteq> bi_filepath bi" if "b \<in> set bis" for b using that by (metis image_eqI)
  then show ?thesis using assms by (simp add: blocks_ok_def list_all_iff)
qed

lemma write_blocks_ok:
  assumes "io_ok io"
  shows "store_ok s \<Longrightarrow> blocks_ok s bis \<Longrightarrow> length data = sum_list (map bi_len bis) \<Longrightarrow>
    \<exists>s'. write_blocks io it lim bis data s = (Inr (), s') \<and> store_ok s' \<and> content s' = write_fs (content s) bis data
      \<and> dom (st_fs s') = dom (st_fs s) \<union> bi_filepath ` set bis"
proof (induction bis arbitrary: data s)
  case (Cons bi bis)
  let ?p = "bi_filepath bi" and ?d = "take (bi_len bi) data"
  have bi: "bi_start bi + bi_len bi \<le> bi_file_len bi" "bi_file_len bi < 2 ^ 64" "len_agrees s ?p (bi_file_len bi)"
    using Cons.prems(2) by (simp_all add: blocks_ok_def)
  have d: "length ?d = bi_len bi" "bi_len bi \<le> length data" using Cons.prems(3) by simp_all
  let ?b = "overwrite (pad (bi_file_len bi) (content s ?p)) (bi_start bi) ?d"
  obtain s1 where s1: "Store_write io it lim bi ?d s = (Inr (), s1)" "store_ok s1" "st_fs s1 = (st_fs s)(?p \<mapsto> ?b)"
    "\<And>p n. len_agrees s p n \<Longrightarrow> p \<noteq> ?p \<Longrightarrow> len_agrees s1 p n"
    using Store_write_ok [OF assms Cons.prems(1) bi(3), of ?d it lim] bi(1,2) d(1) by auto
  have c1: "content s1 = (content s)(?p := ?b)" using s1(3) by (simp add: content_def fun_eq_iff)
  obtain s2 where "write_blocks io it lim bis (drop (bi_len bi) data) s1 = (Inr (), s2)" "store_ok s2"
      "content s2 = write_fs (content s1) bis (drop (bi_len bi) data)" "dom (st_fs s2) = dom (st_fs s1) \<union> bi_filepath ` set bis"
    using Cons.IH [OF s1(2) blocks_ok_Cons [OF Cons.prems(2) s1(4)], of "drop (bi_len bi) data"] Cons.prems(3) by auto
  then show ?case using d(2) s1(1,3) c1 by auto
qed simp

lemma checkout_loop_reads:
  assumes "io_ok io" and "0 < chunk"
  shows "list_all (\<lambda>bi. \<exists>b. st_fs s (bi_filepath bi) = Some b \<and> bi_start bi + bi_len bi \<le> length b) bis \<Longrightarrow>
    \<exists>s'. checkout_loop io chunk bis acc s = Some (Inr (acc @ read_blocks (content s) bis), s') \<and> same_files s s'"
proof (induction bis arbitrary: acc s)
  case (Cons bi bis)
  obtain b where b: "st_fs s (bi_filepath bi) = Some b" "bi_start bi + bi_len bi \<le> length b" using Cons.prems by auto
  obtain r s1 where f: "Store_flush io (bi_filepath bi) s = (r, s1)" by fastforce
  note same = Store_flush_same [OF f]
  have fs: "st_fs s1 = st_fs s" using same(1) by (simp add: same_files_def)
  then have c: "content s1 = content s" by (simp add: content_def fun_eq_iff)
  have rd: "read_loop chunk (drop (bi_start bi) b) (bi_len bi) acc = Some (acc @ read_block (content s) bi)"
    using b read_loop_enough [OF assms(2), of "bi_len bi" "drop (bi_start bi) b" acc] by (simp add: read_block_def content_def)
  from Cons.IH [of s1 "acc @ read_block (content s) bi"] Cons.prems fs
  obtain s2 where "checkout_loop io chunk bis (acc @ read_block (content s) bi) s1
      = Some (Inr ((acc @ read_block (content s) bi) @ read_blocks (content s) bis), s2)" "same_files s1 s2"
    using c by auto
  moreover have "io_open io p" for p using assms(1) by (simp add: io_ok_def)
  ultimately show ?case
    using f same b rd fs assms(1) same_files_trans by auto
qed (simp add: same_files_refl)

section \<open>The torrent as one file\<close>

text \<open>
  The torrent as one sequence of bytes: the contents of its files one after the other, each with the
  zeros it is extended with when it is opened.
\<close>

definition flat :: "(File \<Rightarrow> string) \<Rightarrow> File list \<Rightarrow> (string \<Rightarrow> bytes) \<Rightarrow> bytes" where
  "flat fp fs c = concat (map (\<lambda>f. pad (file_length f) (c (fp f))) fs)"

definition fits :: "(File \<Rightarrow> string) \<Rightarrow> File list \<Rightarrow> (string \<Rightarrow> bytes) \<Rightarrow> bool" where
  "fits fp fs c \<longleftrightarrow> distinct (map fp fs) \<and> list_all (\<lambda>f. length (c (fp f)) \<le> file_length f) fs"

lemma flat_simps [simp]: "flat fp [] c = []" "flat fp (f # fs) c = pad (file_length f) (c (fp f)) @ flat fp fs c"
  "flat fp (fs @ fs') c = flat fp fs c @ flat fp fs' c"
  by (simp_all add: flat_def)

lemma flat_cong: "(\<And>f. f \<in> set fs \<Longrightarrow> c (fp f) = c' (fp f)) \<Longrightarrow> flat fp fs c = flat fp fs c'"
  by (induction fs) simp_all

lemma length_pad_eq: "length b \<le> n \<Longrightarrow> length (pad n b) = n"
  by (simp add: pad_def)

lemma length_flat: "fits fp fs c \<Longrightarrow> length (flat fp fs c) = sum_list (map file_length fs)"
  by (induction fs) (simp_all add: fits_def length_pad_eq)

lemma write_fs_pointwise: "c p = c' p \<Longrightarrow> write_fs c bis d p = write_fs c' bis d p"
proof (induction bis arbitrary: c c' d)
  case (Cons bi bis)
  show ?case unfolding write_fs.simps by (rule Cons.IH) (use Cons.prems in auto)
qed simp

lemma block_loop_paths: "bi_filepath ` set (block_loop fp b e fs l) \<subseteq> fp ` set fs"
proof (induction fs arbitrary: l)
  case (Cons f fs)
  from Cons [of l] Cons show ?case by (auto simp: Let_def)
qed simp

lemma block_loop_beyond_Nil: "prefix_ok s fs \<Longrightarrow> e \<le> s \<Longrightarrow> block_loop fp b e fs l = []"
  by (induction fs arbitrary: s) (auto simp: Let_def)

text \<open>One round of the loop, by the position of the range relative to the file.\<close>

lemma block_loop_round:
  assumes "length_prefix_sum f = s + L" and "file_length f = L" and "prefix_ok (s + L) fs"
  shows "s + L < b \<Longrightarrow> block_loop fp b e (f # fs) (e - max b s) = block_loop fp b e fs (e - max b (s + L))"
    and "b \<le> s + L \<Longrightarrow> s < e \<Longrightarrow> e \<le> s + L \<Longrightarrow> block_loop fp b e (f # fs) (e - max b s) =
      [\<lparr> bi_filepath = fp f, bi_start = b - s, bi_len = e - max b s, bi_file_len = L \<rparr>]"
    and "b \<le> s + L \<Longrightarrow> s + L < e \<Longrightarrow> block_loop fp b e (f # fs) (e - max b s) =
      \<lparr> bi_filepath = fp f, bi_start = b - s, bi_len = L - (b - s), bi_file_len = L \<rparr> # block_loop fp b e fs (e - max b (s + L))"
proof -
  have lo: "sub64 (s + L) L = s" by simp
  note eq = block_loop.simps Let_def assms(1,2) lo
  show "block_loop fp b e (f # fs) (e - max b s) = block_loop fp b e fs (e - max b (s + L))" if "s + L < b"
    using that by (simp only: eq) (simp add: max_def)
  show "block_loop fp b e (f # fs) (e - max b s) =
      [\<lparr> bi_filepath = fp f, bi_start = b - s, bi_len = e - max b s, bi_file_len = L \<rparr>]" if "b \<le> s + L" "s < e" "e \<le> s + L"
  proof -
    have "(if b \<le> s then 0 else b - s) = b - s" "min (e - s) (e - max b s) = e - max b s" by simp_all
    then show ?thesis using that block_loop_beyond_Nil [OF assms(3) that(3)] by (simp only: eq) simp
  qed
  show "block_loop fp b e (f # fs) (e - max b s) =
      \<lparr> bi_filepath = fp f, bi_start = b - s, bi_len = L - (b - s), bi_file_len = L \<rparr> # block_loop fp b e fs (e - max b (s + L))"
    if "b \<le> s + L" "s + L < e"
  proof -
    have "min (L - (b - s)) (e - max b s) = L - (b - s)" "e - max b s - (L - (b - s)) = e - max b (s + L)"
      "(if b \<le> s then 0 else b - s) = b - s" "\<not> e \<le> s + L" "s < e" "sub64 L (b - s) = L - (b - s)" using that by simp_all
    then show ?thesis using that by (simp only: eq) simp
  qed
qed

lemma block_loop_write:
  assumes "b \<le> e"
  shows "prefix_ok s fs \<Longrightarrow> fits fp fs c \<Longrightarrow> e \<le> s + sum_list (map file_length fs) \<Longrightarrow> length data = e - max b s \<Longrightarrow>
    flat fp fs (write_fs c (block_loop fp b e fs (e - max b s)) data) = overwrite (flat fp fs c) (b - s) data"
proof (induction fs arbitrary: s c data)
  case (Cons f fs)
  define L where "L = file_length f"
  let ?A = "pad L (c (fp f))" and ?R = "flat fp fs c"
  have lps: "length_prefix_sum f = s + L" and ok: "prefix_ok (s + L) fs"
    using Cons.prems(1) by (simp_all add: L_def)
  note rnd = block_loop_round [OF lps L_def [symmetric] ok]
  have fit: "fits fp fs c" "fp f \<notin> fp ` set fs" "length (c (fp f)) \<le> L" using Cons.prems(2) by (simp_all add: fits_def L_def)
  have lenA: "length ?A = L" using fit(3) by (rule length_pad_eq)
  have tot: "e \<le> (s + L) + sum_list (map file_length fs)" using Cons.prems(3) by (simp add: L_def)
  have notin: "fp f \<notin> bi_filepath ` set (block_loop fp b e fs l)" for l using fit(2) block_loop_paths by blast
  have upd: "flat fp fs (write_fs (c(fp f := x)) (block_loop fp b e fs l) d) = flat fp fs (write_fs c (block_loop fp b e fs l) d)" for x l d
    using fit(2) by (intro flat_cong write_fs_pointwise) (metis fun_upd_apply image_eqI)
  consider (before) "s + L < b" | (beyond) "e \<le> s" | (ends) "b \<le> s + L" "s < e" "e \<le> s + L"
    | (through) "b \<le> s + L" "s + L < e" by linarith
  then show ?case
  proof cases
    case before
    then have m: "e - max b s = e - max b (s + L)" by simp
    then show ?thesis
      unfolding rnd(1) [OF before] using Cons.IH [OF ok fit(1) tot, of data] Cons.prems(4) m before lenA
      by (simp add: L_def [symmetric] write_fs_other [OF notin] overwrite_append_right)
  next
    case beyond
    then have "data = []" using assms Cons.prems(4) by simp
    then show ?thesis using block_loop_beyond_Nil [OF Cons.prems(1) beyond] by simp
  next
    case ends
    have same: "flat fp fs (c(fp f := x)) = flat fp fs c" for x using fit(2) by (intro flat_cong) (metis fun_upd_apply image_eqI)
    have "b - s + length data \<le> L" using ends Cons.prems(4) by simp
    moreover from this have "pad L (overwrite ?A (b - s) data) = overwrite ?A (b - s) data"
      using lenA by (intro pad_id) (simp add: length_overwrite)
    ultimately show ?thesis
      unfolding rnd(2) [OF ends] using lenA Cons.prems(4)
      by (simp add: L_def [symmetric] overwrite_append_left same del: fun_upd_apply) simp
  next
    case through
    have l: "min (L - (b - s)) (e - max b s) = L - (b - s)"
      and l': "e - max b s - (L - (b - s)) = e - max b (s + L)" using through by linarith+
    have len: "length (take (L - (b - s)) data) = L - (b - s)" using l Cons.prems(4) by (simp add: min.commute)
    have "pad L (overwrite ?A (b - s) (take (L - (b - s)) data)) = overwrite ?A (b - s) (take (L - (b - s)) data)"
      using len lenA through by (intro pad_id) (simp add: length_overwrite)
    moreover have "overwrite (?A @ ?R) (b - s) data
        = overwrite ?A (b - s) (take (L - (b - s)) data) @ overwrite ?R 0 (drop (L - (b - s)) data)"
      using overwrite_append_through [of "b - s" ?A data ?R] lenA through Cons.prems(4) by simp
    moreover have "b - (s + L) = 0" using through by simp
    ultimately show ?thesis
      unfolding rnd(3) [OF through] using Cons.IH [OF ok fit(1) tot, of "drop (L - (b - s)) data"] Cons.prems(4) l'
      by (simp add: L_def [symmetric] write_fs_other [OF notin] upd del: fun_upd_apply) simp
  qed
qed simp

lemma block_loop_ok:
  assumes "b \<le> e" and "\<And>f. f \<in> set fs \<Longrightarrow> len_agrees st (fp f) (file_length f) \<and> file_length f < 2 ^ 64"
  shows "prefix_ok s fs \<Longrightarrow> distinct (map fp fs) \<Longrightarrow> e \<le> s + sum_list (map file_length fs) \<Longrightarrow>
    blocks_ok st (block_loop fp b e fs (e - max b s)) \<and> sum_list (map bi_len (block_loop fp b e fs (e - max b s))) = e - max b s"
  using assms(2)
proof (induction fs arbitrary: s)
  case Nil
  then show ?case using assms(1) by (simp add: blocks_ok_def)
next
  case (Cons f fs)
  define L where "L = file_length f"
  have lps: "length_prefix_sum f = s + L" and ok: "prefix_ok (s + L) fs"
    using Cons.prems(1) by (simp_all add: L_def)
  note rnd = block_loop_round [OF lps L_def [symmetric] ok]
  have notin: "fp f \<notin> bi_filepath ` set (block_loop fp b e fs l)" for l
    using Cons.prems(2) block_loop_paths [of fp b e fs l] by (simp add: subset_iff) blast
  have IH: "blocks_ok st (block_loop fp b e fs (e - max b (s + L)))"
    "sum_list (map bi_len (block_loop fp b e fs (e - max b (s + L)))) = e - max b (s + L)"
    using Cons.IH [OF ok] Cons.prems by (simp_all add: L_def)
  have f: "len_agrees st (fp f) L" "L < 2 ^ 64" using Cons.prems(4) [of f] by (simp_all add: L_def)
  consider (before) "s + L < b" | (beyond) "e \<le> s" | (ends) "b \<le> s + L" "s < e" "e \<le> s + L"
    | (through) "b \<le> s + L" "s + L < e" by linarith
  then show ?case
  proof cases
    case before
    then have m: "e - max b s = e - max b (s + L)" by simp
    then show ?thesis unfolding rnd(1) [OF before] using IH by simp
  next
    case beyond
    then show ?thesis using block_loop_beyond_Nil [OF Cons.prems(1) beyond] assms(1) by (simp add: blocks_ok_def)
  next
    case ends
    show ?thesis unfolding rnd(2) [OF ends] using f ends by (simp add: blocks_ok_def)
  next
    case through
    have l: "min (L - (b - s)) (e - max b s) = L - (b - s)"
      and l': "e - max b s - (L - (b - s)) = e - max b (s + L)" using through by linarith+
    have "L - (b - s) + (e - max b (s + L)) = e - max b s" using l' through by linarith
    then show ?thesis unfolding rnd(3) [OF through] using f IH notin through by (simp add: blocks_ok_def)
  qed
qed

text \<open>The loop of \<open>find_file_of_piece_index\<close> on the files between the two binary searches, seen on the whole torrent.\<close>

lemma block_loop_range_write:
  assumes ok: "\<And>k. k < length fs \<Longrightarrow> length_prefix_sum (fs ! k) = prefix_sum fs (Suc k)"
    and fit: "fits fp fs c" and mn: "m \<le> n" "n \<le> length fs" "prefix_sum fs m \<le> b" "e \<le> prefix_sum fs n" and "b \<le> e"
    and lens: "\<And>f. f \<in> set fs \<Longrightarrow> len_agrees st (fp f) (file_length f) \<and> file_length f < 2 ^ 64"
    and len: "length data = e - b"
  shows "flat fp fs (write_fs c (block_loop fp b e (drop m (take n fs)) (e - b)) data) = overwrite (flat fp fs c) b data"
    and "blocks_ok st (block_loop fp b e (drop m (take n fs)) (e - b))"
    and "sum_list (map bi_len (block_loop fp b e (drop m (take n fs)) (e - b))) = e - b"
proof -
  let ?mid = "drop m (take n fs)" and ?s = "prefix_sum fs m"
  let ?bis = "block_loop fp b e ?mid (e - b)"
  have "length_prefix_sum (?mid ! k) = ?s + prefix_sum ?mid (Suc k)" if "k < length ?mid" for k
    using ok [of "m + k"] that mn prefix_sum_drop [of m "take n fs" "Suc k"]
      prefix_sum_take [of "m + Suc k" n fs] prefix_sum_take [of m n fs] by simp
  then have pok: "prefix_ok ?s ?mid" by (rule prefix_ok_nth)
  have fs: "fs = take m fs @ ?mid @ drop n fs"
    using mn by (metis append.assoc append_take_drop_id min.absorb1 take_take)
  have dist: "distinct (map fp (take m fs @ ?mid @ drop n fs))"
    using fit by (simp only: fs [symmetric] fits_def)
  have fits: "fits fp (take m fs) c" "fits fp ?mid c"
    using fit dist by (auto simp: fits_def list_all_iff dest: in_set_dropD in_set_takeD)
  have tot: "?s + sum_list (map file_length ?mid) = prefix_sum fs n"
    using prefix_sum_drop [of m "take n fs" "n - m"] prefix_sum_take [of m n fs] mn by (simp add: prefix_sum_def drop_take)
  have max: "max b ?s = b" using mn(3) by simp
  from block_loop_ok [OF assms(7), of ?mid st fp ?s] lens pok fits(2) tot mn(4)
  show "blocks_ok st ?bis" "sum_list (map bi_len ?bis) = e - b"
    unfolding max by (auto simp: fits_def dest: in_set_dropD in_set_takeD)
  have w: "flat fp ?mid (write_fs c ?bis data) = overwrite (flat fp ?mid c) (b - ?s) data"
    using block_loop_write [OF assms(7) pok fits(2), of data] tot mn(4) len max by simp
  have keep: "flat fp gs (write_fs c ?bis data) = flat fp gs c" if "fp ` set gs \<inter> fp ` set ?mid = {}" for gs
    using that block_loop_paths [of fp b e ?mid "e - b"] by (intro flat_cong write_fs_other) blast
  have "length (flat fp (take m fs) c) = ?s" "length (flat fp ?mid c) = prefix_sum fs n - ?s"
    using length_flat [OF fits(1)] length_flat [OF fits(2)] tot by (simp_all add: prefix_sum_def)
  then have "overwrite (flat fp (take m fs) c @ flat fp ?mid c @ flat fp (drop n fs) c) b data
      = flat fp (take m fs) c @ overwrite (flat fp ?mid c) (b - ?s) data @ flat fp (drop n fs) c"
    using mn(3,4) len assms(7) by (subst overwrite_middle) simp_all
  moreover have "flat fp (take m fs) (write_fs c ?bis data) = flat fp (take m fs) c"
    "flat fp (drop n fs) (write_fs c ?bis data) = flat fp (drop n fs) c"
    using dist by (auto intro!: keep)
  moreover have "flat fp fs x = flat fp (take m fs) x @ flat fp ?mid x @ flat fp (drop n fs) x" for x
    by (metis fs flat_simps(3))
  ultimately show "flat fp fs (write_fs c ?bis data) = overwrite (flat fp fs c) b data" using w by simp
qed

section \<open>Properties\<close>

lemma store_then_checkout:
  assumes "io_ok io" and "store_ok s" and "blocks_ok s bis"
    and "length data = sum_list (map bi_len bis)" and "0 < chunk"
  shows "\<exists>s1 s2. write_blocks io it lim bis data s = (Inr (), s1) \<and> store_ok s1
    \<and> content s1 = write_fs (content s) bis data \<and> read_blocks (content s1) bis = data
    \<and> checkout io chunk sha1 bis hash s1 = Some (Inr (sha1 data = hash), s2) \<and> st_fs s2 = st_fs s1"
proof -
  from write_blocks_ok [OF assms(1-4)] obtain s1 where
    s1: "write_blocks io it lim bis data s = (Inr (), s1)" "store_ok s1" "content s1 = write_fs (content s) bis data"
      "dom (st_fs s1) = dom (st_fs s) \<union> bi_filepath ` set bis" by blast
  have rb: "read_blocks (content s1) bis = data"
    using assms(3,4) s1(3) by (simp add: blocks_ok_def write_fs_reads_back list_all_iff)
  have "\<exists>b. st_fs s1 (bi_filepath bi) = Some b \<and> bi_start bi + bi_len bi \<le> length b" if "bi \<in> set bis" for bi
  proof -
    have "bi_filepath bi \<in> dom (st_fs s1)" using s1(4) that by simp
    moreover have "bi_start bi + bi_len bi \<le> length (content s1 (bi_filepath bi))"
      using write_fs_covers [OF _ _ _ that] assms(3,4) s1(3) by (simp add: blocks_ok_def list_all_iff)
    ultimately show ?thesis by (auto simp: content_def)
  qed
  then obtain s2 where "checkout_loop io chunk bis [] s1 = Some (Inr ([] @ read_blocks (content s1) bis), s2)" "same_files s1 s2"
    using checkout_loop_reads [OF assms(1,5), of s1 bis "[]"] by (auto simp: list_all_iff)
  then show ?thesis using s1 rb by (auto simp: checkout_def same_files_def)
qed

text \<open>
  C22. A block whose parts lie inside their files (each file once, none of them open with another length)
  is stored without an error when files can be opened and flushed, whatever the flush threshold and the
  order in which writers are flushed; the bytes then read through the same parts are the block, every other
  file and every byte outside the parts keeps its content up to zero padding, and the hash check of these
  parts returns and compares the hash of the block.
\<close>

theorem store_reads_back:
  assumes "io_ok io" and "store_ok s" and "blocks_ok s bis"
    and "length data = sum_list (map bi_len bis)" and "0 < chunk"
  shows "\<exists>s1 s2. write_blocks io it lim bis data s = (Inr (), s1) \<and> store_ok s1
    \<and> content s1 = write_fs (content s) bis data \<and> read_blocks (content s1) bis = data
    \<and> checkout io chunk sha1 bis hash s1 = Some (Inr (sha1 data = hash), s2) \<and> st_fs s2 = st_fs s1"
  using assms by (rule store_then_checkout)

theorem store_reads_back_witness:
  "\<exists>s1 s2. write_blocks \<lparr> io_open = \<lambda>_. True, io_flush = \<lambda>_. True \<rparr> [] 2
      [\<lparr> bi_filepath = ''a'', bi_start = 1, bi_len = 2, bi_file_len = 3 \<rparr>, \<lparr> bi_filepath = ''b'', bi_start = 0, bi_len = 1, bi_file_len = 4 \<rparr>]
      [7, 8, 9] (Store_new Map.empty) = (Inr (), s1)
    \<and> content s1 ''a'' = [0, 7, 8] \<and> content s1 ''b'' = [9, 0, 0, 0]
    \<and> checkout \<lparr> io_open = \<lambda>_. True, io_flush = \<lambda>_. True \<rparr> 2 rev
      [\<lparr> bi_filepath = ''a'', bi_start = 1, bi_len = 2, bi_file_len = 3 \<rparr>, \<lparr> bi_filepath = ''b'', bi_start = 0, bi_len = 1, bi_file_len = 4 \<rparr>]
      [9, 8, 7] s1 = Some (Inr True, s2)"
proof -
  let ?io = "\<lparr> io_open = \<lambda>_. True, io_flush = \<lambda>_. True \<rparr>" and ?s = "Store_new Map.empty"
  let ?bis = "[\<lparr> bi_filepath = ''a'', bi_start = 1, bi_len = 2, bi_file_len = 3 \<rparr>, \<lparr> bi_filepath = ''b'', bi_start = 0, bi_len = 1, bi_file_len = 4 \<rparr>]"
  have h: "io_ok ?io" "store_ok ?s" "blocks_ok ?s ?bis" "length [7, 8, 9 :: u8] = sum_list (map bi_len ?bis)"
    by (simp_all add: io_ok_def store_ok_def blocks_ok_def len_agrees_def Store_new_def)
  have c: "write_fs (content ?s) ?bis [7, 8, 9] ''a'' = [0, 7, 8]" "write_fs (content ?s) ?bis [7, 8, 9] ''b'' = [9, 0, 0, 0]"
    by (simp_all add: Store_new_def content_def overwrite_def pad_def eval_nat_numeral)
  obtain s1 s2 where "write_blocks ?io [] 2 ?bis [7, 8, 9] ?s = (Inr (), s1)" "content s1 = write_fs (content ?s) ?bis [7, 8, 9]"
    "checkout ?io 2 rev ?bis [9, 8, 7] s1 = Some (Inr (rev [7, 8, 9] = [9, 8, 7]), s2)"
    using store_reads_back [OF h, of 2 "[]" 2 rev "[9, 8, 7]"] by auto
  then have "write_blocks ?io [] 2 ?bis [7, 8, 9] ?s = (Inr (), s1) \<and> content s1 ''a'' = [0, 7, 8] \<and> content s1 ''b'' = [9, 0, 0, 0]
      \<and> checkout ?io 2 rev ?bis [9, 8, 7] s1 = Some (Inr True, s2)"
    using c by simp
  then show ?thesis by blast
qed

text \<open>
  The hash check never returns when a file is shorter than a part it has to read (the file was
  truncated behind the client's back): at the end of the file every read returns no bytes, and the loop
  only counts bytes read.
\<close>

theorem checkout_hangs_on_short_file:
  assumes "io_ok io" and "st_fs s (bi_filepath bi) = Some b" and "length b < bi_start bi + bi_len bi" and "0 < bi_len bi"
  shows "checkout io chunk sha1 (bi # bis) hash s = None"
proof -
  obtain r s1 where f: "Store_flush io (bi_filepath bi) s = (r, s1)" by fastforce
  note same = Store_flush_same [OF f]
  have "read_loop chunk (drop (bi_start bi) b) (bi_len bi) [] = None"
    using assms(3,4) by (intro read_loop_short) simp
  then show ?thesis using assms(1,2) f same by (simp add: checkout_def same_files_def io_ok_def)
qed

theorem checkout_hangs_on_short_file_witness:
  "checkout \<lparr> io_open = \<lambda>_. True, io_flush = \<lambda>_. True \<rparr> 2 rev
     [\<lparr> bi_filepath = ''a'', bi_start = 1, bi_len = 2, bi_file_len = 3 \<rparr>] [] (Store_new [''a'' \<mapsto> [1, 2]]) = None"
  by (rule checkout_hangs_on_short_file [of _ _ _ "[1, 2]"]) (simp_all add: io_ok_def Store_new_def)

text \<open>
  C3. Storing a block of a multi-file torrent implements one write into the concatenation of its files:
  the block descriptors of the block are computed without a panic, the writes succeed, and the torrent
  seen as one sequence of bytes is changed exactly at the position of the block, whatever was stored before
  and wherever the block lies across files.
\<close>

theorem torrent_write_refines_flat_write:
  assumes "0 < pl" and "sum_list (map file_length fs) < 2 ^ 64"
    and "div_ceil (sum_list (map file_length fs)) pl < 2 ^ 32"
    and "fs \<noteq> []" and "0 < file_length (hd fs)"
    and "off + length data \<le> pl" and "p * pl + off + length data \<le> sum_list (map file_length fs)"
    and "io_ok io" and "store_ok s" and "fits (block_filepath root nm) fs (content s)"
    and "\<forall>f \<in> set fs. len_agrees s (block_filepath root nm f) (file_length f)"
  shows "\<exists>i blocks s'. Info_new nm (sum_list (map file_length fs)) pl ps fs md pr = Inr i
    \<and> find_file_of_piece_index i root p off (length data) = Inr blocks
    \<and> write_blocks io it lim blocks data s = (Inr (), s') \<and> store_ok s'
    \<and> flat (block_filepath root nm) fs (content s') = overwrite (flat (block_filepath root nm) fs (content s)) (p * pl + off) data"
proof -
  let ?b = "p * pl + off" and ?e = "p * pl + off + length data" and ?fp = "block_filepath root nm"
  from find_file_blocks [OF assms(1-7)] obtain i m n where
    i: "Info_new nm (sum_list (map file_length fs)) pl ps fs md pr = Inr i"
      "find_file_of_piece_index i root p off (length data) = Inr (block_loop ?fp ?b ?e (drop m (take n (info_files i))) (length data))"
    and same: "length (info_files i) = length fs"
      "\<forall>k < length fs. info_files i ! k = (fs ! k)\<lparr>length_prefix_sum := prefix_sum fs (Suc k)\<rparr>"
    and mn: "m \<le> n" "n \<le> length fs" "prefix_sum fs m \<le> ?b" "?e \<le> prefix_sum fs n" by blast
  let ?fs = "info_files i"
  let ?bis = "block_loop ?fp ?b ?e (drop m (take n ?fs)) (length data)"
  note psum = prefix_sum_irrelevant [OF same]
  have fl: "flat ?fp ?fs c = flat ?fp fs c" for c
    unfolding flat_def by (subst map_prefix_irrelevant [OF same]) simp_all
  have fit: "fits ?fp ?fs (content s)"
    using assms(10) map_prefix_irrelevant [OF same, of ?fp]
    by (auto simp: fits_def list_all_iff elim!: in_set_prefix [OF same])
  have lt: "file_length f < 2 ^ 64" if "f \<in> set fs" for f
    using member_le_sum_list [of "file_length f" "map file_length fs"] that assms(2) by simp
  have lens: "len_agrees s (?fp f) (file_length f) \<and> file_length f < 2 ^ 64" if "f \<in> set ?fs" for f
    using that assms(11) lt by (auto elim!: in_set_prefix [OF same])
  have ok: "length_prefix_sum (?fs ! k) = prefix_sum ?fs (Suc k)" if "k < length ?fs" for k
    using same that by (simp add: psum)
  note blr = block_loop_range_write [OF ok fit mn(1) _ _ _ _ lens, of ?b ?e data]
  have "blocks_ok s ?bis" "sum_list (map bi_len ?bis) = length data"
    "flat ?fp ?fs (write_fs (content s) ?bis data) = overwrite (flat ?fp ?fs (content s)) ?b data"
    using blr(2,3,1) mn same(1) by (simp_all add: psum)
  moreover from this write_blocks_ok [OF assms(8,9), of ?bis data it lim] obtain s' where
    "write_blocks io it lim ?bis data s = (Inr (), s')" "store_ok s'" "content s' = write_fs (content s) ?bis data" by auto
  ultimately show ?thesis using i fl by auto
qed

lemma file_length_new [simp]: "file_length (File_new l p h) = l"
  by (simp add: File_new_def)

theorem torrent_write_refines_flat_write_witness:
  "\<exists>i blocks s'. Info_new ''n'' 6 4 [] [File_new 3 [''a''] None, File_new 3 [''b''] None] None None = Inr i
    \<and> find_file_of_piece_index i ''d'' 0 1 3 = Inr blocks
    \<and> write_blocks \<lparr> io_open = \<lambda>_. True, io_flush = \<lambda>_. True \<rparr> [] 2 blocks [7, 8, 9] (Store_new Map.empty) = (Inr (), s')
    \<and> flat (block_filepath ''d'' ''n'') [File_new 3 [''a''] None, File_new 3 [''b''] None] (content s') = [0, 7, 8, 9, 0, 0]"
proof -
  let ?fs = "[File_new 3 [''a''] None, File_new 3 [''b''] None]" and ?s = "Store_new Map.empty"
  let ?io = "\<lparr> io_open = \<lambda>_. True, io_flush = \<lambda>_. True \<rparr>" and ?fp = "block_filepath ''d'' ''n''"
  note defs = File_new_def Store_new_def block_filepath_def path_push_def path_collect_def
  have h: "sum_list (map file_length ?fs) = 6" "div_ceil 6 4 = 2" "io_ok ?io" "store_ok ?s" "fits ?fp ?fs (content ?s)"
    "\<forall>f \<in> set ?fs. len_agrees ?s (?fp f) (file_length f)"
    by (simp_all add: div_ceil_def io_ok_def store_ok_def fits_def content_def len_agrees_def defs)
  let ?d = "[7, 8, 9 :: u8]"
  have "\<exists>i blocks s'. Info_new ''n'' (sum_list (map file_length ?fs)) 4 [] ?fs None None = Inr i
    \<and> find_file_of_piece_index i ''d'' 0 1 (length ?d) = Inr blocks
    \<and> write_blocks ?io [] 2 blocks ?d ?s = (Inr (), s') \<and> store_ok s'
    \<and> flat ?fp ?fs (content s') = overwrite (flat ?fp ?fs (content ?s)) (0 * 4 + 1) ?d"
    by (rule torrent_write_refines_flat_write) (use h in \<open>simp_all\<close>)
  moreover have "overwrite (flat ?fp ?fs (content ?s)) (0 * 4 + 1) ?d = [0, 7, 8, 9, 0, 0]"
    by (simp add: overwrite_def pad_def content_def defs eval_nat_numeral)
  moreover have "length ?d = 3" by simp
  ultimately show ?thesis unfolding h(1) by metis
qed

end
