(* ===== verification/Effect.thy ===== *)
theory Effect
  imports Prelude
begin

text \<open>
  Asynchronous methods that mutate shared state: a computation takes the state and yields a result (an
  error is a value, as \<^verbatim>\<open>Result\<close> is) with the new state, or \<open>None\<close> when it never returns. The state
  reached before an error is kept, as in the code. \<open>wp\<close> is the weakest precondition for partial
  correctness with one postcondition for results and one for errors; \<open>returns\<close> says that a computation
  ends.
\<close>

type_synonym ('s, 'a) eff = "'s \<Rightarrow> ('a result \<times> 's) option"

definition ret :: "'a \<Rightarrow> ('s, 'a) eff" where
  "ret x s = Some (Inr x, s)"

definition fail :: "error \<Rightarrow> ('s, 'a) eff" where
  "fail e s = Some (Inl e, s)"

definition eff_bind :: "('s, 'a) eff \<Rightarrow> ('a \<Rightarrow> ('s, 'b) eff) \<Rightarrow> ('s, 'b) eff" where
  "eff_bind m f s =
     (case m s of
        None \<Rightarrow> None
      | Some (Inl e, s') \<Rightarrow> Some (Inl e, s')
      | Some (Inr x, s') \<Rightarrow> f x s')"

definition gets :: "('s \<Rightarrow> 'a) \<Rightarrow> ('s, 'a) eff" where
  "gets f s = Some (Inr (f s), s)"

definition modify :: "('s \<Rightarrow> 's) \<Rightarrow> ('s, unit) eff" where
  "modify f s = Some (Inr (), f s)"

text \<open>A fallible update of the state; a failure leaves it unchanged.\<close>

definition modify_result :: "('s \<Rightarrow> 's result) \<Rightarrow> ('s, unit) eff" where
  "modify_result f s = (case f s of Inl e \<Rightarrow> Some (Inl e, s) | Inr s' \<Rightarrow> Some (Inr (), s'))"

definition lift_result :: "'a result \<Rightarrow> ('s, 'a) eff" where
  "lift_result r s = Some (r, s)"

text \<open>An error that the caller handles.\<close>

definition attempt :: "('s, 'a) eff \<Rightarrow> ('s, 'a result) eff" where
  "attempt m s = (case m s of None \<Rightarrow> None | Some (r, s') \<Rightarrow> if panics r then Some (Inl (case r of Inl e \<Rightarrow> e), s') else Some (Inr r, s'))"

fun eff_each :: "('x \<Rightarrow> ('s, unit) eff) \<Rightarrow> 'x list \<Rightarrow> ('s, unit) eff" where
  "eff_each f [] = ret ()"
| "eff_each f (x # xs) = eff_bind (f x) (\<lambda>_. eff_each f xs)"

section \<open>Weakest preconditions\<close>

definition wp :: "('s, 'a) eff \<Rightarrow> ('a \<Rightarrow> 's \<Rightarrow> bool) \<Rightarrow> (error \<Rightarrow> 's \<Rightarrow> bool) \<Rightarrow> 's \<Rightarrow> bool" where
  "wp m Q E s \<longleftrightarrow> (\<forall>r s'. m s = Some (r, s') \<longrightarrow> (case r of Inl e \<Rightarrow> E e s' | Inr x \<Rightarrow> Q x s'))"

named_theorems wp_simps "equations that push wp through the combinators"

lemma wp_basic [wp_simps]:
  "wp (ret x) Q E = Q x"
  "wp (fail e) Q E = E e"
  "wp (gets f) Q E = (\<lambda>s. Q (f s) s)"
  "wp (modify g) Q' E = (\<lambda>s. Q' () (g s))"
  "wp (lift_result r) Q E = (case r of Inl e \<Rightarrow> E e | Inr x \<Rightarrow> Q x)"
  "wp (modify_result h) Q' E = (\<lambda>s. case h s of Inl e \<Rightarrow> E e s | Inr s' \<Rightarrow> Q' () s')"
  by (auto simp: fun_eq_iff wp_def ret_def fail_def gets_def modify_def lift_result_def modify_result_def split: sum.splits)

lemma wp_bind [wp_simps]: "wp (eff_bind m f) Q E = wp m (\<lambda>x. wp (f x) Q E) E"
  by (auto simp: fun_eq_iff wp_def eff_bind_def split: option.splits sum.splits)

lemma wp_attempt [wp_simps]:
  "wp (attempt m) Q E = wp m (\<lambda>x. Q (Inr x)) (\<lambda>e. if panics (Inl e :: unit result) then E e else Q (Inl e))"
  by (auto simp: fun_eq_iff wp_def attempt_def panics_def split: option.splits sum.splits error.splits)

lemma wp_if [wp_simps]: "wp (if b then m else m') Q E = (if b then wp m Q E else wp m' Q E)"
  by simp

lemma wp_mono:
  assumes "wp m Q E s" and "\<And>x s'. Q x s' \<Longrightarrow> Q' x s'" and "\<And>e s'. E e s' \<Longrightarrow> E' e s'"
  shows "wp m Q' E' s"
  using assms by (auto simp: wp_def split: sum.splits)

lemma wp_conj: "wp m Q E s \<Longrightarrow> wp m Q' E' s \<Longrightarrow> wp m (\<lambda>x s. Q x s \<and> Q' x s) (\<lambda>e s. E e s \<and> E' e s) s"
  by (auto simp: wp_def split: sum.splits)

lemma wp_each:
  assumes "\<And>x s. x \<in> set xs \<Longrightarrow> I s \<Longrightarrow> wp (f x) (\<lambda>_. I) E s" and "I s"
  shows "wp (eff_each f xs) (\<lambda>_. I) E s"
  using assms by (induction xs arbitrary: s) (auto simp: wp_simps intro: wp_mono)

lemma wpD: "wp m Q E s \<Longrightarrow> m s = Some (Inr x, s') \<Longrightarrow> Q x s'"
  by (auto simp: wp_def)

lemma wpD_error: "wp m Q E s \<Longrightarrow> m s = Some (Inl e, s') \<Longrightarrow> E e s'"
  by (auto simp: wp_def)

section \<open>Frames\<close>

text \<open>What a computation does not change, whatever its result.\<close>

definition frame :: "('s \<Rightarrow> 'f) \<Rightarrow> ('s, 'a) eff \<Rightarrow> bool" where
  "frame f m \<longleftrightarrow> (\<forall>s r s'. m s = Some (r, s') \<longrightarrow> f s' = f s)"

lemma frameI: "(\<And>s r s'. m s = Some (r, s') \<Longrightarrow> f s' = f s) \<Longrightarrow> frame f m"
  by (simp add: frame_def)

lemma frameD: "frame f m \<Longrightarrow> m s = Some (r, s') \<Longrightarrow> f s' = f s"
  by (simp add: frame_def)

named_theorems frame_intros "rules for frames"

lemma frame_basic [frame_intros]:
  "frame f (ret x)" "frame f (fail e)" "frame f (gets g)" "frame f (lift_result r)" "frame f (\<lambda>_. None)"
  by (auto simp: frame_def ret_def fail_def gets_def lift_result_def)

lemma frame_modify [frame_intros]: "(\<And>s. f (g s) = f s) \<Longrightarrow> frame f (modify g)"
  by (auto simp: frame_def modify_def)

lemma frame_modify_result [frame_intros]: "(\<And>s s'. h s = Inr s' \<Longrightarrow> f s' = f s) \<Longrightarrow> frame f (modify_result h)"
  by (auto simp: frame_def modify_result_def split: sum.splits)

lemma frame_bind [frame_intros]: "frame f m \<Longrightarrow> (\<And>x. frame f (k x)) \<Longrightarrow> frame f (eff_bind m k)"
  unfolding frame_def eff_bind_def by (fastforce split: option.splits sum.splits)

lemma frame_attempt [frame_intros]: "frame f m \<Longrightarrow> frame f (attempt m)"
  unfolding frame_def attempt_def by (fastforce split: option.splits if_splits)

lemma frame_if [frame_intros]: "(b \<Longrightarrow> frame f m) \<Longrightarrow> (\<not> b \<Longrightarrow> frame f m') \<Longrightarrow> frame f (if b then m else m')"
  by simp

lemma frame_case_option [frame_intros]:
  "(x = None \<Longrightarrow> frame f m) \<Longrightarrow> (\<And>y. x = Some y \<Longrightarrow> frame f (k y)) \<Longrightarrow> frame f (case x of None \<Rightarrow> m | Some y \<Rightarrow> k y)"
  by (cases x) simp_all

lemma frame_case_sum [frame_intros]:
  "(\<And>y. x = Inl y \<Longrightarrow> frame f (m y)) \<Longrightarrow> (\<And>y. x = Inr y \<Longrightarrow> frame f (k y)) \<Longrightarrow> frame f (case x of Inl y \<Rightarrow> m y | Inr y \<Rightarrow> k y)"
  by (cases x) simp_all

lemma frame_case_prod [frame_intros]: "(\<And>a b. x = (a, b) \<Longrightarrow> frame f (k a b)) \<Longrightarrow> frame f (case x of (a, b) \<Rightarrow> k a b)"
  by (cases x) simp_all

lemma frame_each [frame_intros]: "(\<And>x. x \<in> set xs \<Longrightarrow> frame f (g x)) \<Longrightarrow> frame f (eff_each g xs)"
  by (induction xs) (auto intro: frame_intros)

section \<open>Termination\<close>

definition returns :: "('s, 'a) eff \<Rightarrow> 's \<Rightarrow> bool" where
  "returns m s \<longleftrightarrow> m s \<noteq> None"

lemma returns_basic [simp]:
  "returns (ret x) s" "returns (fail e) s" "returns (gets f) s" "returns (modify g) s" "returns (lift_result r) s"
  "returns (modify_result h) s"
  by (simp_all add: returns_def ret_def fail_def gets_def modify_def lift_result_def modify_result_def split: sum.split)

lemma returns_bind: "returns m s \<Longrightarrow> wp m (\<lambda>x. returns (f x)) (\<lambda>_ _. True) s \<Longrightarrow> returns (eff_bind m f) s"
  by (auto simp: returns_def wp_def eff_bind_def split: option.splits sum.splits)

end
