(* ===== verification/Servant.thy ===== *)
theory Servant
  imports Peer_State Store Effect
begin

text \<open>
  The servant of a torrent (\<^verbatim>\<open>bt/default_servant.rs\<close>): it owns the record of finished pieces and of the
  pieces in progress, assigns pieces to peers, handles their messages, writes blocks, checks hashes, and
  takes pieces away from slow peers.

  Peers are shared objects: \<open>sv_heap\<close> holds them by id, \<open>sv_peers\<close> is the key set of the map of connected
  peers, so a peer that has left the map can still be used by a handler that holds it. A handler runs as
  one step: the code awaits inside its handlers, so this describes runs in which they do not overlap. \<^verbatim>\<open>Servant_Tasks\<close>
  cuts the writing of a block at every access to shared state and lets the parts of several tasks interleave. The maps of the code are traversed in an order that \<open>ev_order\<close> gives for their key set.
  Notifications of the callback that do not touch the servant are recorded in \<open>sv_events\<close>; the callbacks
  that return a result are the argument \<open>cb\<close>.
\<close>

section \<open>State\<close>

datatype PieceStatus = Ing nat | Pause nat

datatype ErrorType = Exception | DeadlyError

datatype PeerExitReason = Normal | ClientExit | NotHasJob | PeriodicPeerReplace | ExitException ErrorType | DownloadFinished

datatype Event =
    OnStoreBlockSuccess nat nat nat nat
  | OnStoreBlockFailed nat nat nat
  | OnVerifyPieceSuccess nat nat
  | OnVerifyPieceFailed nat nat
  | OnPeerExit nat PeerExitReason
  | OnPieceDownloadFinished nat
  | ReportedReadSize nat nat
  | ParseSuccess Torrent

datatype Call =
    ReceivedBlock nat nat nat
  | HavePieceAvailable nat u8
  | RequestAvailable
  | OwnerBitfield
  | OnHandshakeSuccess
  | OnExtendHandshakeSuccess
  | OnMetadataComplete
  | OnMetadataPieceWrite

text \<open>\<open>sv_callback\<close>: not set, or set and alive or dropped.\<close>

record DefaultServant =
  sv_torrent :: "Torrent option"
  sv_bytefield :: bytes
  sv_underway :: "nat \<rightharpoonup> PieceStatus"
  sv_callback :: "bool option"
  sv_peers :: "nat set"
  sv_heap :: "nat \<Rightarrow> Peer"
  sv_save_path :: string
  sv_piece_finished :: bool
  sv_store :: Store
  sv_events :: "Event list"

type_synonym 'a sv = "(DefaultServant, 'a) eff"

record env =
  ev_block_size :: nat
  ev_metadata_size_limit :: nat
  ev_buf_limit :: nat
  ev_hash_chunk_size :: nat
  ev_sha1 :: "bytes \<Rightarrow> bytes"
  ev_io :: io
  ev_writer_order :: "string list"
  ev_order :: "nat set \<Rightarrow> nat list"
  ev_now :: nat

definition DefaultServant_new :: "Torrent option \<Rightarrow> bytes \<Rightarrow> (nat \<rightharpoonup> PieceStatus) \<Rightarrow> string \<Rightarrow> bool \<Rightarrow> (nat \<Rightarrow> Peer) \<Rightarrow> Store \<Rightarrow> DefaultServant" where
  "DefaultServant_new t bf ub path finished heap st =
     \<lparr> sv_torrent = t, sv_bytefield = bf, sv_underway = ub, sv_callback = None, sv_peers = {}, sv_heap = heap,
       sv_save_path = path, sv_piece_finished = finished, sv_store = st, sv_events = [] \<rparr>"

definition sv_peer :: "nat \<Rightarrow> DefaultServant \<Rightarrow> Peer" where
  "sv_peer i s = sv_heap s i"

definition set_peer :: "nat \<Rightarrow> Peer \<Rightarrow> DefaultServant \<Rightarrow> DefaultServant" where
  "set_peer i p s = s\<lparr> sv_heap := (sv_heap s)(i := p) \<rparr>"

definition with_peer :: "nat \<Rightarrow> (Peer \<Rightarrow> Peer) \<Rightarrow> unit sv" where
  "with_peer i f = modify (\<lambda>s. set_peer i (f (sv_peer i s)) s)"

definition with_peer_result :: "nat \<Rightarrow> (Peer \<Rightarrow> Peer result) \<Rightarrow> unit sv" where
  "with_peer_result i f = modify_result (\<lambda>s. and_then (f (sv_peer i s)) (\<lambda>p. Inr (set_peer i p s)))"

definition notify :: "Event \<Rightarrow> unit sv" where
  "notify e = modify (\<lambda>s. s\<lparr> sv_events := sv_events s @ [e] \<rparr>)"

text \<open>\<^verbatim>\<open>callback\<close>: whether the callback is alive; it panics when none was set.\<close>

definition callback :: "bool sv" where
  "callback = eff_bind (gets sv_callback) (\<lambda>c. case c of None \<Rightarrow> fail (Panic ''callback not init'') | Some b \<Rightarrow> ret b)"

definition set_callback :: "bool \<Rightarrow> unit sv" where
  "set_callback alive = eff_bind (gets sv_callback) (\<lambda>c. case c of None \<Rightarrow> modify (\<lambda>s. s\<lparr> sv_callback := Some alive \<rparr>)
     | Some _ \<Rightarrow> fail (Panic ''callback init failed''))"

section \<open>Pieces in progress\<close>

definition update_write_piece_offset :: "nat \<Rightarrow> nat \<Rightarrow> DefaultServant \<Rightarrow> DefaultServant" where
  "update_write_piece_offset i off s =
     (case sv_underway s i of
        Some (Ing _) \<Rightarrow> s\<lparr> sv_underway := (sv_underway s)(i \<mapsto> Ing off) \<rparr>
      | _ \<Rightarrow> s)"

definition remove_finish_piece :: "nat \<Rightarrow> DefaultServant \<Rightarrow> DefaultServant" where
  "remove_finish_piece i s = s\<lparr> sv_underway := (sv_underway s)(i := None) \<rparr>"

definition reset_underway_piece :: "nat \<Rightarrow> DefaultServant \<Rightarrow> DefaultServant" where
  "reset_underway_piece i s = s\<lparr> sv_underway := (sv_underway s)(i \<mapsto> Pause 0) \<rparr>"

definition mark_piece_finish :: "nat \<Rightarrow> DefaultServant \<Rightarrow> DefaultServant" where
  "mark_piece_finish i s = remove_finish_piece i (s\<lparr> sv_bytefield := bitmap_put (sv_bytefield s) i \<rparr>)"

fun status_offset :: "PieceStatus \<Rightarrow> nat" where
  "status_offset (Ing off) = off"
| "status_offset (Pause off) = off"

definition get_piece_status_idx :: "nat \<Rightarrow> DefaultServant \<Rightarrow> nat option" where
  "get_piece_status_idx i s = map_option status_offset (sv_underway s i)"

definition set_piece_status_pause :: "nat \<Rightarrow> DefaultServant \<Rightarrow> DefaultServant" where
  "set_piece_status_pause i s =
     (case sv_underway s i of
        None \<Rightarrow> s
      | Some st \<Rightarrow> s\<lparr> sv_underway := (sv_underway s)(i \<mapsto> Pause (status_offset st)) \<rparr>)"

definition apply_download_piece :: "nat \<Rightarrow> DefaultServant \<Rightarrow> (nat \<times> nat) option \<times> DefaultServant" where
  "apply_download_piece i s =
     (let (idx, offset) = bitmap_offset i in
      if length (sv_bytefield s) \<le> idx then (None, s)
      else if sv_bytefield s ! idx AND offset = 0 then
        (case sv_underway s i of
           Some (Pause off) \<Rightarrow> (Some (i, off), s\<lparr> sv_underway := (sv_underway s)(i \<mapsto> Ing off) \<rparr>)
         | Some (Ing _) \<Rightarrow> (None, s)
         | None \<Rightarrow> (Some (i, 0), s\<lparr> sv_underway := (sv_underway s)(i \<mapsto> Ing 0) \<rparr>))
      else (None, s))"

section \<open>Choosing the next block\<close>

text \<open>
  The first loop of \<^verbatim>\<open>try_find_downloadable_peice\<close>: the first piece of the peer with blocks that were not
  requested yet, in the order \<open>it\<close> of the map.
\<close>

fun next_requested :: "Torrent \<Rightarrow> (nat \<rightharpoonup> nat) \<Rightarrow> nat list \<Rightarrow> (nat \<times> nat) option" where
  "next_requested t m [] = None"
| "next_requested t m (i # it) =
     (case m i of
        None \<Rightarrow> next_requested t m it
      | Some off \<Rightarrow> if off < Torrent_piece_length t i then Some (i, off) else next_requested t m it)"

text \<open>The second loop: the first piece the peer has that is neither finished nor taken.\<close>

fun take_new_piece :: "env \<Rightarrow> Torrent \<Rightarrow> nat \<Rightarrow> nat list \<Rightarrow> (nat \<times> nat) option sv" where
  "take_new_piece ev t pid [] = ret None"
| "take_new_piece ev t pid (i # is) =
     eff_bind (gets (\<lambda>s. bitmap_has (pe_op_bitfield (sv_peer pid s)) i)) (\<lambda>have.
       if \<not> have then take_new_piece ev t pid is
       else
         eff_bind (\<lambda>s. case apply_download_piece i s of (r, s') \<Rightarrow> Some (Inr r, s')) (\<lambda>r. case r of
           None \<Rightarrow> take_new_piece ev t pid is
         | Some (i, off) \<Rightarrow>
             eff_bind (with_peer_result pid (reset_request_piece_origin (ev_block_size ev) i off (Torrent_piece_length t i))) (\<lambda>_.
             eff_bind (with_peer pid (\<lambda>p. case request_pieces p i of
                 None \<Rightarrow> p
               | Some v \<Rightarrow> p\<lparr> request_pieces := (request_pieces p)(i \<mapsto> wrap32 (v + ev_block_size ev)) \<rparr>)) (\<lambda>_.
             ret (Some (i, off))))))"

definition try_find_downloadable_peice :: "env \<Rightarrow> Torrent \<Rightarrow> nat \<Rightarrow> (nat \<times> nat) option sv" where
  "try_find_downloadable_peice ev t pid =
     eff_bind (gets (sv_peer pid)) (\<lambda>p.
       if \<not> is_can_be_download p then ret None
       else
         (case next_requested t (request_pieces p) (ev_order ev (dom (request_pieces p))) of
            Some (i, off) \<Rightarrow>
              let v = wrap32 (off + ev_block_size ev);
                  m = (request_pieces p)(i \<mapsto> v);
                  m = (if Torrent_piece_length t i \<le> v then m(i := None) else m)
              in eff_bind (with_peer pid (\<lambda>p. p\<lparr> request_pieces := m \<rparr>)) (\<lambda>_. ret (Some (i, off)))
          | None \<Rightarrow> take_new_piece ev t pid [0..<piece_num t]))"

section \<open>Finishing\<close>

text \<open>
  \<^verbatim>\<open>check_piece_download_finished\<close>: the bytes of the bit field from the last one backwards; the counter
  \<^verbatim>\<open>pn\<close> that the loop decrements is not read again.
\<close>

fun all_full :: "u8 \<Rightarrow> bytes \<Rightarrow> bool" where
  "all_full last_v [] = True"
| "all_full last_v (v # vs) = (if v \<noteq> last_v then False else all_full 255 vs)"

definition check_piece_download_finished :: "bool sv" where
  "check_piece_download_finished =
     eff_bind (gets sv_torrent) (\<lambda>t. case t of
       None \<Rightarrow> ret False
     | Some t \<Rightarrow>
         eff_bind (gets sv_piece_finished) (\<lambda>f.
           if f then ret True
           else
             let pn = sub64 (piece_num t) 1 in
             eff_bind (gets sv_bytefield) (\<lambda>bf.
               if all_full (push_bit (7 - pn mod 8) (- 1)) (rev bf) then
                 eff_bind (modify (\<lambda>s. s\<lparr> sv_piece_finished := True \<rparr>)) (\<lambda>_. ret True)
               else ret False)))"

section \<open>Leaving peers\<close>

definition peer_exit :: "env \<Rightarrow> nat \<Rightarrow> PeerExitReason \<Rightarrow> unit sv" where
  "peer_exit ev pid reason =
     eff_bind (gets sv_peers) (\<lambda>ps.
       if pid \<notin> ps then ret ()
       else
         eff_bind (modify (\<lambda>s. s\<lparr> sv_peers := sv_peers s - {pid} \<rparr>)) (\<lambda>_.
         eff_bind (with_peer pid shutdown) (\<lambda>_.
         eff_bind (gets (\<lambda>s. ev_order ev (dom (response_pieces (sv_peer pid s))))) (\<lambda>is.
         eff_bind (eff_each (\<lambda>i. modify (set_piece_status_pause i)) is) (\<lambda>_.
         eff_bind callback (\<lambda>alive.
           if alive then notify (OnPeerExit pid reason) else ret ()))))))"

section \<open>Taking pieces from slow peers\<close>

definition BW_GAIN_THRESH :: nat where "BW_GAIN_THRESH = UNIT * 5 div 4"

definition faster :: "nat \<Rightarrow> nat \<Rightarrow> bool" where
  "faster a b \<longleftrightarrow> wrap64 (b * BW_GAIN_THRESH) \<le> wrap64 (a * UNIT)"

definition peer_bw :: "env \<Rightarrow> nat \<Rightarrow> nat sv" where
  "peer_bw ev pid =
     (\<lambda>s. case Dashbord_bw (ev_now ev) (pe_dashbord (sv_peer pid s)) of
        Inl e \<Rightarrow> Some (Inl e, s)
      | Inr (bw, d) \<Rightarrow> Some (Inr bw, set_peer pid ((sv_peer pid s)\<lparr> pe_dashbord := d \<rparr>) s))"

fun peer_bws :: "env \<Rightarrow> nat list \<Rightarrow> (nat \<times> nat) list sv" where
  "peer_bws ev [] = ret []"
| "peer_bws ev (pid # ids) =
     eff_bind (peer_bw ev pid) (\<lambda>bw. eff_bind (peer_bws ev ids) (\<lambda>rest. ret ((bw, pid) # rest)))"

text \<open>
  The closure of \<^verbatim>\<open>retain\<close> over the pieces of the slow peer \<open>v\<close>: pieces that \<open>pid\<close> can download are
  taken out of its two maps and collected with their offsets.
\<close>

fun loot :: "nat \<Rightarrow> nat \<Rightarrow> nat list \<Rightarrow> (nat \<times> nat) list \<Rightarrow> (nat \<times> nat) list sv" where
  "loot pid v [] free = ret free"
| "loot pid v (i # is) free =
     eff_bind (gets (\<lambda>s. bitmap_has (pe_op_bitfield (sv_peer pid s)) i)) (\<lambda>have.
       if \<not> have then loot pid v is free
       else
         eff_bind (gets (get_piece_status_idx i)) (\<lambda>st. case st of
           None \<Rightarrow> fail (Panic ''no status of an assigned piece'')
         | Some off \<Rightarrow>
             eff_bind (with_peer v (\<lambda>p. p\<lparr> request_pieces := (request_pieces p)(i := None),
                                          response_pieces := (response_pieces p)(i := None) \<rparr>)) (\<lambda>_.
             loot pid v is (free @ [(i, off)]))))"

fun free_loop :: "env \<Rightarrow> Torrent \<Rightarrow> nat \<Rightarrow> nat \<Rightarrow> (nat \<times> nat) list \<Rightarrow> bool sv" where
  "free_loop ev t pid bw [] = ret False"
| "free_loop ev t pid bw ((b, v) # vs) =
     (if \<not> faster bw b then ret False
      else
        eff_bind (gets (\<lambda>s. ev_order ev (dom (response_pieces (sv_peer v s))))) (\<lambda>is.
        eff_bind (loot pid v is []) (\<lambda>free.
        eff_bind (gets (\<lambda>s. has_transfer_data (sv_peer v s))) (\<lambda>busy.
        eff_bind (if \<not> busy then peer_exit ev v NotHasJob else ret ()) (\<lambda>_.
          if free \<noteq> [] then
            eff_bind (eff_each (\<lambda>(i, off). with_peer_result pid
                (reset_request_piece_origin (ev_block_size ev) i off (Torrent_piece_length t i))) free) (\<lambda>_. ret True)
          else free_loop ev t pid bw vs)))))"

definition try_free_slow_piece :: "env \<Rightarrow> Torrent \<Rightarrow> nat \<Rightarrow> bool sv" where
  "try_free_slow_piece ev t pid =
     eff_bind (gets sv_peers) (\<lambda>ps.
     eff_bind (peer_bws ev (ev_order ev (ps - {pid}))) (\<lambda>vs.
     eff_bind (peer_bw ev pid) (\<lambda>bw.
     free_loop ev t pid bw (sort_key fst vs))))"

section \<open>Requesting\<close>

text \<open>
  \<^verbatim>\<open>request_piece\<close> and \<^verbatim>\<open>try_loot_slow_peer\<close> call each other, and the former loops while the send window has
  space; the first argument bounds the number of rounds, and a run that exceeds it does not return.
\<close>

fun request_piece :: "nat \<Rightarrow> env \<Rightarrow> nat \<Rightarrow> unit sv"
  and request_loop :: "nat \<Rightarrow> env \<Rightarrow> Torrent \<Rightarrow> nat \<Rightarrow> unit sv"
  and try_loot_slow_peer :: "nat \<Rightarrow> env \<Rightarrow> Torrent \<Rightarrow> nat \<Rightarrow> unit sv" where
  "request_piece 0 ev pid = (\<lambda>_. None)"
| "request_piece (Suc n) ev pid =
     eff_bind (gets sv_torrent) (\<lambda>t. case t of
       None \<Rightarrow> ret ()
     | Some t \<Rightarrow>
         eff_bind (gets (\<lambda>s. pid \<in> sv_peers s)) (\<lambda>found.
           if \<not> found then fail (Err ''peer not found'')
           else
             eff_bind (gets (sv_peer pid)) (\<lambda>p.
               if \<not> is_can_be_download p then ret () else request_loop n ev t pid)))"
| "request_loop 0 ev t pid = (\<lambda>_. None)"
| "request_loop (Suc n) ev t pid =
     eff_bind (gets (sv_peer pid)) (\<lambda>p.
       if \<not> has_send_window_space p then ret ()
       else
         eff_bind (try_find_downloadable_peice ev t pid) (\<lambda>r. case r of
           Some (i, off) \<Rightarrow>
             let len = min (ev_block_size ev) (sub32 (Torrent_piece_length t i) off) in
             eff_bind (with_peer_result pid (Peer_request_piece i off len)) (\<lambda>_.
             eff_bind (with_peer pid (\<lambda>p. p\<lparr> pe_dashbord := Dashbord_send (pe_dashbord p) \<rparr>)) (\<lambda>_.
             request_loop n ev t pid))
         | None \<Rightarrow>
             eff_bind (gets (sv_peer pid)) (\<lambda>p.
               if inflight (pe_dashbord p) = 0 \<and> dom (response_pieces p) \<noteq> {} \<and> dom (request_pieces p) = {} then
                 eff_bind (eff_each (\<lambda>(i, off). with_peer_result pid
                     (reset_request_piece_origin (ev_block_size ev) i off (Torrent_piece_length t i)))
                   (map (\<lambda>i. (i, p_block_offset (the (response_pieces p i)))) (ev_order ev (dom (response_pieces p))))) (\<lambda>_.
                 request_loop n ev t pid)
               else try_loot_slow_peer n ev t pid)))"
| "try_loot_slow_peer 0 ev t pid = (\<lambda>_. None)"
| "try_loot_slow_peer (Suc n) ev t pid =
     eff_bind check_piece_download_finished (\<lambda>fin.
       if fin then eff_bind callback (\<lambda>alive. if alive then notify (OnPieceDownloadFinished pid) else ret ())
       else
         eff_bind (try_free_slow_piece ev t pid) (\<lambda>freed.
           if freed then request_piece n ev pid
           else
             eff_bind (gets (\<lambda>s. has_transfer_data (sv_peer pid s))) (\<lambda>busy.
               if \<not> busy then peer_exit ev pid NotHasJob else ret ())))"

definition request_metadata_piece :: "nat \<Rightarrow> unit sv" where
  "request_metadata_piece pid =
     eff_bind (gets (\<lambda>s. pid \<in> sv_peers s)) (\<lambda>found.
       if \<not> found then fail (Err ''peer not found'')
       else with_peer_result pid (\<lambda>p. Peer_request_metadata_piece (wrap32 (metadata_piece_idx p)) p))"

definition happen_exeception :: "env \<Rightarrow> nat \<Rightarrow> unit sv" where
  "happen_exeception ev pid = peer_exit ev pid (ExitException Exception)"

definition reported_read_size :: "nat \<Rightarrow> nat \<Rightarrow> unit sv" where
  "reported_read_size pid n =
     eff_bind (gets (\<lambda>s. pid \<in> sv_peers s)) (\<lambda>found.
       if \<not> found then ret ()
       else eff_bind callback (\<lambda>alive. if alive then notify (ReportedReadSize pid n) else ret ()))"

section \<open>Writing and checking blocks\<close>

definition with_store :: "(Store \<Rightarrow> ('a result \<times> Store) option) \<Rightarrow> 'a sv" where
  "with_store f s = (case f (sv_store s) of None \<Rightarrow> None | Some (r, st) \<Rightarrow> Some (r, s\<lparr> sv_store := st \<rparr>))"

definition piece_hash :: "Torrent \<Rightarrow> nat \<Rightarrow> bytes result" where
  "piece_hash t i =
     (if length (info_pieces (info t)) < (i + 1) * 20 then Inl (Panic ''range end index out of range'')
      else Inr (take 20 (drop (i * 20) (info_pieces (info t)))))"

definition checkout_piece_hash :: "env \<Rightarrow> nat \<Rightarrow> nat \<Rightarrow> unit sv" where
  "checkout_piece_hash ev pid i =
     eff_bind (gets sv_torrent) (\<lambda>t. case t of
       None \<Rightarrow> fail (Panic ''unwrap of None'')
     | Some t \<Rightarrow>
         eff_bind (lift_result (piece_hash t i)) (\<lambda>hash.
         eff_bind (gets sv_save_path) (\<lambda>path.
         eff_bind (lift_result (find_file_of_piece_index (info t) path i 0 (Torrent_piece_length t i))) (\<lambda>bis.
         eff_bind (attempt (with_store (checkout (ev_io ev) (ev_hash_chunk_size ev) (ev_sha1 ev) bis hash))) (\<lambda>r.
           if r = Inr True then
             eff_bind (modify (mark_piece_finish i)) (\<lambda>_. notify (OnVerifyPieceSuccess pid i))
           else
             eff_bind (modify (reset_underway_piece i)) (\<lambda>_. notify (OnVerifyPieceFailed pid i)))))))"

definition write_file :: "env \<Rightarrow> nat \<Rightarrow> nat \<Rightarrow> nat \<Rightarrow> bytes \<Rightarrow> unit sv" where
  "write_file ev pid i off data =
     eff_bind (gets (\<lambda>s. get_seq_last_piece_block_offset i (sv_peer pid s))) (\<lambda>ro. case ro of
       None \<Rightarrow> ret ()
     | Some real_offset \<Rightarrow>
         eff_bind (gets sv_torrent) (\<lambda>t. case t of
           None \<Rightarrow> fail (Panic ''unwrap of None'')
         | Some t \<Rightarrow>
             eff_bind (gets sv_save_path) (\<lambda>path.
             eff_bind (lift_result (find_file_of_piece_index (info t) path i off (length data))) (\<lambda>bis.
             eff_bind (attempt (with_store (\<lambda>st. Some (write_blocks (ev_io ev) (ev_writer_order ev) (ev_buf_limit ev) bis data st)))) (\<lambda>r.
               case r of
                 Inl _ \<Rightarrow>
                   eff_bind (with_peer_result pid (reset_request_piece_origin (ev_block_size ev) i off (Torrent_piece_length t i))) (\<lambda>_.
                   notify (OnStoreBlockFailed pid i off))
               | Inr _ \<Rightarrow>
                   eff_bind (modify (update_write_piece_offset i real_offset)) (\<lambda>_.
                   eff_bind (with_peer_result pid (update_resoponse_piece i off)) (\<lambda>_.
                   eff_bind (notify (OnStoreBlockSuccess pid i off (length data))) (\<lambda>_.
                   eff_bind (gets (\<lambda>s. piece_recv_finish i (sv_peer pid s))) (\<lambda>fin.
                     if fin then
                       eff_bind (with_peer pid (Peer_remove_finish_piece i)) (\<lambda>_. checkout_piece_hash ev pid i)
                     else ret ())))))))))"

section \<open>Messages\<close>

text \<open>\<open>cb pid c\<close> is the call \<open>c\<close> of the callback for the peer; it is skipped when the callback is gone.\<close>

type_synonym callbacks = "nat \<Rightarrow> Call \<Rightarrow> unit sv"

definition call :: "callbacks \<Rightarrow> nat \<Rightarrow> Call \<Rightarrow> unit sv" where
  "call cb pid c = eff_bind callback (\<lambda>alive. if alive then cb pid c else ret ())"

definition handle_choke :: "nat \<Rightarrow> unit sv" where
  "handle_choke pid = with_peer pid (\<lambda>p. p\<lparr> pe_status := StChoke \<rparr>)"

definition handle_un_choke :: "callbacks \<Rightarrow> nat \<Rightarrow> unit sv" where
  "handle_un_choke cb pid =
     eff_bind (with_peer pid (\<lambda>p. p\<lparr> pe_status := StUnChoke \<rparr>)) (\<lambda>_. call cb pid RequestAvailable)"

definition handle_interested :: "nat \<Rightarrow> unit sv" where
  "handle_interested pid =
     eff_bind (with_peer pid (\<lambda>p. p\<lparr> pe_op_status := StUnChoke \<rparr>)) (\<lambda>_. with_peer_result pid request_un_choke)"

definition handle_not_interested :: "nat \<Rightarrow> unit sv" where
  "handle_not_interested pid =
     eff_bind (with_peer pid (\<lambda>p. p\<lparr> pe_op_status := StChoke \<rparr>)) (\<lambda>_. with_peer_result pid request_choke)"

definition handle_have :: "callbacks \<Rightarrow> nat \<Rightarrow> bytes \<Rightarrow> unit sv" where
  "handle_have cb pid payload =
     (if length payload \<noteq> 4 then fail (Err ''length of Have'')
      else
        let bit = from_be_slice 4 payload; (idx, offset) = bitmap_offset bit in
        eff_bind (with_peer pid (\<lambda>p. p\<lparr> pe_op_bitfield := bitmap_put (pe_op_bitfield p) bit \<rparr>)) (\<lambda>_.
        call cb pid (HavePieceAvailable idx offset)))"

definition handle_bitfield :: "callbacks \<Rightarrow> nat \<Rightarrow> bytes \<Rightarrow> unit sv" where
  "handle_bitfield cb pid payload =
     eff_bind (gets sv_torrent) (\<lambda>t. case t of
       None \<Rightarrow> ret ()
     | Some t \<Rightarrow>
         if length payload \<noteq> bitfield_len t then fail (Err ''length of Bitfield'')
         else eff_bind (with_peer pid (set_op_bitfield payload)) (\<lambda>_. call cb pid OwnerBitfield))"

definition handle_request :: "nat \<Rightarrow> bytes \<Rightarrow> unit sv" where
  "handle_request pid payload = ret ()"

definition handle_piece :: "env \<Rightarrow> callbacks \<Rightarrow> nat \<Rightarrow> bytes \<Rightarrow> unit sv" where
  "handle_piece ev cb pid payload =
     eff_bind (gets sv_torrent) (\<lambda>t. case t of
       None \<Rightarrow> ret ()
     | Some t \<Rightarrow>
         if length payload < 8 then fail (Err ''length of Piece'')
         else
           let i = from_be_slice 4 (take 4 payload); off = from_be_slice 4 (take 4 (drop 4 payload)) in
           eff_bind (gets (\<lambda>s. is_valid_piece_response i (sv_peer pid s))) (\<lambda>valid.
             if \<not> valid then ret ()
             else
               let data = drop 8 payload in
               eff_bind callback (\<lambda>alive.
                 if \<not> alive then ret ()
                 else
                   eff_bind (cb pid (ReceivedBlock i off (wrap32 (length data)))) (\<lambda>_.
                   write_file ev pid i off data))))"

definition handle_cancel :: "nat \<Rightarrow> bytes \<Rightarrow> unit sv" where
  "handle_cancel pid payload = ret ()"

section \<open>Extension messages\<close>

fun add_extend_ids :: "(string \<times> nat) list \<Rightarrow> Peer \<Rightarrow> Peer" where
  "add_extend_ids [] p = p"
| "add_extend_ids ((name, source) # m) p =
     (case ExtendedId_from_name name of
        Some target \<Rightarrow> add_extend_ids m (add_extend_id (word_of_nat source) target p)
      | None \<Rightarrow> add_extend_ids m p)"

definition handle_handshake :: "callbacks \<Rightarrow> nat \<Rightarrow> bytes \<Rightarrow> unit sv" where
  "handle_handshake cb pid payload =
     eff_bind (lift_result (from_bencode False 2048 HandshakeData_decode payload)) (\<lambda>h.
     eff_bind (with_peer pid (add_extend_ids (hs_m h))) (\<lambda>_.
     eff_bind (with_peer_result pid (set_extend_handshake_data h)) (\<lambda>_.
     call cb pid OnExtendHandshakeSuccess)))"

definition handle_ut_metadata_data :: "env \<Rightarrow> callbacks \<Rightarrow> nat \<Rightarrow> Metadata \<Rightarrow> bytes \<Rightarrow> unit sv" where
  "handle_ut_metadata_data ev cb pid md payload =
     (case md_total_size md of
        None \<Rightarrow> fail (Panic ''unwrap of None'')
      | Some tot \<Rightarrow>
          if ev_metadata_size_limit ev < tot then fail (Err ''metadata too large'')
          else
            eff_bind (with_peer pid (init_metadata_piece tot)) (\<lambda>_.
            eff_bind (with_peer_result pid (set_metadata_piece (md_piece md) payload)) (\<lambda>_.
            eff_bind (gets (sv_peer pid)) (\<lambda>p.
            eff_bind (lift_result (is_metadata_complete p)) (\<lambda>complete.
              call cb pid (if complete then OnMetadataComplete else OnMetadataPieceWrite))))))"

definition handle_ut_metadata :: "env \<Rightarrow> callbacks \<Rightarrow> nat \<Rightarrow> bytes \<Rightarrow> unit sv" where
  "handle_ut_metadata ev cb pid payload =
     eff_bind (lift_result (from_bencode_first 2048 Metadata_decode payload)) (\<lambda>(md, offset).
       case md_msg_type md of
         MtRequest \<Rightarrow> ret ()
       | MtData \<Rightarrow> handle_ut_metadata_data ev cb pid md (drop offset payload)
       | MtReject \<Rightarrow> ret ())"

definition handle_extension_protocol :: "env \<Rightarrow> callbacks \<Rightarrow> nat \<Rightarrow> bytes \<Rightarrow> unit sv" where
  "handle_extension_protocol ev cb pid payload =
     (case payload of
        [] \<Rightarrow> fail (Err ''length of extension message'')
      | source # payload \<Rightarrow>
          eff_bind (gets (\<lambda>s. extend_id_transform source (sv_peer pid s))) (\<lambda>v.
            if v = Some (ExtendedId_get_value EHandshake) then handle_handshake cb pid payload
            else if v = Some (ExtendedId_get_value UtMetadata) then handle_ut_metadata ev cb pid payload
            else ret ()))"

text \<open>\<^verbatim>\<open>handle\<close>: the other extension messages and the message types without a case are accepted and ignored.\<close>

definition handle :: "env \<Rightarrow> callbacks \<Rightarrow> nat \<Rightarrow> MsgType \<Rightarrow> bytes \<Rightarrow> unit sv" where
  "handle ev cb pid mt payload =
     eff_bind (gets (\<lambda>s. pid \<in> sv_peers s)) (\<lambda>found.
       if \<not> found then ret ()
       else
         (case mt of
            Choke \<Rightarrow> handle_choke pid
          | UnChoke \<Rightarrow> handle_un_choke cb pid
          | Interested \<Rightarrow> handle_interested pid
          | NotInterested \<Rightarrow> handle_not_interested pid
          | Have \<Rightarrow> handle_have cb pid payload
          | Bitfield \<Rightarrow> handle_bitfield cb pid payload
          | Request \<Rightarrow> handle_request pid payload
          | PieceMsg \<Rightarrow> handle_piece ev cb pid payload
          | Cancel \<Rightarrow> handle_cancel pid payload
          | ExtensionProtocol \<Rightarrow> handle_extension_protocol ev cb pid payload
          | _ \<Rightarrow> ret ()))"

definition add_peer :: "callbacks \<Rightarrow> nat \<Rightarrow> Peer \<Rightarrow> unit sv" where
  "add_peer cb pid peer =
     eff_bind (modify (set_peer pid peer)) (\<lambda>_.
     eff_bind callback (\<lambda>alive.
       if \<not> alive then ret ()
       else
         eff_bind (attempt (cb pid OnHandshakeSuccess)) (\<lambda>r. case r of
           Inl _ \<Rightarrow> notify (OnPeerExit pid (ExitException Exception))
         | Inr _ \<Rightarrow> modify (\<lambda>s. s\<lparr> sv_peers := insert pid (sv_peers s) \<rparr>))))"

section \<open>The callbacks of a download task\<close>

text \<open>
  The calls of \<^verbatim>\<open>Dispatch\<close> (\<^verbatim>\<open>core/task/content.rs\<close>) that return a result; the calls it does not define
  are the empty defaults of the trait. \<open>n\<close> bounds the rounds of a request.
\<close>

definition dispatch_callbacks :: "nat \<Rightarrow> env \<Rightarrow> callbacks" where
  "dispatch_callbacks n ev pid c =
     (case c of
        ReceivedBlock _ _ _ \<Rightarrow> request_piece n ev pid
      | HavePieceAvailable _ _ \<Rightarrow> request_piece n ev pid
      | RequestAvailable \<Rightarrow> request_piece n ev pid
      | OwnerBitfield \<Rightarrow> request_piece n ev pid
      | OnHandshakeSuccess \<Rightarrow>
          eff_bind (gets sv_bytefield) (\<lambda>bf.
          eff_bind (with_peer_result pid (request_bitfield bf)) (\<lambda>_.
          with_peer_result pid request_interested))
      | OnExtendHandshakeSuccess \<Rightarrow> ret ()
      | OnMetadataComplete \<Rightarrow> ret ()
      | OnMetadataPieceWrite \<Rightarrow> ret ())"

section \<open>Runs\<close>

text \<open>
  The operations other components invoke, in any order, with any environment whose orders are orders. A
  peer is added once, with a record fresh from the handshake; \<open>dash\<close> stands for the acknowledgements that the
  reading task hands to the rate control.
\<close>

definition order_ok :: "env \<Rightarrow> bool" where
  "order_ok ev \<longleftrightarrow> (\<forall>D. set (ev_order ev D) \<subseteq> D \<and> distinct (ev_order ev D) \<and> (finite D \<longrightarrow> set (ev_order ev D) = D))"

inductive sv_step :: "DefaultServant \<Rightarrow> DefaultServant \<Rightarrow> bool" where
  step_handle: "order_ok ev \<Longrightarrow> handle ev (dispatch_callbacks n ev) pid mt payload s = Some (r, s') \<Longrightarrow> sv_step s s'"
| step_add: "order_ok ev \<Longrightarrow> pid \<notin> sv_peers s \<Longrightarrow> add_peer (dispatch_callbacks n ev) pid (Peer_new pid d res) s = Some (r, s') \<Longrightarrow> sv_step s s'"
| step_request: "order_ok ev \<Longrightarrow> pid \<in> sv_peers s \<Longrightarrow> request_piece n ev pid s = Some (r, s') \<Longrightarrow> sv_step s s'"
| step_exit: "order_ok ev \<Longrightarrow> peer_exit ev pid reason s = Some (r, s') \<Longrightarrow> sv_step s s'"
| step_exception: "order_ok ev \<Longrightarrow> happen_exeception ev pid s = Some (r, s') \<Longrightarrow> sv_step s s'"
| step_finished: "check_piece_download_finished s = Some (r, s') \<Longrightarrow> sv_step s s'"
| step_metadata: "request_metadata_piece pid s = Some (r, s') \<Longrightarrow> sv_step s s'"
| step_read: "reported_read_size pid k s = Some (r, s') \<Longrightarrow> sv_step s s'"
| step_callback: "set_callback b s = Some (r, s') \<Longrightarrow> sv_step s s'"
| step_dash: "sv_step s (set_peer pid ((sv_peer pid s)\<lparr> pe_dashbord := d \<rparr>) s)"

inductive sv_reach :: "DefaultServant \<Rightarrow> bool" where
  reach_new: "sv_reach (DefaultServant_new t bf ub path fin heap st)"
| reach_step: "sv_reach s \<Longrightarrow> sv_step s s' \<Longrightarrow> sv_reach s'"

end
