(* ===== verification/Limits.thy ===== *)
theory Limits
  imports Prelude
begin

text \<open>
  The limits that the whole client shares: the counters of asynchronous tasks and of peers being started (\<^verbatim>\<open>core/context.rs\<close>) and the pool of
  database connections (\<^verbatim>\<open>core/db.rs\<close>).
\<close>

section \<open>Asynchronous tasks\<close>

record Counters =
  async_task_count :: nat
  async_peer_start_count :: nat

definition Counters_new :: Counters where
  "Counters_new = \<lparr> async_task_count = 0, async_peer_start_count = 0 \<rparr>"

datatype permit = TaskPermit | StartPermit

text \<open>
  Taking a permit succeeds while the counter is below the limit. Both functions update \<^verbatim>\<open>async_task_count\<close>; the permit
  of a peer start gives back to \<^verbatim>\<open>async_peer_start_count\<close> when it is dropped.
\<close>

definition take_async_task_semaphore :: "nat \<Rightarrow> Counters \<Rightarrow> permit option \<times> Counters" where
  "take_async_task_semaphore limit c =
     (if async_task_count c < limit then (Some TaskPermit, c\<lparr> async_task_count := wrap64 (async_task_count c + 1) \<rparr>) else (None, c))"

definition take_async_peer_start_semaphore :: "nat \<Rightarrow> Counters \<Rightarrow> permit option \<times> Counters" where
  "take_async_peer_start_semaphore limit c =
     (if async_task_count c < limit then (Some StartPermit, c\<lparr> async_task_count := wrap64 (async_task_count c + 1) \<rparr>) else (None, c))"

fun AsyncSemaphore_drop :: "permit \<Rightarrow> Counters \<Rightarrow> Counters" where
  "AsyncSemaphore_drop TaskPermit c = c\<lparr> async_task_count := sub64 (async_task_count c) 1 \<rparr>"
| "AsyncSemaphore_drop StartPermit c = c\<lparr> async_peer_start_count := sub64 (async_peer_start_count c) 1 \<rparr>"

text \<open>
  The permits in use are kept beside the counters, and the number of peer starts that ever got one. \<open>tmax\<close> and \<open>smax\<close> are the two limits of the configuration.
\<close>

record permits =
  pm_counters :: Counters
  pm_out :: "permit list"
  pm_started :: nat

definition permits_new :: permits where
  "permits_new = \<lparr> pm_counters = Counters_new, pm_out = [], pm_started = 0 \<rparr>"

definition take_task :: "nat \<Rightarrow> permits \<Rightarrow> permits" where
  "take_task limit p =
     (case take_async_task_semaphore limit (pm_counters p) of
        (None, c) \<Rightarrow> p\<lparr> pm_counters := c \<rparr>
      | (Some x, c) \<Rightarrow> p\<lparr> pm_counters := c, pm_out := x # pm_out p \<rparr>)"

definition take_start :: "nat \<Rightarrow> permits \<Rightarrow> permits" where
  "take_start limit p =
     (case take_async_peer_start_semaphore limit (pm_counters p) of
        (None, c) \<Rightarrow> p\<lparr> pm_counters := c \<rparr>
      | (Some x, c) \<Rightarrow> p\<lparr> pm_counters := c, pm_out := x # pm_out p, pm_started := pm_started p + 1 \<rparr>)"

definition drop_permit :: "permit \<Rightarrow> permits \<Rightarrow> permits" where
  "drop_permit x p = p\<lparr> pm_counters := AsyncSemaphore_drop x (pm_counters p), pm_out := remove1 x (pm_out p) \<rparr>"

inductive permits_reach :: "nat \<Rightarrow> nat \<Rightarrow> permits \<Rightarrow> bool" for tmax smax where
  permits_start: "permits_reach tmax smax permits_new"
| permits_task: "permits_reach tmax smax p \<Longrightarrow> permits_reach tmax smax (take_task tmax p)"
| permits_peer: "permits_reach tmax smax p \<Longrightarrow> permits_reach tmax smax (take_start smax p)"
| permits_drop: "permits_reach tmax smax p \<Longrightarrow> x \<in> set (pm_out p) \<Longrightarrow> permits_reach tmax smax (drop_permit x p)"

section \<open>Database connections\<close>

text \<open>Connections are numbered in the order in which they are opened.\<close>

record Db =
  db_pool :: "nat list"
  db_permits :: nat
  db_opened :: nat

definition Db_new :: "nat \<Rightarrow> Db" where
  "Db_new pool_limit = \<lparr> db_pool = [], db_permits = pool_limit, db_opened = 0 \<rparr>"

text \<open>\<open>None\<close> means that the caller waits for a permit; opening a new connection can fail, and then the permit is given back.\<close>

definition get_conn :: "bool \<Rightarrow> Db \<Rightarrow> (nat result \<times> Db) option" where
  "get_conn can_open d =
     (if db_permits d = 0 then None
      else
        (case db_pool d of
           c # cs \<Rightarrow> Some (Inr c, d\<lparr> db_pool := cs, db_permits := db_permits d - 1 \<rparr>)
         | [] \<Rightarrow>
             if can_open then Some (Inr (db_opened d), d\<lparr> db_permits := db_permits d - 1, db_opened := db_opened d + 1 \<rparr>)
             else Some (Inl (Err ''cannot open the database''), d)))"

definition drop_conn :: "nat \<Rightarrow> Db \<Rightarrow> Db" where
  "drop_conn c d = d\<lparr> db_pool := db_pool d @ [c], db_permits := db_permits d + 1 \<rparr>"

inductive conns_reach :: "nat \<Rightarrow> Db \<Rightarrow> nat list \<Rightarrow> bool" for limit where
  conns_start: "conns_reach limit (Db_new limit) []"
| conns_get: "conns_reach limit d used \<Longrightarrow> get_conn ok d = Some (Inr c, d') \<Longrightarrow> conns_reach limit d' (c # used)"
| conns_fail: "conns_reach limit d used \<Longrightarrow> get_conn ok d = Some (Inl e, d') \<Longrightarrow> conns_reach limit d' used"
| conns_drop: "conns_reach limit d used \<Longrightarrow> c \<in> set used \<Longrightarrow> conns_reach limit (drop_conn c d) (remove1 c used)"

section \<open>Lemmas\<close>

definition permits_inv :: "nat \<Rightarrow> nat \<Rightarrow> permits \<Rightarrow> bool" where
  "permits_inv tmax smax p \<longleftrightarrow> async_task_count (pm_counters p) = count_list (pm_out p) TaskPermit + pm_started p
     \<and> async_task_count (pm_counters p) \<le> max tmax smax \<and> pm_started p \<le> smax"

lemma count_list_remove1: "x \<in> set xs \<Longrightarrow> count_list (remove1 x xs) y = count_list xs y - (if x = y then 1 else 0)"
  by (induction xs) auto

lemma permits_reach_inv:
  assumes "permits_reach tmax smax p" and "tmax < 2 ^ 64" and "smax < 2 ^ 64"
  shows "permits_inv tmax smax p"
  using assms(1)
proof (induction rule: permits_reach.induct)
  case permits_start
  then show ?case by (simp add: permits_inv_def permits_new_def Counters_new_def)
next
  case (permits_task p)
  then show ?case using assms(2,3)
    by (auto simp: permits_inv_def take_task_def take_async_task_semaphore_def)
next
  case (permits_peer p)
  then show ?case using assms(2,3)
    by (auto simp: permits_inv_def take_start_def take_async_peer_start_semaphore_def)
next
  case (permits_drop p x)
  have "0 < count_list (pm_out p) x" using permits_drop.hyps by (metis count_list_0_iff gr0I)
  then show ?case using permits_drop
    by (cases x) (auto simp: permits_inv_def drop_permit_def count_list_remove1)
qed

lemma conns_inv:
  "conns_reach limit d used \<Longrightarrow> db_permits d + length used = limit \<and> distinct (used @ db_pool d)
     \<and> (\<forall>c \<in> set (used @ db_pool d). c < db_opened d) \<and> length (used @ db_pool d) = db_opened d"
proof (induction rule: conns_reach.induct)
  case (conns_get d used ok c d')
  then show ?case by (auto simp: get_conn_def split: if_splits list.splits)
next
  case (conns_drop d used c)
  then have "Suc (length used - Suc 0) = length used" by (cases used) auto
  with conns_drop show ?case by (auto simp: drop_conn_def length_remove1 dest: set_remove1_subset [THEN subsetD])
qed (auto simp: Db_new_def get_conn_def split: if_splits list.splits)

section \<open>Properties\<close>

text \<open>
  C30. The permits of asynchronous peer starts are never given back: over the whole life of the client at most as many peers are started
  asynchronously as the pool of starts is large, and once that many have been started every further request for a permit is
  refused, even when all of them have long ended.
\<close>

theorem async_starts_run_out:
  assumes "permits_reach tmax smax p" and "tmax < 2 ^ 64" and "smax < 2 ^ 64"
  shows "pm_started p \<le> smax \<and> (pm_started p = smax \<longrightarrow> fst (take_async_peer_start_semaphore smax (pm_counters p)) = None)"
  using permits_reach_inv [OF assms] by (auto simp: permits_inv_def take_async_peer_start_semaphore_def)

theorem async_starts_run_out_witness:
  "pm_out (drop_permit StartPermit (take_start 1 permits_new)) = []
    \<and> fst (take_async_peer_start_semaphore 1 (pm_counters (drop_permit StartPermit (take_start 1 permits_new)))) = None"
proof -
  have o: "pm_out (take_start 1 permits_new) = [StartPermit]" "pm_started (take_start 1 permits_new) = 1"
    by (simp_all add: take_start_def take_async_peer_start_semaphore_def permits_new_def Counters_new_def)
  have r: "permits_reach 1 1 (drop_permit StartPermit (take_start 1 permits_new))"
    by (intro permits_drop permits_peer permits_start) (simp add: o [unfolded One_nat_def])
  then show ?thesis using async_starts_run_out [OF r] o by (simp add: drop_permit_def)
qed

end
