(* ===== verification/Peer_Listen.thy ===== *)
theory Peer_Listen
  imports Servant Limits "HOL-Library.Multiset" "HOL-Library.Sublist"
begin

text \<open>
  The task that hands what a connection reports to the servant: \<^verbatim>\<open>persist_listen\<close> of \<^verbatim>\<open>bt/base_peer.rs\<close> with the commands of
  \<^verbatim>\<open>bt/base_peer/command.rs\<close>. A command is handled in the loop itself, or in a task of its own when the connection and the client have
  a permit left. Any order in which these tasks run is possible; each handler runs as one step. The counters of permits are shared with
  the rest of the client, whose steps are part of the relation.
\<close>

section \<open>Commands\<close>

datatype PeerCommand = CmdExit PeerExitReason | CmdPeerTransfer MsgType bytes nat | CmdHeartbeat

text \<open>The callbacks of the trait \<^verbatim>\<open>Servant\<close> that the commands of one connection call, on a state of the implementer.\<close>

record 'm ListenServant =
  ls_peer_exit :: "PeerExitReason \<Rightarrow> 'm \<Rightarrow> 'm"
  ls_reported_read_size :: "nat \<Rightarrow> 'm \<Rightarrow> 'm"
  ls_handle :: "MsgType \<Rightarrow> bytes \<Rightarrow> 'm \<Rightarrow> unit result \<times> 'm"
  ls_heartbeat :: "'m \<Rightarrow> unit result \<times> 'm"
  ls_exception :: "error \<Rightarrow> 'm \<Rightarrow> 'm"

fun PeerCommand_handle :: "'m ListenServant \<Rightarrow> PeerCommand \<Rightarrow> 'm \<Rightarrow> unit result \<times> 'm" where
  "PeerCommand_handle sv (CmdExit reason) m = (Inr (), ls_peer_exit sv reason m)"
| "PeerCommand_handle sv (CmdPeerTransfer msg_type buf read_size) m = ls_handle sv msg_type buf (ls_reported_read_size sv read_size m)"
| "PeerCommand_handle sv CmdHeartbeat m = ls_heartbeat sv m"

section \<open>The loop\<close>

text \<open>A task of the pool holds its permit until its handler returns.\<close>

datatype listen_task = TaskRunning PeerCommand | TaskOver "unit result"

text \<open>
  \<open>pl_arrived\<close> and \<open>pl_handled\<close> are history: the commands that entered the channel and the ones whose handler has run. \<open>pl_others\<close> counts the permits that
  the rest of the client holds or has lost.
\<close>

record 'm listener =
  pl_rx :: "PeerCommand list"
  pl_pool :: "listen_task list"
  pl_counters :: Counters
  pl_servant :: 'm
  pl_alive :: bool
  pl_stopped :: bool
  pl_arrived :: "PeerCommand list"
  pl_handled :: "PeerCommand list"
  pl_others :: nat

definition listener_new :: "'m \<Rightarrow> 'm listener" where
  "listener_new m = \<lparr> pl_rx = [], pl_pool = [], pl_counters = Counters_new, pl_servant = m, pl_alive = True, pl_stopped = False,
     pl_arrived = [], pl_handled = [], pl_others = 0 \<rparr>"

fun running_cmds :: "listen_task list \<Rightarrow> PeerCommand list" where
  "running_cmds [] = []"
| "running_cmds (TaskRunning c # ts) = c # running_cmds ts"
| "running_cmds (TaskOver _ # ts) = running_cmds ts"

definition take_async_semaphore :: "nat \<Rightarrow> nat \<Rightarrow> 'm listener \<Rightarrow> permit option \<times> Counters" where
  "take_async_semaphore limit tmax l =
     (if length (pl_pool l) < limit then take_async_task_semaphore tmax (pl_counters l) else (None, pl_counters l))"

text \<open>Leaving the loop drops the channel and the pool; the tasks that have not ended are aborted and their permits given back. In the program an aborted
  task runs on to its next await; since a handler is one step here, it is aborted before it began.\<close>

definition stop_listening :: "'m listener \<Rightarrow> 'm listener" where
  "stop_listening l = l\<lparr> pl_stopped := True, pl_rx := [], pl_pool := [],
     pl_counters := fold (\<lambda>_. AsyncSemaphore_drop TaskPermit) (running_cmds (pl_pool l)) (pl_counters l) \<rparr>"

text \<open>A command was received. A panic of a handler that runs in the loop ends the loop without a report.\<close>

definition listen_command :: "nat \<Rightarrow> nat \<Rightarrow> 'm ListenServant \<Rightarrow> PeerCommand \<Rightarrow> 'm listener \<Rightarrow> 'm listener" where
  "listen_command limit tmax sv c l =
     (let l = l\<lparr> pl_rx := List.tl (pl_rx l) \<rparr> in
      case take_async_semaphore limit tmax l of
        (ts, cnt) \<Rightarrow>
          if \<not> pl_alive l then
            stop_listening (l\<lparr> pl_counters := (case ts of None \<Rightarrow> cnt | Some p \<Rightarrow> AsyncSemaphore_drop p cnt) \<rparr>)
          else
            (case ts of
               None \<Rightarrow>
                 (case PeerCommand_handle sv c (pl_servant l) of
                    (res, m) \<Rightarrow>
                      let l = l\<lparr> pl_servant := m, pl_handled := pl_handled l @ [c] \<rparr> in
                      (case res of
                         Inr _ \<Rightarrow> l
                       | Inl (Err e) \<Rightarrow> stop_listening (l\<lparr> pl_servant := ls_exception sv (Err e) m \<rparr>)
                       | Inl (Panic e) \<Rightarrow> stop_listening l))
             | Some _ \<Rightarrow> l\<lparr> pl_counters := cnt, pl_pool := pl_pool l @ [TaskRunning c] \<rparr>))"

text \<open>The handler of a task of the pool runs; its permit is dropped, also when it panics.\<close>

definition listen_run :: "'m ListenServant \<Rightarrow> nat \<Rightarrow> PeerCommand \<Rightarrow> 'm listener \<Rightarrow> 'm listener" where
  "listen_run sv i c l =
     (case PeerCommand_handle sv c (pl_servant l) of
        (res, m) \<Rightarrow> l\<lparr> pl_servant := m, pl_handled := pl_handled l @ [c], pl_pool := (pl_pool l)[i := TaskOver res],
                       pl_counters := AsyncSemaphore_drop TaskPermit (pl_counters l) \<rparr>)"

definition listen_join :: "'m ListenServant \<Rightarrow> nat \<Rightarrow> unit result \<Rightarrow> 'm listener \<Rightarrow> 'm listener" where
  "listen_join sv i res l =
     (let l = l\<lparr> pl_pool := take i (pl_pool l) @ drop (Suc i) (pl_pool l) \<rparr> in
      if \<not> pl_alive l then stop_listening l
      else
        (case res of
           Inr _ \<Rightarrow> l
         | Inl e \<Rightarrow> stop_listening (l\<lparr> pl_servant := ls_exception sv e (pl_servant l) \<rparr>)))"

definition listen_arrive :: "PeerCommand \<Rightarrow> 'm listener \<Rightarrow> 'm listener" where
  "listen_arrive c l = l\<lparr> pl_rx := pl_rx l @ [c], pl_arrived := pl_arrived l @ [c] \<rparr>"

text \<open>
  The steps: of the loop, of the tasks, of the senders of the channel, of the servant's owner (a running task keeps the servant alive), and
  of the rest of the client on the counters. \<open>limit\<close> is the number of tasks of a connection, \<open>tmax\<close> and \<open>smax\<close> are the limits of the client.
\<close>

inductive listen_step :: "nat \<Rightarrow> nat \<Rightarrow> nat \<Rightarrow> 'm ListenServant \<Rightarrow> 'm listener \<Rightarrow> 'm listener \<Rightarrow> bool" for limit tmax smax sv where
  ls_command: "\<not> pl_stopped l \<Longrightarrow> pl_rx l = c # cs \<Longrightarrow> listen_step limit tmax smax sv l (listen_command limit tmax sv c l)"
| ls_closed: "\<not> pl_stopped l \<Longrightarrow> pl_rx l = [] \<Longrightarrow> listen_step limit tmax smax sv l (stop_listening l)"
| ls_run: "i < length (pl_pool l) \<Longrightarrow> pl_pool l ! i = TaskRunning c \<Longrightarrow> listen_step limit tmax smax sv l (listen_run sv i c l)"
| ls_join: "\<not> pl_stopped l \<Longrightarrow> i < length (pl_pool l) \<Longrightarrow> pl_pool l ! i = TaskOver res \<Longrightarrow> listen_step limit tmax smax sv l (listen_join sv i res l)"
| ls_arrive: "\<not> pl_stopped l \<Longrightarrow> listen_step limit tmax smax sv l (listen_arrive c l)"
| ls_released: "running_cmds (pl_pool l) = [] \<Longrightarrow> listen_step limit tmax smax sv l (l\<lparr> pl_alive := False \<rparr>)"
| ls_take: "take_async_task_semaphore tmax (pl_counters l) = (Some p, cnt) \<Longrightarrow>
    listen_step limit tmax smax sv l (l\<lparr> pl_counters := cnt, pl_others := pl_others l + 1 \<rparr>)"
| ls_take_start: "take_async_peer_start_semaphore smax (pl_counters l) = (Some p, cnt) \<Longrightarrow>
    listen_step limit tmax smax sv l (l\<lparr> pl_counters := cnt, pl_others := pl_others l + 1 \<rparr>)"
| ls_drop: "0 < pl_others l \<Longrightarrow>
    listen_step limit tmax smax sv l (l\<lparr> pl_counters := AsyncSemaphore_drop TaskPermit (pl_counters l), pl_others := pl_others l - 1 \<rparr>)"

inductive listen_reach :: "nat \<Rightarrow> nat \<Rightarrow> nat \<Rightarrow> 'm ListenServant \<Rightarrow> 'm listener \<Rightarrow> bool" for limit tmax smax sv where
  listen_init: "listen_reach limit tmax smax sv (listener_new m)"
| listen_more: "listen_reach limit tmax smax sv l \<Longrightarrow> listen_step limit tmax smax sv l l' \<Longrightarrow> listen_reach limit tmax smax sv l'"

section \<open>Lemmas\<close>

definition listen_inv :: "nat \<Rightarrow> nat \<Rightarrow> nat \<Rightarrow> 'm listener \<Rightarrow> bool" where
  "listen_inv limit tmax smax l \<longleftrightarrow> length (pl_pool l) \<le> limit
     \<and> async_task_count (pl_counters l) = pl_others l + length (running_cmds (pl_pool l))
     \<and> async_task_count (pl_counters l) \<le> max tmax smax
     \<and> (pl_stopped l \<longrightarrow> pl_pool l = [] \<and> pl_rx l = [])
     \<and> (\<not> pl_stopped l \<longrightarrow> mset (pl_arrived l) = mset (pl_handled l) + mset (running_cmds (pl_pool l)) + mset (pl_rx l))
     \<and> mset (pl_handled l) + mset (running_cmds (pl_pool l)) \<subseteq># mset (pl_arrived l)
     \<and> (limit = 0 \<longrightarrow> prefix (pl_handled l) (pl_arrived l) \<and> (\<not> pl_stopped l \<longrightarrow> pl_arrived l = pl_handled l @ pl_rx l))"

lemma running_cmds_append [simp]: "running_cmds (ts @ us) = running_cmds ts @ running_cmds us"
  by (induction ts rule: running_cmds.induct) auto

lemma running_cmds_le: "length (running_cmds ts) \<le> length ts"
  by (induction ts rule: running_cmds.induct) auto

lemma drop_permits_count:
  "length cs \<le> async_task_count cnt \<Longrightarrow>
     async_task_count (fold (\<lambda>_. AsyncSemaphore_drop TaskPermit) cs cnt) = async_task_count cnt - length cs"
  by (induction cs arbitrary: cnt) auto

text \<open>Leaving the loop establishes the part of the invariant that holds outside it.\<close>

lemma stop_listening_inv:
  assumes "async_task_count (pl_counters l) = pl_others l + length (running_cmds (pl_pool l))"
    and "async_task_count (pl_counters l) \<le> max tmax smax"
    and "mset (pl_handled l) \<subseteq># mset (pl_arrived l)" and "limit = 0 \<longrightarrow> prefix (pl_handled l) (pl_arrived l)"
  shows "listen_inv limit tmax smax (stop_listening l)"
  using assms by (auto simp: listen_inv_def stop_listening_def drop_permits_count)

lemma split_pool:
  assumes "i < length ts" and "ts ! i = t"
  obtains us vs where "ts = us @ t # vs" and "length us = i"
  using assms by (metis id_take_nth_drop length_take min.absorb4)

lemma listen_command_inv:
  assumes inv: "listen_inv limit tmax smax l" and st: "\<not> pl_stopped l" and rx: "pl_rx l = c # cs" and t: "tmax < 2 ^ 64"
  shows "listen_inv limit tmax smax (listen_command limit tmax sv c l)"
proof -
  note i = inv [unfolded listen_inv_def]
  have m: "mset (pl_arrived l) = mset (pl_handled l) + mset (running_cmds (pl_pool l)) + (add_mset c (mset cs))" using i st rx by simp
  have sub: "mset (pl_handled l) \<subseteq># mset (pl_arrived l)" "add_mset c (mset (pl_handled l)) \<subseteq># mset (pl_arrived l)"
    by (simp_all add: m)
  have pre: "prefix (pl_handled l @ [c]) (pl_arrived l)" "prefix (pl_handled l) (pl_arrived l)" "pl_arrived l = pl_handled l @ c # cs" if "limit = 0"
    using i st rx that by (auto simp: prefix_def)
  obtain res m' where h: "PeerCommand_handle sv c (pl_servant l) = (res, m')" by fastforce
  show ?thesis
  proof (cases "pl_alive l")
    case False
    then show ?thesis using i sub pre t
      by (auto simp: listen_command_def Let_def take_async_semaphore_def take_async_task_semaphore_def intro!: stop_listening_inv)
  next
    case alive: True
    show ?thesis
    proof (cases "length (pl_pool l) < limit \<and> async_task_count (pl_counters l) < tmax")
      case True
      then show ?thesis using i m alive st rx t
        by (auto simp: listen_command_def Let_def take_async_semaphore_def take_async_task_semaphore_def listen_inv_def)
    next
      case False
      then have none: "take_async_semaphore limit tmax (l\<lparr> pl_rx := cs \<rparr>) = (None, pl_counters l)"
        by (auto simp: take_async_semaphore_def take_async_task_semaphore_def)
      show ?thesis
      proof (cases res)
        case (Inl e)
        then show ?thesis using i sub pre alive h rx none
          by (cases e) (auto simp: listen_command_def Let_def intro!: stop_listening_inv)
      next
        case (Inr u)
        then show ?thesis using i m pre alive h rx none st
          by (auto simp: listen_command_def Let_def listen_inv_def)
      qed
    qed
  qed
qed

lemma listen_run_inv:
  assumes inv: "listen_inv limit tmax smax l" and i: "i < length (pl_pool l)" "pl_pool l ! i = TaskRunning c"
  shows "listen_inv limit tmax smax (listen_run sv i c l)"
proof -
  obtain us vs where pool: "pl_pool l = us @ TaskRunning c # vs" "length us = i" using i by (rule split_pool)
  obtain res m' where h: "PeerCommand_handle sv c (pl_servant l) = (res, m')" by fastforce
  show ?thesis using inv pool h
    by (auto simp: listen_inv_def listen_run_def)
qed

lemma listen_join_inv:
  assumes inv: "listen_inv limit tmax smax l" and st: "\<not> pl_stopped l" and i: "i < length (pl_pool l)" "pl_pool l ! i = TaskOver res"
  shows "listen_inv limit tmax smax (listen_join sv i res l)"
proof -
  obtain us vs where pool: "pl_pool l = us @ TaskOver res # vs" "length us = i" using i by (rule split_pool)
  have sub: "mset (pl_handled l) \<subseteq># mset (pl_arrived l)" using inv st by (simp add: listen_inv_def)
  show ?thesis
  proof (cases "pl_alive l \<and> res = Inr ()")
    case True
    then show ?thesis using inv pool st by (auto simp: listen_inv_def listen_join_def Let_def)
  next
    case False
    then show ?thesis using inv pool sub
      by (auto simp: listen_inv_def [of _ _ _ l] listen_join_def Let_def split: sum.split intro!: stop_listening_inv)
  qed
qed

lemma listen_step_inv:
  "listen_step limit tmax smax sv l l' \<Longrightarrow> tmax < 2 ^ 64 \<Longrightarrow> smax < 2 ^ 64 \<Longrightarrow> listen_inv limit tmax smax l \<Longrightarrow> listen_inv limit tmax smax l'"
proof (induction rule: listen_step.induct)
  case (ls_closed l)
  then show ?case by (intro stop_listening_inv) (auto simp: listen_inv_def)
next
  case (ls_arrive l c)
  then show ?case by (auto simp: listen_inv_def listen_arrive_def intro: subset_mset.add_increasing2)
next
  case (ls_take l p cnt)
  then show ?case by (auto simp: listen_inv_def take_async_task_semaphore_def split: if_splits)
next
  case (ls_take_start l p cnt)
  then show ?case by (auto simp: listen_inv_def take_async_peer_start_semaphore_def split: if_splits)
next
  case (ls_drop l)
  then show ?case by (auto simp: listen_inv_def)
next
  case (ls_released l)
  then show ?case by (auto simp: listen_inv_def)
qed (auto intro: listen_command_inv listen_run_inv listen_join_inv)

lemma listen_reach_inv:
  assumes "listen_reach limit tmax smax sv l" and "tmax < 2 ^ 64" and "smax < 2 ^ 64"
  shows "listen_inv limit tmax smax l"
  using assms(1)
proof (induction rule: listen_reach.induct)
  case (listen_init m)
  then show ?case by (simp add: listen_inv_def listener_new_def Counters_new_def)
next
  case (listen_more l l')
  then show ?case using listen_step_inv assms(2,3) by blast
qed

section \<open>Properties\<close>

text \<open>
  C13. While a connection is listened to, every command it reported has been handled, is being handled by one task, or waits, and none is handled twice; the
  tasks are never more than the connection is allowed, and the client's counter is exact: it is the number of their permits and of
  those the rest of the client took. When the loop has ended no task is left and its permits have been given back. A connection that is allowed no
  task of its own has its commands handled in the order in which they arrived.
\<close>

theorem peer_commands_handled_once:
  assumes "listen_reach limit tmax smax sv l" and "tmax < 2 ^ 64" and "smax < 2 ^ 64"
  shows "mset (pl_handled l) + mset (running_cmds (pl_pool l)) \<subseteq># mset (pl_arrived l)
    \<and> (\<not> pl_stopped l \<longrightarrow> mset (pl_arrived l) = mset (pl_handled l) + mset (running_cmds (pl_pool l)) + mset (pl_rx l))
    \<and> length (pl_pool l) \<le> limit
    \<and> async_task_count (pl_counters l) = pl_others l + length (running_cmds (pl_pool l))
    \<and> (pl_stopped l \<longrightarrow> pl_pool l = [] \<and> async_task_count (pl_counters l) = pl_others l)
    \<and> (limit = 0 \<longrightarrow> prefix (pl_handled l) (pl_arrived l))"
  using listen_reach_inv [OF assms] by (auto simp: listen_inv_def)

text \<open>A servant that counts what it is told.\<close>

definition counting_servant :: "nat ListenServant" where
  "counting_servant = \<lparr> ls_peer_exit = (\<lambda>_ m. m + 1), ls_reported_read_size = (\<lambda>n m. m + n), ls_handle = (\<lambda>_ _ m. (Inr (), m + 1)),
     ls_heartbeat = (\<lambda>m. (Inr (), m + 1)), ls_exception = (\<lambda>_ m. m) \<rparr>"

definition two_commands :: "PeerCommand list" where
  "two_commands = [CmdHeartbeat, CmdExit ClientExit]"

definition two_tasks :: "nat listener" where
  "two_tasks = listen_command 2 9 counting_servant (CmdExit ClientExit) (listen_command 2 9 counting_servant CmdHeartbeat
     (listen_arrive (CmdExit ClientExit) (listen_arrive CmdHeartbeat (listener_new 0))))"

lemmas listen_eval = two_tasks_def two_commands_def listen_command_def listen_arrive_def listener_new_def Let_def
  take_async_semaphore_def take_async_task_semaphore_def Counters_new_def

lemma two_tasks_simps:
  "pl_pool two_tasks = map TaskRunning two_commands" "pl_arrived two_tasks = two_commands" "pl_handled two_tasks = []"
  "async_task_count (pl_counters two_tasks) = 2" "pl_others two_tasks = 0" "pl_stopped two_tasks = False"
  by (simp_all add: listen_eval)

lemma two_tasks_reach: "listen_reach 2 9 9 counting_servant two_tasks"
proof -
  have a: "listen_reach 2 9 9 counting_servant (listen_arrive (CmdExit ClientExit) (listen_arrive CmdHeartbeat (listener_new 0)))"
    by (rule listen_more [OF listen_more [OF listen_init ls_arrive] ls_arrive]) (simp_all add: listen_eval)
  show ?thesis unfolding two_tasks_def
    by (rule listen_more [OF listen_more [OF a ls_command] ls_command]) (simp_all add: listen_eval)
qed

theorem peer_commands_handled_once_witness:
  "mset (pl_arrived two_tasks) = mset (pl_handled two_tasks) + mset (running_cmds (pl_pool two_tasks)) + mset (pl_rx two_tasks)
    \<and> length (pl_pool two_tasks) = 2 \<and> async_task_count (pl_counters two_tasks) = 2 \<and> pl_handled two_tasks = []"
  using peer_commands_handled_once [OF two_tasks_reach] by (simp add: two_tasks_simps two_commands_def)

text \<open>With tasks of their own, a later command can be handled before an earlier one.\<close>

theorem peer_commands_can_overtake:
  "\<exists>l. listen_reach 2 9 9 counting_servant l \<and> pl_arrived l = two_commands \<and> pl_handled l = rev two_commands"
proof -
  let ?l1 = "listen_run counting_servant 1 (CmdExit ClientExit) two_tasks"
  let ?l2 = "listen_run counting_servant 0 CmdHeartbeat ?l1"
  have p1: "pl_pool ?l1 = [TaskRunning CmdHeartbeat, TaskOver (Inr ())]"
    by (simp add: listen_run_def two_tasks_simps two_commands_def)
  have "listen_reach 2 9 9 counting_servant ?l1"
    by (rule listen_more [OF two_tasks_reach ls_run]) (simp_all add: two_tasks_simps two_commands_def)
  then have "listen_reach 2 9 9 counting_servant ?l2"
    by (rule listen_more [OF _ ls_run]) (simp_all add: p1 [unfolded One_nat_def])
  moreover have "pl_arrived ?l2 = two_commands \<and> pl_handled ?l2 = rev two_commands"
    by (simp add: listen_run_def counting_servant_def two_tasks_simps two_commands_def)
  ultimately show ?thesis by blast
qed

end
