(* ===== verification/Byte_Buffer.thy ===== *)
theory Byte_Buffer
  imports Prelude
begin

text \<open>
  The byte buffer of \<^verbatim>\<open>doro-util/src/buffer.rs\<close>: memory that is not initialised when it is allocated, and the number of bytes in use. A cell
  that was never written is \<open>None\<close>. Calls whose behaviour the allocator leaves undefined have the result \<open>None\<close>.
\<close>

section \<open>Operations\<close>

record BufInner =
  buf_mem :: "u8 option list"
  buf_size :: nat

definition buf_capacity :: "BufInner \<Rightarrow> nat" where
  "buf_capacity b = length (buf_mem b)"

definition BufInner_new :: "nat \<Rightarrow> BufInner" where
  "BufInner_new cap = \<lparr> buf_mem = replicate cap None, buf_size = cap \<rparr>"

definition buf_resize :: "nat \<Rightarrow> BufInner \<Rightarrow> BufInner" where
  "buf_resize n b = b\<lparr> buf_size := min n (buf_capacity b) \<rparr>"

text \<open>\<^verbatim>\<open>realloc\<close> may not be called with a new size of zero, nor on memory that was not allocated.\<close>

definition buf_shrink :: "nat \<Rightarrow> BufInner \<Rightarrow> BufInner option" where
  "buf_shrink cap b =
     (if buf_size b < cap then Some b
      else if cap = 0 \<or> buf_capacity b = 0 then None
      else Some (buf_resize cap (b\<lparr> buf_mem := take cap (buf_mem b @ replicate (cap - buf_capacity b) None) \<rparr>)))"

definition buf_clear :: "BufInner \<Rightarrow> BufInner" where
  "buf_clear b = b\<lparr> buf_size := 0 \<rparr>"

definition buf_as_ref :: "BufInner \<Rightarrow> u8 option list" where
  "buf_as_ref b = take (buf_size b) (buf_mem b)"

text \<open>Slices: an index past the bytes in use panics.\<close>

definition buf_index_range :: "nat \<Rightarrow> nat \<Rightarrow> BufInner \<Rightarrow> u8 option list result" where
  "buf_index_range from to b =
     (if from \<le> to \<and> to \<le> buf_size b then Inr (take (to - from) (drop from (buf_as_ref b))) else Inl (Panic ''slice index out of range''))"

definition buf_index_from :: "nat \<Rightarrow> BufInner \<Rightarrow> u8 option list result" where
  "buf_index_from from b =
     (if from \<le> buf_size b then Inr (drop from (buf_as_ref b)) else Inl (Panic ''slice index out of range''))"

text \<open>What a caller writes through the slice that starts at \<open>from\<close> (\<^verbatim>\<open>as_mut\<close> and \<^verbatim>\<open>index_mut\<close>); a read fills at most the slice.\<close>

definition buf_write :: "nat \<Rightarrow> bytes \<Rightarrow> BufInner \<Rightarrow> BufInner result" where
  "buf_write from xs b =
     (if buf_size b < from then Inl (Panic ''slice index out of range'')
      else
        let ys = take (buf_size b - from) xs in
        Inr (b\<lparr> buf_mem := take from (buf_mem b) @ map Some ys @ drop (from + length ys) (buf_mem b) \<rparr>))"

definition buf_take :: "BufInner \<Rightarrow> u8 option list \<times> BufInner" where
  "buf_take b = (buf_as_ref b, BufInner_new 0)"

section \<open>Properties\<close>

definition buf_ok :: "BufInner \<Rightarrow> bool" where
  "buf_ok b \<longleftrightarrow> buf_size b \<le> buf_capacity b"

text \<open>Every operation keeps the bytes in use inside the allocated memory, so no slice reaches outside it.\<close>

lemma buf_ok_new: "buf_ok (BufInner_new cap)"
  by (simp add: buf_ok_def BufInner_new_def buf_capacity_def)

lemma buf_ok_resize: "buf_ok (buf_resize n b)"
  by (simp add: buf_ok_def buf_resize_def buf_capacity_def)

lemma buf_ok_clear: "buf_ok (buf_clear b)"
  by (simp add: buf_ok_def buf_clear_def)

lemma buf_ok_shrink: "buf_ok b \<Longrightarrow> buf_shrink cap b = Some b' \<Longrightarrow> buf_ok b'"
  using buf_ok_resize by (auto simp: buf_shrink_def split: if_splits)

lemma buf_ok_write: "buf_ok b \<Longrightarrow> buf_write from xs b = Inr b' \<Longrightarrow> buf_ok b'"
  by (auto simp: buf_write_def buf_ok_def buf_capacity_def Let_def split: if_splits)

lemma buf_as_ref_length: "buf_ok b \<Longrightarrow> length (buf_as_ref b) = buf_size b"
  by (simp add: buf_as_ref_def buf_ok_def buf_capacity_def)

text \<open>Shrinking keeps the bytes that fit. Shrinking to nothing is a call of the allocator whose behaviour is undefined.\<close>

theorem buf_shrink_keeps_prefix:
  assumes "buf_ok b" and "0 < cap"
  shows "\<exists>b'. buf_shrink cap b = Some b' \<and> buf_as_ref b' = take cap (buf_as_ref b) \<and> buf_capacity b' \<le> buf_capacity b"
  using assms by (auto simp: buf_shrink_def buf_resize_def buf_as_ref_def buf_ok_def buf_capacity_def min_def)

text \<open>
  The way packets are received: a new buffer, a read of at most its size, \<^verbatim>\<open>resize\<close> to the number of bytes read, \<^verbatim>\<open>take\<close>. The result is exactly
  the packet, no cell of it uninitialised, and the buffer left behind is empty.
\<close>

theorem buf_receive:
  assumes "length xs \<le> cap"
  shows "\<exists>b. buf_write 0 xs (BufInner_new cap) = Inr b \<and> buf_take (buf_resize (length xs) b) = (map Some xs, BufInner_new 0)"
  using assms by (simp add: buf_write_def BufInner_new_def buf_take_def buf_resize_def buf_as_ref_def buf_capacity_def Let_def)

end
