(* ===== verification/Torrent_Db.thy ===== *)
theory Torrent_Db
  imports Servant
begin

text \<open>
  The table of torrents (\<^verbatim>\<open>mapper/torrent.rs\<close>): one row per info hash with the progress of its download. The
  table is a finite map from info hashes to rows; what \<^verbatim>\<open>bincode\<close> writes into the binary columns is given by the
  arguments of type \<open>codec\<close>. A statement that the database rejects is not modelled, except that a counter
  beyond the range of a signed 64-bit column is refused.
\<close>

section \<open>Rows\<close>

datatype TorrentStatus = StDownload | StUpload | StPasue | StFinished

fun status_code :: "TorrentStatus \<Rightarrow> nat" where
  "status_code StDownload = 0"
| "status_code StUpload = 1"
| "status_code StPasue = 2"
| "status_code StFinished = 3"

text \<open>
  \<^verbatim>\<open>TorrentStatus::try_from\<close>: the check admits the numbers up to 8, the type has four variants; reinterpreting one
  of the numbers between is undefined behaviour and counts as a panic here.
\<close>

definition TorrentStatus_try_from :: "nat \<Rightarrow> TorrentStatus result" where
  "TorrentStatus_try_from v =
     (if v \<le> 8 then
        (if v = 0 then Inr StDownload else if v = 1 then Inr StUpload else if v = 2 then Inr StPasue
         else if v = 3 then Inr StFinished else Inl (Panic ''no variant with this number''))
      else Inl (Err ''invalid torrent status''))"

record codec =
  enc_underway :: "(nat \<times> PieceStatus) list \<Rightarrow> bytes"
  dec_underway :: "bytes \<Rightarrow> (nat \<times> PieceStatus) list"
  enc_torrent :: "Torrent \<Rightarrow> bytes"
  dec_torrent :: "bytes \<Rightarrow> Torrent"

record TorrentRow =
  row_serial :: bytes
  row_status :: nat
  row_download :: nat
  row_uploaded :: nat
  row_bytefield :: bytes
  row_underway :: bytes
  row_save_path :: string

type_synonym db = "bytes \<rightharpoonup> TorrentRow"

record TorrentEntity =
  te_info_hash :: "bytes option"
  te_serail :: "Torrent option"
  te_status :: "TorrentStatus option"
  te_download :: "nat option"
  te_uploaded :: "nat option"
  te_bytefield :: "bytes option"
  te_underway :: "(nat \<times> PieceStatus) list option"
  te_save_path :: "string option"

definition TorrentEntity_default :: TorrentEntity where
  "TorrentEntity_default = \<lparr> te_info_hash = None, te_serail = None, te_status = None, te_download = None,
     te_uploaded = None, te_bytefield = None, te_underway = None, te_save_path = None \<rparr>"

section \<open>Statements\<close>

text \<open>An update of the row with the given key; the result is the number of rows it changed.\<close>

definition update_row :: "bytes \<Rightarrow> (TorrentRow \<Rightarrow> TorrentRow) \<Rightarrow> db \<Rightarrow> nat \<times> db" where
  "update_row h f t = (case t h of None \<Rightarrow> (0, t) | Some r \<Rightarrow> (1, t(h \<mapsto> f r)))"

text \<open>\<open>ub\<close> is the traversal of the map of pieces in progress.\<close>

definition update_bytefield :: "codec \<Rightarrow> bytes \<Rightarrow> (nat \<times> PieceStatus) list \<Rightarrow> bytes \<Rightarrow> db \<Rightarrow> nat \<times> db" where
  "update_bytefield c bf ub h = update_row h (\<lambda>r. r\<lparr> row_bytefield := bf, row_underway := enc_underway c ub \<rparr>)"

definition recover_from_db :: "codec \<Rightarrow> bytes \<Rightarrow> db \<Rightarrow> TorrentEntity option result" where
  "recover_from_db c h t =
     (case t h of
        None \<Rightarrow> Inr None
      | Some r \<Rightarrow>
          (case TorrentStatus_try_from (row_status r) of
             Inl _ \<Rightarrow> Inl (Panic ''unwrap of an invalid status'')
           | Inr st \<Rightarrow> Inr (Some (TorrentEntity_default\<lparr> te_download := Some (row_download r), te_uploaded := Some (row_uploaded r),
               te_save_path := Some (row_save_path r), te_bytefield := Some (row_bytefield r),
               te_underway := Some (dec_underway c (row_underway r)), te_status := Some st \<rparr>))))"

definition save_progress_row :: "codec \<Rightarrow> TorrentEntity \<Rightarrow> db \<Rightarrow> (nat \<times> db) result" where
  "save_progress_row c e t =
     (case (te_bytefield e, te_underway e) of
        (Some bf, Some ub) \<Rightarrow>
          (case (te_download e, te_uploaded e, te_status e, te_info_hash e) of
             (Some dl, Some ul, Some st, Some h) \<Rightarrow>
               if 2 ^ 63 \<le> dl \<or> 2 ^ 63 \<le> ul then Inl (Err ''integer out of range of the column'')
               else Inr (update_row h (\<lambda>r. r\<lparr> row_download := dl, row_uploaded := ul, row_bytefield := bf,
                      row_underway := enc_underway c ub, row_status := status_code st \<rparr>) t)
           | _ \<Rightarrow> Inl (Err ''null in a column that must not be null''))
      | _ \<Rightarrow> Inl (Panic ''unwrap of None''))"

definition add_torrent :: "codec \<Rightarrow> Torrent \<Rightarrow> string \<Rightarrow> db \<Rightarrow> bool \<times> db" where
  "add_torrent c tor path t =
     (if t (info_hash tor) \<noteq> None then (False, t)
      else (True, t(info_hash tor \<mapsto> \<lparr> row_serial = enc_torrent c tor, row_status = status_code StDownload,
              row_download = 0, row_uploaded = 0, row_bytefield = replicate (bitfield_len tor) 0,
              row_underway = enc_underway c [], row_save_path = path \<rparr>)))"

text \<open>The rows in the order of the query.\<close>

fun list_rows :: "codec \<Rightarrow> TorrentRow list \<Rightarrow> TorrentEntity list result" where
  "list_rows c [] = Inr []"
| "list_rows c (r # rs) =
     and_then (TorrentStatus_try_from (row_status r)) (\<lambda>st.
     and_then (list_rows c rs) (\<lambda>es.
     Inr (TorrentEntity_default\<lparr> te_serail := Some (dec_torrent c (row_serial r)), te_status := Some st,
            te_save_path := Some (row_save_path r) \<rparr> # es)))"

definition list_torrent :: "codec \<Rightarrow> bytes list \<Rightarrow> db \<Rightarrow> TorrentEntity list result" where
  "list_torrent c hs t = list_rows c (map (\<lambda>h. the (t h)) hs)"

section \<open>Lemmas\<close>

lemma status_roundtrip [simp]: "TorrentStatus_try_from (status_code st) = Inr st"
  by (cases st) (simp_all add: TorrentStatus_try_from_def)

end
