(* ===== verification/Peer_Launch.thy ===== *)
theory Peer_Launch
  imports Effect "HOL-Library.Multiset"
begin

text \<open>
  The peers a task knows and the launcher that connects them (\<^verbatim>\<open>PeerLaunch\<close> of \<^verbatim>\<open>bt/base_peer.rs\<close>), shared by the
  download task and the magnet task: the queue of peers that wait, the connected ones, the addresses
  that must not be started, and the channel to the launcher.

  A peer is described by a record that the tasks extend. The task that starts one connection
  (\<^verbatim>\<open>BasePeer::async_run\<close>) is an entry of \<open>join_set\<close> with its progress, or \<open>inline_start\<close> when the launcher itself
  waits for it. An operation that has to wait for room in a channel does not take place in that state.
\<close>

section \<open>State\<close>

datatype HostSource = FromTracker | FromDHT

record PeerInfo =
  pi_id :: nat
  pi_addr :: SocketAddr
  pi_source :: HostSource
  pi_waited :: bool

datatype StartProgress = Connecting | Started | StartFailed

record 'a Pool =
  wait_queue :: "'a PeerInfo_scheme list"
  peers :: "'a PeerInfo_scheme list"
  unstart_host :: "SocketAddr set"
  launch_queue :: "'a PeerInfo_scheme list"
  join_set :: "('a PeerInfo_scheme \<times> StartProgress) list"
  inline_start :: "('a PeerInfo_scheme \<times> StartProgress) option"
  scan_signals :: nat
  peer_find_flag :: bool

type_synonym ('a, 'x) pool = "('a Pool, 'x) eff"

definition CHANNEL_BUFFER :: nat where "CHANNEL_BUFFER = 100"

definition Pool_new :: "'a Pool" where
  "Pool_new = \<lparr> wait_queue = [], peers = [], unstart_host = {}, launch_queue = [], join_set = [],
     inline_start = None, scan_signals = 0, peer_find_flag = False \<rparr>"

section \<open>Operations\<close>

definition set_waited :: "'a PeerInfo_scheme \<Rightarrow> 'a PeerInfo_scheme" where
  "set_waited pi = pi\<lparr> pi_waited := True \<rparr>"

text \<open>Sending to the launcher and to the DHT scanner.\<close>

definition launch_send :: "'a PeerInfo_scheme \<Rightarrow> ('a, unit) pool" where
  "launch_send pi p =
     (if length (launch_queue p) < CHANNEL_BUFFER then Some (Inr (), p\<lparr> launch_queue := launch_queue p @ [pi] \<rparr>)
      else None)"

definition scan_send :: "('a, unit) pool" where
  "scan_send p =
     (if scan_signals p < CHANNEL_BUFFER then Some (Inr (), p\<lparr> scan_signals := scan_signals p + 1 \<rparr>) else None)"

definition take_from_wait_queue :: "('a, 'a PeerInfo_scheme option) pool" where
  "take_from_wait_queue =
     eff_bind (gets wait_queue) (\<lambda>q. case q of
       pi # q \<Rightarrow> eff_bind (modify (\<lambda>p. p\<lparr> wait_queue := q \<rparr>)) (\<lambda>_. ret (Some (set_waited pi)))
     | [] \<Rightarrow>
         eff_bind (gets peer_find_flag) (\<lambda>flag.
         eff_bind (if flag then ret () else eff_bind scan_send (\<lambda>_. modify (\<lambda>p. p\<lparr> peer_find_flag := True \<rparr>))) (\<lambda>_.
         ret None)))"

text \<open>\<^verbatim>\<open>DashMap::insert\<close> and \<^verbatim>\<open>remove\<close> on the map of peers; its traversal order is an argument where it matters.\<close>

definition insert_peer :: "'a PeerInfo_scheme \<Rightarrow> 'a Pool \<Rightarrow> 'a Pool" where
  "insert_peer pi p = p\<lparr> peers := filter (\<lambda>q. pi_id q \<noteq> pi_id pi) (peers p) @ [pi] \<rparr>"

definition find_peer :: "nat \<Rightarrow> 'a Pool \<Rightarrow> 'a PeerInfo_scheme option" where
  "find_peer i p = find (\<lambda>q. pi_id q = i) (peers p)"

definition remove_peer :: "nat \<Rightarrow> ('a, 'a PeerInfo_scheme option) pool" where
  "remove_peer i =
     eff_bind (gets (find_peer i)) (\<lambda>r.
     eff_bind (modify (\<lambda>p. p\<lparr> peers := filter (\<lambda>q. pi_id q \<noteq> i) (peers p) \<rparr>)) (\<lambda>_. ret r))"

definition push_wait :: "'a PeerInfo_scheme \<Rightarrow> 'a Pool \<Rightarrow> 'a Pool" where
  "push_wait pi p = p\<lparr> wait_queue := wait_queue p @ [pi] \<rparr>"

definition release_host :: "SocketAddr \<Rightarrow> 'a Pool \<Rightarrow> 'a Pool" where
  "release_host a p = p\<lparr> unstart_host := unstart_host p - {a} \<rparr>"

definition find_task_finished :: "('a, unit) pool" where
  "find_task_finished = modify (\<lambda>p. p\<lparr> peer_find_flag := False \<rparr>)"

section \<open>The launcher\<close>

text \<open>\<open>start_limit\<close> and \<open>conn_limit\<close> are the configured limits, \<open>pool\<close> says whether the global pool has room.\<close>

definition get_async_start_limit :: "nat \<Rightarrow> nat \<Rightarrow> 'a Pool \<Rightarrow> nat" where
  "get_async_start_limit start_limit conn_limit p = max start_limit (conn_limit - length (peers p))"

definition launch_take_async_semaphore :: "nat \<Rightarrow> nat \<Rightarrow> bool \<Rightarrow> 'a Pool \<Rightarrow> bool" where
  "launch_take_async_semaphore start_limit conn_limit pool p =
     (if length (join_set p) < get_async_start_limit start_limit conn_limit p then pool else False)"

text \<open>The first arm of \<^verbatim>\<open>PeerLaunch::run\<close>: a peer arrives on the channel. \<open>limit\<close> is \<^verbatim>\<open>get_peer_conn_limit\<close>.\<close>

definition launch_recv :: "('a PeerInfo_scheme \<Rightarrow> nat) \<Rightarrow> nat \<Rightarrow> nat \<Rightarrow> bool \<Rightarrow> ('a, unit) pool" where
  "launch_recv limit start_limit conn_limit pool p =
     (case (inline_start p, launch_queue p) of
        (None, pi # q) \<Rightarrow>
          let p = p\<lparr> launch_queue := q \<rparr> in
          if \<not> pi_waited pi \<and> pi_addr pi \<in> unstart_host p then Some (Inr (), p)
          else
            let p = p\<lparr> unstart_host := insert (pi_addr pi) (unstart_host p) \<rparr> in
            if limit pi \<le> length (peers p) + length (join_set p) then Some (Inr (), push_wait pi p)
            else if launch_take_async_semaphore start_limit conn_limit pool p then
              Some (Inr (), p\<lparr> join_set := join_set p @ [(pi, Connecting)] \<rparr>)
            else Some (Inr (), p\<lparr> inline_start := Some (pi, Connecting) \<rparr>)
      | _ \<Rightarrow> None)"

text \<open>What a start came to; the result says whether the callback \<^verbatim>\<open>on_peer_start_failed\<close> is due.\<close>

definition handle_peer_start_result :: "'a PeerInfo_scheme \<Rightarrow> bool \<Rightarrow> ('a, bool) pool" where
  "handle_peer_start_result pi success =
     (if success then eff_bind (modify (insert_peer pi)) (\<lambda>_. ret False)
      else eff_bind (modify (release_host (pi_addr pi))) (\<lambda>_. ret True))"

text \<open>The second arm: the start at position \<open>k\<close> of the set has ended; and the end of a start the launcher waits for.\<close>

definition launch_join :: "nat \<Rightarrow> ('a, bool) pool" where
  "launch_join k p =
     (if inline_start p = None \<and> k < length (join_set p) \<and> snd (join_set p ! k) \<noteq> Connecting then
        handle_peer_start_result (fst (join_set p ! k)) (snd (join_set p ! k) = Started)
          (p\<lparr> join_set := take k (join_set p) @ drop (Suc k) (join_set p) \<rparr>)
      else None)"

text \<open>A start whose task has panicked: its peer is lost, the address stays blocked.\<close>

definition launch_join_error :: "nat \<Rightarrow> ('a, unit) pool" where
  "launch_join_error k p =
     (if inline_start p = None \<and> k < length (join_set p) then
        Some (Inr (), p\<lparr> join_set := take k (join_set p) @ drop (Suc k) (join_set p) \<rparr>)
      else None)"

definition launch_inline_done :: "('a, bool) pool" where
  "launch_inline_done p =
     (case inline_start p of
        Some (pi, st) \<Rightarrow>
          if st \<noteq> Connecting then handle_peer_start_result pi (st = Started) (p\<lparr> inline_start := None \<rparr>)
          else None
      | None \<Rightarrow> None)"

text \<open>The starts in progress, and recording what became of one: \<open>None\<close> is the start the launcher waits for.\<close>

definition starting :: "nat option \<Rightarrow> 'a Pool \<Rightarrow> 'a PeerInfo_scheme option" where
  "starting w p =
     (case w of
        None \<Rightarrow> (case inline_start p of Some (pi, Connecting) \<Rightarrow> Some pi | _ \<Rightarrow> None)
      | Some k \<Rightarrow> if k < length (join_set p) \<and> snd (join_set p ! k) = Connecting then Some (fst (join_set p ! k)) else None)"

definition set_progress :: "nat option \<Rightarrow> StartProgress \<Rightarrow> 'a Pool \<Rightarrow> 'a Pool" where
  "set_progress w st p =
     (case w of
        None \<Rightarrow> p\<lparr> inline_start := map_option (\<lambda>(pi, _). (pi, st)) (inline_start p) \<rparr>
      | Some k \<Rightarrow> p\<lparr> join_set := (join_set p)[k := (fst (join_set p ! k), st)] \<rparr>)"

section \<open>Who holds an address\<close>

text \<open>
  The peers that have claimed their address: those that wait, are connected, are being started or are on
  their way from the wait queue to the launcher.
\<close>

definition holders :: "'a Pool \<Rightarrow> 'a PeerInfo_scheme list" where
  "holders p = wait_queue p @ peers p @ map fst (join_set p) @ (case inline_start p of None \<Rightarrow> [] | Some (pi, _) \<Rightarrow> [pi])
     @ filter pi_waited (launch_queue p)"

definition held :: "'a Pool \<Rightarrow> SocketAddr set" where
  "held p = pi_addr ` set (holders p)"

definition pool_inv :: "'a Pool \<Rightarrow> bool" where
  "pool_inv p \<longleftrightarrow> distinct (map pi_addr (holders p)) \<and> held p \<subseteq> unstart_host p"

text \<open>The addresses of \<open>B\<close> are blocked and nobody has claimed them.\<close>

definition banned :: "SocketAddr set \<Rightarrow> 'a Pool \<Rightarrow> bool" where
  "banned B p \<longleftrightarrow> pool_inv p \<and> B \<subseteq> unstart_host p \<and> B \<inter> held p = {}"


text \<open>The claimed addresses as a multiset, which says how an operation moves them.\<close>

definition claims :: "'a Pool \<Rightarrow> SocketAddr multiset" where
  "claims p = image_mset pi_addr (mset (holders p))"

lemma set_claims [simp]: "set_mset (claims p) = held p"
  by (simp add: claims_def held_def)

lemma distinct_count_le: "distinct xs \<longleftrightarrow> (\<forall>a. count (mset xs) a \<le> 1)"
proof (induction xs)
  case (Cons x xs)
  have "(\<forall>a. count (mset (x # xs)) a \<le> 1) \<longleftrightarrow> count (mset xs) x = 0 \<and> (\<forall>a. count (mset xs) a \<le> 1)"
  proof
    assume "\<forall>a. count (mset (x # xs)) a \<le> 1"
    then have "count (mset (x # xs)) a \<le> 1" for a by blast
    from this [of x] this show "count (mset xs) x = 0 \<and> (\<forall>a. count (mset xs) a \<le> 1)"
      by simp (metis One_nat_def Suc_leD)
  qed auto
  then show ?case using Cons by (simp add: count_eq_zero_iff)
qed simp

lemma distinct_claims: "distinct (map pi_addr (holders p)) \<longleftrightarrow> (\<forall>a. count (claims p) a \<le> 1)"
  by (simp only: distinct_count_le mset_map claims_def)

lemma banned_iff: "banned B p \<longleftrightarrow> (\<forall>a. count (claims p) a \<le> 1) \<and> held p \<subseteq> unstart_host p \<and> B \<subseteq> unstart_host p \<and> B \<inter> held p = {}"
  by (auto simp: banned_def pool_inv_def distinct_claims)

lemma banned_sub:
  assumes "banned B p" and "claims p' \<subseteq># claims p" and "unstart_host p' = unstart_host p"
  shows "banned B p'"
proof -
  have "held p' \<subseteq> held p" using set_mset_mono [OF assms(2)] by simp
  moreover have "count (claims p') a \<le> 1" for a
    using mset_subset_eq_count [OF assms(2)] assms(1) le_trans unfolding banned_iff by blast
  ultimately show ?thesis using assms(1,3) unfolding banned_iff by auto
qed

lemma banned_claim:
  assumes "banned (insert a B) p" and "a \<notin> B" and "claims p' \<subseteq># add_mset a (claims p)" and "unstart_host p' = unstart_host p"
  shows "banned B p'"
proof -
  have h: "held p' \<subseteq> insert a (held p)" using set_mset_mono [OF assms(3)] by simp
  have c: "count (claims p) a = 0" "count (claims p) x \<le> 1" for x
    using assms(1) by (auto simp: banned_iff count_eq_zero_iff)
  have d: "count (claims p') x \<le> (if x = a then Suc (count (claims p) a) else count (claims p) x)" for x
    using mset_subset_eq_count [OF assms(3), of x] by (cases "x = a") simp_all
  have "count (claims p') x \<le> 1" for x
  proof (cases "x = a")
    case True
    with c(1) d [of a] show ?thesis by simp
  next
    case False
    with d [of x] c(2) [of x] show ?thesis by simp
  qed
  then show ?thesis using assms h unfolding banned_iff by auto
qed

lemma banned_free:
  assumes "banned B p" and "add_mset a (claims p') \<subseteq># claims p" and "unstart_host p' = unstart_host p"
  shows "banned (insert a B) p'" and "a \<notin> B"
proof -
  have h: "insert a (held p') \<subseteq> held p" using set_mset_mono [OF assms(2)] by simp
  have "Suc (count (claims p') a) \<le> 1"
    using mset_subset_eq_count [OF assms(2), of a] assms(1) unfolding banned_iff by (metis count_add_mset le_trans)
  then have "a \<notin> held p'" by (metis Suc_le_mono count_eq_zero_iff le_zero_eq One_nat_def set_claims)
  moreover have "claims p' \<subseteq># claims p" using assms(2) by (meson mset_subset_eq_insertD subset_mset.less_imp_le)
  from banned_sub [OF assms(1) this assms(3)] have "banned B p'" .
  ultimately show "banned (insert a B) p'" and "a \<notin> B"
    using assms(1,3) h unfolding banned_iff by auto
qed

lemma banned_mono: "banned B p \<Longrightarrow> B' \<subseteq> B \<Longrightarrow> banned B' p"
  by (auto simp: banned_def)

lemma banned_release:
  assumes "banned (insert a B) p" and "a \<notin> B"
  shows "banned B (release_host a p)"
proof -
  have "claims (release_host a p) = claims p" by (simp add: claims_def holders_def release_host_def)
  moreover have "held (release_host a p) = held p" by (simp add: held_def holders_def release_host_def)
  ultimately show ?thesis using assms by (auto simp: banned_iff release_host_def)
qed

lemma banned_push_wait: "banned (insert (pi_addr pi) B) p \<Longrightarrow> pi_addr pi \<notin> B \<Longrightarrow> banned B (push_wait pi p)"
  by (rule banned_claim [of "pi_addr pi"]) (simp_all add: claims_def holders_def push_wait_def)

lemma banned_insert_peer:
  assumes "banned (insert (pi_addr pi) B) p" and "pi_addr pi \<notin> B"
  shows "banned B (insert_peer pi p)"
proof (rule banned_claim [OF assms])
  have "mset (filter (\<lambda>q. pi_id q \<noteq> pi_id pi) (peers p)) \<subseteq># mset (peers p)" by simp
  then show "claims (insert_peer pi p) \<subseteq># add_mset (pi_addr pi) (claims p)"
    by (simp add: claims_def holders_def insert_peer_def image_mset_subseteq_mono)
qed (simp add: insert_peer_def)

text \<open>Hoare rules: between the operations a peer taken out of the pool keeps its address blocked.\<close>

lemma wp_take_wait:
  assumes "banned B p"
  shows "wp take_from_wait_queue (\<lambda>r p'. case r of None \<Rightarrow> banned B p'
    | Some pi \<Rightarrow> pi_waited pi \<and> pi_addr pi \<notin> B \<and> banned (insert (pi_addr pi) B) p') (\<lambda>_. banned B) p"
proof (cases "wait_queue p")
  case Nil
  have "banned B (p\<lparr> scan_signals := n, peer_find_flag := b \<rparr>)" for n b
    by (rule banned_sub [OF assms]) (simp_all add: claims_def holders_def)
  with Nil assms show ?thesis
    by (auto simp: take_from_wait_queue_def wp_simps) (auto simp: scan_send_def wp_def split: if_splits)
next
  case (Cons pi q)
  have "add_mset (pi_addr pi) (claims (p\<lparr> wait_queue := q \<rparr>)) \<subseteq># claims p"
    by (simp add: claims_def holders_def Cons)
  from banned_free [OF assms this] Cons show ?thesis by (simp add: take_from_wait_queue_def wp_simps set_waited_def)
qed

lemma wp_launch_send:
  assumes "if pi_waited pi then banned (insert (pi_addr pi) B) p \<and> pi_addr pi \<notin> B else banned B p"
  shows "wp (launch_send pi) (\<lambda>_. banned B) (\<lambda>_. banned B) p"
proof -
  let ?p = "p\<lparr> launch_queue := launch_queue p @ [pi] \<rparr>"
  have "banned B ?p"
  proof (cases "pi_waited pi")
    case True
    then show ?thesis using assms by (intro banned_claim [of "pi_addr pi" B p]) (simp_all add: claims_def holders_def)
  next
    case False
    then have "banned B p" using assms by simp
    then show ?thesis by (rule banned_sub) (simp_all add: claims_def holders_def False)
  qed
  then show ?thesis by (auto simp: wp_def launch_send_def split: if_splits)
qed

lemma mset_remove_found:
  assumes "find P xs = Some x"
  shows "add_mset x (mset (filter (\<lambda>y. \<not> P y) xs)) \<subseteq># mset xs"
  using assms
proof (induction xs)
  case (Cons y xs)
  show ?case
  proof (cases "P y")
    case True
    then have "x = y" using Cons.prems by simp
    moreover have "mset (filter (\<lambda>y. \<not> P y) xs) \<subseteq># mset xs" by simp
    ultimately show ?thesis using True by simp
  next
    case False
    then have "add_mset x (mset (filter (\<lambda>y. \<not> P y) xs)) \<subseteq># mset xs" using Cons by simp
    then have "add_mset y (add_mset x (mset (filter (\<lambda>y. \<not> P y) xs))) \<subseteq># add_mset y (mset xs)"
      by (simp only: mset_subset_eq_add_mset_cancel)
    then show ?thesis using False by (simp only: filter.simps mset.simps add_mset_commute [of x y] if_True not_False_eq_True)
  qed
qed simp

lemma wp_remove_peer:
  assumes "banned B p"
  shows "wp (remove_peer i) (\<lambda>r p'. case r of None \<Rightarrow> banned B p'
    | Some pi \<Rightarrow> pi_addr pi \<notin> B \<and> banned (insert (pi_addr pi) B) p' \<and> find_peer i p = Some pi) (\<lambda>_. banned B) p"
proof (cases "find_peer i p")
  case None
  have "mset (filter (\<lambda>q. pi_id q \<noteq> i) (peers p)) \<subseteq># mset (peers p)" by simp
  then have "banned B (p\<lparr> peers := filter (\<lambda>q. pi_id q \<noteq> i) (peers p) \<rparr>)"
    by (intro banned_sub [OF assms]) (simp_all add: claims_def holders_def image_mset_subseteq_mono)
  with None show ?thesis by (simp add: remove_peer_def wp_simps)
next
  case (Some pi)
  have "add_mset pi (mset (filter (\<lambda>q. pi_id q \<noteq> i) (peers p))) \<subseteq># mset (peers p)"
    using mset_remove_found [OF Some [unfolded find_peer_def]] by simp
  then have "add_mset (pi_addr pi) (image_mset pi_addr (mset (filter (\<lambda>q. pi_id q \<noteq> i) (peers p)))) \<subseteq># image_mset pi_addr (mset (peers p))"
    using image_mset_subseteq_mono by fastforce
  then have c: "add_mset (pi_addr pi) (claims (p\<lparr> peers := filter (\<lambda>q. pi_id q \<noteq> i) (peers p) \<rparr>)) \<subseteq># claims p"
    by (simp add: claims_def holders_def)
  from banned_free [OF assms c] Some show ?thesis by (simp add: remove_peer_def wp_simps)
qed

lemma wp_launch_recv:
  assumes "banned B p"
  shows "wp (launch_recv limit sl cl pool) (\<lambda>_. banned B) (\<lambda>_. banned B) p"
proof -
  have "banned B p'" if r: "launch_recv limit sl cl pool p = Some (r, p')" for r p'
  proof -
    obtain pi q where q: "launch_queue p = pi # q" and i: "inline_start p = None"
      using r by (auto simp: launch_recv_def split: option.split_asm list.split_asm)
    let ?p0 = "p\<lparr> launch_queue := q \<rparr>"
    let ?p1 = "?p0\<lparr> unstart_host := insert (pi_addr pi) (unstart_host p) \<rparr>"
    show ?thesis
    proof (cases "\<not> pi_waited pi \<and> pi_addr pi \<in> unstart_host p")
      case True
      then have "p' = ?p0" using r q i by (simp add: launch_recv_def)
      moreover have "banned B ?p0"
        by (rule banned_sub [OF assms]) (simp_all add: claims_def holders_def q True)
      ultimately show ?thesis by simp
    next
      case False
      have ban: "banned (insert (pi_addr pi) B) ?p1 \<and> pi_addr pi \<notin> B"
      proof (cases "pi_waited pi")
        case True
        have "add_mset (pi_addr pi) (claims ?p0) \<subseteq># claims p"
          by (simp add: claims_def holders_def q True)
        from banned_free [OF assms this] have "banned (insert (pi_addr pi) B) ?p0" "pi_addr pi \<notin> B" by simp_all
        moreover from this have "?p1 = ?p0" by (simp add: banned_iff insert_absorb)
        ultimately show ?thesis by simp
      next
        case f: False
        then have "claims ?p1 = claims p" "held ?p1 = held p" by (simp_all add: claims_def held_def holders_def q)
        then show ?thesis using assms False f by (auto simp: banned_iff)
      qed
      have "p' = push_wait pi ?p1 \<or> p' = ?p1\<lparr> join_set := join_set p @ [(pi, Connecting)] \<rparr>
          \<or> p' = ?p1\<lparr> inline_start := Some (pi, Connecting) \<rparr>"
        using r q i False by (auto simp: launch_recv_def Let_def split: if_split_asm)
      moreover have "banned B (push_wait pi ?p1)" using ban by (blast intro: banned_push_wait)
      moreover have "banned B (?p1\<lparr> join_set := join_set p @ [(pi, Connecting)] \<rparr>)"
        and "banned B (?p1\<lparr> inline_start := Some (pi, Connecting) \<rparr>)"
        by (rule banned_claim [OF ban [THEN conjunct1] ban [THEN conjunct2]]; simp add: claims_def holders_def i)+
      ultimately show ?thesis by auto
    qed
  qed
  moreover have "\<not> (\<exists>e p'. launch_recv limit sl cl pool p = Some (Inl e, p'))"
    by (auto simp: launch_recv_def Let_def split: option.split_asm list.split_asm if_split_asm)
  ultimately show ?thesis by (auto simp: wp_def split: sum.split)
qed

lemma banned_set_progress: "banned B p \<Longrightarrow> banned B (set_progress w st p)"
proof (cases w)
  case (Some k)
  have "map fst ((join_set p)[k := (fst (join_set p ! k), st)]) = map fst (join_set p)"
    by (simp add: map_update list_update_same_conv nth_map list_update_beyond) (metis length_map list_update_beyond list_update_id map_update not_less nth_map)
  moreover assume "banned B p"
  ultimately show ?thesis
    by (auto simp: Some set_progress_def claims_def holders_def mset_map [symmetric] simp del: mset_map elim: banned_sub)
qed (auto simp: set_progress_def claims_def holders_def split: option.split elim: banned_sub)

lemma wp_start_result:
  assumes "banned (insert (pi_addr pi) B) p" and "pi_addr pi \<notin> B"
  shows "wp (handle_peer_start_result pi success) (\<lambda>_. banned B) (\<lambda>_. banned B) p"
  using assms banned_insert_peer [OF assms(1,2)] banned_release [OF assms(1,2)]
  by (simp add: handle_peer_start_result_def wp_simps)

lemma wp_launch_join:
  assumes "banned B p"
  shows "wp (launch_join k) (\<lambda>_. banned B) (\<lambda>_. banned B) p"
proof (cases "inline_start p = None \<and> k < length (join_set p) \<and> snd (join_set p ! k) \<noteq> Connecting")
  case True
  let ?pi = "fst (join_set p ! k)" and ?p = "p\<lparr> join_set := take k (join_set p) @ drop (Suc k) (join_set p) \<rparr>"
  have "join_set p = take k (join_set p) @ (join_set p ! k) # drop (Suc k) (join_set p)"
    using True by (simp add: id_take_nth_drop)
  then have "mset (join_set p) = add_mset (join_set p ! k) (mset (take k (join_set p)) + mset (drop (Suc k) (join_set p)))"
    by (metis mset.simps(2) mset_append union_mset_add_mset_right)
  then have c: "add_mset (pi_addr ?pi) (claims ?p) \<subseteq># claims p"
    by (simp add: claims_def holders_def)
  have "banned (insert (pi_addr ?pi) B) ?p" and "pi_addr ?pi \<notin> B"
    by (rule banned_free [OF assms c]; simp)+
  from wp_start_result [OF this] True show ?thesis
    by (simp add: launch_join_def wp_def)
next
  case False
  then show ?thesis by (auto simp: wp_def launch_join_def)
qed

lemma wp_launch_inline_done:
  assumes "banned B p"
  shows "wp launch_inline_done (\<lambda>_. banned B) (\<lambda>_. banned B) p"
proof (cases "\<exists>pi st. inline_start p = Some (pi, st) \<and> st \<noteq> Connecting")
  case True
  then obtain pi st where i: "inline_start p = Some (pi, st)" "st \<noteq> Connecting" by blast
  have "add_mset (pi_addr pi) (claims (p\<lparr> inline_start := None \<rparr>)) \<subseteq># claims p"
    by (simp add: claims_def holders_def i)
  from banned_free [OF assms this]
  have "banned (insert (pi_addr pi) B) (p\<lparr> inline_start := None \<rparr>)" and "pi_addr pi \<notin> B" by simp_all
  from wp_start_result [OF this] i show ?thesis by (simp add: launch_inline_done_def wp_def)
next
  case False
  then show ?thesis by (auto simp: wp_def launch_inline_done_def split: option.splits)
qed


lemma wp_launch_join_error:
  assumes "banned B p"
  shows "wp (launch_join_error k) (\<lambda>_. banned B) (\<lambda>_. banned B) p"
proof -
  let ?p = "p\<lparr> join_set := take k (join_set p) @ drop (Suc k) (join_set p) \<rparr>"
  have "mset (take k (join_set p) @ drop (Suc k) (join_set p)) \<subseteq># mset (join_set p)"
  proof (cases "k < length (join_set p)")
    case True
    then have "mset (join_set p) = add_mset (join_set p ! k) (mset (take k (join_set p) @ drop (Suc k) (join_set p)))"
      by (metis id_take_nth_drop mset.simps(2) mset_append union_mset_add_mset_right)
    then show ?thesis by simp
  qed simp
  then have "image_mset (pi_addr \<circ> fst) (mset (take k (join_set p) @ drop (Suc k) (join_set p))) \<subseteq># image_mset (pi_addr \<circ> fst) (mset (join_set p))"
    by (rule image_mset_subseteq_mono)
  then have "claims ?p \<subseteq># claims p" by (simp add: claims_def holders_def comp_def image_mset.compositionality)
  then have "banned B ?p" by (rule banned_sub [OF assms]) simp
  then show ?thesis by (auto simp: wp_def launch_join_error_def split: if_splits)
qed

end
