(* ===== verification/Content.thy ===== *)
theory Content
  imports Torrent_Db Peer_Launch Collection
begin

text \<open>
  The task that downloads a torrent (\<^verbatim>\<open>core/task/content.rs\<close>) with the coordinator that exchanges slow peers
  for faster ones (\<^verbatim>\<open>bt/default_servant/coordinator.rs\<close>): hosts arrive from the trackers and the DHT, are launched
  or queued, peers leave, progress is saved and restored.

  The dashboard of a peer is shared by the peer and its description; it is kept in the servant's heap of
  peers. What the servant notifies the task of while one of its operations runs is handled
  when the operation ends: none of the handlers changes what the rest of the operation reads. Channels
  and the database work as \<open>Peer_Launch\<close> and \<open>Torrent_Db\<close> say. Subscribers of a download are never notified.
\<close>

section \<open>State\<close>

record ContentInfo = PeerInfo +
  ci_lt :: bool
  ci_error_cnt :: nat

type_synonym content_pool = "unit ContentInfo_ext Pool"

definition ContentInfo_new :: "nat \<Rightarrow> SocketAddr \<Rightarrow> HostSource \<Rightarrow> ContentInfo" where
  "ContentInfo_new i a src = \<lparr> pi_id = i, pi_addr = a, pi_source = src, pi_waited = False, ci_lt = True, ci_error_cnt = 0 \<rparr>"

record Coordinator =
  co_window :: "nat FixedQueue"
  co_sum :: nat
  co_cnt :: nat

definition Coordinator_new :: Coordinator where
  "Coordinator_new = \<lparr> co_window = FixedQueue_new 5, co_sum = 0, co_cnt = 0 \<rparr>"

record Dispatch =
  dp_pool :: content_pool
  dp_servant :: DefaultServant
  dp_torrent :: Torrent
  dp_status :: TorrentStatus
  dp_speed :: "nat \<rightharpoonup> nat"
  dp_download :: nat
  dp_uploaded :: nat
  dp_next_id :: nat
  dp_task_callback :: bool
  dp_finish_calls :: nat
  dp_cancelled :: bool
  dp_db :: db
  dp_coord :: Coordinator

record settings =
  cf_lt_limit :: nat
  cf_temp_limit :: nat
  cf_error_piece_limit :: nat
  cf_start_limit :: nat
  cf_download_dir :: string
  cf_codec :: codec

type_synonym 'a dp = "(Dispatch, 'a) eff"

definition torrent_peer_conn_limit :: "settings \<Rightarrow> nat" where
  "torrent_peer_conn_limit cf = cf_lt_limit cf + cf_temp_limit cf"

definition get_peer_conn_limit :: "settings \<Rightarrow> ContentInfo \<Rightarrow> nat" where
  "get_peer_conn_limit cf pi = (if ci_lt pi then cf_lt_limit cf else torrent_peer_conn_limit cf)"

text \<open>Running an operation of the pool or of the servant; the events of the latter are returned.\<close>

definition on_pool :: "(content_pool, 'a) eff \<Rightarrow> 'a dp" where
  "on_pool m s = (case m (dp_pool s) of None \<Rightarrow> None | Some (r, p) \<Rightarrow> Some (r, s\<lparr> dp_pool := p \<rparr>))"

definition servant_call :: "'a sv \<Rightarrow> ('a result \<times> Event list) dp" where
  "servant_call m s =
     (case m ((dp_servant s)\<lparr> sv_events := [] \<rparr>) of
        None \<Rightarrow> None
      | Some (r, v) \<Rightarrow> Some (Inr (r, sv_events v), s\<lparr> dp_servant := v\<lparr> sv_events := [] \<rparr> \<rparr>))"

definition with_dash :: "nat \<Rightarrow> (Dashbord \<Rightarrow> Dashbord) \<Rightarrow> unit dp" where
  "with_dash i f = modify (\<lambda>s. s\<lparr> dp_servant := set_peer i ((sv_peer i (dp_servant s))\<lparr> pe_dashbord := f (pe_dashbord (sv_peer i (dp_servant s))) \<rparr>) (dp_servant s) \<rparr>)"

section \<open>Starting peers\<close>

definition content_is_finished :: "bool dp" where
  "content_is_finished = gets (\<lambda>s. dp_status s = StFinished)"

text \<open>\<^verbatim>\<open>GlobalId::next_id\<close>, with its panic when the counter has gone round.\<close>

definition next_id :: "nat dp" where
  "next_id =
     eff_bind (gets dp_next_id) (\<lambda>i.
     eff_bind (modify (\<lambda>s. s\<lparr> dp_next_id := wrap64 (i + 1) \<rparr>)) (\<lambda>_.
     if i = 0 then fail (Panic ''id counter overflow'') else ret i))"

definition do_start_peer :: "ContentInfo \<Rightarrow> bool \<Rightarrow> unit dp" where
  "do_start_peer pi lt =
     eff_bind (with_dash (pi_id pi) Dashbord_clear_ing) (\<lambda>_. on_pool (launch_send (pi\<lparr> ci_lt := lt \<rparr>)))"

definition start_peer :: "SocketAddr \<Rightarrow> HostSource \<Rightarrow> unit dp" where
  "start_peer a src =
     eff_bind content_is_finished (\<lambda>fin.
       if fin then ret ()
       else
         eff_bind next_id (\<lambda>i.
         eff_bind (with_dash i (\<lambda>_. Dashbord_new)) (\<lambda>_.
         do_start_peer (ContentInfo_new i a src) True)))"

definition start_wait_peer :: "unit dp" where
  "start_wait_peer =
     eff_bind (on_pool take_from_wait_queue) (\<lambda>r. case r of None \<Rightarrow> ret () | Some pi \<Rightarrow> do_start_peer pi (ci_lt pi))"

definition start_temp_peer :: "unit dp" where
  "start_temp_peer =
     eff_bind (on_pool take_from_wait_queue) (\<lambda>r. case r of None \<Rightarrow> ret () | Some pi \<Rightarrow> do_start_peer pi False)"

definition receive_host :: "SocketAddr \<Rightarrow> HostSource \<Rightarrow> unit dp" where
  "receive_host a src = start_peer a src"

definition receive_hosts :: "SocketAddr list \<Rightarrow> HostSource \<Rightarrow> unit dp" where
  "receive_hosts hosts src = eff_each (\<lambda>a. receive_host a src) hosts"

section \<open>Progress\<close>

definition task_finish :: "unit dp" where
  "task_finish =
     eff_bind (gets dp_task_callback) (\<lambda>b.
       if b then modify (\<lambda>s. s\<lparr> dp_finish_calls := dp_finish_calls s + 1 \<rparr>) else fail (Panic ''unwrap of None''))"

text \<open>A piece in progress is saved as a paused one.\<close>

definition saved_status :: "PieceStatus \<Rightarrow> PieceStatus" where
  "saved_status st = Pause (status_offset st)"

definition progress_entity :: "env \<Rightarrow> Dispatch \<Rightarrow> TorrentEntity" where
  "progress_entity ev s =
     (let ub = sv_underway (dp_servant s) in
      TorrentEntity_default\<lparr> te_underway := Some (map (\<lambda>i. (i, saved_status (the (ub i)))) (ev_order ev (dom ub))),
        te_info_hash := Some (info_hash (dp_torrent s)), te_bytefield := Some (sv_bytefield (dp_servant s)),
        te_download := Some (dp_download s), te_uploaded := Some (dp_uploaded s), te_status := Some (dp_status s) \<rparr>)"

definition save_progress :: "settings \<Rightarrow> env \<Rightarrow> unit dp" where
  "save_progress cf ev s =
     (case save_progress_row (cf_codec cf) (progress_entity ev s) (dp_db s) of
        Inl _ \<Rightarrow> Some (Inl (Panic ''unwrap of an error''), s)
      | Inr (_, t) \<Rightarrow> Some (Inr (), s\<lparr> dp_db := t \<rparr>))"

definition check_finished :: "bool dp" where
  "check_finished =
     eff_bind content_is_finished (\<lambda>fin.
       if fin then ret True
       else
         eff_bind (servant_call check_piece_download_finished) (\<lambda>(r, _).
         eff_bind (lift_result r) (\<lambda>full.
           if full then eff_bind (modify (\<lambda>s. s\<lparr> dp_status := StFinished \<rparr>)) (\<lambda>_. ret True) else ret False)))"

definition download_finished_after_handle :: "unit dp" where
  "download_finished_after_handle = eff_bind content_is_finished (\<lambda>fin. if fin then task_finish else ret ())"

section \<open>Events of the servant\<close>

text \<open>The arms of \<^verbatim>\<open>on_peer_exit\<close>, for a peer that was removed from the map.\<close>

definition peer_left :: "ContentInfo \<Rightarrow> PeerExitReason \<Rightarrow> unit dp" where
  "peer_left pi reason =
     (case reason of
        DownloadFinished \<Rightarrow> on_pool (modify (release_host (pi_addr pi)))
      | PeriodicPeerReplace \<Rightarrow> eff_bind (on_pool (modify (push_wait pi))) (\<lambda>_. start_temp_peer)
      | NotHasJob \<Rightarrow> eff_bind (on_pool (modify (release_host (pi_addr pi)))) (\<lambda>_. start_wait_peer)
      | ExitException DeadlyError \<Rightarrow> start_wait_peer
      | _ \<Rightarrow> eff_bind (on_pool (modify (release_host (pi_addr pi)))) (\<lambda>_. start_wait_peer))"

text \<open>
  \<^verbatim>\<open>on_peer_exit\<close>. \<open>locked\<close> is the key of the entry of \<^verbatim>\<open>peers\<close> that a caller further up has locked: removing the same
  key waits for that lock, which is never given back. The only \<^verbatim>\<open>DeadlyError\<close> of the code is created by \<^verbatim>\<open>on_verify_piece_failed\<close>, which
  holds this lock; with \<open>None\<close> that arm is the code's, but no run gets there.
\<close>

definition on_peer_exit :: "nat option \<Rightarrow> nat \<Rightarrow> PeerExitReason \<Rightarrow> unit dp" where
  "on_peer_exit locked pid reason =
     eff_bind (gets dp_cancelled) (\<lambda>c.
       if c then ret ()
       else if locked = Some pid then (\<lambda>_. None)
       else
         eff_bind (on_pool (remove_peer pid)) (\<lambda>r. case r of None \<Rightarrow> ret () | Some pi \<Rightarrow> peer_left pi reason))"

fun exit_event :: "nat option \<Rightarrow> Event \<Rightarrow> unit dp" where
  "exit_event locked (OnPeerExit pid reason) = on_peer_exit locked pid reason"
| "exit_event locked _ = ret ()"

definition notify_peer_stop :: "env \<Rightarrow> nat option \<Rightarrow> nat \<Rightarrow> PeerExitReason \<Rightarrow> unit dp" where
  "notify_peer_stop ev locked pid reason =
     eff_bind (servant_call (peer_exit ev pid reason)) (\<lambda>(r, es).
     eff_bind (eff_each (exit_event locked) es) (\<lambda>_. lift_result r))"

text \<open>\<^verbatim>\<open>get_mut\<close> on the map of peers: the first entry with the key is changed.\<close>

definition update_peer :: "nat \<Rightarrow> (ContentInfo \<Rightarrow> ContentInfo) \<Rightarrow> content_pool \<Rightarrow> content_pool" where
  "update_peer i f p = p\<lparr> peers := map (\<lambda>q. if pi_id q = i then f q else q) (peers p) \<rparr>"

definition on_verify_piece_failed :: "settings \<Rightarrow> env \<Rightarrow> nat \<Rightarrow> nat \<Rightarrow> unit dp" where
  "on_verify_piece_failed cf ev pid i =
     eff_bind (modify (\<lambda>s. s\<lparr> dp_download := sub64 (dp_download s) (Torrent_piece_length (dp_torrent s) i) \<rparr>)) (\<lambda>_.
     eff_bind (on_pool (gets (find_peer pid))) (\<lambda>r. case r of
       None \<Rightarrow> ret ()
     | Some pi \<Rightarrow>
         let cnt = wrap32 (ci_error_cnt pi + 1) in
         eff_bind (on_pool (modify (update_peer pid (\<lambda>q. q\<lparr> ci_error_cnt := cnt \<rparr>)))) (\<lambda>_.
           if cf_error_piece_limit cf \<le> cnt then notify_peer_stop ev (Some pid) pid (ExitException DeadlyError)
           else ret ())))"

text \<open>The last event belongs to the magnet task; a download never raises it.\<close>

fun on_event :: "settings \<Rightarrow> env \<Rightarrow> Event \<Rightarrow> unit dp" where
  "on_event cf ev (OnStoreBlockSuccess pid i off len) =
     modify (\<lambda>s. s\<lparr> dp_download := wrap64 (dp_download s + wrap32 len) \<rparr>)"
| "on_event cf ev (OnStoreBlockFailed pid i off) = ret ()"
| "on_event cf ev (OnVerifyPieceSuccess pid i) =
     eff_bind check_finished (\<lambda>_. eff_bind (save_progress cf ev) (\<lambda>_. download_finished_after_handle))"
| "on_event cf ev (OnVerifyPieceFailed pid i) = on_verify_piece_failed cf ev pid i"
| "on_event cf ev (OnPeerExit pid reason) = on_peer_exit None pid reason"
| "on_event cf ev (OnPieceDownloadFinished pid) = task_finish"
| "on_event cf ev (ParseSuccess t) = ret ()"
| "on_event cf ev (ReportedReadSize pid n) =
     modify (\<lambda>s. s\<lparr> dp_speed := (dp_speed s)(pid \<mapsto> wrap64 ((case dp_speed s pid of None \<Rightarrow> 0 | Some k \<Rightarrow> k) + n)) \<rparr>)"

definition servant_op :: "settings \<Rightarrow> env \<Rightarrow> 'a sv \<Rightarrow> 'a dp" where
  "servant_op cf ev m =
     eff_bind (servant_call m) (\<lambda>(r, es).
     eff_bind (eff_each (on_event cf ev) es) (\<lambda>_. lift_result r))"

section \<open>The launcher of a download\<close>

definition content_on_peer_start_failed :: "unit dp" where
  "content_on_peer_start_failed = start_wait_peer"

definition content_launch_recv :: "settings \<Rightarrow> bool \<Rightarrow> unit dp" where
  "content_launch_recv cf room =
     on_pool (launch_recv (get_peer_conn_limit cf) (cf_start_limit cf) (torrent_peer_conn_limit cf) room)"

definition content_launch_join :: "nat option \<Rightarrow> unit dp" where
  "content_launch_join w =
     eff_bind (on_pool (case w of None \<Rightarrow> launch_inline_done | Some k \<Rightarrow> launch_join k)) (\<lambda>failed.
       if failed then content_on_peer_start_failed else ret ())"

definition content_on_panic :: "unit dp" where
  "content_on_panic = task_finish"

definition content_launch_error :: "nat \<Rightarrow> unit dp" where
  "content_launch_error k = eff_bind (on_pool (launch_join_error k)) (\<lambda>_. content_on_panic)"

text \<open>
  \<^verbatim>\<open>BasePeer::async_run\<close> of the start \<open>w\<close>: \<open>outcome\<close> is \<open>None\<close> when the connection or a handshake fails, else the
  reserved bits of the opposite side. The servant is told, and the start counts as a success.
\<close>

definition content_async_run :: "settings \<Rightarrow> env \<Rightarrow> nat \<Rightarrow> nat option \<Rightarrow> nat option \<Rightarrow> unit dp" where
  "content_async_run cf ev n w outcome =
     eff_bind (on_pool (gets (starting w))) (\<lambda>r. case r of
       None \<Rightarrow> (\<lambda>_. None)
     | Some pi \<Rightarrow>
         (case outcome of
            None \<Rightarrow> on_pool (modify (set_progress w StartFailed))
          | Some reserved \<Rightarrow>
              eff_bind (gets (\<lambda>s. pe_dashbord (sv_peer (pi_id pi) (dp_servant s)))) (\<lambda>d.
              eff_bind (servant_op cf ev (add_peer (dispatch_callbacks n ev) (pi_id pi) (Peer_new (pi_id pi) d reserved))) (\<lambda>_.
              on_pool (modify (set_progress w Started))))))"

section \<open>The coordinator\<close>

definition ALLOC_CNT_THRESH :: nat where "ALLOC_CNT_THRESH = 10"

definition take_peer_transfer_speed :: "env \<Rightarrow> nat dp" where
  "take_peer_transfer_speed ev =
     eff_bind (gets (\<lambda>s. fold (\<lambda>i acc. wrap64 (acc + the (dp_speed s i))) (ev_order ev (dom (dp_speed s))) 0)) (\<lambda>speed.
     eff_bind (modify (\<lambda>s. s\<lparr> dp_speed := Map.empty \<rparr>)) (\<lambda>_. ret speed))"

definition speed_rate_statistics :: "env \<Rightarrow> unit dp" where
  "speed_rate_statistics ev =
     eff_bind (take_peer_transfer_speed ev) (\<lambda>speed.
     modify (\<lambda>s.
       let c = dp_coord s; (front, w) = FixedQueue_push speed (co_window c);
           total = (case front of None \<Rightarrow> co_sum c | Some h \<Rightarrow> sub64 (co_sum c) h)
       in s\<lparr> dp_coord := c\<lparr> co_window := w, co_sum := wrap64 (total + speed) \<rparr> \<rparr>))"

definition upgrage_lt_peer :: "nat \<Rightarrow> bool dp" where
  "upgrage_lt_peer i =
     eff_bind (on_pool (gets (find_peer i))) (\<lambda>r. case r of
       None \<Rightarrow> ret False
     | Some _ \<Rightarrow> eff_bind (on_pool (modify (update_peer i (\<lambda>q. q\<lparr> ci_lt := True \<rparr>)))) (\<lambda>_. ret True))"

definition replace_peer :: "env \<Rightarrow> nat \<Rightarrow> nat \<Rightarrow> unit dp" where
  "replace_peer ev old_id new_id =
     eff_bind (upgrage_lt_peer new_id) (\<lambda>ok. if ok then notify_peer_stop ev None old_id PeriodicPeerReplace else ret ())"

definition lt_peer_num :: "nat dp" where
  "lt_peer_num = gets (\<lambda>s. length (filter ci_lt (peers (dp_pool s))))"

text \<open>\<^verbatim>\<open>min_by_key\<close> keeps the first of equal elements, \<^verbatim>\<open>max_by_key\<close> the last.\<close>

fun min_by_bw :: "(nat \<times> nat) list \<Rightarrow> (nat \<times> nat) option" where
  "min_by_bw [] = None"
| "min_by_bw (x # xs) = (case min_by_bw xs of None \<Rightarrow> Some x | Some y \<Rightarrow> if fst y < fst x then Some y else Some x)"

fun max_by_bw :: "(nat \<times> nat) list \<Rightarrow> (nat \<times> nat) option" where
  "max_by_bw [] = None"
| "max_by_bw (x # xs) = (case max_by_bw xs of None \<Rightarrow> Some x | Some y \<Rightarrow> if fst x \<le> fst y then Some y else Some x)"

text \<open>The peers a search looks at, in the order of the traversal; the bandwidth of the peer found is read again.\<close>

definition find_by_bw :: "env \<Rightarrow> bool \<Rightarrow> ((nat \<times> nat) list \<Rightarrow> (nat \<times> nat) option) \<Rightarrow> (nat \<times> nat) option dp" where
  "find_by_bw ev lt pick =
     eff_bind (gets (\<lambda>s. ev_order ev (pi_id ` {q \<in> set (peers (dp_pool s)). ci_lt q = lt}))) (\<lambda>ids.
     eff_bind (servant_call (peer_bws ev ids)) (\<lambda>(r, _).
     eff_bind (lift_result r) (\<lambda>bws. case pick bws of
       None \<Rightarrow> ret None
     | Some (_, i) \<Rightarrow>
         eff_bind (servant_call (peer_bw ev i)) (\<lambda>(r, _).
         eff_bind (lift_result r) (\<lambda>bw. ret (Some (i, bw)))))))"

definition find_slowest_lt_peer :: "env \<Rightarrow> (nat \<times> nat) option dp" where
  "find_slowest_lt_peer ev = find_by_bw ev True min_by_bw"

definition find_fastest_temp_peer :: "env \<Rightarrow> (nat \<times> nat) option dp" where
  "find_fastest_temp_peer ev = find_by_bw ev False max_by_bw"

definition is_peer_limit :: "settings \<Rightarrow> bool dp" where
  "is_peer_limit cf = gets (\<lambda>s. torrent_peer_conn_limit cf < length (peers (dp_pool s)) \<or> wait_queue (dp_pool s) = [])"

text \<open>The result of \<^verbatim>\<open>checkout_upgrade_lt_peer\<close>, which its caller drops, is left out.\<close>

definition checkout_upgrade_lt_peer :: "settings \<Rightarrow> env \<Rightarrow> unit dp" where
  "checkout_upgrade_lt_peer cf ev =
     eff_bind lt_peer_num (\<lambda>num.
     eff_bind (find_fastest_temp_peer ev) (\<lambda>ftp.
       if num < cf_lt_limit cf then
         (case ftp of None \<Rightarrow> ret () | Some (i, _) \<Rightarrow> eff_bind (upgrage_lt_peer i) (\<lambda>_. ret ()))
       else
         eff_bind (find_slowest_lt_peer ev) (\<lambda>stp. case (ftp, stp) of
           (None, _) \<Rightarrow> ret ()
         | (Some (i, _), None) \<Rightarrow> eff_bind (upgrage_lt_peer i) (\<lambda>_. ret ())
         | (Some (i, fbw), Some (j, sbw)) \<Rightarrow>
             if faster fbw sbw then replace_peer ev j i
             else notify_peer_stop ev None i PeriodicPeerReplace)))"

definition peer_alloc :: "settings \<Rightarrow> env \<Rightarrow> unit dp" where
  "peer_alloc cf ev =
     eff_bind (gets (\<lambda>s. co_cnt (dp_coord s))) (\<lambda>n.
       if n < ALLOC_CNT_THRESH then modify (\<lambda>s. s\<lparr> dp_coord := (dp_coord s)\<lparr> co_cnt := n + 1 \<rparr> \<rparr>)
       else
         eff_bind (is_peer_limit cf) (\<lambda>limit.
           if limit then ret ()
           else
             eff_bind (modify (\<lambda>s. s\<lparr> dp_coord := (dp_coord s)\<lparr> co_cnt := 0 \<rparr> \<rparr>)) (\<lambda>_.
             eff_bind (checkout_upgrade_lt_peer cf ev) (\<lambda>_. start_temp_peer))))"

text \<open>One tick; the coordinator ends when the download has finished.\<close>

definition coordinator_tick :: "settings \<Rightarrow> env \<Rightarrow> unit dp" where
  "coordinator_tick cf ev =
     eff_bind content_is_finished (\<lambda>fin.
       if fin then ret () else eff_bind (speed_rate_statistics ev) (\<lambda>_. peer_alloc cf ev))"

section \<open>Creating the task\<close>

definition load_torrent_from_db :: "codec \<Rightarrow> Torrent \<Rightarrow> string \<Rightarrow> db \<Rightarrow> (TorrentEntity option \<times> db) result" where
  "load_torrent_from_db c t path tab =
     and_then (recover_from_db c (info_hash t) tab) (\<lambda>e. case e of
       Some e \<Rightarrow> Inr (Some e, tab)
     | None \<Rightarrow> Inr (None, snd (add_torrent c t path tab)))"

definition or_default :: "'a \<Rightarrow> 'a option \<Rightarrow> 'a" where
  "or_default d x = (case x of None \<Rightarrow> d | Some y \<Rightarrow> y)"

definition DownloadContent_new ::
  "settings \<Rightarrow> Torrent \<Rightarrow> string \<Rightarrow> (nat \<Rightarrow> Peer) \<Rightarrow> Store \<Rightarrow> nat \<Rightarrow> db \<Rightarrow> Dispatch result" where
  "DownloadContent_new cf t path heap st i tab =
     and_then (load_torrent_from_db (cf_codec cf) t path tab) (\<lambda>(e, tab').
       let e = or_default TorrentEntity_default e;
           status = or_default StDownload (te_status e);
           ub = fold (\<lambda>(k, v) m. m(k \<mapsto> v)) (or_default [] (te_underway e)) Map.empty;
           sv = DefaultServant_new (Some t) (or_default [] (te_bytefield e)) ub
                  (or_default (cf_download_dir cf) (te_save_path e)) (status \<noteq> StDownload) heap st
       in Inr \<lparr> dp_pool = Pool_new, dp_servant = sv\<lparr> sv_callback := Some True \<rparr>, dp_torrent = t, dp_status = status,
            dp_speed = Map.empty, dp_download = or_default 0 (te_download e), dp_uploaded = or_default 0 (te_uploaded e),
            dp_next_id = i, dp_task_callback = False, dp_finish_calls = 0, dp_cancelled = False, dp_db = tab',
            dp_coord = Coordinator_new \<rparr>)"

definition task_set_callback :: "unit dp" where
  "task_set_callback =
     eff_bind (gets dp_task_callback) (\<lambda>b.
       if b then fail (Panic ''task callback has been set'') else modify (\<lambda>s. s\<lparr> dp_task_callback := True \<rparr>))"

definition content_shutdown :: "settings \<Rightarrow> env \<Rightarrow> unit dp" where
  "content_shutdown cf ev = save_progress cf ev"

section \<open>Runs\<close>

text \<open>The tasks of a download and the connections of its peers, one operation at a time.\<close>

inductive content_step :: "Dispatch \<Rightarrow> Dispatch \<Rightarrow> bool" where
  step_hosts: "receive_hosts hosts src s = Some (r, s') \<Longrightarrow> content_step s s'"
| step_scan_done: "on_pool find_task_finished s = Some (r, s') \<Longrightarrow> content_step s s'"
| step_launch: "content_launch_recv cf room s = Some (r, s') \<Longrightarrow> content_step s s'"
| step_run: "content_async_run cf ev n w outcome s = Some (r, s') \<Longrightarrow> content_step s s'"
| step_join: "content_launch_join w s = Some (r, s') \<Longrightarrow> content_step s s'"
| step_launch_error: "content_launch_error k s = Some (r, s') \<Longrightarrow> content_step s s'"
| step_message: "servant_op cf ev (handle ev (dispatch_callbacks n ev) pid mt payload) s = Some (r, s') \<Longrightarrow> content_step s s'"
| step_peer_failed: "servant_op cf ev (happen_exeception ev pid) s = Some (r, s') \<Longrightarrow> content_step s s'"
| step_read_size: "servant_op cf ev (reported_read_size pid k) s = Some (r, s') \<Longrightarrow> content_step s s'"
| step_tick: "coordinator_tick cf ev s = Some (r, s') \<Longrightarrow> content_step s s'"
| step_save: "content_shutdown cf ev s = Some (r, s') \<Longrightarrow> content_step s s'"
| step_task_callback: "task_set_callback s = Some (r, s') \<Longrightarrow> content_step s s'"
| step_cancel: "content_step s (s\<lparr> dp_cancelled := True \<rparr>)"
| step_scanner: "content_step s (s\<lparr> dp_pool := (dp_pool s)\<lparr> scan_signals := k \<rparr> \<rparr>)"

end
