(* ===== verification/Bencode_Typed.thy ===== *)
theory Bencode_Typed
  imports Extend_Data
begin

text \<open>
  Typed readers: \<open>decodes rd v x\<close> says that the reader \<open>rd\<close> turns the text of the value \<open>v\<close>, wherever
  it comes next, into \<open>x\<close> and stops right after it. The relation composes over lists and dictionaries,
  so the round trip of a message follows from those of its fields.
\<close>

definition decodes :: "'a reader \<Rightarrow> Value \<Rightarrow> 'a \<Rightarrow> bool" where
  "decodes rd v x \<longleftrightarrow> (\<forall>d r. value_next (d_state d) \<longrightarrow>
     depth v + length (st_state (d_state d)) \<le> max_depth (d_state d) \<longrightarrow> d_rest d = value_bytes v @ r \<longrightarrow>
     (\<exists>ob d1. next_object d = Inr (Some ob, d1)
        \<and> rd ob d1 = Inr (x, d\<lparr> d_rest := r, d_state := advance (d_state d) \<rparr>)))"

named_theorems decode_intros

lemma decodesD:
  assumes "decodes rd v x" and "value_next (d_state d)"
    and "depth v + length (st_state (d_state d)) \<le> max_depth (d_state d)" and "d_rest d = value_bytes v @ r"
  obtains ob d1 where "next_object d = Inr (Some ob, d1)"
    and "rd ob d1 = Inr (x, d\<lparr> d_rest := r, d_state := advance (d_state d) \<rparr>)"
  using assms unfolding decodes_def by blast

section \<open>Atoms\<close>

lemma decodes_atom:
  assumes "atom v" and "\<And>d. rd (obj_of v) d = Inr (x, d)"
  shows "decodes rd v x"
  unfolding decodes_def
proof (intro allI impI)
  fix d :: Decoder and r
  assume n: "value_next (d_state d)" and r: "d_rest d = value_bytes v @ r"
  have "next_object d = Inr (Some (obj_of v), d\<lparr> d_rest := r, d_state := advance (d_state d) \<rparr>)"
    using assms(1) r next_object_atom [OF n] by (cases v) (simp_all add: obj_of_def atom_def)
  with assms(2) show "\<exists>ob d1. next_object d = Inr (Some ob, d1) \<and>
      rd ob d1 = Inr (x, d\<lparr> d_rest := r, d_state := advance (d_state d) \<rparr>)" by blast
qed

lemma decodes_set_field [decode_intros]:
  "decodes rd v x \<Longrightarrow> decodes (\<lambda>ob d. set_field (rd ob d) upd) v (upd x)"
  unfolding decodes_def set_field_def by fastforce

lemma decodes_and_then:
  "decodes rd v x \<Longrightarrow> f x = Inr y \<Longrightarrow> decodes (\<lambda>ob d. and_then (rd ob d) (\<lambda>(x, d'). and_then (f x) (\<lambda>y. Inr (y, d')))) v y"
  unfolding decodes_def by fastforce

lemma decodes_uint [decode_intros]: "n \<le> hi \<Longrightarrow> decodes (decode_uint hi) (VInteger (int n)) n"
  by (rule decodes_atom) (simp_all add: atom_def decode_uint_obj)

lemma decodes_AsString [decode_intros]: "length s < 2 ^ 64 \<Longrightarrow> decodes decode_AsString (VBytes s) s"
  by (rule decodes_atom) (simp_all add: atom_def obj_of_def decode_AsString_def try_into_bytes_def)

lemma decodes_String [decode_intros]:
  "length s < 2 ^ 64 \<Longrightarrow> utf8_valid s \<Longrightarrow> decodes decode_String (VBytes s) (string_of s)"
  by (rule decodes_atom) (simp_all add: atom_def obj_of_def decode_String_def try_into_bytes_def)

section \<open>Lists\<close>

lemma list_fold_decodes:
  assumes "\<forall>(v, x) \<in> set vxs. decodes rd v x \<and> depth v + Suc (length (st_state t)) \<le> max_depth t"
    and "length vxs < m"
    and "d_rest d = concat (map (\<lambda>a. value_bytes (fst a)) vxs) @ 101 # r" and "d_state d = push_state Seq t"
  shows "list_fold m (\<lambda>v acc d. and_then (rd v d) (\<lambda>(x, d'). Inr (acc @ [x], d'))) acc d =
    Inr (acc @ map snd vxs, d\<lparr> d_rest := r, d_state := t \<rparr>)"
  using assms
proof (induction vxs arbitrary: m acc d)
  case Nil
  then obtain m' where "m = Suc m'" by (cases m) auto
  with Nil next_object_end [of d r t] show ?case by (simp add: observe_close)
next
  case (Cons vx vxs)
  obtain v x where vx: "vx = (v, x)" by fastforce
  from Cons obtain m' where m: "m = Suc m'" "length vxs < m'" by (cases m) auto
  let ?r = "concat (map (\<lambda>a. value_bytes (fst a)) vxs) @ 101 # r"
  have "decodes rd v x" using Cons.prems(1) by (simp add: vx)
  moreover have "value_next (d_state d)" using Cons.prems(4) by simp
  moreover have "depth v + length (st_state (d_state d)) \<le> max_depth (d_state d)"
    using Cons.prems(1,4) by (simp add: vx)
  moreover have "d_rest d = value_bytes v @ ?r" using Cons.prems(3) by (simp add: vx comp_def)
  ultimately obtain ob d1 where "next_object d = Inr (Some ob, d1)"
    "rd ob d1 = Inr (x, d\<lparr> d_rest := ?r, d_state := advance (d_state d) \<rparr>)" by (rule decodesD)
  with m Cons show ?case by (simp add: Cons.prems(4) vx)
qed

lemma next_object_list:
  assumes "value_next (d_state d)" and "length (st_state (d_state d)) < max_depth (d_state d)"
    and "d_rest d = value_bytes (VList vs) @ r"
  shows "next_object d = Inr (Some (OList (d_rest d)),
    d\<lparr> d_rest := concat (map value_bytes vs) @ 101 # r, d_state := push_state Seq (advance (d_state d)) \<rparr>)"
  using next_token_bytes [of TList d "concat (map value_bytes vs) @ 101 # r"] observe_open [OF assms(1,2)] assms(3)
  by (simp add: next_object_def token_ok_def token_bytes_def)

lemma decodes_Vec:
  assumes "\<forall>(v, x) \<in> set vxs. decodes rd v x"
  shows "decodes (decode_Vec rd) (VList (map fst vxs)) (map snd vxs)"
  unfolding decodes_def
proof (intro allI impI)
  fix d :: Decoder and r
  let ?v = "VList (map fst vxs)"
  assume n: "value_next (d_state d)" and dp: "depth ?v + length (st_state (d_state d)) \<le> max_depth (d_state d)"
    and r: "d_rest d = value_bytes ?v @ r"
  define d1 where "d1 = d\<lparr> d_rest := concat (map (\<lambda>a. value_bytes (fst a)) vxs) @ 101 # r, d_state := push_state Seq (advance (d_state d)) \<rparr>"
  have o: "next_object d = Inr (Some (OList (d_rest d)), d1)"
    using next_object_list [OF n _ r] dp by (simp add: d1_def comp_def)
  have "length vxs \<le> length (concat (map (\<lambda>a. value_bytes (fst a)) vxs))" by (rule length_concat_nonempty) simp
  then have "length vxs < fuel d1" by (simp add: fuel_def d1_def)
  moreover have "depth v + Suc (length (st_state (advance (d_state d)))) \<le> max_depth (advance (d_state d))"
    if "(v, x) \<in> set vxs" for v x
    using depth_item [of v "map fst vxs"] that dp by force
  ultimately have "list_fold (fuel d1) (\<lambda>v acc d. and_then (rd v d) (\<lambda>(x, d'). Inr (acc @ [x], d'))) [] d1 =
      Inr ([] @ map snd vxs, d1\<lparr> d_rest := r, d_state := advance (d_state d) \<rparr>)"
    using assms by (intro list_fold_decodes) (auto simp: d1_def)
  with o show "\<exists>ob d1. next_object d = Inr (Some ob, d1) \<and>
      decode_Vec rd ob d1 = Inr (map snd vxs, d\<lparr> d_rest := r, d_state := advance (d_state d) \<rparr>)"
    by (simp add: decode_Vec_def try_into_list_def d1_def)
qed

section \<open>Dictionaries\<close>

lemma next_pair_decodes:
  assumes "decodes rd v x" and "depth v + Suc (length (st_state t)) \<le> max_depth t" and "length k < 2 ^ 64"
    and "d_rest d = token_bytes (TString k) @ value_bytes v @ r" and "d_state d = push_state (MapKey old) t"
    and "case old of None \<Rightarrow> True | Some o' \<Rightarrow> bytes_less o' k"
  shows "\<exists>ob d1. next_pair d = Inr (Some (k, ob), d1)
    \<and> rd ob d1 = Inr (x, d\<lparr> d_rest := r, d_state := push_state (MapKey (Some k)) t \<rparr>)"
proof -
  define d0 where "d0 = d\<lparr> d_rest := value_bytes v @ r, d_state := push_state (MapValue k) t \<rparr>"
  have "next_token d = Inr (Some (TString k), d0)"
    using next_token_bytes [of "TString k" d "value_bytes v @ r" "push_state (MapValue k) t"]
      assms(3-5) observe_key [OF assms(6), of t] by (simp add: token_ok_def d0_def)
  then have k: "next_object d = Inr (Some (OBytes k), d0)" by (simp add: next_object_def)
  have "value_next (d_state d0)" and "depth v + length (st_state (d_state d0)) \<le> max_depth (d_state d0)"
    and "d_rest d0 = value_bytes v @ r" using assms(2) by (simp_all add: d0_def)
  with assms(1) obtain ob d1 where "next_object d0 = Inr (Some ob, d1)"
    "rd ob d1 = Inr (x, d0\<lparr> d_rest := r, d_state := advance (d_state d0) \<rparr>)" by (rule decodesD)
  with k show ?thesis by (simp add: next_pair_def d0_def)
qed

lemma dict_fold_decodes:
  assumes "\<forall>(k, v) \<in> set m. (\<forall>acc. decodes (\<lambda>ob. f k ob acc) v (g k v acc))
      \<and> depth v + Suc (length (st_state t)) \<le> max_depth t \<and> length k < 2 ^ 64"
    and "length m < n" and "keys_sorted old (map fst m)"
    and "d_rest d = entries_bytes m @ 101 # r" and "d_state d = push_state (MapKey old) t"
  shows "dict_fold n f acc d = Inr (fold (\<lambda>(k, v). g k v) m acc, d\<lparr> d_rest := r, d_state := t \<rparr>)"
  using assms
proof (induction m arbitrary: n acc d old)
  case Nil
  then obtain n' where "n = Suc n'" by (cases n) auto
  with Nil next_object_end [of d r t] show ?case by (simp add: observe_close next_pair_def)
next
  case (Cons kv m)
  obtain k v where kv: "kv = (k, v)" by fastforce
  from Cons obtain n' where n: "n = Suc n'" "length m < n'" by (cases n) auto
  let ?r = "entries_bytes m @ 101 # r"
  let ?d = "d\<lparr> d_rest := ?r, d_state := push_state (MapKey (Some k)) t \<rparr>"
  from next_pair_decodes [of "\<lambda>ob. f k ob acc" v "g k v acc" t k d ?r old] Cons.prems obtain ob d1 where
    "next_pair d = Inr (Some (k, ob), d1)" "f k ob acc d1 = Inr (g k v acc, ?d)"
    by (auto simp: kv)
  with n Cons.IH [of n' "Some k" ?d "g k v acc"] Cons.prems show ?case by (simp add: kv)
qed

text \<open>A dictionary reader: a loop over the entries followed by a check of the collected fields.\<close>

lemma decodes_dict:
  assumes rd: "\<And>s d. rd (ODict s) d = and_then (dict_fold (fuel d) f acc0 d) (\<lambda>(acc, d'). and_then (h acc) (\<lambda>x. Inr (x, d')))"
    and e: "\<And>k v acc. (k, v) \<in> set m \<Longrightarrow> decodes (\<lambda>ob. f k ob acc) v (g k v acc)"
    and k: "keys_sorted None (map fst m)" "\<forall>k \<in> set (map fst m). length k < 2 ^ 64"
    and h: "h (fold (\<lambda>(k, v). g k v) m acc0) = Inr x"
  shows "decodes rd (VDict m) x"
  unfolding decodes_def
proof (intro allI impI)
  fix d :: Decoder and r
  assume n: "value_next (d_state d)" and dp: "depth (VDict m) + length (st_state (d_state d)) \<le> max_depth (d_state d)"
    and r: "d_rest d = value_bytes (VDict m) @ r"
  define d1 where "d1 = d\<lparr> d_rest := entries_bytes m @ 101 # r, d_state := push_state (MapKey None) (advance (d_state d)) \<rparr>"
  have o: "next_object d = Inr (Some (ODict (d_rest d)), d1)"
    unfolding d1_def using dp by (intro next_object_dict n r) simp
  have "depth v + Suc (length (st_state (advance (d_state d)))) \<le> max_depth (advance (d_state d))"
    if "(k, v) \<in> set m" for k v
    using depth_entry [OF that] dp by simp
  then have "dict_fold (fuel d1) f acc0 d1 =
      Inr (fold (\<lambda>(k, v). g k v) m acc0, d1\<lparr> d_rest := r, d_state := advance (d_state d) \<rparr>)"
    using e k entries_fuel [of m] by (intro dict_fold_decodes) (auto simp: d1_def fuel_def)
  with o show "\<exists>ob d1. next_object d = Inr (Some ob, d1) \<and>
      rd ob d1 = Inr (x, d\<lparr> d_rest := r, d_state := advance (d_state d) \<rparr>)"
    by (simp add: rd d1_def h)
qed

section \<open>Values\<close>

text \<open>The recursion of \<^verbatim>\<open>Value::decode_bencode_object\<close> is as deep as the value, which is less than its length.\<close>

definition read_value :: "Value reader" where
  "read_value v d = decode_Value (Suc (fuel d)) v d"

lemma foldr_max_le: "(\<And>x. x \<in> set xs \<Longrightarrow> f x \<le> b) \<Longrightarrow> foldr max (map f xs) 0 \<le> (b :: nat)"
  by (induction xs) auto

lemma length_item_le: "x \<in> set xs \<Longrightarrow> length (f x) \<le> length (concat (map f xs))"
  by (induction xs) auto

lemma depth_less_length: "depth v < length (value_bytes v)"
proof (induction v)
  case (VList vs)
  have "foldr max (map depth vs) 0 \<le> length (concat (map value_bytes vs))"
    using VList length_item_le [of _ vs value_bytes] by (intro foldr_max_le) (meson le_trans less_imp_le)
  then show ?case by simp
next
  case (VDict m)
  let ?f = "\<lambda>(k, v). token_bytes (TString k) @ value_bytes v"
  have "foldr max (map (\<lambda>(k, v). depth v) m) 0 \<le> length (concat (map ?f m))"
  proof (rule foldr_max_le)
    fix x assume x: "x \<in> set m"
    obtain k v where kv: "x = (k, v)" by fastforce
    have "depth v < length (value_bytes v)" using VDict [of x v] x kv by simp
    then show "(case x of (k, v) \<Rightarrow> depth v) \<le> length (concat (map ?f m))"
      using length_item_le [OF x, of ?f] kv by simp
  qed
  then show ?case by simp
qed simp_all

lemma decodes_read_value [decode_intros]:
  assumes "value_ok v"
  shows "decodes read_value v v"
  unfolding decodes_def
proof (intro allI impI)
  fix d :: Decoder and r
  assume n: "value_next (d_state d)" and dp: "depth v + length (st_state (d_state d)) \<le> max_depth (d_state d)"
    and r: "d_rest d = value_bytes v @ r"
  have rd: "\<exists>ob d1. next_object d = Inr (Some ob, d1) \<and>
      decode_Value n ob d1 = Inr (v, d\<lparr> d_rest := r, d_state := advance (d_state d) \<rparr>)" if "depth v < n" for n
    using decode_Value_reads [OF assms that] n dp r unfolding reads_def by blast
  then obtain ob d1 where o: "next_object d = Inr (Some ob, d1)" by blast
  have "depth v \<le> Suc (length (d_rest d1))"
  proof (cases v)
    case (VList vs)
    have "d_rest d1 = concat (map value_bytes vs) @ 101 # r"
      using next_object_list [OF n _ r [unfolded VList]] dp o VList by simp
    then show ?thesis using depth_less_length [of v] by (simp add: VList)
  next
    case (VDict m)
    have "d_rest d1 = entries_bytes m @ 101 # r"
      using next_object_dict [OF n _ r [unfolded VDict]] dp o VDict by simp
    then show ?thesis using depth_less_length [of v] by (simp add: VDict)
  qed simp_all
  then have "depth v < Suc (fuel d1)" by (simp add: fuel_def)
  from rd [OF this] o show "\<exists>ob d1. next_object d = Inr (Some ob, d1) \<and>
      read_value ob d1 = Inr (v, d\<lparr> d_rest := r, d_state := advance (d_state d) \<rparr>)"
    by (auto simp: read_value_def)
qed

section \<open>Whole messages\<close>

lemma decodes_top:
  assumes "decodes rd v x" and "depth v \<le> dp"
  obtains ob d1 where "next_object (Decoder_new ord dp (value_bytes v @ r)) = Inr (Some ob, d1)"
    and "rd ob d1 = Inr (x, Decoder_new ord dp r)"
proof -
  let ?d = "Decoder_new ord dp (value_bytes v @ r)"
  have "value_next (d_state ?d)" and "d_rest ?d = value_bytes v @ r"
    by (simp_all add: Decoder_new_def StateTracker_new_def value_next_def)
  moreover have "depth v + length (st_state (d_state ?d)) \<le> max_depth (d_state ?d)"
    using assms(2) by (simp add: Decoder_new_def StateTracker_new_def)
  moreover have "?d\<lparr> d_rest := r, d_state := advance (d_state ?d) \<rparr> = Decoder_new ord dp r"
    by (simp add: Decoder_new_def StateTracker_new_def advance_def)
  ultimately show ?thesis using decodesD [OF assms(1), of ?d r] that by metis
qed

lemma from_bencode_decodes:
  assumes "decodes rd v x" and "depth v \<le> dp"
  shows "from_bencode ord dp rd (value_bytes v @ r) = Inr x"
  by (rule decodes_top [OF assms, of ord r]) (simp add: from_bencode_def)

lemma from_bencode_first_decodes:
  assumes "decodes rd v x" and "depth v \<le> dp"
  shows "from_bencode_first dp rd (value_bytes v @ r) = Inr (x, length (value_bytes v))"
  by (rule decodes_top [OF assms, of True r]) (simp add: from_bencode_first_def d_rest_new)

section \<open>Properties\<close>

text \<open>
  C21. Encoding any value whose dictionaries have strictly ascending keys, whose integers fit 64 bits
  and whose nesting is within the limit succeeds, and decoding the text, with anything after
  it, gives the value back, whether or not sorted keys are demanded.
\<close>

theorem value_roundtrip:
  assumes "value_ok v" and "depth v \<le> dp"
  shows "\<exists>bs. to_bencode dp (emit_Value v) = Inr bs \<and> from_bencode ord dp read_value (bs @ rest) = Inr v"
  using to_bencode_writes [OF writes_Value [OF assms(1)] assms(2)]
    from_bencode_decodes [OF decodes_read_value [OF assms(1)] assms(2)]
  by simp

theorem value_roundtrip_witness:
  "\<exists>bs. to_bencode 10 (emit_Value (VDict [([97], VInteger (- 5)), ([98], VList [VBytes [1, 2], VInteger 0])])) = Inr bs
    \<and> from_bencode True 10 read_value (bs @ [7]) = Inr (VDict [([97], VInteger (- 5)), ([98], VList [VBytes [1, 2], VInteger 0])])"
  by (rule value_roundtrip) simp_all

end
