(* ===== verification/Torrent_Parse.thy ===== *)
theory Torrent_Parse
  imports Torrent Bencode_Typed "HOL-Library.Sublist"
begin

text \<open>
  Decoding a torrent (\<^verbatim>\<open>bt/torrent.rs\<close>, the instances of \<^verbatim>\<open>FromBencode\<close> and \<^verbatim>\<open>Parse\<close>): a loop over the
  entries of a dictionary for \<^verbatim>\<open>File\<close>, \<^verbatim>\<open>Info\<close> and \<^verbatim>\<open>Torrent\<close> each. The SHA-1 function is an argument.
  The messages \<^verbatim>\<open>context\<close> adds to an error are left out.
\<close>

section \<open>Readers\<close>

text \<open>\<^verbatim>\<open>File\<close>: the fields seen so far are \<^verbatim>\<open>length\<close>, \<^verbatim>\<open>path\<close> and \<^verbatim>\<open>md5sum\<close>.\<close>

type_synonym FileAcc = "nat option \<times> string list option \<times> string option"

definition File_entry :: "bytes \<Rightarrow> Object \<Rightarrow> FileAcc \<Rightarrow> Decoder \<Rightarrow> (FileAcc \<times> Decoder) result" where
  "File_entry k v acc d =
     (case acc of (l, p, m) \<Rightarrow>
       if k = ascii ''length'' then set_field (decode_uint U64_MAX v d) (\<lambda>x. (Some x, p, m))
       else if k = ascii ''path'' then set_field (decode_Vec decode_String v d) (\<lambda>x. (l, Some x, m))
       else if k = ascii ''md5sum'' then set_field (decode_String v d) (\<lambda>x. (l, p, Some x))
       else skip_field v acc d)"

definition File_decode :: "File reader" where
  "File_decode v d =
     and_then (try_into_dictionary v) (\<lambda>_.
     and_then (dict_fold (fuel d) File_entry (None, None, None) d) (\<lambda>((l, p, m), d').
     and_then (ok_or_missing ''length'' l) (\<lambda>l.
     and_then (ok_or_missing ''path'' p) (\<lambda>p. Inr (File_new l p m, d')))))"

record InfoAcc =
  ia_name :: "string option"
  ia_length :: "nat option"
  ia_piece_length :: "nat option"
  ia_pieces :: "bytes option"
  ia_files :: "File list option"
  ia_md5sum :: "string option"
  ia_private :: "nat option"

definition InfoAcc_new :: InfoAcc where
  "InfoAcc_new = \<lparr> ia_name = None, ia_length = None, ia_piece_length = None, ia_pieces = None,
     ia_files = None, ia_md5sum = None, ia_private = None \<rparr>"

definition Info_entry :: "bytes \<Rightarrow> Object \<Rightarrow> InfoAcc \<Rightarrow> Decoder \<Rightarrow> (InfoAcc \<times> Decoder) result" where
  "Info_entry k v acc d =
     (if k = ascii ''name'' then set_field (decode_String v d) (\<lambda>x. acc\<lparr> ia_name := Some x \<rparr>)
      else if k = ascii ''length'' then set_field (decode_uint U64_MAX v d) (\<lambda>x. acc\<lparr> ia_length := Some x \<rparr>)
      else if k = ascii ''piece length'' then
        set_field (decode_uint U64_MAX v d) (\<lambda>x. acc\<lparr> ia_piece_length := Some x \<rparr>)
      else if k = ascii ''pieces'' then set_field (decode_AsString v d) (\<lambda>x. acc\<lparr> ia_pieces := Some x \<rparr>)
      else if k = ascii ''files'' then set_field (decode_Vec File_decode v d) (\<lambda>x. acc\<lparr> ia_files := Some x \<rparr>)
      else if k = ascii ''md5sum'' then set_field (decode_String v d) (\<lambda>x. acc\<lparr> ia_md5sum := Some x \<rparr>)
      else if k = ascii ''private'' then set_field (decode_uint U8_MAX v d) (\<lambda>x. acc\<lparr> ia_private := Some x \<rparr>)
      else skip_field v acc d)"

text \<open>The sum of the lengths of the files is a 64-bit sum.\<close>

definition Info_finish :: "InfoAcc \<Rightarrow> Info result" where
  "Info_finish acc =
     and_then (ok_or_missing ''name'' (ia_name acc)) (\<lambda>nm.
     and_then (ok_or_missing ''piece length'' (ia_piece_length acc)) (\<lambda>pl.
     and_then (ok_or_missing ''pieces'' (ia_pieces acc)) (\<lambda>ps.
     and_then (case ia_files acc of Some fs \<Rightarrow> Inr (wrap64 (sum_list (map file_length fs)))
               | None \<Rightarrow> ok_or_missing ''length'' (ia_length acc)) (\<lambda>l.
     Info_new nm l pl ps (case ia_files acc of Some fs \<Rightarrow> fs | None \<Rightarrow> []) (ia_md5sum acc) (ia_private acc)))))"

definition Info_decode :: "Info reader" where
  "Info_decode v d =
     and_then (try_into_dictionary v) (\<lambda>_.
     and_then (dict_fold (fuel d) Info_entry InfoAcc_new d) (\<lambda>(acc, d').
     and_then (Info_finish acc) (\<lambda>x. Inr (x, d'))))"

definition Info_from_bencode :: "bytes \<Rightarrow> Info result" where
  "Info_from_bencode = from_bencode False 2048 Info_decode"

definition calculate_info_hash :: "(bytes \<Rightarrow> bytes) \<Rightarrow> bytes \<Rightarrow> bytes" where
  "calculate_info_hash sha1 data = sha1 data"

record TorrentAcc =
  ta_announce :: "string option"
  ta_announce_list :: "string list list option"
  ta_created_by :: "string option"
  ta_creation_date :: "nat option"
  ta_info :: "Info option"
  ta_info_hash :: "bytes option"
  ta_comment :: "string option"
  ta_encoding :: "string option"

definition TorrentAcc_new :: TorrentAcc where
  "TorrentAcc_new = \<lparr> ta_announce = None, ta_announce_list = None, ta_created_by = None,
     ta_creation_date = None, ta_info = None, ta_info_hash = None, ta_comment = None, ta_encoding = None \<rparr>"

text \<open>
  The entry \<^verbatim>\<open>info\<close>, when it is a dictionary: its text is cut out of the input, hashed, and read
  again by a decoder of its own. An \<^verbatim>\<open>info\<close> of another kind is an unknown field.
\<close>

definition info_entry ::
  "(bytes \<Rightarrow> bytes) \<Rightarrow> bytes \<Rightarrow> TorrentAcc \<Rightarrow> Decoder \<Rightarrow> (TorrentAcc \<times> Decoder) result" where
  "info_entry sha1 s acc d =
     and_then (into_raw s d) (\<lambda>(info_bytes, d').
     and_then (Info_from_bencode info_bytes) (\<lambda>i.
     Inr (acc\<lparr> ta_info_hash := Some (calculate_info_hash sha1 info_bytes), ta_info := Some i \<rparr>, d')))"

definition Torrent_entry ::
  "(bytes \<Rightarrow> bytes) \<Rightarrow> bytes \<Rightarrow> Object \<Rightarrow> TorrentAcc \<Rightarrow> Decoder \<Rightarrow> (TorrentAcc \<times> Decoder) result" where
  "Torrent_entry sha1 k v acc d =
     (if k = ascii ''announce'' then set_field (decode_String v d) (\<lambda>x. acc\<lparr> ta_announce := Some x \<rparr>)
      else if k = ascii ''announce-list'' then
        set_field (decode_Vec (decode_Vec decode_String) v d) (\<lambda>x. acc\<lparr> ta_announce_list := Some x \<rparr>)
      else if k = ascii ''created by'' then set_field (decode_String v d) (\<lambda>x. acc\<lparr> ta_created_by := Some x \<rparr>)
      else if k = ascii ''creation date'' then
        set_field (decode_uint U64_MAX v d) (\<lambda>x. acc\<lparr> ta_creation_date := Some x \<rparr>)
      else if k = ascii ''info'' then
        (case v of ODict s \<Rightarrow> info_entry sha1 s acc d | _ \<Rightarrow> skip_field v acc d)
      else if k = ascii ''comment'' then set_field (decode_String v d) (\<lambda>x. acc\<lparr> ta_comment := Some x \<rparr>)
      else if k = ascii ''encoding'' then set_field (decode_String v d) (\<lambda>x. acc\<lparr> ta_encoding := Some x \<rparr>)
      else skip_field v acc d)"

definition Torrent_finish :: "TorrentAcc \<Rightarrow> Torrent result" where
  "Torrent_finish acc =
     and_then (ok_or_missing ''announce'' (ta_announce acc)) (\<lambda>a.
     and_then (ok_or_missing ''announce_list'' (ta_announce_list acc)) (\<lambda>al.
     and_then (ok_or_missing ''creation_date'' (ta_creation_date acc)) (\<lambda>cd.
     and_then (ok_or_missing ''info'' (ta_info acc)) (\<lambda>i.
     and_then (ok_or_missing ''info_hash'' (ta_info_hash acc)) (\<lambda>h.
     Inr \<lparr> announce = a, announce_list = al, created_by = ta_created_by acc, creation_date = cd, info = i,
           info_hash = h, comment = ta_comment acc, encoding = ta_encoding acc \<rparr>)))))"

definition Torrent_decode :: "(bytes \<Rightarrow> bytes) \<Rightarrow> Torrent reader" where
  "Torrent_decode sha1 v d =
     and_then (try_into_dictionary v) (\<lambda>_.
     and_then (dict_fold (fuel d) (Torrent_entry sha1) TorrentAcc_new d) (\<lambda>(acc, d').
     and_then (Torrent_finish acc) (\<lambda>x. Inr (x, d'))))"

definition parse_torrent :: "(bytes \<Rightarrow> bytes) \<Rightarrow> bytes \<Rightarrow> Torrent result" where
  "parse_torrent sha1 data =
     (case from_bencode False 2048 (Torrent_decode sha1) data of
        Inr t \<Rightarrow> Inr t
      | Inl (Err e) \<Rightarrow> Inl (Err (''failed to parse the torrent file: '' @ e))
      | Inl (Panic e) \<Rightarrow> Inl (Panic e))"

section \<open>The input is only moved through\<close>

lemma take_int_suffix: "take_int t s cs = Inr (i, r) \<Longrightarrow> suffix r cs"
proof (induction cs arbitrary: s i)
  case (Cons c cs)
  have "(\<exists>s' i'. take_int t s' cs = Inr (i', r)) \<or> r = cs"
    using Cons.prems by (cases s) (auto simp: and_then_Inr_iff split: if_split_asm)
  then show ?case using Cons.IH by (auto simp: suffix_Cons)
qed simp

lemma raw_next_token_suffix:
  assumes "raw_next_token cs = Inr (tok, r)"
  shows "suffix r cs"
proof -
  obtain c cs' where cs: "cs = c # cs'" using assms by (cases cs) (auto simp: raw_next_token_def)
  have "r = cs' \<or> (\<exists>x i. take_int x IStart cs' = Inr (i, r))
      \<or> (\<exists>x i r' k. take_int x IStart cs = Inr (i, r') \<and> r = drop k r')"
    using assms unfolding cs
    by (auto simp: raw_next_token_def and_then_Inr_iff take_chunk_def simp del: take_int.simps split: if_split_asm) blast
  then consider "r = cs'" | x i where "take_int x IStart cs' = Inr (i, r)"
    | x i r' k where "take_int x IStart cs = Inr (i, r')" "r = drop k r'" by blast
  then show ?thesis
  proof cases
    case 3
    have "suffix r r'" using 3(2) by (simp add: suffix_drop)
    with take_int_suffix [OF 3(1)] show ?thesis by (rule suffix_order.trans [rotated])
  qed (use cs in \<open>auto simp: suffix_Cons dest: take_int_suffix\<close>)
qed

lemma next_token_suffix: "next_token d = Inr (tok, d') \<Longrightarrow> suffix (d_rest d') (d_rest d)"
  by (auto simp: next_token_def and_then_Inr_iff dest: raw_next_token_suffix split: if_split_asm)

text \<open>The text of a dictionary starts where its first token was read.\<close>

lemma next_object_suffix:
  assumes "next_object d = Inr (v, d')"
  shows "suffix (d_rest d') (d_rest d)" and "v = Some (ODict s) \<Longrightarrow> s = d_rest d"
proof -
  obtain tok d1 where "next_token d = Inr (tok, d1)" using assms by (auto simp: next_object_def and_then_Inr_iff)
  then show "suffix (d_rest d') (d_rest d)" and "v = Some (ODict s) \<Longrightarrow> s = d_rest d"
    using assms next_token_suffix [of d tok d1]
    by (auto simp: next_object_def split: option.split_asm Token.split_asm)
qed

lemma next_pair_suffix:
  assumes "next_pair d = Inr (kv, d')"
  shows "suffix (d_rest d') (d_rest d)"
    and "kv = Some (k, ODict s) \<Longrightarrow> suffix s (d_rest d) \<and> suffix (d_rest d') s"
proof -
  obtain key d1 where k: "next_object d = Inr (key, d1)" using assms by (auto simp: next_pair_def and_then_Inr_iff)
  note s1 = next_object_suffix [OF k]
  have "(kv = None \<and> d' = d1) \<or> (\<exists>k v. kv = Some (k, v) \<and> next_object d1 = Inr (Some v, d'))"
    using assms k by (auto simp: next_pair_def and_then_Inr_iff split: option.split_asm Object.split_asm)
  then show "suffix (d_rest d') (d_rest d)"
    using s1(1) by (auto dest!: next_object_suffix(1) intro: suffix_order.trans)
  show "suffix s (d_rest d) \<and> suffix (d_rest d') s" if kv: "kv = Some (k, ODict s)"
  proof -
    have o: "next_object d1 = Inr (Some (ODict s), d')"
      using assms k kv by (auto simp: next_pair_def and_then_Inr_iff split: option.split_asm Object.split_asm)
    have "s = d_rest d1" using next_object_suffix(2) [OF o] by simp
    then show ?thesis using s1(1) next_object_suffix(1) [OF o] by simp
  qed
qed

lemma consume_suffix: "consume n v d = Inr d' \<Longrightarrow> suffix (d_rest d') (d_rest d)"
proof (induction n arbitrary: v d d')
  case (Suc n)
  have two: "suffix (d_rest d') (d_rest d)"
    if "suffix (d_rest d1) (d_rest d)" "and_then (consume n w d1) (consume n x) = Inr d'" for w x d1
    using that by (auto simp: and_then_Inr_iff) (meson Suc.IH suffix_order.trans)
  show ?case
  proof (cases v)
    case (OList s)
    then obtain ob d1 where ob: "next_object d = Inr (ob, d1)" using Suc.prems by (auto simp: and_then_Inr_iff)
    from next_object_suffix(1) [OF this] Suc.prems ob OList two show ?thesis by (cases ob) auto
  next
    case (ODict s)
    then obtain ob d1 where ob: "next_pair d = Inr (ob, d1)" using Suc.prems by (auto simp: and_then_Inr_iff)
    from next_pair_suffix(1) [OF this] Suc.prems ob ODict two show ?thesis by (cases ob) auto
  qed (use Suc.prems in auto)
qed simp

text \<open>A reader that leaves the input at a later position of the same text.\<close>

definition advances :: "'a reader \<Rightarrow> bool" where
  "advances rd \<longleftrightarrow> (\<forall>v d x d'. rd v d = Inr (x, d') \<longrightarrow> suffix (d_rest d') (d_rest d))"

named_theorems advance_intros

lemma advances_same [advance_intros]:
  "advances decode_String" "advances (decode_uint hi)" "advances decode_AsString"
  by (auto simp: advances_def decode_String_def decode_uint_def decode_AsString_def and_then_Inr_iff split: if_split_asm)

lemma advances_skip [advance_intros]: "advances (\<lambda>v. skip_field v acc)"
  by (auto simp: advances_def skip_field_def drop_object_def and_then_Inr_iff dest: consume_suffix)

lemma advances_set_field [advance_intros]: "advances rd \<Longrightarrow> advances (\<lambda>v d. set_field (rd v d) upd)"
  by (fastforce simp: advances_def set_field_def and_then_Inr_iff)

lemma list_fold_invariant:
  assumes "list_fold n f acc d = Inr (acc', d')" and "P acc d"
    and step: "\<And>v acc d d1 acc' d2. P acc d \<Longrightarrow> next_object d = Inr (Some v, d1) \<Longrightarrow> f v acc d1 = Inr (acc', d2) \<Longrightarrow> P acc' d2"
    and fin: "\<And>acc d d'. P acc d \<Longrightarrow> next_object d = Inr (None, d') \<Longrightarrow> P acc d'"
  shows "P acc' d'"
  using assms(1,2)
proof (induction n arbitrary: acc d)
  case (Suc n)
  then obtain ob d1 where ob: "next_object d = Inr (ob, d1)" by (auto simp: and_then_Inr_iff)
  show ?case
  proof (cases ob)
    case None
    then show ?thesis using Suc.prems ob fin by simp
  next
    case (Some v)
    then obtain acc1 d2 where f: "f v acc d1 = Inr (acc1, d2)" "list_fold n f acc1 d2 = Inr (acc', d')"
      using Suc.prems(1) ob by (auto simp: and_then_Inr_iff)
    have "P acc1 d2" using step [OF Suc.prems(2)] ob Some f(1) by simp
    then show ?thesis using Suc.IH f(2) by blast
  qed
qed simp

lemma dict_fold_invariant:
  assumes "dict_fold n f acc d = Inr (acc', d')" and "P acc d"
    and step: "\<And>k v acc d d1 acc' d2. P acc d \<Longrightarrow> next_pair d = Inr (Some (k, v), d1) \<Longrightarrow> f k v acc d1 = Inr (acc', d2) \<Longrightarrow> P acc' d2"
    and fin: "\<And>acc d d'. P acc d \<Longrightarrow> next_pair d = Inr (None, d') \<Longrightarrow> P acc d'"
  shows "P acc' d'"
  using assms(1,2)
proof (induction n arbitrary: acc d)
  case (Suc n)
  then obtain ob d1 where ob: "next_pair d = Inr (ob, d1)" by (auto simp: and_then_Inr_iff)
  show ?case
  proof (cases ob)
    case None
    then show ?thesis using Suc.prems ob fin by simp
  next
    case (Some kv)
    obtain k v where kv: "kv = (k, v)" by fastforce
    then obtain acc1 d2 where f: "f k v acc d1 = Inr (acc1, d2)" "dict_fold n f acc1 d2 = Inr (acc', d')"
      using Suc.prems(1) ob Some by (auto simp: and_then_Inr_iff)
    have "P acc1 d2" using step [OF Suc.prems(2)] ob Some kv f(1) by simp
    then show ?thesis using Suc.IH f(2) by blast
  qed
qed simp

lemma advances_Vec [advance_intros]:
  assumes "advances rd"
  shows "advances (decode_Vec rd)"
  unfolding advances_def
proof (intro allI impI)
  fix v d xs d'
  assume "decode_Vec rd v d = Inr (xs, d')"
  then have "list_fold (fuel d) (\<lambda>v acc d. and_then (rd v d) (\<lambda>(x, d'). Inr (acc @ [x], d'))) [] d = Inr (xs, d')"
    by (auto simp: decode_Vec_def and_then_Inr_iff)
  then show "suffix (d_rest d') (d_rest d)"
  proof (rule list_fold_invariant [where P = "\<lambda>_ d1. suffix (d_rest d1) (d_rest d)"])
    fix v acc acc' and d0 d1 d2 :: Decoder
    assume "suffix (d_rest d0) (d_rest d)" and o: "next_object d0 = Inr (Some v, d1)"
      and "and_then (rd v d1) (\<lambda>(x, d'). Inr (acc @ [x], d')) = Inr (acc', d2)"
    moreover from this have "suffix (d_rest d2) (d_rest d1)"
      using assms by (auto simp: advances_def and_then_Inr_iff)
    ultimately show "suffix (d_rest d2) (d_rest d)" using next_object_suffix(1) [OF o] by (meson suffix_order.trans)
  qed (auto dest: next_object_suffix(1) intro: suffix_order.trans)
qed

text \<open>What every element of a decoded list satisfies.\<close>

lemma decode_Vec_all:
  assumes "decode_Vec rd v d = Inr (xs, d')" and "\<And>v d x d'. rd v d = Inr (x, d') \<Longrightarrow> P x"
  shows "\<forall>x \<in> set xs. P x"
proof -
  have "list_fold (fuel d) (\<lambda>v acc d. and_then (rd v d) (\<lambda>(x, d'). Inr (acc @ [x], d'))) [] d = Inr (xs, d')"
    using assms(1) by (auto simp: decode_Vec_def and_then_Inr_iff)
  then show ?thesis
    by (rule list_fold_invariant [where P = "\<lambda>xs _. \<forall>x \<in> set xs. P x"])
      (use assms(2) in \<open>auto simp: and_then_Inr_iff\<close>)
qed


section \<open>Well-formed torrents\<close>

definition Info_wf :: "Info \<Rightarrow> bool" where
  "Info_wf i \<longleftrightarrow> info_length i < 2 ^ 64 \<and> info_piece_length i < 2 ^ 64
     \<and> (\<forall>p. info_private i = Some p \<longrightarrow> p < 256)
     \<and> length (file_piece i) = length (info_files i)
     \<and> (info_files i \<noteq> [] \<longrightarrow> 0 < info_piece_length i
          \<and> info_length i = wrap64 (sum_list (map file_length (info_files i))))
     \<and> (\<forall>k < length (info_files i).
          file_length (info_files i ! k) < 2 ^ 64
          \<and> length_prefix_sum (info_files i ! k) = wrap64 (prefix_sum (info_files i) (Suc k))
          \<and> fst (file_piece i ! k) < 2 ^ 32 \<and> snd (file_piece i ! k) < 2 ^ 32)"

lemma wrap64_add [simp]: "wrap64 (wrap64 a + b) = wrap64 (a + b)"
  by (simp add: wrap64_def mod_add_left_eq)

lemma sub32_bound: "a < 2 ^ 32 \<Longrightarrow> sub32 a 1 < 2 ^ 32"
  by (auto simp: sub32_def)

lemma file_piece_loop_wf:
  assumes "file_piece_loop pl fs acc prev = Inr (fs', fps)" and "acc = wrap64 s"
  shows "length fps = length fs' \<and> map file_length fs' = map file_length fs
    \<and> (fs' \<noteq> [] \<longrightarrow> 0 < pl)
    \<and> (\<forall>k < length fs'. length_prefix_sum (fs' ! k) = wrap64 (s + prefix_sum fs' (Suc k))
         \<and> fst (fps ! k) < 2 ^ 32 \<and> snd (fps ! k) < 2 ^ 32)"
  using assms
proof (induction fs arbitrary: acc prev s fs' fps)
  case (Cons f fs)
  let ?acc = "wrap64 (s + file_length f)"
  have acc: "wrap64 (acc + file_length f) = ?acc" using Cons.prems(2) by simp
  obtain fs1 fps1 where r: "file_piece_loop pl fs ?acc (div_ceil ?acc pl) = Inr (fs1, fps1)"
    and e: "fs' = f\<lparr> length_prefix_sum := ?acc \<rparr> # fs1"
      "\<exists>a b. fps = (sub32 (wrap32 a) 1, sub32 (wrap32 b) 1) # fps1" and pl: "0 < pl"
    using Cons.prems(1) by (auto simp: and_then_Inr_iff Let_def acc split: if_split_asm)
  note ih = Cons.IH [OF r refl]
  have b: "sub32 (wrap32 a) 1 < 2 ^ 32" for a by (rule sub32_bound) simp
  have "length_prefix_sum (fs' ! k) = wrap64 (s + prefix_sum fs' (Suc k))
      \<and> fst (fps ! k) < 2 ^ 32 \<and> snd (fps ! k) < 2 ^ 32" if "k < length fs'" for k
    using that ih e b by (cases k) (auto simp: add.assoc)
  then show ?case using ih e pl by auto
qed simp

lemma Info_new_wf:
  assumes "Info_new nm l pl ps fs m pr = Inr i" and "pl < 2 ^ 64" and "l < 2 ^ 64"
    and "\<forall>p. pr = Some p \<longrightarrow> p < 256" and "\<forall>f \<in> set fs. file_length f < 2 ^ 64"
    and "fs \<noteq> [] \<longrightarrow> l = wrap64 (sum_list (map file_length fs))"
  shows "Info_wf i"
proof -
  obtain fs' fps where c: "file_piece_loop pl fs 0 0 = Inr (fs', fps)"
    and i: "i = \<lparr> info_length = l, info_piece_length = pl, info_pieces = ps, info_name = nm, info_files = fs',
      info_md5sum = m, info_private = pr, file_piece = fps \<rparr>"
    using assms(1) by (auto simp: Info_new_def calculate_file_piece_def and_then_Inr_iff)
  note wf = file_piece_loop_wf [OF c, of 0, simplified]
  have same: "map file_length fs' = map file_length fs" using wf by simp
  then have len: "length fs' = length fs" by (metis length_map)
  then have empty: "fs' = [] \<longleftrightarrow> fs = []" by auto
  have "file_length (fs' ! k) < 2 ^ 64" if "k < length fs'" for k
    using that assms(5) same len by (metis nth_map nth_mem)
  with wf assms(2-4,6) show ?thesis
    by (auto simp: Info_wf_def i same empty)
qed

lemma decode_uint_le: "decode_uint hi v d = Inr (n, d') \<Longrightarrow> n \<le> hi"
  by (auto simp: decode_uint_def parse_uint_def and_then_Inr_iff split: if_split_asm option.split_asm)

lemma set_field_Inr_iff: "set_field r upd = Inr (y, d) \<longleftrightarrow> (\<exists>x. r = Inr (x, d) \<and> y = upd x)"
  by (auto simp: set_field_def and_then_Inr_iff)

lemma skip_field_Inr: "skip_field v acc d = Inr (acc', d') \<Longrightarrow> acc' = acc"
  by (auto simp: skip_field_def and_then_Inr_iff)

lemma File_decode_wf:
  assumes "File_decode v d = Inr (f, d')"
  shows "file_length f < 2 ^ 64"
proof -
  obtain l p m where r: "dict_fold (fuel d) File_entry (None, None, None) d = Inr ((l, p, m), d')"
    and f: "\<exists>n. l = Some n \<and> file_length f = n"
    using assms by (auto simp: File_decode_def and_then_Inr_iff ok_or_missing_def missing_field_def File_new_def
        split: option.split_asm)
  from r have "\<forall>n. fst (l, p, m) = Some n \<longrightarrow> n \<le> U64_MAX"
  proof (rule dict_fold_invariant [where P = "\<lambda>acc _. \<forall>n. fst acc = Some n \<longrightarrow> n \<le> U64_MAX"])
    fix k v acc d d1 acc' d2
    assume "\<forall>n. fst acc = Some n \<longrightarrow> n \<le> U64_MAX" "File_entry k v acc d1 = Inr (acc', d2)"
    then show "\<forall>n. fst acc' = Some n \<longrightarrow> n \<le> U64_MAX"
      by (cases acc) (auto simp: File_entry_def set_field_Inr_iff dest: decode_uint_le skip_field_Inr simp del: ascii_simps split: if_split_asm)
  qed auto
  then show ?thesis using f by (auto simp: U64_MAX_def)
qed

definition InfoAcc_wf :: "InfoAcc \<Rightarrow> bool" where
  "InfoAcc_wf a \<longleftrightarrow> (\<forall>n. ia_length a = Some n \<longrightarrow> n \<le> U64_MAX) \<and> (\<forall>n. ia_piece_length a = Some n \<longrightarrow> n \<le> U64_MAX)
     \<and> (\<forall>n. ia_private a = Some n \<longrightarrow> n \<le> U8_MAX) \<and> (\<forall>fs. ia_files a = Some fs \<longrightarrow> (\<forall>f \<in> set fs. file_length f < 2 ^ 64))"

lemma Info_entry_wf:
  assumes "InfoAcc_wf acc" and "Info_entry k v acc d = Inr (acc', d')"
  shows "InfoAcc_wf acc'"
  using assms decode_Vec_all [of File_decode v d _ d' "\<lambda>f. file_length f < 2 ^ 64", OF _ File_decode_wf]
  by (auto simp: Info_entry_def set_field_Inr_iff InfoAcc_wf_def dest: decode_uint_le skip_field_Inr simp del: ascii_simps split: if_split_asm)

lemma Info_finish_wf:
  assumes "InfoAcc_wf a" and "Info_finish a = Inr i"
  shows "Info_wf i"
proof -
  obtain nm pl ps l where pl: "ia_piece_length a = Some pl"
    and l: "(case ia_files a of Some fs \<Rightarrow> Inr (wrap64 (sum_list (map file_length fs)))
               | None \<Rightarrow> ok_or_missing ''length'' (ia_length a)) = Inr l"
    and i: "Info_new nm l pl ps (case ia_files a of Some fs \<Rightarrow> fs | None \<Rightarrow> []) (ia_md5sum a) (ia_private a) = Inr i"
    using assms(2) by (auto simp: Info_finish_def and_then_Inr_iff ok_or_missing_def missing_field_def split: option.split_asm)
  have "l < 2 ^ 64"
    using l assms(1) by (auto simp: InfoAcc_wf_def U64_MAX_def ok_or_missing_def missing_field_def split: option.split_asm)
  then show ?thesis
    using assms(1) pl l by (intro Info_new_wf [OF i])
      (auto simp: InfoAcc_wf_def U64_MAX_def U8_MAX_def split: option.split_asm option.split)
qed

lemma Info_decode_wf:
  assumes "Info_decode v d = Inr (i, d')"
  shows "Info_wf i"
proof -
  obtain a where r: "dict_fold (fuel d) Info_entry InfoAcc_new d = Inr (a, d')" and i: "Info_finish a = Inr i"
    using assms by (auto simp: Info_decode_def and_then_Inr_iff)
  from r have "InfoAcc_wf a"
    by (rule dict_fold_invariant [where P = "\<lambda>a _. InfoAcc_wf a"])
      (auto intro: Info_entry_wf, simp add: InfoAcc_wf_def InfoAcc_new_def)
  then show ?thesis using i by (rule Info_finish_wf)
qed

lemma Info_from_bencode_wf: "Info_from_bencode bs = Inr i \<Longrightarrow> Info_wf i"
  by (auto simp: Info_from_bencode_def from_bencode_def and_then_Inr_iff split: option.split_asm dest: Info_decode_wf)


text \<open>The text that \<^verbatim>\<open>into_raw\<close> cuts out is a part of the input.\<close>

lemma into_raw_sublist:
  assumes "into_raw s d = Inr (bs, d')" and "suffix s data"
  shows "sublist bs data" and "suffix (d_rest d') (d_rest d)"
proof -
  obtain n where "bs = take n s" and "consume (Suc (fuel d)) (ODict s) d = Inr d'"
    using assms(1) by (auto simp: into_raw_def and_then_Inr_iff simp del: consume.simps)
  moreover have "sublist (take n s) s" by (metis prefix_imp_sublist take_is_prefix)
  ultimately show "sublist bs data" and "suffix (d_rest d') (d_rest d)"
    using assms(2) by (auto simp del: consume.simps dest: suffix_imp_sublist consume_suffix intro: sublist_order.order.trans)
qed

definition TorrentAcc_wf :: "(bytes \<Rightarrow> bytes) \<Rightarrow> bytes \<Rightarrow> TorrentAcc \<Rightarrow> bool" where
  "TorrentAcc_wf sha1 data a \<longleftrightarrow> (\<forall>n. ta_creation_date a = Some n \<longrightarrow> n \<le> U64_MAX)
     \<and> (\<forall>i h. ta_info a = Some i \<longrightarrow> ta_info_hash a = Some h \<longrightarrow>
          (\<exists>bs. sublist bs data \<and> h = sha1 bs \<and> Info_from_bencode bs = Inr i))"

lemma set_field_suffix:
  assumes "set_field (rd v d) upd = Inr (x, d')" and "advances rd"
  shows "suffix (d_rest d') (d_rest d)"
  using assms advances_set_field [of rd upd] by (auto simp: advances_def)

lemma Torrent_entry_wf:
  assumes "TorrentAcc_wf sha1 data acc" and "Torrent_entry sha1 k v acc d = Inr (acc', d')"
    and "\<And>s. v = ODict s \<Longrightarrow> suffix s data"
  shows "TorrentAcc_wf sha1 data acc'"
proof (cases "k = ascii ''info'' \<and> (\<exists>s. v = ODict s)")
  case True
  then obtain s bs i where v: "v = ODict s" and r: "into_raw s d = Inr (bs, d')" and i: "Info_from_bencode bs = Inr i"
    and a: "acc' = acc\<lparr> ta_info_hash := Some (sha1 bs), ta_info := Some i \<rparr>"
    using assms(2) by (auto simp: Torrent_entry_def info_entry_def calculate_info_hash_def and_then_Inr_iff)
  from into_raw_sublist(1) [OF r assms(3) [OF v]] assms(1) i a show ?thesis
    unfolding TorrentAcc_wf_def by auto
next
  case False
  then have "acc' = acc \<or> (\<exists>n. n \<le> U64_MAX \<and> acc' = acc\<lparr> ta_creation_date := Some n \<rparr>)
      \<or> (ta_creation_date acc' = ta_creation_date acc \<and> ta_info acc' = ta_info acc \<and> ta_info_hash acc' = ta_info_hash acc)"
    using assms(2)
    by (auto simp: Torrent_entry_def set_field_Inr_iff dest: decode_uint_le skip_field_Inr simp del: ascii_simps
        split: if_split_asm Object.split_asm)
  then show ?thesis using assms(1) unfolding TorrentAcc_wf_def by auto
qed

lemma Torrent_entry_suffix:
  assumes "Torrent_entry sha1 k v acc d = Inr (acc', d')"
  shows "suffix (d_rest d') (d_rest d)"
proof -
  have "suffix (d_rest d') (d_rest d)" if "info_entry sha1 s acc d = Inr (acc', d')" for s
    using that by (auto simp: info_entry_def and_then_Inr_iff dest: into_raw_sublist(2) [OF _ suffix_order.refl])
  moreover have "suffix (d_rest d') (d_rest d)" if "skip_field v acc d = Inr (acc', d')"
    using that advances_skip [of acc] by (auto simp: advances_def)
  ultimately show ?thesis
    using assms
    by (auto simp: Torrent_entry_def simp del: ascii_simps dest!: set_field_suffix
        intro: advance_intros split: if_split_asm Object.split_asm)
qed

definition Torrent_wf :: "(bytes \<Rightarrow> bytes) \<Rightarrow> bytes \<Rightarrow> Torrent \<Rightarrow> bool" where
  "Torrent_wf sha1 data t \<longleftrightarrow> creation_date t < 2 ^ 64 \<and> Info_wf (info t)
     \<and> (\<exists>bs. sublist bs data \<and> info_hash t = sha1 bs \<and> Info_from_bencode bs = Inr (info t))"

lemma Torrent_finish_wf:
  assumes "TorrentAcc_wf sha1 data a" and "Torrent_finish a = Inr t"
  shows "Torrent_wf sha1 data t"
proof -
  have a: "ta_creation_date a = Some (creation_date t)" "ta_info a = Some (info t)" "ta_info_hash a = Some (info_hash t)"
    using assms(2) by (auto simp: Torrent_finish_def and_then_Inr_iff ok_or_missing_def missing_field_def split: option.split_asm)
  then obtain bs where "sublist bs data" "info_hash t = sha1 bs" "Info_from_bencode bs = Inr (info t)"
    using assms(1) by (auto simp: TorrentAcc_wf_def)
  then show ?thesis
    using assms(1) a(1) by (auto simp: Torrent_wf_def TorrentAcc_wf_def U64_MAX_def dest: Info_from_bencode_wf)
qed

lemma Torrent_decode_wf:
  assumes "Torrent_decode sha1 v d = Inr (t, d')" and "suffix (d_rest d) data"
  shows "Torrent_wf sha1 data t"
proof -
  obtain a where r: "dict_fold (fuel d) (Torrent_entry sha1) TorrentAcc_new d = Inr (a, d')" and t: "Torrent_finish a = Inr t"
    using assms(1) by (auto simp: Torrent_decode_def and_then_Inr_iff)
  from r have "TorrentAcc_wf sha1 data a \<and> suffix (d_rest d') data"
  proof (rule dict_fold_invariant [where P = "\<lambda>a d. TorrentAcc_wf sha1 data a \<and> suffix (d_rest d) data"])
    show "TorrentAcc_wf sha1 data TorrentAcc_new \<and> suffix (d_rest d) data"
      using assms(2) by (simp add: TorrentAcc_wf_def TorrentAcc_new_def)
  next
    fix k v acc acc' and d d1 d2 :: Decoder
    assume P: "TorrentAcc_wf sha1 data acc \<and> suffix (d_rest d) data" and n: "next_pair d = Inr (Some (k, v), d1)"
      and e: "Torrent_entry sha1 k v acc d1 = Inr (acc', d2)"
    have "suffix s data" if "v = ODict s" for s
      using next_pair_suffix(2) [OF n, of k s] that P by (auto intro: suffix_order.trans)
    then have "TorrentAcc_wf sha1 data acc'" using Torrent_entry_wf [OF _ e] P by blast
    moreover have "suffix (d_rest d2) data"
      using Torrent_entry_suffix [OF e] next_pair_suffix(1) [OF n] P by (meson suffix_order.trans)
    ultimately show "TorrentAcc_wf sha1 data acc' \<and> suffix (d_rest d2) data" by simp
  qed (auto dest: next_pair_suffix(1) intro: suffix_order.trans)
  then show ?thesis using Torrent_finish_wf t by blast
qed

section \<open>Properties\<close>

text \<open>
  C20. A torrent that is parsed from any bytes is well formed: its numbers fit the integer types of its
  fields; every file has its pair of piece numbers and the sum of the lengths up to it; with files
  the piece length is not zero and the total length is the 64-bit sum of their lengths; and its info
  hash is the hash of a part of the given bytes which, read on its own, is the torrent's info.
\<close>

theorem parsed_torrent_well_formed:
  assumes "parse_torrent sha1 data = Inr t"
  shows "Torrent_wf sha1 data t"
proof -
  have "from_bencode False 2048 (Torrent_decode sha1) data = Inr t"
    using assms by (auto simp: parse_torrent_def split: sum.split_asm error.split_asm)
  then obtain v d d' where o: "next_object (Decoder_new False 2048 data) = Inr (Some v, d)"
    and r: "Torrent_decode sha1 v d = Inr (t, d')"
    by (auto simp: from_bencode_def and_then_Inr_iff split: option.split_asm)
  have "suffix (d_rest d) data" using next_object_suffix(1) [OF o] by (simp add: d_rest_new)
  with r show ?thesis by (rule Torrent_decode_wf)
qed


definition sample_text :: bytes where
  "sample_text = ascii ''d8:announce1:a13:announce-listll1:bee'' @ ascii ''13:creation datei7e''
     @ ascii ''4:infod5:filesld6:lengthi3e4:pathl1:xeed6:lengthi5e4:pathl1:yeee''
     @ ascii ''4:name1:n12:piece lengthi4e6:pieces0:ee''"

definition sample_torrent :: Torrent where
  "sample_torrent =
     \<lparr> announce = ''a'', announce_list = [[''b'']], created_by = None, creation_date = 7,
       info = \<lparr> info_length = 8, info_piece_length = 4, info_pieces = [], info_name = ''n'',
         info_files =
           [\<lparr> file_length = 3, file_path = [''x''], length_prefix_sum = 3, file_md5sum = None \<rparr>,
            \<lparr> file_length = 5, file_path = [''y''], length_prefix_sum = 8, file_md5sum = None \<rparr>],
         info_md5sum = None, info_private = None, file_piece = [(0, 0), (0, 1)] \<rparr>,
       info_hash = ascii ''d5:filesld6:lengthi3'', comment = None, encoding = None \<rparr>"

lemma sample_parses: "parse_torrent (take 20) sample_text = Inr sample_torrent"
  by (simp add: parse_torrent_def sample_text_def from_bencode_def Decoder_new_def StateTracker_new_def next_object_def next_token_def
      raw_next_token_def is_digit_def is_digit19_def parse_uint_def take_chunk_def observe_token_def push_checked_def push_state_def Let_def
      Torrent_decode_def try_into_dictionary_def fuel_def next_pair_def Torrent_entry_def decode_String_def try_into_bytes_def 
      decode_Vec_def decode_uint_def decode_AsString_def TorrentAcc_new_def set_field_def skip_field_def info_entry_def into_raw_def
      try_into_list_def try_into_integer_def string_of_def Info_from_bencode_def Info_decode_def Info_entry_def InfoAcc_new_def File_decode_def
      File_entry_def ok_or_missing_def File_new_def Info_finish_def Info_new_def calculate_file_piece_def Torrent_finish_def
      calculate_info_hash_def sample_torrent_def U64_MAX_def U8_MAX_def div_ceil_def char_of_eq_iff)

theorem parsed_torrent_well_formed_witness: "Torrent_wf (take 20) sample_text sample_torrent"
  by (rule parsed_torrent_well_formed [OF sample_parses])

end
