(* ===== verification/Rss_Db.thy ===== *)
theory Rss_Db
  imports Prelude
begin

text \<open>
  The tables of the feeds (\<^verbatim>\<open>mapper/rss.rs\<close>): the subscriptions and the entries that were read. A table is the list of its rows; the database
  numbers new rows, and the table of read entries has a unique index on the identifier of the entry alone. A statement the database rejects for
  another reason is not modelled.
\<close>

record RSSEntity =
  rs_id :: nat
  rs_title :: string
  rs_url :: string
  rs_hash :: string
  rs_last_update :: nat
  rs_save_path :: "string option"

record rss_tables =
  rt_rss :: "RSSEntity list"
  rt_read :: "(nat \<times> string) list"

definition get_rss_by_url :: "string \<Rightarrow> rss_tables \<Rightarrow> RSSEntity option" where
  "get_rss_by_url url t = find (\<lambda>e. rs_url e = url) (rt_rss t)"

text \<open>\<open>e\<close> is the new row with the number the database gives it.\<close>

definition rss_add_subscribe :: "RSSEntity \<Rightarrow> rss_tables \<Rightarrow> bool \<times> rss_tables" where
  "rss_add_subscribe e t =
     (if list_ex (\<lambda>x. rs_url x = rs_url e) (rt_rss t) then (False, t) else (True, t\<lparr> rt_rss := rt_rss t @ [e] \<rparr>))"

definition list_subscribe_not_update :: "nat \<Rightarrow> rss_tables \<Rightarrow> RSSEntity list" where
  "list_subscribe_not_update last_update t = filter (\<lambda>e. rs_last_update e < last_update) (rt_rss t)"

definition list_mark_read_guid :: "string \<Rightarrow> rss_tables \<Rightarrow> string list" where
  "list_mark_read_guid url t =
     (case get_rss_by_url url t of
        None \<Rightarrow> []
      | Some e \<Rightarrow> map snd (filter (\<lambda>(i, _). i = rs_id e) (rt_read t)))"

definition update_subscribe :: "nat \<Rightarrow> nat \<Rightarrow> string \<Rightarrow> rss_tables \<Rightarrow> nat \<times> rss_tables" where
  "update_subscribe i now hash t =
     (length (filter (\<lambda>e. rs_id e = i) (rt_rss t)),
      t\<lparr> rt_rss := map (\<lambda>e. if rs_id e = i then e\<lparr> rs_last_update := now, rs_hash := hash \<rparr> else e) (rt_rss t) \<rparr>)"

definition mark_read :: "nat \<Rightarrow> string \<Rightarrow> rss_tables \<Rightarrow> bool result \<times> rss_tables" where
  "mark_read i guid t =
     (if (i, guid) \<in> set (rt_read t) then (Inr False, t)
      else if guid \<in> snd ` set (rt_read t) then (Inl (Err ''UNIQUE constraint failed: rss_mark_read.guid''), t)
      else (Inr True, t\<lparr> rt_read := rt_read t @ [(i, guid)] \<rparr>))"

definition mark_not_read :: "nat \<Rightarrow> string \<Rightarrow> rss_tables \<Rightarrow> nat \<times> rss_tables" where
  "mark_not_read i guid t =
     (length (filter (\<lambda>x. x = (i, guid)) (rt_read t)), t\<lparr> rt_read := filter (\<lambda>x. x \<noteq> (i, guid)) (rt_read t) \<rparr>)"

section \<open>Invariant\<close>

text \<open>Feeds have different numbers and addresses, and an entry is marked once.\<close>

definition rss_ok :: "rss_tables \<Rightarrow> bool" where
  "rss_ok t \<longleftrightarrow> distinct (map rs_id (rt_rss t)) \<and> distinct (map rs_url (rt_rss t)) \<and> distinct (map snd (rt_read t))"

lemma find_unique: "distinct (map f xs) \<Longrightarrow> x \<in> set xs \<Longrightarrow> find (\<lambda>y. f y = f x) xs = Some x"
  by (induction xs) auto

lemma get_rss_by_url_row: "rss_ok t \<Longrightarrow> e \<in> set (rt_rss t) \<Longrightarrow> get_rss_by_url (rs_url e) t = Some e"
  by (simp add: rss_ok_def get_rss_by_url_def find_unique)

lemma rss_add_subscribe_ok: "rss_ok t \<Longrightarrow> rs_id e \<notin> rs_id ` set (rt_rss t) \<Longrightarrow> rss_ok (snd (rss_add_subscribe e t))"
  by (auto simp: rss_ok_def rss_add_subscribe_def list_ex_iff)

lemma update_subscribe_maps:
  "map rs_id (rt_rss (snd (update_subscribe i now h t))) = map rs_id (rt_rss t)"
  "map rs_url (rt_rss (snd (update_subscribe i now h t))) = map rs_url (rt_rss t)"
  "rt_read (snd (update_subscribe i now h t)) = rt_read t"
  by (auto simp: update_subscribe_def)

lemma update_subscribe_ok: "rss_ok t \<Longrightarrow> rss_ok (snd (update_subscribe i now h t))"
  by (simp add: rss_ok_def update_subscribe_maps)

lemma mark_read_ok: "rss_ok t \<Longrightarrow> rss_ok (snd (mark_read i g t))"
  by (auto simp: rss_ok_def mark_read_def)

lemma mark_read_rows [simp]: "rt_rss (snd (mark_read i g t)) = rt_rss t"
  by (simp add: mark_read_def)

lemma mark_read_reads:
  "mark_read i g t = (r, t') \<Longrightarrow> set (rt_read t) \<subseteq> set (rt_read t')"
  "mark_read i g t = (Inr b, t') \<Longrightarrow> (i, g) \<in> set (rt_read t')"
  by (auto simp: mark_read_def split: if_splits)

lemma mark_not_read_ok: "rss_ok t \<Longrightarrow> rss_ok (snd (mark_not_read i g t))"
  by (auto simp: rss_ok_def mark_not_read_def intro: distinct_map_filter)

end
