(* ===== verification/Tasks.thy ===== *)
theory Tasks
  imports Content Torrent_Parse Rss_Db
begin

text \<open>
  Adding tasks and keeping them (\<^verbatim>\<open>service/task_service.rs\<close>, \<^verbatim>\<open>core/task_manager.rs\<close>): a torrent is read from a file, a magnet link or a feed, entered
  into the table of torrents and handed to the task manager; at the next start the manager takes up every torrent that is being downloaded.
  What files, HTTP requests and magnet tasks yield are arguments.
\<close>

section \<open>The task service\<close>

datatype TorrentSource = LocalFile string | MagnetURI string | RSSFeed nat string string

record TaskRequest =
  tk_name :: "string option"
  tk_download_path :: "string option"
  tk_source :: TorrentSource
  tk_mkdir_torrent_name :: "bool option"

record world =
  wd_torrents :: db
  wd_rss :: rss_tables
  wd_started :: "(Torrent \<times> string) list"

record service_env =
  en_codec :: codec
  en_sha1 :: "bytes \<Rightarrow> bytes"
  en_file :: "string \<Rightarrow> bytes result"
  en_http :: "string \<Rightarrow> bytes result"
  en_magnet :: "string \<Rightarrow> Torrent result"
  en_download_dir :: string

definition load_torrent_from_local_file :: "service_env \<Rightarrow> string \<Rightarrow> Torrent result" where
  "load_torrent_from_local_file ev path = and_then (en_file ev path) (parse_torrent (en_sha1 ev))"

text \<open>The entry counts as read when its torrent could be parsed, before the torrent is entered into the table.\<close>

definition load_torrent_from_rss_feed :: "service_env \<Rightarrow> nat \<Rightarrow> string \<Rightarrow> string \<Rightarrow> rss_tables \<Rightarrow> Torrent result \<times> rss_tables" where
  "load_torrent_from_rss_feed ev i guid url t =
     (case and_then (en_http ev url) (parse_torrent (en_sha1 ev)) of
        Inl e \<Rightarrow> (Inl e, t)
      | Inr x \<Rightarrow> (case mark_read i guid t of (Inl e, t) \<Rightarrow> (Inl e, t) | (Inr _, t) \<Rightarrow> (Inr x, t)))"

fun load_torrent :: "service_env \<Rightarrow> TorrentSource \<Rightarrow> rss_tables \<Rightarrow> Torrent result \<times> rss_tables" where
  "load_torrent ev (LocalFile path) t = (load_torrent_from_local_file ev path, t)"
| "load_torrent ev (MagnetURI link) t = (en_magnet ev link, t)"
| "load_torrent ev (RSSFeed i guid url) t = load_torrent_from_rss_feed ev i guid url t"

definition task_save_path :: "service_env \<Rightarrow> TaskRequest \<Rightarrow> Torrent \<Rightarrow> string" where
  "task_save_path ev rq t =
     (let path = (case tk_download_path rq of None \<Rightarrow> en_download_dir ev | Some p \<Rightarrow> p)
      in if tk_mkdir_torrent_name rq = Some True then path_push path (info_name (info t)) else path)"

text \<open>
  \<^verbatim>\<open>add_task\<close>: a torrent that is already in the table is not added again. Creating the task reads the row that was just
  written. The errors with which creating and starting the task can end (of the database and of the background tasks) are not modelled; the row stays in the table
  when they happen.
\<close>

definition add_task :: "service_env \<Rightarrow> TaskRequest \<Rightarrow> world \<Rightarrow> bool result \<times> world" where
  "add_task ev rq w =
     (case load_torrent ev (tk_source rq) (wd_rss w) of
        (Inl e, rss) \<Rightarrow> (Inl e, w\<lparr> wd_rss := rss \<rparr>)
      | (Inr t, rss) \<Rightarrow>
          (let path = task_save_path ev rq t in
           case add_torrent (en_codec ev) t path (wd_torrents w) of
             (added, tab) \<Rightarrow>
               (Inr added, w\<lparr> wd_rss := rss, wd_torrents := tab,
                  wd_started := (if added then wd_started w @ [(t, path)] else wd_started w) \<rparr>)))"

record TorrentRet =
  tt_name :: string
  tt_length :: nat
  tt_info_hash :: "string option"
  tt_comment :: "string option"
  tt_files :: "(string list \<times> nat) list"

text \<open>\<open>hex\<close> is the hexadecimal encoding. For a file the checksum of the torrent stands in the place of the info hash.\<close>

definition parse_torrent_link :: "(bytes \<Rightarrow> string) \<Rightarrow> service_env \<Rightarrow> string \<Rightarrow> TorrentRet result" where
  "parse_torrent_link hex ev link =
     and_then (en_magnet ev link) (\<lambda>t. Inr \<lparr> tt_name = info_name (info t), tt_length = info_length (info t),
       tt_info_hash = Some (hex (info_hash t)), tt_comment = comment t,
       tt_files = map (\<lambda>f. (file_path f, file_length f)) (info_files (info t)) \<rparr>)"

definition parse_torrent_file :: "service_env \<Rightarrow> string \<Rightarrow> TorrentRet result" where
  "parse_torrent_file ev path =
     and_then (load_torrent_from_local_file ev path) (\<lambda>t. Inr \<lparr> tt_name = info_name (info t), tt_length = info_length (info t),
       tt_info_hash = info_md5sum (info t), tt_comment = comment t,
       tt_files = map (\<lambda>f. (file_path f, file_length f)) (info_files (info t)) \<rparr>)"

section \<open>The task manager\<close>

text \<open>\<^verbatim>\<open>load_task_from_db\<close>: the torrents for which a task is created, with their paths, in the order \<open>hs\<close> of the query.\<close>

definition entity_task :: "TorrentEntity \<Rightarrow> (Torrent \<times> string) option result" where
  "entity_task e =
     (case (te_status e, te_serail e) of
        (Some StDownload, Some t) \<Rightarrow> (case te_save_path e of None \<Rightarrow> Inl (Panic ''unwrap of None'') | Some p \<Rightarrow> Inr (Some (t, p)))
      | _ \<Rightarrow> Inr None)"

definition load_task_from_db :: "codec \<Rightarrow> bytes list \<Rightarrow> db \<Rightarrow> (Torrent \<times> string) list result" where
  "load_task_from_db c hs tab =
     and_then (list_torrent c hs tab) (\<lambda>es. and_then (map_result entity_task es) (\<lambda>xs. Inr (List.map_filter (\<lambda>x. x) xs)))"

text \<open>
  The registered tasks. \<^verbatim>\<open>handle_task\<close> starts a task and registers it afterwards; between the two the task can already report that it is finished.
\<close>

record TaskManager =
  tm_tasks :: "nat list"
  tm_starting :: "nat list"
  tm_running :: "nat list"
  tm_shutdowns :: "nat list"

definition TaskManager_new :: TaskManager where
  "TaskManager_new = \<lparr> tm_tasks = [], tm_starting = [], tm_running = [], tm_shutdowns = [] \<rparr>"

definition handle_task_start :: "nat \<Rightarrow> TaskManager \<Rightarrow> TaskManager" where
  "handle_task_start i m = m\<lparr> tm_starting := i # tm_starting m, tm_running := i # tm_running m \<rparr>"

definition handle_task_insert :: "nat \<Rightarrow> TaskManager \<Rightarrow> TaskManager" where
  "handle_task_insert i m = m\<lparr> tm_starting := remove1 i (tm_starting m), tm_tasks := List.insert i (tm_tasks m) \<rparr>"

text \<open>\<^verbatim>\<open>shutdown_task\<close>, and \<^verbatim>\<open>finish\<close> and \<^verbatim>\<open>error\<close> of the callback, which do the same.\<close>

definition shutdown_task :: "nat \<Rightarrow> TaskManager \<Rightarrow> TaskManager" where
  "shutdown_task i m =
     (if i \<in> set (tm_tasks m)
      then m\<lparr> tm_tasks := remove1 i (tm_tasks m), tm_running := remove1 i (tm_running m), tm_shutdowns := i # tm_shutdowns m \<rparr>
      else m)"

definition tm_callback_finish :: "nat \<Rightarrow> TaskManager \<Rightarrow> TaskManager" where
  "tm_callback_finish i m = shutdown_task i m"

inductive tm_reach :: "TaskManager \<Rightarrow> bool" where
  tm_init: "tm_reach TaskManager_new"
| tm_start: "tm_reach m \<Longrightarrow> i \<notin> set (tm_running m) \<union> set (tm_shutdowns m) \<Longrightarrow> tm_reach (handle_task_start i m)"
| tm_insert: "tm_reach m \<Longrightarrow> i \<in> set (tm_starting m) \<Longrightarrow> tm_reach (handle_task_insert i m)"
| tm_finish: "tm_reach m \<Longrightarrow> i \<in> set (tm_running m) \<Longrightarrow> tm_reach (tm_callback_finish i m)"
| tm_stop: "tm_reach m \<Longrightarrow> tm_reach (shutdown_task i m)"

section \<open>Lemmas\<close>

definition tm_inv :: "TaskManager \<Rightarrow> bool" where
  "tm_inv m \<longleftrightarrow> distinct (tm_tasks m @ tm_starting m) \<and> set (tm_running m) = set (tm_tasks m @ tm_starting m)
     \<and> distinct (tm_running m) \<and> distinct (tm_shutdowns m) \<and> set (tm_running m) \<inter> set (tm_shutdowns m) = {}"

lemma tm_inv_shutdown: "tm_inv m \<Longrightarrow> tm_inv (shutdown_task i m)"
  by (auto simp: tm_inv_def shutdown_task_def)

lemma tm_inv_insert: "tm_inv m \<Longrightarrow> i \<in> set (tm_starting m) \<Longrightarrow> tm_inv (handle_task_insert i m)"
  by (auto simp: tm_inv_def handle_task_insert_def)

lemma tm_reach_inv: "tm_reach m \<Longrightarrow> tm_inv m"
  by (induction rule: tm_reach.induct)
    (auto simp: tm_callback_finish_def intro: tm_inv_shutdown tm_inv_insert,
     auto simp: tm_inv_def TaskManager_new_def handle_task_start_def)

text \<open>What the next start takes up: the rows that are being downloaded.\<close>

definition resumed :: "codec \<Rightarrow> TorrentRow \<Rightarrow> (Torrent \<times> string) option" where
  "resumed c r = (if row_status r = status_code StDownload then Some (dec_torrent c (row_serial r), row_save_path r) else None)"

lemma list_rows_tasks:
  assumes "\<forall>r \<in> set rs. row_status r \<le> 3"
  shows "\<exists>es. list_rows c rs = Inr es \<and> map_result entity_task es = Inr (map (resumed c) rs)"
  using assms
proof (induction rs)
  case (Cons r rs)
  then obtain es where es: "list_rows c rs = Inr es" "map_result entity_task es = Inr (map (resumed c) rs)" by auto
  have "row_status r = 0 \<or> row_status r = 1 \<or> row_status r = 2 \<or> row_status r = 3" using Cons.prems by auto
  then obtain st where st: "TorrentStatus_try_from (row_status r) = Inr st" "row_status r = status_code st"
    by (metis status_code.simps status_roundtrip)
  have "entity_task (TorrentEntity_default\<lparr> te_serail := Some (dec_torrent c (row_serial r)), te_status := Some st,
      te_save_path := Some (row_save_path r) \<rparr>) = Inr (resumed c r)"
    using st(2) by (cases st) (simp_all add: entity_task_def resumed_def)
  then show ?case using es st(1) by simp
qed simp

lemma load_task_from_db_eq:
  assumes "\<forall>h \<in> set hs. \<exists>r. tab h = Some r \<and> row_status r \<le> 3"
  shows "load_task_from_db c hs tab = Inr (List.map_filter (\<lambda>h. resumed c (the (tab h))) hs)"
proof -
  have "\<forall>r \<in> set (map (\<lambda>h. the (tab h)) hs). row_status r \<le> 3" using assms by fastforce
  from list_rows_tasks [OF this, of c] show ?thesis
    by (auto simp: load_task_from_db_def list_torrent_def map_filter_def comp_def filter_map)
qed

section \<open>Properties\<close>

text \<open>
  C8. A new torrent that is added is started and is taken up again at the next start: the tasks the manager creates from the table, in
  whatever order the rows are read, include it with the same torrent and path, provided the binary column gives back what was
  written and the other rows have a valid status.
\<close>

theorem added_task_is_resumed:
  assumes "load_torrent ev (tk_source rq) (wd_rss w) = (Inr t, rss)" and "wd_torrents w (info_hash t) = None"
    and "dec_torrent (en_codec ev) (enc_torrent (en_codec ev) t) = t"
    and "\<forall>h r. wd_torrents w h = Some r \<longrightarrow> row_status r \<le> 3" and "set hs = insert (info_hash t) (dom (wd_torrents w))"
  shows "\<exists>w' xs. add_task ev rq w = (Inr True, w') \<and> wd_started w' = wd_started w @ [(t, task_save_path ev rq t)]
    \<and> load_task_from_db (en_codec ev) hs (wd_torrents w') = Inr xs \<and> (t, task_save_path ev rq t) \<in> set xs"
proof -
  let ?p = "task_save_path ev rq t"
  define tab where "tab = snd (add_torrent (en_codec ev) t ?p (wd_torrents w))"
  have a: "add_torrent (en_codec ev) t ?p (wd_torrents w) = (True, tab)" using assms(2) by (simp add: tab_def add_torrent_def)
  have row: "resumed (en_codec ev) (the (tab (info_hash t))) = Some (t, ?p)"
    using assms(2,3) by (simp add: tab_def add_torrent_def resumed_def)
  have "\<forall>h \<in> set hs. \<exists>r. tab h = Some r \<and> row_status r \<le> 3"
    using assms(2,4,5) by (auto simp: tab_def add_torrent_def)
  then have l: "load_task_from_db (en_codec ev) hs tab = Inr (List.map_filter (\<lambda>h. resumed (en_codec ev) (the (tab h))) hs)"
    by (rule load_task_from_db_eq)
  have "(t, ?p) \<in> set (List.map_filter (\<lambda>h. resumed (en_codec ev) (the (tab h))) hs)"
    using row assms(5) by (force simp: map_filter_def)
  then show ?thesis using l by (simp add: add_task_def assms(1) a)
qed

definition service_codec :: codec where
  "service_codec = \<lparr> enc_underway = (\<lambda>_. []), dec_underway = (\<lambda>_. []), enc_torrent = info_hash, dec_torrent = (\<lambda>_. sample_torrent) \<rparr>"

definition service_demo :: service_env where
  "service_demo = \<lparr> en_codec = service_codec, en_sha1 = take 20, en_file = (\<lambda>_. Inr sample_text), en_http = (\<lambda>_. Inr sample_text),
     en_magnet = (\<lambda>_. Inl (Err ''no peer'')), en_download_dir = ''d'' \<rparr>"

definition demo_world :: world where
  "demo_world = \<lparr> wd_torrents = Map.empty, wd_rss = \<lparr> rt_rss = [], rt_read = [] \<rparr>, wd_started = [] \<rparr>"

theorem added_task_is_resumed_witness:
  "\<exists>w' xs. add_task service_demo \<lparr> tk_name = None, tk_download_path = None, tk_source = LocalFile ''f'', tk_mkdir_torrent_name = Some True \<rparr> demo_world = (Inr True, w')
    \<and> load_task_from_db service_codec [info_hash sample_torrent] (wd_torrents w') = Inr xs \<and> (sample_torrent, ''d/n'') \<in> set xs"
proof -
  let ?rq = "\<lparr> tk_name = None, tk_download_path = None, tk_source = LocalFile ''f'', tk_mkdir_torrent_name = Some True \<rparr>"
  have l: "load_torrent service_demo (tk_source ?rq) (wd_rss demo_world) = (Inr sample_torrent, wd_rss demo_world)"
    by (simp add: service_demo_def load_torrent_from_local_file_def sample_parses)
  have p: "task_save_path service_demo ?rq sample_torrent = ''d/n''"
    by (simp add: task_save_path_def service_demo_def path_push_def sample_torrent_def)
  show ?thesis
    using added_task_is_resumed [OF l, of "[info_hash sample_torrent]"] unfolding p
    by (auto simp: demo_world_def service_demo_def service_codec_def)
qed

text \<open>
  A task that reports its end after it was registered is removed and shut down exactly once. A task that reports its end between its start and
  its registration is not found, and is registered afterwards as if it were running.
\<close>

theorem finished_task_is_removed:
  assumes "tm_reach m" and "i \<in> set (tm_running m)"
  shows "(i \<in> set (tm_tasks m) \<longrightarrow> i \<notin> set (tm_running (tm_callback_finish i m)) \<and> i \<notin> set (tm_tasks (tm_callback_finish i m))
      \<and> count_list (tm_shutdowns (tm_callback_finish i m)) i = 1)
    \<and> (i \<in> set (tm_starting m) \<longrightarrow> i \<in> set (tm_tasks (handle_task_insert i (tm_callback_finish i m))) \<and> i \<notin> set (tm_shutdowns (tm_callback_finish i m)))"
  using tm_reach_inv [OF assms(1)] assms(2)
  by (auto simp: tm_callback_finish_def shutdown_task_def handle_task_insert_def tm_inv_def count_list_0_iff)

theorem finished_task_is_removed_witness:
  "tm_shutdowns (tm_callback_finish 5 (handle_task_insert 5 (handle_task_start 5 TaskManager_new))) = [5]
    \<and> 5 \<notin> set (tm_tasks (tm_callback_finish 5 (handle_task_insert 5 (handle_task_start 5 TaskManager_new))))"
proof -
  have r: "tm_reach (handle_task_insert 5 (handle_task_start 5 TaskManager_new))"
    by (intro tm_insert tm_start tm_init) (simp_all add: TaskManager_new_def handle_task_start_def)
  show ?thesis
    using finished_task_is_removed [OF r, of 5]
    by (simp add: TaskManager_new_def handle_task_start_def handle_task_insert_def tm_callback_finish_def shutdown_task_def)
qed

end
