(* ===== verification/Rss.thy ===== *)
theory Rss
  imports Tasks Limits
begin

text \<open>
  Feeds (\<^verbatim>\<open>core/rss.rs\<close>): subscribing, reading the new entries of a feed as tasks, and the periodic refresh. The first part models what is done
  with the tables, one feed after the other; the second part models the refresh as it runs, feeds side by side, and follows the database connections
  it holds. There the refresh is the only user of the pool; other callers of \<^verbatim>\<open>get_conn\<close> can only take more connections away. Fetching and parsing a feed are arguments.
\<close>

section \<open>Feeds\<close>

record rss_item =
  it_title :: "string option"
  it_guid :: "string option"
  it_enclosure :: "string option"

record channel =
  ch_title :: string
  ch_items :: "rss_item list"

record rss_env =
  re_service :: service_env
  re_channel :: "string \<Rightarrow> (channel \<times> bytes) result"
  re_hash :: "bytes \<Rightarrow> string"
  re_now :: nat

definition item_task :: "nat \<Rightarrow> string option \<Rightarrow> string option \<Rightarrow> string \<Rightarrow> string \<Rightarrow> TaskRequest" where
  "item_task i path title guid url = \<lparr> tk_name = title, tk_download_path = path, tk_source = RSSFeed i guid url, tk_mkdir_torrent_name = Some False \<rparr>"

fun add_items :: "service_env \<Rightarrow> nat \<Rightarrow> string option \<Rightarrow> string set \<Rightarrow> rss_item list \<Rightarrow> world \<Rightarrow> unit result \<times> world" where
  "add_items ev i path seen [] w = (Inr (), w)"
| "add_items ev i path seen (it # its) w =
     (case (it_guid it, it_enclosure it) of
        (Some g, Some u) \<Rightarrow>
          if g \<in> seen then add_items ev i path seen its w
          else
            (case add_task ev (item_task i path (it_title it) g u) w of
               (Inl e, w) \<Rightarrow> (Inl e, w)
             | (Inr _, w) \<Rightarrow> add_items ev i path seen its w)
      | _ \<Rightarrow> add_items ev i path seen its w)"

definition consumer_not_read :: "rss_env \<Rightarrow> string \<Rightarrow> channel \<Rightarrow> world \<Rightarrow> unit result \<times> world" where
  "consumer_not_read ev url ch w =
     (case get_rss_by_url url (wd_rss w) of
        None \<Rightarrow> (Inl (Err ''not found subscribe by url''), w)
      | Some e \<Rightarrow> add_items (re_service ev) (rs_id e) (rs_save_path e) (set (list_mark_read_guid url (wd_rss w))) (ch_items ch) w)"

text \<open>\<open>i\<close> is the number the database gives the new row.\<close>

definition subscribe :: "rss_env \<Rightarrow> nat \<Rightarrow> string \<Rightarrow> string option \<Rightarrow> string option \<Rightarrow> world \<Rightarrow> bool result \<times> world" where
  "subscribe ev i url title path w =
     (case re_channel ev url of
        Inl e \<Rightarrow> (Inl e, w)
      | Inr (ch, body) \<Rightarrow>
          (let e = \<lparr> rs_id = i, rs_title = (case title of None \<Rightarrow> ch_title ch | Some t \<Rightarrow> t), rs_url = url, rs_hash = re_hash ev body,
                     rs_last_update = re_now ev, rs_save_path = path \<rparr>
           in case rss_add_subscribe e (wd_rss w) of
                (False, t) \<Rightarrow> (Inr False, w\<lparr> wd_rss := t \<rparr>)
              | (True, t) \<Rightarrow>
                  (case consumer_not_read ev url ch (w\<lparr> wd_rss := t \<rparr>) of
                     (Inl err, w) \<Rightarrow> (Inl err, w)
                   | (Inr _, w) \<Rightarrow> (Inr True, w))))"

definition flush_feed :: "rss_env \<Rightarrow> RSSEntity \<Rightarrow> world \<Rightarrow> unit result \<times> world" where
  "flush_feed ev e w =
     (case re_channel ev (rs_url e) of
        Inl err \<Rightarrow> (Inl err, w)
      | Inr (ch, body) \<Rightarrow>
          (let hash = re_hash ev body in
           if hash \<noteq> rs_hash e then
             consumer_not_read ev (rs_url e) ch (w\<lparr> wd_rss := snd (update_subscribe (rs_id e) (re_now ev) hash (wd_rss w)) \<rparr>)
           else (Inr (), w)))"

definition RSS_REFRESH_INTERVAL :: nat where "RSS_REFRESH_INTERVAL = 15 * 60"

text \<open>\<^verbatim>\<open>flush_all_feeds\<close>, its tasks run one after the other; a feed that fails does not stop the others.\<close>

definition flush_all_feeds :: "rss_env \<Rightarrow> world \<Rightarrow> world" where
  "flush_all_feeds ev w =
     fold (\<lambda>e w. snd (flush_feed ev e w)) (list_subscribe_not_update (sub64 (re_now ev) RSS_REFRESH_INTERVAL) (wd_rss w)) w"

section \<open>The connections of a refresh\<close>

text \<open>
  \<^verbatim>\<open>flush_all_feeds\<close> keeps its own connection until all feeds are done. A feed whose content has changed takes a connection and keeps it while its entries
  are added, which takes another connection \<open>k\<close> more times. \<open>Want\<close> is the place where it waits for that one. A step may fail and end the feed.
\<close>

definition DATABASE_CONN_LIMIT :: nat where "DATABASE_CONN_LIMIT = 10"
definition rss_refresh_concurrency :: nat where "rss_refresh_concurrency = 10"

datatype feed_phase = Fetching nat | WantFirst nat | Work nat | Want nat | Nested nat | FeedDone

record refresh =
  rf_permits :: nat
  rf_queue :: "nat list"
  rf_feeds :: "feed_phase list"
  rf_main :: bool

definition refresh_init :: "nat \<Rightarrow> nat list \<Rightarrow> refresh" where
  "refresh_init limit ks = \<lparr> rf_permits = limit - 1, rf_queue = ks, rf_feeds = [], rf_main = True \<rparr>"

definition feed_to :: "nat \<Rightarrow> feed_phase \<Rightarrow> refresh \<Rightarrow> refresh" where
  "feed_to i p s = s\<lparr> rf_feeds := (rf_feeds s)[i := p] \<rparr>"

inductive refresh_step :: "nat \<Rightarrow> refresh \<Rightarrow> refresh \<Rightarrow> bool" for conc where
  rf_spawn: "\<lbrakk> rf_queue s = k # ks; length (filter (\<lambda>p. p \<noteq> FeedDone) (rf_feeds s)) < conc \<rbrakk>
    \<Longrightarrow> refresh_step conc s (s\<lparr> rf_queue := ks, rf_feeds := rf_feeds s @ [Fetching k] \<rparr>)"
| rf_unchanged: "\<lbrakk> i < length (rf_feeds s); rf_feeds s ! i = Fetching k \<rbrakk> \<Longrightarrow> refresh_step conc s (feed_to i FeedDone s)"
| rf_changed: "\<lbrakk> i < length (rf_feeds s); rf_feeds s ! i = Fetching k \<rbrakk> \<Longrightarrow> refresh_step conc s (feed_to i (WantFirst k) s)"
| rf_first: "\<lbrakk> i < length (rf_feeds s); rf_feeds s ! i = WantFirst k; 0 < rf_permits s \<rbrakk>
    \<Longrightarrow> refresh_step conc s (feed_to i (Work k) (s\<lparr> rf_permits := rf_permits s - 1 \<rparr>))"
| rf_want: "\<lbrakk> i < length (rf_feeds s); rf_feeds s ! i = Work (Suc k) \<rbrakk> \<Longrightarrow> refresh_step conc s (feed_to i (Want k) s)"
| rf_end: "\<lbrakk> i < length (rf_feeds s); rf_feeds s ! i = Work k \<rbrakk>
    \<Longrightarrow> refresh_step conc s (feed_to i FeedDone (s\<lparr> rf_permits := rf_permits s + 1 \<rparr>))"
| rf_nested: "\<lbrakk> i < length (rf_feeds s); rf_feeds s ! i = Want k; 0 < rf_permits s \<rbrakk>
    \<Longrightarrow> refresh_step conc s (feed_to i (Nested k) (s\<lparr> rf_permits := rf_permits s - 1 \<rparr>))"
| rf_release: "\<lbrakk> i < length (rf_feeds s); rf_feeds s ! i = Nested k \<rbrakk>
    \<Longrightarrow> refresh_step conc s (feed_to i (Work k) (s\<lparr> rf_permits := rf_permits s + 1 \<rparr>))"
| rf_failed: "\<lbrakk> i < length (rf_feeds s); rf_feeds s ! i = Nested k \<rbrakk>
    \<Longrightarrow> refresh_step conc s (feed_to i FeedDone (s\<lparr> rf_permits := rf_permits s + 2 \<rparr>))"
| rf_finish: "\<lbrakk> rf_main s; rf_queue s = []; \<forall>p \<in> set (rf_feeds s). p = FeedDone \<rbrakk>
    \<Longrightarrow> refresh_step conc s (s\<lparr> rf_main := False, rf_permits := rf_permits s + 1 \<rparr>)"

section \<open>Entries are added once\<close>

lemma add_task_reads:
  assumes "add_task ev (item_task i path title g u) w = (r, w')"
  shows "rt_rss (wd_rss w') = rt_rss (wd_rss w)" "set (rt_read (wd_rss w)) \<subseteq> set (rt_read (wd_rss w'))"
    "r = Inr b \<Longrightarrow> (i, g) \<in> set (rt_read (wd_rss w'))"
proof -
  obtain x t where t: "load_torrent_from_rss_feed ev i g u (wd_rss w) = (x, t)" by (cases "load_torrent_from_rss_feed ev i g u (wd_rss w)")
  have w': "wd_rss w' = t" "r = Inr b \<Longrightarrow> \<exists>y. x = Inr y" for b
    using assms t by (auto simp: add_task_def item_task_def Let_def split: sum.splits prod.splits)
  obtain m t' where m: "mark_read i g (wd_rss w) = (m, t')" by (cases "mark_read i g (wd_rss w)")
  have "t = wd_rss w \<or> t = t'" "x = Inr y \<Longrightarrow> t = t' \<and> (\<exists>b. m = Inr b)" for y
    using t m by (auto simp: load_torrent_from_rss_feed_def split: sum.splits prod.splits)
  moreover have "rt_rss t' = rt_rss (wd_rss w)" using mark_read_rows [of i g "wd_rss w"] m by simp
  ultimately show "rt_rss (wd_rss w') = rt_rss (wd_rss w)" "set (rt_read (wd_rss w)) \<subseteq> set (rt_read (wd_rss w'))"
    "r = Inr b \<Longrightarrow> (i, g) \<in> set (rt_read (wd_rss w'))"
    using w' mark_read_reads m by fastforce+
qed

definition item_seen :: "nat \<Rightarrow> string set \<Rightarrow> rss_tables \<Rightarrow> rss_item \<Rightarrow> bool" where
  "item_seen i seen t it \<longleftrightarrow> (case (it_guid it, it_enclosure it) of (Some g, Some u) \<Rightarrow> g \<in> seen \<or> (i, g) \<in> set (rt_read t) | _ \<Rightarrow> True)"

lemma item_seen_more: "item_seen i seen t it \<Longrightarrow> seen \<subseteq> seen' \<Longrightarrow> item_seen i seen' t it"
  by (auto simp: item_seen_def split: option.splits)

lemma add_items_seen:
  "add_items ev i path seen its w = (r, w') \<Longrightarrow>
     rt_rss (wd_rss w') = rt_rss (wd_rss w) \<and> set (rt_read (wd_rss w)) \<subseteq> set (rt_read (wd_rss w'))
     \<and> (r = Inr () \<longrightarrow> list_all (item_seen i seen (wd_rss w')) its)"
proof (induction its arbitrary: w)
  case (Cons it its)
  show ?case
  proof (cases "\<exists>g u. it_guid it = Some g \<and> it_enclosure it = Some u \<and> g \<notin> seen")
    case True
    then obtain g u where g: "it_guid it = Some g" "it_enclosure it = Some u" "g \<notin> seen" by blast
    obtain x w1 where a: "add_task ev (item_task i path (it_title it) g u) w = (x, w1)" by (cases "add_task ev (item_task i path (it_title it) g u) w")
    note r = add_task_reads [OF a]
    show ?thesis
    proof (cases x)
      case (Inl e)
      then show ?thesis using Cons.prems g a r(1,2) by auto
    next
      case (Inr b)
      then have "add_items ev i path seen its w1 = (r, w')" using Cons.prems g a by simp
      from Cons.IH [OF this] show ?thesis using r(1,2) r(3) [OF Inr] g by (auto simp: item_seen_def)
    qed
  next
    case False
    then have s: "item_seen i seen t it" for t by (auto simp: item_seen_def split: option.splits)
    have "add_items ev i path seen its w = (r, w')" using Cons.prems False by (auto split: option.splits)
    from Cons.IH [OF this] show ?thesis using s by simp
  qed
qed simp

lemma add_items_all_seen: "list_all (item_seen i seen t) its \<Longrightarrow> (\<And>g. (i, g) \<in> set (rt_read t) \<Longrightarrow> g \<in> seen) \<Longrightarrow> add_items ev i path seen its w = (Inr (), w)"
  by (induction its) (auto simp: item_seen_def split: option.splits)

lemma list_mark_read_set:
  "get_rss_by_url url t = Some e \<Longrightarrow> set (list_mark_read_guid url t) = {g. (rs_id e, g) \<in> set (rt_read t)}"
  by (force simp: list_mark_read_guid_def)

lemma consumer_again:
  assumes "consumer_not_read ev url ch w = (Inr (), w')"
  shows "consumer_not_read ev' url ch w' = (Inr (), w')"
proof -
  obtain e where e: "get_rss_by_url url (wd_rss w) = Some e"
    using assms by (auto simp: consumer_not_read_def split: option.splits)
  let ?S = "\<lambda>t. set (list_mark_read_guid url t)"
  have "add_items (re_service ev) (rs_id e) (rs_save_path e) (?S (wd_rss w)) (ch_items ch) w = (Inr (), w')"
    using assms e by (simp add: consumer_not_read_def)
  from add_items_seen [OF this] have r: "rt_rss (wd_rss w') = rt_rss (wd_rss w)" "set (rt_read (wd_rss w)) \<subseteq> set (rt_read (wd_rss w'))"
    "list_all (item_seen (rs_id e) (?S (wd_rss w)) (wd_rss w')) (ch_items ch)" by auto
  have e': "get_rss_by_url url (wd_rss w') = Some e" using e r(1) by (simp add: get_rss_by_url_def)
  note S = list_mark_read_set [OF e] list_mark_read_set [OF e']
  have "list_all (item_seen (rs_id e) (?S (wd_rss w')) (wd_rss w')) (ch_items ch)"
    using r(2,3) item_seen_more [of "rs_id e" "?S (wd_rss w)" "wd_rss w'" _ "?S (wd_rss w')"] unfolding S by (auto simp: list_all_iff)
  from add_items_all_seen [OF this] show ?thesis by (simp add: consumer_not_read_def e' S(2))
qed

lemma consumer_rows: "consumer_not_read ev url ch w = (r, w') \<Longrightarrow> rt_rss (wd_rss w') = rt_rss (wd_rss w)"
  by (auto simp: consumer_not_read_def dest: add_items_seen split: option.splits)

section \<open>Connections\<close>

fun holds :: "feed_phase \<Rightarrow> nat" where
  "holds (Work k) = 1"
| "holds (Want k) = 1"
| "holds (Nested k) = 2"
| "holds _ = 0"

text \<open>No feed is working and one waits for a second connection while none is free.\<close>

definition hung :: "refresh \<Rightarrow> bool" where
  "hung s \<longleftrightarrow> rf_main s \<and> rf_permits s = 0 \<and> (\<exists>k. Want k \<in> set (rf_feeds s))
     \<and> list_all (\<lambda>p. case p of Work _ \<Rightarrow> False | Nested _ \<Rightarrow> False | _ \<Rightarrow> True) (rf_feeds s)"

lemma want_stays:
  assumes "Want k \<in> set xs" and "i < length xs" and "xs ! i = p" and "\<forall>k. p \<noteq> Want k"
  shows "Want k \<in> set (xs[i := q])"
proof -
  obtain j where j: "j < length xs" "xs ! j = Want k" using assms(1) by (auto simp: in_set_conv_nth)
  then have "i \<noteq> j" using assms(3,4) by metis
  then have "xs[i := q] ! j = Want k" using j(2) by simp
  then show ?thesis using j(1) by (metis length_list_update nth_mem)
qed

lemma list_all_update: "list_all P xs \<Longrightarrow> P q \<Longrightarrow> list_all P (xs[i := q])"
  using set_update_subset_insert [of xs i q] by (auto simp: list_all_iff)

lemma hung_step: "refresh_step conc s s' \<Longrightarrow> hung s \<Longrightarrow> hung s'"
proof (induction rule: refresh_step.induct)
  case (rf_unchanged i s k)
  then show ?case by (auto simp: hung_def feed_to_def intro: list_all_update dest: want_stays)
next
  case (rf_changed i s k)
  then show ?case by (auto simp: hung_def feed_to_def intro: list_all_update dest: want_stays)
next
  case (rf_want i s k)
  then show ?case by (auto simp: hung_def list_all_length)
next
  case (rf_end i s k)
  then show ?case by (auto simp: hung_def list_all_length)
next
  case (rf_release i s k)
  then show ?case by (auto simp: hung_def list_all_length)
next
  case (rf_failed i s k)
  then show ?case by (auto simp: hung_def list_all_length)
next
  case (rf_finish s)
  then show ?case by (auto simp: hung_def)
qed (auto simp: hung_def)

lemma hung_for_ever: "(refresh_step conc)\<^sup>*\<^sup>* s s' \<Longrightarrow> hung s \<Longrightarrow> hung s'"
  by (induction rule: rtranclp_induct) (auto intro: hung_step)

lemma reach_waiting:
  assumes "j \<le> length ks" and "j \<le> conc" and "j < limit" and "\<forall>k \<in> set ks. 0 < k"
  shows "(refresh_step conc)\<^sup>*\<^sup>* (refresh_init limit ks)
    \<lparr> rf_permits = limit - 1 - j, rf_queue = drop j ks, rf_feeds = map (\<lambda>k. Want (k - 1)) (take j ks), rf_main = True \<rparr>"
  using assms(1-3)
proof (induction j)
  case 0
  then show ?case by (simp add: refresh_init_def)
next
  case (Suc j)
  define fs where "fs = map (\<lambda>k. Want (k - 1)) (take j ks)"
  define st where "st = (\<lambda>n q f. \<lparr> rf_permits = n, rf_queue = q, rf_feeds = fs @ f, rf_main = True \<rparr>)"
  have jl: "j < length ks" using Suc.prems by simp
  have len: "length fs = j" using jl by (simp add: fs_def)
  obtain k where k: "ks ! j = Suc k" using assms(4) jl by (metis Suc_pred nth_mem)
  have "filter (\<lambda>p. p \<noteq> FeedDone) fs = fs" by (simp add: fs_def)
  then have a: "refresh_step conc (st (limit - 1 - j) (drop j ks) []) (st (limit - 1 - j) (drop (Suc j) ks) [Fetching (Suc k)])"
    using rf_spawn [of "st (limit - 1 - j) (drop j ks) []" "Suc k" "drop (Suc j) ks" conc] Suc.prems jl k len
    by (simp add: st_def Cons_nth_drop_Suc [symmetric])
  have b: "refresh_step conc (st n q [Fetching (Suc k)]) (st n q [WantFirst (Suc k)])" for n q
    using rf_changed [of j "st n q [Fetching (Suc k)]" "Suc k" conc] len by (simp add: st_def feed_to_def list_update_append nth_append)
  have c: "refresh_step conc (st (limit - 1 - j) q [WantFirst (Suc k)]) (st (limit - 1 - Suc j) q [Work (Suc k)])" for q
    using rf_first [of j "st (limit - 1 - j) q [WantFirst (Suc k)]" "Suc k" conc] len Suc.prems(3)
    by (simp add: st_def feed_to_def list_update_append nth_append)
  have d: "refresh_step conc (st n q [Work (Suc k)]) (st n q [Want k])" for n q
    using rf_want [of j "st n q [Work (Suc k)]" k conc] len by (simp add: st_def feed_to_def list_update_append nth_append)
  have "(refresh_step conc)\<^sup>*\<^sup>* (refresh_init limit ks) (st (limit - 1 - j) (drop j ks) [])"
    using Suc by (simp add: st_def fs_def)
  also have "(refresh_step conc)\<^sup>*\<^sup>* \<dots> (st (limit - 1 - Suc j) (drop (Suc j) ks) [Want k])"
    using a b c d by (meson converse_rtranclp_into_rtranclp r_into_rtranclp)
  finally show ?case using k jl by (simp add: st_def fs_def take_Suc_conv_app_nth)
qed

definition busy :: "feed_phase \<Rightarrow> nat" where
  "busy p = (if p = FeedDone then 0 else 1)"

lemma length_filter_busy: "length (filter (\<lambda>p. p \<noteq> FeedDone) xs) = sum_list (map busy xs)"
  by (induction xs) (auto simp: busy_def)

definition rf_inv :: "nat \<Rightarrow> nat \<Rightarrow> refresh \<Rightarrow> bool" where
  "rf_inv limit conc s \<longleftrightarrow> rf_permits s + (if rf_main s then 1 else 0) + sum_list (map holds (rf_feeds s)) = limit
     \<and> sum_list (map busy (rf_feeds s)) \<le> conc"

lemma nth_le_sum: "i < length xs \<Longrightarrow> f (xs ! i) \<le> sum_list (map f xs)" for f :: "'a \<Rightarrow> nat"
  by (metis elem_le_sum_list length_map nth_map)

lemma sum_update: "i < length xs \<Longrightarrow> sum_list (map f (xs[i := p])) = sum_list (map f xs) + f p - f (xs ! i)" for f :: "'a \<Rightarrow> nat"
  by (simp add: map_update sum_list_update)

lemma rf_inv_feed:
  assumes "rf_inv limit conc s" and "i < length (rf_feeds s)" and "n + holds p = rf_permits s + holds (rf_feeds s ! i)" and "busy p \<le> busy (rf_feeds s ! i)"
  shows "rf_inv limit conc (feed_to i p (s\<lparr> rf_permits := n \<rparr>))"
  using assms nth_le_sum [OF assms(2), of holds] nth_le_sum [OF assms(2), of busy]
  by (cases "rf_main s") (auto simp: rf_inv_def feed_to_def sum_update)

lemma rf_inv_step: "refresh_step conc s s' \<Longrightarrow> rf_inv limit conc s \<Longrightarrow> rf_inv limit conc s'"
proof (induction rule: refresh_step.induct)
  case (rf_spawn s k ks)
  then show ?case by (simp add: rf_inv_def length_filter_busy busy_def)
next
  case (rf_unchanged i s k)
  then show ?case using rf_inv_feed [of limit conc s i "rf_permits s" FeedDone] by (simp add: busy_def feed_to_def)
next
  case (rf_changed i s k)
  then show ?case using rf_inv_feed [of limit conc s i "rf_permits s" "WantFirst k"] by (simp add: busy_def feed_to_def)
next
  case (rf_want i s k)
  then show ?case using rf_inv_feed [of limit conc s i "rf_permits s" "Want k"] by (simp add: busy_def feed_to_def)
next
  case (rf_finish s)
  then show ?case by (simp add: rf_inv_def)
qed (auto intro: rf_inv_feed simp: busy_def)

lemma refresh_progress:
  assumes "rf_inv limit conc s" and "rf_main s" and "conc + 2 \<le> limit" and "0 < conc"
  shows "\<exists>s'. refresh_step conc s s'"
proof (cases "list_all (\<lambda>p. p = FeedDone) (rf_feeds s)")
  case True
  then have "filter (\<lambda>p. p \<noteq> FeedDone) (rf_feeds s) = []" by (induction "rf_feeds s" arbitrary: s) (auto simp: filter_empty_conv list_all_iff)
  then show ?thesis using assms(2,4) True rf_spawn [of s _ _ conc] rf_finish [of s conc]
    by (cases "rf_queue s") (auto simp: list_all_iff)
next
  case False
  then obtain i where i: "i < length (rf_feeds s)" "rf_feeds s ! i \<noteq> FeedDone" by (auto simp: list_all_length)
  show ?thesis
  proof (cases "\<exists>j < length (rf_feeds s). \<exists>k. rf_feeds s ! j \<in> {Fetching k, Work k, Nested k}")
    case True
    then show ?thesis using rf_unchanged rf_end rf_release by blast
  next
    case False
    have "holds p \<le> busy p" if p: "p \<in> set (rf_feeds s)" for p
    proof -
      obtain j where "j < length (rf_feeds s)" "rf_feeds s ! j = p" using p by (auto simp: in_set_conv_nth)
      then have "\<forall>k. p \<notin> {Fetching k, Work k, Nested k}" using False by blast
      then show ?thesis by (cases p) (auto simp: busy_def)
    qed
    then have "sum_list (map holds (rf_feeds s)) \<le> sum_list (map busy (rf_feeds s))" by (rule sum_list_mono)
    then have "0 < rf_permits s" using assms(1-3) by (simp add: rf_inv_def)
    moreover have "\<exists>k. rf_feeds s ! i \<in> {WantFirst k, Want k}" using i False by (cases "rf_feeds s ! i") blast+
    ultimately show ?thesis using i(1) rf_first rf_nested by blast
  qed
qed

lemma refresh_reach_inv:
  assumes "(refresh_step conc)\<^sup>*\<^sup>* (refresh_init limit ks) s" and "0 < limit"
  shows "rf_inv limit conc s"
  using assms(1)
proof (induction rule: rtranclp_induct)
  case base
  then show ?case using assms(2) by (simp add: rf_inv_def refresh_init_def)
qed (rule rf_inv_step)

section \<open>Properties\<close>

text \<open>
  C29. The entries of a feed are added once: when all entries of a feed have been added without an error, reading the same feed again
  changes nothing, whatever the files and requests yield then.
\<close>

theorem feed_entries_added_once:
  assumes "consumer_not_read ev url ch w = (Inr (), w')"
  shows "consumer_not_read ev' url ch w' = (Inr (), w')"
  using assms by (rule consumer_again)

definition demo_channel :: channel where
  "demo_channel = \<lparr> ch_title = ''t'', ch_items = [\<lparr> it_title = None, it_guid = Some ''g'', it_enclosure = Some ''u'' \<rparr>] \<rparr>"

definition demo_feed :: RSSEntity where
  "demo_feed = \<lparr> rs_id = 1, rs_title = ''t'', rs_url = ''f'', rs_hash = ''old'', rs_last_update = 0, rs_save_path = None \<rparr>"

definition feed_world :: "string list \<Rightarrow> world" where
  "feed_world read = demo_world\<lparr> wd_rss := \<lparr> rt_rss = [demo_feed], rt_read = map (\<lambda>g. (1, g)) read \<rparr> \<rparr>"

definition feed_env :: "bytes result \<Rightarrow> rss_env" where
  "feed_env http = \<lparr> re_service = service_demo\<lparr> en_http := (\<lambda>_. http) \<rparr>, re_channel = (\<lambda>_. Inr (demo_channel, [])), re_hash = (\<lambda>_. ''new''), re_now = 5000 \<rparr>"

theorem feed_entries_added_once_witness:
  "\<exists>w'. consumer_not_read (feed_env (Inr sample_text)) ''f'' demo_channel (feed_world []) = (Inr (), w')
    \<and> wd_started w' = [(sample_torrent, ''d'')] \<and> consumer_not_read (feed_env (Inl (Err ''down''))) ''f'' demo_channel w' = (Inr (), w')"
proof -
  have "\<exists>w'. consumer_not_read (feed_env (Inr sample_text)) ''f'' demo_channel (feed_world []) = (Inr (), w') \<and> wd_started w' = [(sample_torrent, ''d'')]"
    by (simp add: consumer_not_read_def feed_world_def demo_world_def demo_feed_def get_rss_by_url_def list_mark_read_guid_def demo_channel_def feed_env_def
        service_demo_def item_task_def add_task_def load_torrent_from_rss_feed_def sample_parses mark_read_def task_save_path_def add_torrent_def Let_def)
  then show ?thesis using feed_entries_added_once by blast
qed

text \<open>
  When adding the entries of a changed feed fails, the rest of its entries is forgotten: the new hash was stored first, so the next refresh finds
  the feed unchanged and adds nothing, as long as its content stays the same.
\<close>

theorem failed_feed_is_not_retried:
  assumes "flush_feed ev e w = (Inl err, w')" and "re_channel ev (rs_url e) = Inr (ch, body)"
    and "e' \<in> set (rt_rss (wd_rss w'))" and "rs_id e' = rs_id e"
    and "re_channel ev' (rs_url e') = Inr (ch', body)" and "re_hash ev' = re_hash ev"
  shows "flush_feed ev' e' w'' = (Inr (), w'')"
proof -
  let ?u = "snd (update_subscribe (rs_id e) (re_now ev) (re_hash ev body) (wd_rss w))"
  have "consumer_not_read ev (rs_url e) ch (w\<lparr> wd_rss := ?u \<rparr>) = (Inl err, w')"
    using assms(1,2) by (simp add: flush_feed_def Let_def split: if_splits)
  from consumer_rows [OF this] assms(3) have "e' \<in> set (rt_rss ?u)" by simp
  then have "rs_hash e' = re_hash ev body" using assms(4) by (auto simp: update_subscribe_def split: if_splits)
  then show ?thesis using assms(5,6) by (simp add: flush_feed_def)
qed

theorem failed_feed_is_not_retried_witness:
  "\<exists>w'. flush_feed (feed_env (Inl (Err ''down''))) demo_feed (feed_world []) = (Inl (Err ''down''), w')
    \<and> flush_feed (feed_env (Inr sample_text)) (demo_feed\<lparr> rs_hash := ''new'', rs_last_update := 5000 \<rparr>) w' = (Inr (), w') \<and> wd_started w' = []"
proof -
  let ?e = "demo_feed\<lparr> rs_hash := ''new'', rs_last_update := 5000 \<rparr>"
  have "\<exists>w'. flush_feed (feed_env (Inl (Err ''down''))) demo_feed (feed_world []) = (Inl (Err ''down''), w')
      \<and> rt_rss (wd_rss w') = [?e] \<and> wd_started w' = []"
    by (simp add: flush_feed_def feed_env_def demo_feed_def feed_world_def update_subscribe_def consumer_not_read_def get_rss_by_url_def
        list_mark_read_guid_def demo_channel_def demo_world_def service_demo_def item_task_def add_task_def load_torrent_from_rss_feed_def)
  then obtain w' where w': "flush_feed (feed_env (Inl (Err ''down''))) demo_feed (feed_world []) = (Inl (Err ''down''), w')"
    "rt_rss (wd_rss w') = [?e]" "wd_started w' = []" by blast
  then show ?thesis using failed_feed_is_not_retried [OF w'(1), of demo_channel "[]" ?e "feed_env (Inr sample_text)" demo_channel w']
    by (simp add: feed_env_def demo_feed_def)
qed

text \<open>
  C28. The refresh never runs out of connections when the pool has at least two more than feeds are refreshed side by side; with the
  limits of the code, ten and ten, nine changed feeds can hang it for ever: every connection is held by a feed that waits for another one.
\<close>

theorem refresh_needs_spare_connections:
  assumes "(refresh_step conc)\<^sup>*\<^sup>* (refresh_init limit ks) s" and "0 < conc" and "conc + 2 \<le> limit" and "rf_main s"
    and "\<forall>k \<in> set ks'. 0 < k" and "9 \<le> length ks'"
  shows "(\<exists>s'. refresh_step conc s s')
    \<and> (\<exists>u. (refresh_step rss_refresh_concurrency)\<^sup>*\<^sup>* (refresh_init DATABASE_CONN_LIMIT ks') u
         \<and> (\<forall>v. (refresh_step rss_refresh_concurrency)\<^sup>*\<^sup>* u v \<longrightarrow> rf_main v \<and> rf_permits v = 0))"
proof
  have "0 < limit" using assms(3) by simp
  from refresh_reach_inv [OF assms(1) this] show "\<exists>s'. refresh_step conc s s'" using refresh_progress assms(2-4) by blast
  let ?u = "\<lparr> rf_permits = 0, rf_queue = drop 9 ks', rf_feeds = map (\<lambda>k. Want (k - 1)) (take 9 ks'), rf_main = True \<rparr>"
  have "(refresh_step rss_refresh_concurrency)\<^sup>*\<^sup>* (refresh_init DATABASE_CONN_LIMIT ks') ?u"
    using reach_waiting [of 9 ks' rss_refresh_concurrency DATABASE_CONN_LIMIT] assms(5,6) by (simp add: rss_refresh_concurrency_def DATABASE_CONN_LIMIT_def)
  moreover have "hung ?u" using assms(6) by (cases ks') (auto simp: hung_def list_all_iff)
  then have "\<forall>v. (refresh_step rss_refresh_concurrency)\<^sup>*\<^sup>* ?u v \<longrightarrow> rf_main v \<and> rf_permits v = 0"
    using hung_for_ever unfolding hung_def by blast
  ultimately show "\<exists>u. (refresh_step rss_refresh_concurrency)\<^sup>*\<^sup>* (refresh_init DATABASE_CONN_LIMIT ks') u
      \<and> (\<forall>v. (refresh_step rss_refresh_concurrency)\<^sup>*\<^sup>* u v \<longrightarrow> rf_main v \<and> rf_permits v = 0)" by blast
qed

theorem refresh_needs_spare_connections_witness:
  "(\<exists>s'. refresh_step 8 (refresh_init 10 [1, 1]) s')
    \<and> (\<exists>u. (refresh_step rss_refresh_concurrency)\<^sup>*\<^sup>* (refresh_init DATABASE_CONN_LIMIT [1, 1, 1, 1, 1, 1, 1, 1, 1]) u \<and> rf_permits u = 0)"
proof -
  have "rf_main (refresh_init 10 [1, 1])" by (simp add: refresh_init_def)
  from refresh_needs_spare_connections [OF rtranclp.rtrancl_refl _ _ this, of 8 "[1, 1, 1, 1, 1, 1, 1, 1, 1]"]
  show ?thesis by auto
qed

end
