(* ===== verification/Remote_Control.thy ===== *)
theory Remote_Control
  imports Peer_Wire
begin

text \<open>
  The remote control: incoming connections of the TCP server (\<^verbatim>\<open>core/tcp_server.rs\<close>, \<^verbatim>\<open>core/tcp_server/future.rs\<close>), the handshake with its
  authentication (\<^verbatim>\<open>core/protocol/remote_control.rs\<close>), the requests and responses of a controller (\<^verbatim>\<open>core/control.rs\<close>,
  \<^verbatim>\<open>core/control/request_parse.rs\<close>) and the table of handlers (\<^verbatim>\<open>core/router.rs\<close>). JSON and the handlers themselves are
  arguments; a handler works on the state of the client, of any type.
\<close>

section \<open>Which protocol a connection speaks\<close>

definition BIT_TORRENT_PAYLOAD_LEN :: nat where "BIT_TORRENT_PAYLOAD_LEN = 48"
definition REMOTE_CONTROL_PROTOCOL :: bytes where "REMOTE_CONTROL_PROTOCOL = ascii ''Remote control protocol''"
definition REMOTE_CONTROL_PAYLOAD_LEN :: nat where "REMOTE_CONTROL_PAYLOAD_LEN = 0"
definition PROTOCOL_SIZE :: nat where "PROTOCOL_SIZE = 1"

datatype Identifier = BitTorrent | RemoteControl

datatype Protocol = Protocol Identifier bytes

definition parse_protocol :: "bytes \<Rightarrow> (Identifier \<times> nat) option" where
  "parse_protocol p =
     (if p = BIT_TORRENT_PROTOCOL then Some (BitTorrent, BIT_TORRENT_PAYLOAD_LEN)
      else if p = REMOTE_CONTROL_PROTOCOL then Some (RemoteControl, REMOTE_CONTROL_PAYLOAD_LEN)
      else None)"

datatype AcceptState = AProtocolLen | AProtocol | AParseProtocol | AFinished

record Accept =
  ac_cap :: nat
  ac_buf :: bytes
  ac_state :: AcceptState
  ac_protocol_id :: "Identifier option"

definition Accept_new :: Accept where
  "Accept_new = \<lparr> ac_cap = PROTOCOL_SIZE, ac_buf = [], ac_state = AProtocolLen, ac_protocol_id = None \<rparr>"

function Accept_poll :: "Accept \<Rightarrow> stream \<Rightarrow> Protocol result poll \<times> Accept \<times> stream" where
  "Accept_poll a evs =
     (case reader_poll (ac_cap a) (ac_buf a) evs of
        (Pending, b, r) \<Rightarrow> (Pending, a\<lparr> ac_buf := b \<rparr>, r)
      | (Ready (Inl e), b, r) \<Rightarrow> (Ready (Inl e), a\<lparr> ac_buf := b \<rparr>, r)
      | (Ready (Inr buf), b, r) \<Rightarrow>
          (case ac_state a of
             AProtocolLen \<Rightarrow>
               if buf = [] then (Ready (Inl (Panic ''index out of bounds'')), a, r)
               else Accept_poll (a\<lparr> ac_cap := unat (hd buf), ac_buf := [], ac_state := AProtocol \<rparr>) r
           | AProtocol \<Rightarrow>
               (case parse_protocol buf of
                  Some (pid, n) \<Rightarrow> Accept_poll (a\<lparr> ac_cap := n, ac_buf := [], ac_state := AParseProtocol, ac_protocol_id := Some pid \<rparr>) r
                | None \<Rightarrow> (Ready (Inl (Err ''unknown protocol'')), a\<lparr> ac_buf := b, ac_state := AParseProtocol \<rparr>, r))
           | AParseProtocol \<Rightarrow>
               (case ac_protocol_id a of
                  None \<Rightarrow> (Ready (Inl (Panic ''unwrap of None'')), a, r)
                | Some pid \<Rightarrow> (Ready (Inr (Protocol pid buf)), a\<lparr> ac_buf := b, ac_state := AFinished, ac_protocol_id := None \<rparr>, r))
           | AFinished \<Rightarrow> (Ready (Inl (Err ''parse finished'')), a\<lparr> ac_buf := b \<rparr>, r)))"
  by pat_completeness auto
termination
  by (relation "measure (\<lambda>(a, evs). case ac_state a of AProtocolLen \<Rightarrow> 2 | AProtocol \<Rightarrow> 1 | _ \<Rightarrow> 0)") auto

declare Accept_poll.simps [simp del]

section \<open>Authentication\<close>

record AuthInfo =
  au_username :: bytes
  au_password :: bytes

record ClientAuth =
  ca_username :: string
  ca_password :: string

definition USERNAME_LEN_SIZE :: nat where "USERNAME_LEN_SIZE = 2"
definition PASSWORD_LEN_SIZE :: nat where "PASSWORD_LEN_SIZE = 2"

datatype HandshakeState = HUsernameLen | HUsername | HPasswordLen | HPassword | HFinished

record HandshakeParse =
  hp_cap :: nat
  hp_buf :: bytes
  hp_state :: HandshakeState
  hp_username :: "bytes option"

definition HandshakeParse_new :: HandshakeParse where
  "HandshakeParse_new = \<lparr> hp_cap = USERNAME_LEN_SIZE, hp_buf = [], hp_state = HUsernameLen, hp_username = None \<rparr>"

function HandshakeParse_poll :: "HandshakeParse \<Rightarrow> stream \<Rightarrow> AuthInfo result poll \<times> HandshakeParse \<times> stream" where
  "HandshakeParse_poll h evs =
     (case reader_poll (hp_cap h) (hp_buf h) evs of
        (Pending, b, r) \<Rightarrow> (Pending, h\<lparr> hp_buf := b \<rparr>, r)
      | (Ready (Inl e), b, r) \<Rightarrow> (Ready (Inl e), h\<lparr> hp_buf := b \<rparr>, r)
      | (Ready (Inr buf), b, r) \<Rightarrow>
          (case hp_state h of
             HUsernameLen \<Rightarrow>
               if length buf < USERNAME_LEN_SIZE then (Ready (Inl (Panic ''range out of bounds'')), h, r)
               else HandshakeParse_poll (h\<lparr> hp_cap := from_be_slice 2 (take USERNAME_LEN_SIZE buf), hp_buf := [], hp_state := HUsername \<rparr>) r
           | HUsername \<Rightarrow>
               HandshakeParse_poll (h\<lparr> hp_username := Some buf, hp_cap := PASSWORD_LEN_SIZE, hp_buf := [], hp_state := HPasswordLen \<rparr>) r
           | HPasswordLen \<Rightarrow>
               if length buf < PASSWORD_LEN_SIZE then (Ready (Inl (Panic ''range out of bounds'')), h, r)
               else HandshakeParse_poll (h\<lparr> hp_cap := from_be_slice 2 (take PASSWORD_LEN_SIZE buf), hp_buf := [], hp_state := HPassword \<rparr>) r
           | HPassword \<Rightarrow>
               (case hp_username h of
                  None \<Rightarrow> (Ready (Inl (Panic ''unwrap of None'')), h\<lparr> hp_state := HFinished \<rparr>, r)
                | Some u \<Rightarrow> (Ready (Inr \<lparr> au_username = u, au_password = buf \<rparr>), h\<lparr> hp_buf := b, hp_state := HFinished, hp_username := None \<rparr>, r))
           | HFinished \<Rightarrow> (Ready (Inl (Err ''parse finished'')), h\<lparr> hp_buf := b \<rparr>, r)))"
  by pat_completeness auto
termination
  by (relation "measure (\<lambda>(h, evs). case hp_state h of HUsernameLen \<Rightarrow> 3 | HUsername \<Rightarrow> 2 | HPasswordLen \<Rightarrow> 1 | _ \<Rightarrow> 0)") auto

declare HandshakeParse_poll.simps [simp del]

definition auth_verify :: "ClientAuth \<Rightarrow> AuthInfo \<Rightarrow> unit result" where
  "auth_verify ca ai =
     (if \<not> utf8_valid (au_username ai) then Inl (Err ''username invalid'')
      else if \<not> utf8_valid (au_password ai) then Inl (Err ''password invalid'')
      else if ca_username ca \<noteq> string_of (au_username ai) \<or> ca_password ca \<noteq> string_of (au_password ai)
      then Inl (Err ''auth failed'')
      else Inr ())"

datatype ControlStatus = StatusOk | AuthFailed | ServerError

fun status_value :: "ControlStatus \<Rightarrow> nat" where
  "status_value StatusOk = 200"
| "status_value AuthFailed = 401"
| "status_value ServerError = 500"

definition handshake_success_bytes :: bytes where
  "handshake_success_bytes =
     word_of_nat (length REMOTE_CONTROL_PROTOCOL) # REMOTE_CONTROL_PROTOCOL @ to_be_bytes 4 (status_value StatusOk)"

definition handshake_failed_bytes :: "ControlStatus \<Rightarrow> string \<Rightarrow> bytes" where
  "handshake_failed_bytes st msg =
     word_of_nat (length REMOTE_CONTROL_PROTOCOL) # REMOTE_CONTROL_PROTOCOL @ to_be_bytes 4 (status_value st)
     @ to_be_bytes 4 (wrap32 (length (ascii msg))) @ ascii msg"

section \<open>Requests and responses\<close>

definition CODE_SIZE :: nat where "CODE_SIZE = 4"
definition TRAN_ID_SIZE :: nat where "TRAN_ID_SIZE = 4"
definition LENGTH_SIZE :: nat where "LENGTH_SIZE = 4"

record ControlRequest =
  rq_code :: nat
  rq_tran_id :: nat
  rq_data :: "bytes option"

datatype RequestState = QHead | QContent | QFinished

record RequestParse =
  qp_cap :: nat
  qp_buf :: bytes
  qp_state :: RequestState
  qp_code :: "nat option"
  qp_tran_id :: "nat option"

definition RequestParse_new :: RequestParse where
  "RequestParse_new = \<lparr> qp_cap = CODE_SIZE + TRAN_ID_SIZE + LENGTH_SIZE, qp_buf = [], qp_state = QHead, qp_code = None, qp_tran_id = None \<rparr>"

function RequestParse_poll :: "RequestParse \<Rightarrow> stream \<Rightarrow> ControlRequest result poll \<times> RequestParse \<times> stream" where
  "RequestParse_poll q evs =
     (case reader_poll (qp_cap q) (qp_buf q) evs of
        (Pending, b, r) \<Rightarrow> (Pending, q\<lparr> qp_buf := b \<rparr>, r)
      | (Ready (Inl e), b, r) \<Rightarrow> (Ready (Inl e), q\<lparr> qp_buf := b \<rparr>, r)
      | (Ready (Inr buf), b, r) \<Rightarrow>
          (case qp_state q of
             QHead \<Rightarrow>
               if length buf < CODE_SIZE + TRAN_ID_SIZE + LENGTH_SIZE then (Ready (Inl (Panic ''range out of bounds'')), q, r)
               else
                 let code = from_be_slice 4 (take CODE_SIZE buf);
                     tran_id = from_be_slice 4 (take TRAN_ID_SIZE (drop CODE_SIZE buf));
                     len = from_be_slice 4 (take LENGTH_SIZE (drop (CODE_SIZE + TRAN_ID_SIZE) buf))
                 in if len = 0
                    then (Ready (Inr \<lparr> rq_code = code, rq_tran_id = tran_id, rq_data = None \<rparr>), q\<lparr> qp_buf := b, qp_state := QFinished \<rparr>, r)
                    else RequestParse_poll (q\<lparr> qp_cap := len, qp_buf := [], qp_state := QContent, qp_code := Some code, qp_tran_id := Some tran_id \<rparr>) r
           | QContent \<Rightarrow>
               (case (qp_code q, qp_tran_id q) of
                  (Some code, Some tran_id) \<Rightarrow>
                    (Ready (Inr \<lparr> rq_code = code, rq_tran_id = tran_id, rq_data = Some buf \<rparr>), q\<lparr> qp_buf := b, qp_state := QFinished \<rparr>, r)
                | _ \<Rightarrow> (Ready (Inl (Panic ''unwrap of None'')), q\<lparr> qp_state := QFinished \<rparr>, r))
           | QFinished \<Rightarrow> (Ready (Inl (Err ''parse finished'')), q\<lparr> qp_buf := b \<rparr>, r)))"
  by pat_completeness auto
termination
  by (relation "measure (\<lambda>(q, evs). case qp_state q of QHead \<Rightarrow> 1 | _ \<Rightarrow> 0)") auto

declare RequestParse_poll.simps [simp del]

datatype ControlResponsePacket = ResponseOk nat nat bytes | ResponseError nat nat ControlStatus string

fun pack_response :: "ControlResponsePacket \<Rightarrow> bytes" where
  "pack_response (ResponseOk code tran_id data) =
     to_be_bytes 4 code @ to_be_bytes 4 tran_id @ to_be_bytes 4 (status_value StatusOk) @ to_be_bytes 4 (wrap32 (length data)) @ data"
| "pack_response (ResponseError code tran_id st msg) =
     to_be_bytes 4 code @ to_be_bytes 4 tran_id @ to_be_bytes 4 (status_value st) @ to_be_bytes 4 (wrap32 (length (ascii msg))) @ ascii msg"

section \<open>Handlers\<close>

record 'a Ret =
  ret_status_code :: int
  ret_msg :: string
  ret_data :: "'a option"

definition Ret_err :: "int \<Rightarrow> string \<Rightarrow> 'a Ret" where
  "Ret_err code msg = \<lparr> ret_status_code = code, ret_msg = msg, ret_data = None \<rparr>"

definition Ret_default_err :: "string \<Rightarrow> 'a Ret" where
  "Ret_default_err msg = Ret_err (-1) msg"

definition Ret_ok :: "'a \<Rightarrow> 'a Ret" where
  "Ret_ok x = \<lparr> ret_status_code = 0, ret_msg = ''success'', ret_data = Some x \<rparr>"

definition Ret_default_ok :: "'a Ret" where
  "Ret_default_ok = \<lparr> ret_status_code = 0, ret_msg = ''success'', ret_data = None \<rparr>"

text \<open>An error of a handler becomes a result; a panic ends the task that runs it.\<close>

definition handle_ret_after :: "'a Ret result \<Rightarrow> 'a Ret result" where
  "handle_ret_after r = (case r of Inr x \<Rightarrow> Inr x | Inl (Err m) \<Rightarrow> Inr (Ret_default_err m) | Inl (Panic m) \<Rightarrow> Inl (Panic m))"

datatype ('j, 'a, 's) FunctionPtr = NoneInput "'s \<Rightarrow> 'a Ret result \<times> 's" | HasInput "'j \<Rightarrow> 's \<Rightarrow> 'a Ret result \<times> 's"

record ('j, 'a) json =
  from_slice :: "bytes \<Rightarrow> 'j result"
  to_vec :: "'a Ret \<Rightarrow> bytes result"

type_synonym ('j, 'a, 's) routes = "nat \<rightharpoonup> ('j, 'a, 's) FunctionPtr"

definition register_fn :: "nat \<Rightarrow> ('j, 'a, 's) FunctionPtr \<Rightarrow> ('j, 'a, 's) routes \<Rightarrow> ('j, 'a, 's) routes" where
  "register_fn code f rs = rs(code \<mapsto> f)"

definition call_handler :: "('j, 'a) json \<Rightarrow> ('s \<Rightarrow> 'a Ret result \<times> 's) \<Rightarrow> 's \<Rightarrow> bytes result \<times> 's" where
  "call_handler js f s = (case f s of (r, s) \<Rightarrow> (and_then (handle_ret_after r) (to_vec js), s))"

definition Router_handle_request :: "('j, 'a) json \<Rightarrow> ('j, 'a, 's) routes \<Rightarrow> nat \<Rightarrow> bytes option \<Rightarrow> 's \<Rightarrow> bytes result \<times> 's" where
  "Router_handle_request js rs code body s =
     (case rs code of
        None \<Rightarrow> (Inl (Err ''No handler for code''), s)
      | Some (NoneInput f) \<Rightarrow> call_handler js f s
      | Some (HasInput f) \<Rightarrow>
          (case body of
             None \<Rightarrow> (Inl (Err ''Missing request params''), s)
           | Some b \<Rightarrow> (case from_slice js b of Inl e \<Rightarrow> (Inl e, s) | Inr j \<Rightarrow> call_handler js (f j) s)))"

text \<open>
  The task that \<^verbatim>\<open>dispatch\<close> spawns for a request: the packet it passes on to be sent, none when it panics.
\<close>

definition control_dispatch :: "('j, 'a) json \<Rightarrow> ('j, 'a, 's) routes \<Rightarrow> ControlRequest \<Rightarrow> 's \<Rightarrow> bytes option \<times> 's" where
  "control_dispatch js rs q s =
     (case Router_handle_request js rs (rq_code q) (rq_data q) s of
        (Inr data, s) \<Rightarrow> (Some (pack_response (ResponseOk (rq_code q) (rq_tran_id q) data)), s)
      | (Inl (Err m), s) \<Rightarrow> (Some (pack_response (ResponseError (rq_code q) (rq_tran_id q) ServerError m)), s)
      | (Inl (Panic m), s) \<Rightarrow> (None, s))"

text \<open>\<^verbatim>\<open>register_read_future\<close>: the requests read from a stream, at most \<open>n\<close> of them, and whether the reader has ended.\<close>

fun read_requests :: "nat \<Rightarrow> stream \<Rightarrow> ControlRequest list \<times> bool" where
  "read_requests 0 evs = ([], False)"
| "read_requests (Suc n) evs =
     (case RequestParse_poll RequestParse_new evs of
        (Pending, _, _) \<Rightarrow> ([], False)
      | (Ready (Inr q), _, r) \<Rightarrow> (case read_requests n r of (qs, e) \<Rightarrow> (q # qs, e))
      | (Ready (Inl _), _, _) \<Rightarrow> ([], True))"

section \<open>A connection\<close>

text \<open>
  \<^verbatim>\<open>protocol_dispatch\<close> after the protocol is known: the answer to the handshake and the stream on which the dispatcher goes on
  to serve requests. A BitTorrent connection is not served.
\<close>

definition protocol_dispatch :: "ClientAuth \<Rightarrow> Identifier \<Rightarrow> stream \<Rightarrow> (bytes \<times> stream option) result poll" where
  "protocol_dispatch ca pid evs =
     (case pid of
        BitTorrent \<Rightarrow> Ready (Inr ([], None))
      | RemoteControl \<Rightarrow>
          (case HandshakeParse_poll HandshakeParse_new evs of
             (Pending, _, _) \<Rightarrow> Pending
           | (Ready (Inl e), _, _) \<Rightarrow> Ready (Inl e)
           | (Ready (Inr ai), _, r) \<Rightarrow>
               Ready (Inr ((case auth_verify ca ai of
                  Inl (Err m) \<Rightarrow> handshake_failed_bytes AuthFailed m
                | Inl (Panic m) \<Rightarrow> []
                | Inr _ \<Rightarrow> handshake_success_bytes), Some r))))"

text \<open>A connection of the TCP server: the answer to the handshake and the requests that are passed to the router.\<close>

definition tcp_accept :: "nat \<Rightarrow> ClientAuth \<Rightarrow> stream \<Rightarrow> (bytes \<times> ControlRequest list) result poll" where
  "tcp_accept n ca evs =
     (case Accept_poll Accept_new evs of
        (Pending, _, _) \<Rightarrow> Pending
      | (Ready (Inl e), _, _) \<Rightarrow> Ready (Inl e)
      | (Ready (Inr (Protocol pid _)), _, r) \<Rightarrow>
          (case protocol_dispatch ca pid r of
             Pending \<Rightarrow> Pending
           | Ready (Inl e) \<Rightarrow> Ready (Inl e)
           | Ready (Inr (reply, None)) \<Rightarrow> Ready (Inr (reply, []))
           | Ready (Inr (reply, Some r)) \<Rightarrow> Ready (Inr (reply, fst (read_requests n r)))))"

section \<open>Reading fields\<close>

text \<open>However a stream is cut, a reader of the length of its beginning returns the beginning.\<close>

lemma reader_poll_field:
  assumes "data_stream evs" and "stream_bytes evs = x @ rest" and "n = length x"
  obtains r where "reader_poll n [] evs = (Ready (Inr x), [], r)" "data_stream r" "stream_bytes r = rest"
proof (cases "n = 0")
  case True
  then have "reader_poll n [] evs = (Ready (Inr x), [], evs)" using assms(1,3)
    by (cases "(n, [] :: bytes, evs)" rule: reader_poll.cases) auto
  then show ?thesis using that assms True by simp
next
  case False
  then show ?thesis using reader_poll_full [OF assms(1), of "[]" n] assms(2,3) that by auto
qed

definition credentials_bytes :: "bytes \<Rightarrow> bytes \<Rightarrow> bytes" where
  "credentials_bytes user pass = to_be_bytes 2 (length user) @ user @ to_be_bytes 2 (length pass) @ pass"

definition greeting_bytes :: "bytes \<Rightarrow> bytes \<Rightarrow> bytes" where
  "greeting_bytes user pass = [23] @ REMOTE_CONTROL_PROTOCOL @ credentials_bytes user pass"

definition request_bytes :: "ControlRequest \<Rightarrow> bytes" where
  "request_bytes q = to_be_bytes 4 (rq_code q) @ to_be_bytes 4 (rq_tran_id q)
     @ (case rq_data q of None \<Rightarrow> to_be_bytes 4 0 | Some d \<Rightarrow> to_be_bytes 4 (length d) @ d)"

definition request_ok :: "ControlRequest \<Rightarrow> bool" where
  "request_ok q \<longleftrightarrow> rq_code q < 2 ^ 32 \<and> rq_tran_id q < 2 ^ 32 \<and> (case rq_data q of None \<Rightarrow> True | Some d \<Rightarrow> d \<noteq> [] \<and> length d < 2 ^ 32)"

lemma protocol_names: "length REMOTE_CONTROL_PROTOCOL = 23" "REMOTE_CONTROL_PROTOCOL \<noteq> BIT_TORRENT_PROTOCOL"
  by (simp_all add: REMOTE_CONTROL_PROTOCOL_def BIT_TORRENT_PROTOCOL_def)

lemma Accept_remote:
  assumes "data_stream evs" and "stream_bytes evs = [23] @ REMOTE_CONTROL_PROTOCOL @ rest"
  obtains a r where "Accept_poll Accept_new evs = (Ready (Inr (Protocol RemoteControl [])), a, r)" "data_stream r" "stream_bytes r = rest"
proof -
  let ?p = "REMOTE_CONTROL_PROTOCOL"
  obtain r1 where r1: "reader_poll 1 [] evs = (Ready (Inr [23]), [], r1)" "data_stream r1" "stream_bytes r1 = ?p @ rest"
    using reader_poll_field [OF assms, of 1] by auto
  obtain r2 where r2: "reader_poll 23 [] r1 = (Ready (Inr ?p), [], r2)" "data_stream r2" "stream_bytes r2 = rest"
    using reader_poll_field [OF r1(2,3), of 23] protocol_names(1) by auto
  obtain r3 where r3: "reader_poll 0 [] r2 = (Ready (Inr []), [], r3)" "data_stream r3" "stream_bytes r3 = rest"
    using reader_poll_field [OF r2(2), of "[]" rest 0] r2(3) by auto
  have "\<exists>a. Accept_poll Accept_new evs = (Ready (Inr (Protocol RemoteControl [])), a, r3)"
    using r1(1) r2(1) r3(1) protocol_names(2)
    by (simp add: Accept_poll.simps [of _ evs] Accept_poll.simps [of _ r1] Accept_poll.simps [of _ r2] Accept_new_def PROTOCOL_SIZE_def
        parse_protocol_def REMOTE_CONTROL_PAYLOAD_LEN_def)
  then show ?thesis using that r3 by blast
qed

lemma HandshakeParse_credentials:
  assumes "data_stream evs" and "stream_bytes evs = credentials_bytes user pass @ rest" and "length user < 2 ^ 16" and "length pass < 2 ^ 16"
  obtains h r where "HandshakeParse_poll HandshakeParse_new evs = (Ready (Inr \<lparr> au_username = user, au_password = pass \<rparr>), h, r)"
    "data_stream r" "stream_bytes r = rest"
proof -
  obtain r1 where r1: "reader_poll 2 [] evs = (Ready (Inr (to_be_bytes 2 (length user))), [], r1)" "data_stream r1"
      "stream_bytes r1 = user @ to_be_bytes 2 (length pass) @ pass @ rest"
    using reader_poll_field [OF assms(1), of "to_be_bytes 2 (length user)" _ 2] assms(2) by (auto simp: credentials_bytes_def simp del: to_be_bytes.simps)
  obtain r2 where r2: "reader_poll (length user) [] r1 = (Ready (Inr user), [], r2)" "data_stream r2"
      "stream_bytes r2 = to_be_bytes 2 (length pass) @ pass @ rest"
    using reader_poll_field [OF r1(2,3) refl] by blast
  obtain r3 where r3: "reader_poll 2 [] r2 = (Ready (Inr (to_be_bytes 2 (length pass))), [], r3)" "data_stream r3" "stream_bytes r3 = pass @ rest"
    using reader_poll_field [OF r2(2,3), of 2] by (auto simp del: to_be_bytes.simps)
  obtain r4 where r4: "reader_poll (length pass) [] r3 = (Ready (Inr pass), [], r4)" "data_stream r4" "stream_bytes r4 = rest"
    using reader_poll_field [OF r3(2,3) refl] by blast
  have n: "from_be_slice 2 (to_be_bytes 2 (length user)) = length user" "from_be_slice 2 (to_be_bytes 2 (length pass)) = length pass"
    using assms(3,4) by (simp_all del: to_be_bytes.simps)
  have "\<exists>h. HandshakeParse_poll HandshakeParse_new evs = (Ready (Inr \<lparr> au_username = user, au_password = pass \<rparr>), h, r4)"
    using r1(1) r2(1) r3(1) r4(1) n
    by (simp add: HandshakeParse_poll.simps [of _ evs] HandshakeParse_poll.simps [of _ r1] HandshakeParse_poll.simps [of _ r2]
        HandshakeParse_poll.simps [of _ r3] HandshakeParse_new_def USERNAME_LEN_SIZE_def PASSWORD_LEN_SIZE_def del: to_be_bytes.simps)
  then show ?thesis using that r4 by blast
qed

lemma RequestParse_request:
  assumes "data_stream evs" and "stream_bytes evs = request_bytes q @ rest" and "request_ok q"
  obtains p r where "RequestParse_poll RequestParse_new evs = (Ready (Inr q), p, r)" "data_stream r" "stream_bytes r = rest"
proof -
  define len where "len = (case rq_data q of None \<Rightarrow> 0 | Some d \<Rightarrow> length d)"
  define body where "body = (case rq_data q of None \<Rightarrow> [] | Some d \<Rightarrow> d)"
  let ?h = "to_be_bytes 4 (rq_code q) @ to_be_bytes 4 (rq_tran_id q) @ to_be_bytes 4 len"
  have e: "stream_bytes evs = ?h @ body @ rest"
    using assms(2) by (simp add: request_bytes_def len_def body_def del: to_be_bytes.simps split: option.splits)
  have h: "12 = length ?h" by simp
  obtain r1 where r1: "reader_poll 12 [] evs = (Ready (Inr ?h), [], r1)" "data_stream r1" "stream_bytes r1 = body @ rest"
    using reader_poll_field [OF assms(1) e h] by blast
  have b: "length body = len" by (simp add: body_def len_def split: option.split)
  obtain r2 where r2: "reader_poll len [] r1 = (Ready (Inr body), [], r2)" "data_stream r2" "stream_bytes r2 = rest"
    using reader_poll_field [OF r1(2,3) b [symmetric]] by blast
  have n: "from_be_slice 4 (to_be_bytes 4 (rq_code q)) = rq_code q" "from_be_slice 4 (to_be_bytes 4 (rq_tran_id q)) = rq_tran_id q"
    "from_be_slice 4 (to_be_bytes 4 len) = len" "len < 2 ^ 32"
    using assms(3) by (auto simp: request_ok_def len_def simp del: to_be_bytes.simps split: option.splits)
  have p: "RequestParse_poll RequestParse_new evs =
      (if len = 0 then (Ready (Inr \<lparr> rq_code = rq_code q, rq_tran_id = rq_tran_id q, rq_data = None \<rparr>), RequestParse_new\<lparr> qp_buf := [], qp_state := QFinished \<rparr>, r1)
       else RequestParse_poll (RequestParse_new\<lparr> qp_cap := len, qp_buf := [], qp_state := QContent, qp_code := Some (rq_code q), qp_tran_id := Some (rq_tran_id q) \<rparr>) r1)"
    using r1(1) n by (simp add: RequestParse_poll.simps [of _ evs] RequestParse_new_def CODE_SIZE_def TRAN_ID_SIZE_def LENGTH_SIZE_def del: to_be_bytes.simps)
  show ?thesis
  proof (cases "rq_data q")
    case None
    then have "len = 0" "stream_bytes r1 = rest" using r1(3) by (simp_all add: len_def body_def)
    then show ?thesis using that [of _ r1] p r1(2) None by simp
  next
    case (Some d)
    then have "len \<noteq> 0" "body = d" using assms(3) by (simp_all add: len_def body_def request_ok_def)
    then have "RequestParse_poll RequestParse_new evs = (Ready (Inr \<lparr> rq_code = rq_code q, rq_tran_id = rq_tran_id q, rq_data = Some d \<rparr>),
        RequestParse_new\<lparr> qp_cap := len, qp_buf := [], qp_state := QFinished, qp_code := Some (rq_code q), qp_tran_id := Some (rq_tran_id q) \<rparr>, r2)"
      using p r2(1) by (simp add: RequestParse_poll.simps [of _ r1])
    then show ?thesis using that [of _ r2] r2(2,3) Some by simp
  qed
qed

lemma read_requests_all:
  assumes "data_stream evs" and "stream_bytes evs = concat (map request_bytes qs)" and "list_all request_ok qs" and "length qs \<le> n"
  shows "fst (read_requests n evs) = qs"
  using assms
proof (induction qs arbitrary: evs n)
  case Nil
  then have "evs = []" by (cases evs) (auto simp: data_stream_def)
  then show ?case by (cases n) (simp_all add: RequestParse_poll.simps [of _ "[]"] RequestParse_new_def CODE_SIZE_def)
next
  case (Cons q qs)
  obtain m where m: "n = Suc m" "length qs \<le> m" using Cons.prems(4) by (cases n) auto
  obtain p r where "RequestParse_poll RequestParse_new evs = (Ready (Inr q), p, r)" "data_stream r" "stream_bytes r = concat (map request_bytes qs)"
    using RequestParse_request [OF Cons.prems(1), of q "concat (map request_bytes qs)"] Cons.prems(2,3) by auto
  then show ?case using Cons.IH [of r m] Cons.prems(3) m by (cases "read_requests m r") simp
qed

section \<open>Properties\<close>

text \<open>
  C10. The authentication of the remote control does not protect anything: whatever user name and password a client sends, and
  however its bytes are cut, all its requests are read and passed to the router exactly as sent. The only
  difference a wrong password makes is the status in the answer to the handshake.
\<close>

theorem requests_served_without_auth:
  assumes "data_stream evs" and "stream_bytes evs = greeting_bytes user pass @ concat (map request_bytes qs)"
    and "length user < 2 ^ 16" and "length pass < 2 ^ 16" and "list_all request_ok qs" and "length qs \<le> n"
  shows "tcp_accept n ca evs = Ready (Inr
    ((case auth_verify ca \<lparr> au_username = user, au_password = pass \<rparr> of
        Inr _ \<Rightarrow> handshake_success_bytes | Inl (Err m) \<Rightarrow> handshake_failed_bytes AuthFailed m | Inl (Panic m) \<Rightarrow> []), qs))"
proof -
  obtain a r1 where a: "Accept_poll Accept_new evs = (Ready (Inr (Protocol RemoteControl [])), a, r1)"
    and r1: "data_stream r1" "stream_bytes r1 = credentials_bytes user pass @ concat (map request_bytes qs)"
    using Accept_remote [OF assms(1)] assms(2) by (auto simp: greeting_bytes_def)
  obtain h r2 where h: "HandshakeParse_poll HandshakeParse_new r1 = (Ready (Inr \<lparr> au_username = user, au_password = pass \<rparr>), h, r2)"
    and r2: "data_stream r2" "stream_bytes r2 = concat (map request_bytes qs)"
    using HandshakeParse_credentials [OF r1 assms(3,4)] by blast
  show ?thesis
    using read_requests_all [OF r2 assms(5,6)] by (simp add: tcp_accept_def a protocol_dispatch_def h split: sum.split error.split)
qed

theorem requests_served_without_auth_witness:
  "tcp_accept 1 \<lparr> ca_username = ''admin'', ca_password = ''admin'' \<rparr>
     [Data (greeting_bytes [] [] @ request_bytes \<lparr> rq_code = 7, rq_tran_id = 1, rq_data = None \<rparr>)] =
   Ready (Inr (handshake_failed_bytes AuthFailed ''auth failed'', [\<lparr> rq_code = 7, rq_tran_id = 1, rq_data = None \<rparr>]))"
  using requests_served_without_auth [of "[Data (greeting_bytes [] [] @ request_bytes \<lparr> rq_code = 7, rq_tran_id = 1, rq_data = None \<rparr>)]" "[]" "[]"
      "[\<lparr> rq_code = 7, rq_tran_id = 1, rq_data = None \<rparr>]" 1 "\<lparr> ca_username = ''admin'', ca_password = ''admin'' \<rparr>"]
  by (simp add: greeting_bytes_def request_ok_def auth_verify_def string_of_def)

end
