(* ===== verification/Bbr.thy ===== *)
theory Bbr
  imports Win_Minmax
begin

text \<open>
  The second congestion controller (\<^verbatim>\<open>bt/base_peer/rate_control/bbr.rs\<close>), which is compiled for tests only (\<^verbatim>\<open>cfg(test)\<close> in \<^verbatim>\<open>rate_control.rs\<close>): the
  throttle that the sender consults, the four modes of the controller and the update that every acknowledgement may trigger.
  The connection information of the operating system, the clocks and the random start of a cycle
  are arguments; intervals are in microseconds.
\<close>

section \<open>Constants\<close>

definition BW_SCALE :: nat where "BW_SCALE = 24"
definition BW_UNIT :: nat where "BW_UNIT = 2 ^ BW_SCALE"
definition BBR_SCALE :: nat where "BBR_SCALE = 8"
definition BBR_UNIT :: nat where "BBR_UNIT = 2 ^ BBR_SCALE"
definition PACING_MARGIN_PERCENT :: nat where "PACING_MARGIN_PERCENT = 1"
definition CALCULATE_INTERVAL :: nat where "CALCULATE_INTERVAL = 1000000"
definition PROBE_RTT_MODE_MS :: nat where "PROBE_RTT_MODE_MS = 200"
definition MICROS_PER_SEC :: nat where "MICROS_PER_SEC = 1000000"
definition CWND_MIN_TARGET :: nat where "CWND_MIN_TARGET = 4"
definition BBR_FULL_BW_THRESH :: nat where "BBR_FULL_BW_THRESH = BBR_UNIT * 5 div 4"
definition BBR_FULL_BW_CNT :: nat where "BBR_FULL_BW_CNT = 3"
definition CYCLE :: nat where "CYCLE = 8"
definition BW_RTTS :: nat where "BW_RTTS = 10"
definition TCP_INIT_CWND :: nat where "TCP_INIT_CWND = 10"
definition RTT_ALPHA :: nat where "RTT_ALPHA = BBR_UNIT * 32 div 256"
definition RTT_INTERVAL_MS :: nat where "RTT_INTERVAL_MS = 10 * 1000"
definition HIGH_GAIN :: nat where "HIGH_GAIN = BBR_UNIT * 2885 div 1000"
definition DRAIN_GAIN :: nat where "DRAIN_GAIN = BBR_UNIT * 1000 div 2885"
definition CWND_GAIN :: nat where "CWND_GAIN = BBR_UNIT * 2"
definition PACING_GAIN :: "nat list" where
  "PACING_GAIN = [BBR_UNIT * 5 div 4, BBR_UNIT * 3 div 4, BBR_UNIT, BBR_UNIT, BBR_UNIT, BBR_UNIT, BBR_UNIT, BBR_UNIT, BBR_UNIT, BBR_UNIT]"
definition LT_INTVL_MIN_RTTS :: nat where "LT_INTVL_MIN_RTTS = 4"
definition LT_LOSS_THRESH :: nat where "LT_LOSS_THRESH = 50"
definition LT_BW_RATIO :: nat where "LT_BW_RATIO = BBR_UNIT div 8"
definition LT_BW_DIFF :: nat where "LT_BW_DIFF = 4000 div 8"
definition LT_BW_MAX_RTTS :: nat where "LT_BW_MAX_RTTS = 48"
definition ARQ_RATE :: nat where "ARQ_RATE = 2"

section \<open>The throttle\<close>

record Throttle =
  th_recv_size :: nat
  th_delivered :: nat
  th_acc_delivered :: nat
  th_delivered_time :: nat
  th_pacing_rate :: nat
  th_inflight :: nat
  th_cwnd :: nat
  th_rtt :: nat
  th_app_limited :: nat

definition Throttle_ack :: "nat \<Rightarrow> nat \<Rightarrow> nat \<Rightarrow> Throttle \<Rightarrow> Throttle" where
  "Throttle_ack now_us sz infl t =
     t\<lparr> th_recv_size := wrap64 (th_recv_size t + sz), th_delivered := wrap32 (th_delivered t + 1),
        th_acc_delivered := wrap64 (th_acc_delivered t + 1), th_delivered_time := now_us,
        th_inflight := min infl (sub32 (th_inflight t) 1) \<rparr>"

definition take_app_limited :: "Throttle \<Rightarrow> nat \<times> Throttle" where
  "take_app_limited t =
     (if th_app_limited t \<noteq> 0 \<and> th_app_limited t \<le> th_acc_delivered t then (0, t\<lparr> th_app_limited := 0 \<rparr>)
      else (th_app_limited t, t))"

definition sent_app_limited :: "Throttle \<Rightarrow> Throttle" where
  "sent_app_limited t =
     (if th_inflight t < th_cwnd t then
        let n = wrap64 (th_acc_delivered t + (th_cwnd t - th_inflight t))
        in t\<lparr> th_app_limited := (if 0 < n then n else 1) \<rparr>
      else t)"

text \<open>The time until the next packet may be sent.\<close>

definition get_next_send_time :: "nat \<Rightarrow> Throttle \<Rightarrow> nat result" where
  "get_next_send_time packet_size t =
     (if th_pacing_rate t = 0 then Inl (Panic ''attempt to divide by zero'')
      else Inr (wrap64 (packet_size * MICROS_PER_SEC) div th_pacing_rate t))"

definition send_next :: "nat \<Rightarrow> Throttle \<Rightarrow> nat result \<times> Throttle" where
  "send_next packet_size t =
     (let t = sent_app_limited (t\<lparr> th_inflight := wrap32 (th_inflight t + 1) \<rparr>)
      in (get_next_send_time packet_size t, t))"

section \<open>The controller\<close>

datatype bbr_mode = Startup | Drain | ProbeBW | ProbeRtt

record RateSample =
  rs_delivered :: nat
  rs_interval_us :: nat
  rs_rtt :: nat
  rs_is_arq :: bool
  rs_is_app_limited :: bool

record BBRRateControl =
  throttle :: Throttle
  bb_state :: bbr_mode
  bb_cwnd_gain :: nat
  bb_pacing_gain :: nat
  bb_bw :: Minmax
  rtt_cnt :: nat
  round_start :: bool
  next_rtt_cnt_mstamp :: nat
  bb_full_bw :: nat
  bb_full_bw_cnt :: nat
  bb_full_bw_reached :: bool
  update_interval :: nat
  min_rtt_us :: nat
  min_rtt_stamp :: nat
  probe_rtt_done_stamp :: nat
  cycle_idx :: nat
  cycle_mstamp :: nat
  prior_cwnd :: nat
  bb_mss :: nat
  lt_bw :: nat
  lt_use_bw :: bool
  lt_is_sampling :: bool
  lt_last_stamp :: nat
  lt_last_delivered :: nat
  lt_rtt_cnt :: nat
  lt_last_arq :: nat
  bb_arq :: nat
  prior_sampling_stamp :: nat
  prior_sampling_delivered :: nat

definition BBRRateControl_new :: "nat \<Rightarrow> nat \<Rightarrow> BBRRateControl" where
  "BBRRateControl_new now_us mss =
     \<lparr> throttle = \<lparr> th_recv_size = 0, th_delivered = 0, th_acc_delivered = 0, th_delivered_time = 0,
         th_pacing_rate = (TCP_INIT_CWND * HIGH_GAIN) div 2 ^ BBR_SCALE, th_inflight = 0, th_cwnd = TCP_INIT_CWND,
         th_rtt = U32_MAX, th_app_limited = 0 \<rparr>,
       bb_state = Startup, bb_cwnd_gain = HIGH_GAIN, bb_pacing_gain = HIGH_GAIN, bb_bw = Minmax_new, rtt_cnt = 0,
       round_start = False, next_rtt_cnt_mstamp = 0, bb_full_bw = 0, bb_full_bw_cnt = 0, bb_full_bw_reached = False,
       update_interval = CALCULATE_INTERVAL, min_rtt_us = U32_MAX, min_rtt_stamp = 0, probe_rtt_done_stamp = 0,
       cycle_idx = 0, cycle_mstamp = 0, prior_cwnd = 0, bb_mss = mss, lt_bw = 0, lt_use_bw = False, lt_is_sampling = False,
       lt_last_stamp = 0, lt_last_delivered = 0, lt_rtt_cnt = 0, lt_last_arq = 0, bb_arq = 0,
       prior_sampling_stamp = now_us, prior_sampling_delivered = 0 \<rparr>"

text \<open>
  What the operating system reports of a connection (\<^verbatim>\<open>get_net_info\<close>), with the fields the controller reads; the smoothed round trip time is in milliseconds there.
\<close>

record TcpConnectionInfo =
  tcpi_srtt :: nat
  tcpi_snd_sbbytes :: nat
  tcpi_rxpackets :: nat
  tcpi_txretransmitpackets :: nat

record NetInfo =
  ni_rtt :: nat
  ni_inflight :: nat
  ni_delivered :: nat
  ni_time_stamp :: nat
  ni_loss :: nat

definition get_net_info :: "nat \<Rightarrow> TcpConnectionInfo option \<Rightarrow> NetInfo option" where
  "get_net_info now_us info = map_option (\<lambda>i. \<lparr> ni_rtt = wrap32 (tcpi_srtt i * 1000), ni_inflight = tcpi_snd_sbbytes i,
     ni_delivered = tcpi_rxpackets i, ni_time_stamp = now_us, ni_loss = tcpi_txretransmitpackets i \<rparr>) info"

definition get_inflight :: "nat \<Rightarrow> TcpConnectionInfo option \<Rightarrow> nat \<Rightarrow> nat result" where
  "get_inflight now_us info mss =
     (case get_net_info now_us info of
        None \<Rightarrow> Inl (Panic ''unwrap of None'')
      | Some ni \<Rightarrow> if mss = 0 then Inl (Panic ''attempt to divide by zero'') else Inr (ni_inflight ni div mss))"

text \<open>\<open>now_us\<close> and \<open>later_us\<close> are the clock in \<^verbatim>\<open>get_net_info\<close> and after it.\<close>

definition bbr_rate_sample :: "nat \<Rightarrow> nat \<Rightarrow> TcpConnectionInfo option \<Rightarrow> BBRRateControl \<Rightarrow> (RateSample \<times> BBRRateControl) result" where
  "bbr_rate_sample now_us later_us info b =
     (case get_net_info now_us info of
        None \<Rightarrow> Inl (Panic ''unwrap of None'')
      | Some ni \<Rightarrow>
          (let interval_us = sub64 (ni_time_stamp ni) (prior_sampling_stamp b);
               delivered = wrap32 (sub64 (ni_delivered ni) (prior_sampling_delivered b));
               (app_limited, t) = take_app_limited (throttle b)
           in Inr (\<lparr> rs_delivered = delivered, rs_interval_us = interval_us, rs_rtt = ni_rtt ni,
                     rs_is_arq = (min_rtt_us b \<noteq> U32_MAX \<and> wrap32 (ARQ_RATE * min_rtt_us b) \<le> ni_rtt ni),
                     rs_is_app_limited = (0 < app_limited \<or> bb_state b = ProbeRtt) \<rparr>,
                   b\<lparr> prior_sampling_stamp := later_us, prior_sampling_delivered := ni_delivered ni, throttle := t \<rparr>)))"

definition rtts :: "RateSample \<Rightarrow> BBRRateControl \<Rightarrow> nat" where
  "rtts rs b =
     (if rs_delivered rs = 0 then U32_MAX
      else if min_rtt_us b = U32_MAX then rs_rtt rs
      else wrap32 (wrap32 (rs_rtt rs * RTT_ALPHA) + wrap32 ((BBR_UNIT - RTT_ALPHA) * min_rtt_us b)) div 2 ^ BBR_SCALE)"

definition max_bw :: "BBRRateControl \<Rightarrow> nat" where
  "max_bw b = minmax_get (bb_bw b)"

definition bbr_bw :: "BBRRateControl \<Rightarrow> nat" where
  "bbr_bw b = (if lt_use_bw b then lt_bw b else max_bw b)"

text \<open>\<^verbatim>\<open>advance_cycle_phase\<close> and \<^verbatim>\<open>reset_probe_bw_state\<close>; \<open>r\<close> is the random start of the cycle.\<close>

definition advance_cycle_phase :: "BBRRateControl \<Rightarrow> BBRRateControl" where
  "advance_cycle_phase b = b\<lparr> cycle_idx := (cycle_idx b + 1) AND (CYCLE - 1), cycle_mstamp := th_delivered_time (throttle b) \<rparr>"

definition reset_probe_bw_state :: "nat \<Rightarrow> BBRRateControl \<Rightarrow> BBRRateControl" where
  "reset_probe_bw_state r b =
     (advance_cycle_phase (b\<lparr> bb_state := ProbeBW, cycle_idx := r \<rparr>))\<lparr> update_interval := min_rtt_us b \<rparr>"

section \<open>Long-term bandwidth\<close>

definition reset_lt_bw_sampling_interval :: "BBRRateControl \<Rightarrow> BBRRateControl" where
  "reset_lt_bw_sampling_interval b =
     b\<lparr> lt_last_stamp := th_delivered_time (throttle b), lt_last_delivered := th_acc_delivered (throttle b),
        lt_last_arq := bb_arq b, lt_rtt_cnt := 0 \<rparr>"

definition reset_lt_bw_sampling :: "BBRRateControl \<Rightarrow> BBRRateControl" where
  "reset_lt_bw_sampling b = reset_lt_bw_sampling_interval (b\<lparr> lt_bw := 0, lt_use_bw := False, lt_is_sampling := False \<rparr>)"

definition lt_bw_interval_done :: "nat \<Rightarrow> BBRRateControl \<Rightarrow> BBRRateControl" where
  "lt_bw_interval_done bw b =
     (let diff = (if bw \<le> lt_bw b then lt_bw b - bw else bw - lt_bw b) in
      if lt_bw b \<noteq> 0 \<and> (wrap32 (diff * BBR_UNIT) \<le> wrap32 (LT_BW_RATIO * lt_bw b) \<or> diff < LT_BW_DIFF)
      then b\<lparr> lt_bw := wrap32 (lt_bw b + bw) div 2, lt_use_bw := True, bb_pacing_gain := BBR_UNIT, lt_rtt_cnt := 0 \<rparr>
      else reset_lt_bw_sampling_interval (b\<lparr> lt_bw := bw \<rparr>))"

definition lt_bw_estimate :: "RateSample \<Rightarrow> BBRRateControl \<Rightarrow> BBRRateControl" where
  "lt_bw_estimate rs b =
     (if \<not> rs_is_arq rs then b
      else
        let arq_cnt = sub64 (bb_arq b) (lt_last_arq b);
            delivered = sub64 (th_acc_delivered (throttle b)) (lt_last_delivered b)
        in if delivered = 0 \<or> wrap64 (arq_cnt * 2 ^ BBR_SCALE) < wrap64 (LT_LOSS_THRESH * delivered) then b
           else
             let t = sub64 (th_delivered_time (throttle b)) (lt_last_stamp b)
             in if t < 1000 then b else lt_bw_interval_done (wrap32 (wrap64 (delivered * BW_UNIT) div t)) b)"

definition lt_bw_sampling :: "nat \<Rightarrow> RateSample \<Rightarrow> BBRRateControl \<Rightarrow> BBRRateControl" where
  "lt_bw_sampling r rs b =
     (if lt_use_bw b then
        if bb_state b = ProbeBW \<and> round_start b then
          let b = b\<lparr> lt_rtt_cnt := wrap32 (lt_rtt_cnt b + 1) \<rparr>
          in if LT_BW_MAX_RTTS \<le> lt_rtt_cnt b then reset_probe_bw_state r (reset_lt_bw_sampling b) else b
        else b
      else if \<not> lt_is_sampling b \<and> \<not> rs_is_arq rs then b
      else
        let b = (if lt_is_sampling b then b else (reset_lt_bw_sampling_interval b)\<lparr> lt_is_sampling := True \<rparr>)
        in if rs_is_app_limited rs \<or> bb_state b = Drain then reset_lt_bw_sampling b
           else
             let b = (if round_start b then b\<lparr> lt_rtt_cnt := wrap32 (lt_rtt_cnt b + 1) \<rparr> else b)
             in if lt_rtt_cnt b < LT_INTVL_MIN_RTTS then b
                else if 4 * LT_INTVL_MIN_RTTS < lt_rtt_cnt b then reset_lt_bw_sampling b
                else lt_bw_estimate rs b)"

section \<open>The update\<close>

definition bbr_update_bw :: "RateSample \<Rightarrow> BBRRateControl \<Rightarrow> BBRRateControl result" where
  "bbr_update_bw rs b =
     (let now = th_delivered_time (throttle b);
          b = b\<lparr> round_start := False \<rparr>;
          b = (if min_rtt_us b \<noteq> U32_MAX \<and> next_rtt_cnt_mstamp b \<le> now
               then b\<lparr> next_rtt_cnt_mstamp := wrap64 (now + min_rtt_us b), rtt_cnt := wrap32 (rtt_cnt b + 1), round_start := True \<rparr>
               else b)
      in if rs_interval_us rs = 0 then Inl (Panic ''attempt to divide by zero'')
         else
           let bw = wrap32 (div_ceil (wrap64 (rs_delivered rs * BW_UNIT)) (rs_interval_us rs))
           in Inr (if \<not> rs_is_app_limited rs \<or> minmax_get (bb_bw b) \<le> bw
                   then b\<lparr> bb_bw := snd (minmax_running_max BW_RTTS (rtt_cnt b) bw (bb_bw b)) \<rparr> else b))"

definition check_full_bw_reached :: "BBRRateControl \<Rightarrow> BBRRateControl" where
  "check_full_bw_reached b =
     (if bb_full_bw_reached b \<or> \<not> round_start b then b
      else
        let bw_thresh = wrap32 (bb_full_bw b * BBR_FULL_BW_THRESH) div 2 ^ BBR_SCALE
        in if bw_thresh < max_bw b then b\<lparr> bb_full_bw_cnt := 0, bb_full_bw := max_bw b \<rparr>
           else b\<lparr> bb_full_bw_cnt := wrap32 (bb_full_bw_cnt b + 1),
                   bb_full_bw_reached := (BBR_FULL_BW_CNT \<le> wrap32 (bb_full_bw_cnt b + 1)) \<rparr>)"

text \<open>The product of bandwidth and delay, in packets.\<close>

definition bdp :: "nat \<Rightarrow> nat \<Rightarrow> BBRRateControl \<Rightarrow> nat" where
  "bdp bw gain b =
     (if min_rtt_us b = U32_MAX then TCP_INIT_CWND
      else wrap32 (div_ceil (wrap64 (wrap64 (bw * min_rtt_us b) * gain) div 2 ^ BBR_SCALE) BW_UNIT))"

definition theory_inflight_limit :: "nat \<Rightarrow> nat \<Rightarrow> BBRRateControl \<Rightarrow> nat" where
  "theory_inflight_limit bw gain b =
     (let n = bdp bw gain b;
          n = (if bb_state b = ProbeBW \<and> cycle_idx b = 0 then wrap32 (n + 2) else n)
      in max n CWND_MIN_TARGET)"

definition check_drain :: "nat \<Rightarrow> BBRRateControl \<Rightarrow> BBRRateControl" where
  "check_drain r b =
     (let b = (if bb_full_bw_reached b \<and> bb_state b = Startup then b\<lparr> update_interval := min_rtt_us b, bb_state := Drain \<rparr> else b)
      in if bb_state b = Drain \<and> th_inflight (throttle b) \<le> theory_inflight_limit (max_bw b) BBR_UNIT b
         then reset_probe_bw_state r b else b)"

definition is_next_cycle_phase :: "BBRRateControl \<Rightarrow> bool" where
  "is_next_cycle_phase b =
     (let is_full_length = (min_rtt_us b < wrap32 (sub64 (th_delivered_time (throttle b)) (cycle_mstamp b)))
      in if bb_pacing_gain b = BBR_UNIT then is_full_length
         else if BBR_UNIT < bb_pacing_gain b
         then is_full_length \<and> theory_inflight_limit (max_bw b) (bb_pacing_gain b) b \<le> th_inflight (throttle b)
         else is_full_length \<or> th_inflight (throttle b) \<le> theory_inflight_limit (max_bw b) BBR_UNIT b)"

definition update_cycle_phase :: "BBRRateControl \<Rightarrow> BBRRateControl" where
  "update_cycle_phase b = (if bb_state b = ProbeBW \<and> is_next_cycle_phase b then advance_cycle_phase b else b)"

definition save_cwnd :: "BBRRateControl \<Rightarrow> BBRRateControl" where
  "save_cwnd b = b\<lparr> prior_cwnd := th_cwnd (throttle b) \<rparr>"

definition update_sampling_interval :: "BBRRateControl \<Rightarrow> BBRRateControl" where
  "update_sampling_interval b =
     (if bb_state b = Startup \<and> min_rtt_us b \<noteq> U32_MAX then b\<lparr> update_interval := min_rtt_us b \<rparr> else b)"

definition reset_startup_state :: "BBRRateControl \<Rightarrow> BBRRateControl" where
  "reset_startup_state b = update_sampling_interval (b\<lparr> bb_state := Startup \<rparr>)"

definition reset_mode :: "nat \<Rightarrow> BBRRateControl \<Rightarrow> BBRRateControl" where
  "reset_mode r b = (if bb_full_bw_reached b then reset_probe_bw_state r b else reset_startup_state b)"

definition bbr_set_throttle_cwnd :: "nat \<Rightarrow> BBRRateControl \<Rightarrow> BBRRateControl" where
  "bbr_set_throttle_cwnd n b = b\<lparr> throttle := (throttle b)\<lparr> th_cwnd := n \<rparr> \<rparr>"

definition check_probe_rtt_done :: "nat \<Rightarrow> nat \<Rightarrow> BBRRateControl \<Rightarrow> BBRRateControl" where
  "check_probe_rtt_done now_ms r b =
     (if probe_rtt_done_stamp b = 0 \<or> now_ms < probe_rtt_done_stamp b then b
      else reset_mode r (bbr_set_throttle_cwnd (max (prior_cwnd b) (th_cwnd (throttle b))) (b\<lparr> min_rtt_stamp := now_ms \<rparr>)))"

text \<open>\<^verbatim>\<open>update_min_rtt\<close>: the new minimum, then entering the mode that measures it, then leaving that mode.\<close>

definition take_min_rtt :: "nat \<Rightarrow> bool \<Rightarrow> nat \<Rightarrow> BBRRateControl \<Rightarrow> BBRRateControl" where
  "take_min_rtt now_ms filter_expired rtt b =
     (if rtt \<noteq> U32_MAX \<and> (rtt < min_rtt_us b \<or> filter_expired) then b\<lparr> min_rtt_us := rtt, min_rtt_stamp := now_ms \<rparr> else b)"

definition enter_probe_rtt :: "bool \<Rightarrow> BBRRateControl \<Rightarrow> BBRRateControl" where
  "enter_probe_rtt filter_expired b =
     (if filter_expired \<and> bb_state b = ProbeBW
      then (save_cwnd (b\<lparr> bb_state := ProbeRtt \<rparr>))\<lparr> probe_rtt_done_stamp := 0, update_interval := min_rtt_us b \<rparr> else b)"

definition update_min_rtt :: "nat \<Rightarrow> nat \<Rightarrow> nat \<Rightarrow> RateSample \<Rightarrow> BBRRateControl \<Rightarrow> BBRRateControl" where
  "update_min_rtt now_ms later_ms r rs b =
     (let filter_expired = (wrap64 (min_rtt_stamp b + RTT_INTERVAL_MS) \<le> now_ms);
          b = enter_probe_rtt filter_expired (take_min_rtt now_ms filter_expired (rtts rs b) b)
      in if bb_state b = ProbeRtt then
           if probe_rtt_done_stamp b = 0 \<and> th_inflight (throttle b) \<le> CWND_MIN_TARGET
           then b\<lparr> probe_rtt_done_stamp := wrap64 (now_ms + PROBE_RTT_MODE_MS) \<rparr>
           else if 0 < probe_rtt_done_stamp b then check_probe_rtt_done later_ms r b
           else b
         else b)"

definition update_gains :: "BBRRateControl \<Rightarrow> BBRRateControl result" where
  "update_gains b =
     (case bb_state b of
        Startup \<Rightarrow> Inr (b\<lparr> bb_cwnd_gain := HIGH_GAIN, bb_pacing_gain := HIGH_GAIN \<rparr>)
      | Drain \<Rightarrow> Inr (b\<lparr> bb_cwnd_gain := HIGH_GAIN, bb_pacing_gain := DRAIN_GAIN \<rparr>)
      | ProbeBW \<Rightarrow>
          if lt_use_bw b then Inr (b\<lparr> bb_cwnd_gain := CWND_GAIN, bb_pacing_gain := BBR_UNIT \<rparr>)
          else if length PACING_GAIN \<le> cycle_idx b then Inl (Panic ''index out of bounds'')
          else Inr (b\<lparr> bb_cwnd_gain := CWND_GAIN, bb_pacing_gain := PACING_GAIN ! cycle_idx b \<rparr>)
      | ProbeRtt \<Rightarrow> Inr (b\<lparr> bb_cwnd_gain := BBR_UNIT, bb_pacing_gain := BBR_UNIT \<rparr>))"

record bbr_env =
  be_us :: nat
  be_info :: "TcpConnectionInfo option"
  be_elapsed :: nat
  be_info' :: "TcpConnectionInfo option"
  be_us' :: nat
  be_us'' :: nat
  be_ms :: nat
  be_ms' :: nat
  be_rand :: nat
  be_rand' :: nat

definition update_model :: "bbr_env \<Rightarrow> RateSample \<Rightarrow> BBRRateControl \<Rightarrow> BBRRateControl result" where
  "update_model ev rs b =
     and_then (bbr_update_bw rs b) (\<lambda>b.
       let b = check_full_bw_reached b;
           b = check_drain (be_rand ev) b;
           b = update_cycle_phase b;
           b = update_min_rtt (be_ms ev) (be_ms' ev) (be_rand' ev) rs b
       in and_then (update_gains b) (\<lambda>b. Inr (update_sampling_interval b)))"

definition bw_to_pacing_rate :: "nat \<Rightarrow> nat \<Rightarrow> BBRRateControl \<Rightarrow> nat" where
  "bw_to_pacing_rate rate gain b =
     (let rate = wrap64 (rate * bb_mss b);
          rate = wrap64 (rate * gain);
          rate = rate div 2 ^ BBR_SCALE;
          rate = wrap64 (rate * (MICROS_PER_SEC div 100 * (100 - PACING_MARGIN_PERCENT)))
      in rate div 2 ^ BW_SCALE)"

definition bbr_set_pacing_rate :: "nat \<Rightarrow> nat \<Rightarrow> BBRRateControl \<Rightarrow> BBRRateControl" where
  "bbr_set_pacing_rate bw gain b =
     (let rate = bw_to_pacing_rate bw gain b in
      if bb_full_bw_reached b \<or> th_pacing_rate (throttle b) < rate
      then b\<lparr> throttle := (throttle b)\<lparr> th_pacing_rate := rate \<rparr> \<rparr> else b)"

definition bbr_set_cwnd :: "nat \<Rightarrow> nat \<Rightarrow> RateSample \<Rightarrow> BBRRateControl \<Rightarrow> BBRRateControl" where
  "bbr_set_cwnd bw gain rs b =
     (let cw = th_cwnd (throttle b);
          target_cwnd = theory_inflight_limit bw gain b;
          cw = (if bb_full_bw_reached b then min target_cwnd (wrap32 (cw + rs_delivered rs))
                else if bb_state b = Startup \<or> cw < target_cwnd \<or> prior_sampling_delivered b < TCP_INIT_CWND
                then wrap32 (cw + rs_delivered rs) else cw);
          cw = max cw CWND_MIN_TARGET;
          cw = (if bb_state b = ProbeRtt then min cw CWND_MIN_TARGET else cw)
      in bbr_set_throttle_cwnd cw b)"

text \<open>
  \<^verbatim>\<open>ack\<close>: the update with a new sample, which is made when the last one is old enough; \<open>be_elapsed\<close> is the time since then. The debug output at the
  end of the function is left out.
\<close>

definition bbr_control :: "bbr_env \<Rightarrow> BBRRateControl \<Rightarrow> BBRRateControl result" where
  "bbr_control ev b =
     and_then (bbr_rate_sample (be_us' ev) (be_us'' ev) (be_info' ev) b) (\<lambda>(rs, b).
     and_then (update_model ev rs b) (\<lambda>b.
       let bw = max_bw b;
           b = bbr_set_pacing_rate bw (bb_pacing_gain b) b
       in Inr (bbr_set_cwnd bw (bb_cwnd_gain b) rs b)))"

definition bbr_ack :: "bbr_env \<Rightarrow> nat \<Rightarrow> BBRRateControl \<Rightarrow> BBRRateControl result" where
  "bbr_ack ev packet_size b =
     and_then (get_inflight (be_us ev) (be_info ev) (bb_mss b)) (\<lambda>infl.
       let b = b\<lparr> throttle := Throttle_ack (be_us ev) packet_size infl (throttle b) \<rparr>
       in if bbr_bw b = 0 \<or> update_interval b \<le> be_elapsed ev then bbr_control ev b else Inr b)"

definition bbr_send :: "nat \<Rightarrow> BBRRateControl \<Rightarrow> nat result \<times> BBRRateControl" where
  "bbr_send packet_size b = (case send_next packet_size (throttle b) of (r, t) \<Rightarrow> (r, b\<lparr> throttle := t \<rparr>))"

section \<open>Invariant\<close>

text \<open>
  Steps of the controller: a packet is sent, or one is acknowledged; an acknowledgement that panics ends the task. The random start
  of a cycle is below \<open>CYCLE\<close>.
\<close>

inductive bbr_step :: "BBRRateControl \<Rightarrow> BBRRateControl \<Rightarrow> bool" where
  bbr_step_send: "bbr_send n b = (r, b') \<Longrightarrow> bbr_step b b'"
| bbr_step_ack: "\<lbrakk> be_rand ev < CYCLE; be_rand' ev < CYCLE; bbr_ack ev n b = Inr b' \<rbrakk> \<Longrightarrow> bbr_step b b'"

inductive bbr_reach :: "BBRRateControl \<Rightarrow> bool" where
  bbr_start: "bbr_reach (BBRRateControl_new now mss)"
| bbr_next: "bbr_reach b \<Longrightarrow> bbr_step b b' \<Longrightarrow> bbr_reach b'"

inductive_cases bbr_stepE: "bbr_step b b'"

text \<open>
  The part that holds throughout an update, where \<open>q\<close> says that the controller has left \<open>Startup\<close>, and the part about the
  window and the gains that holds between updates.
\<close>

definition mode_ok :: "bool \<Rightarrow> BBRRateControl \<Rightarrow> bool" where
  "mode_ok q b \<longleftrightarrow> (q \<longrightarrow> bb_state b \<noteq> Startup) \<and> cycle_idx b < CYCLE \<and> (bb_state b \<noteq> Startup \<longrightarrow> bb_full_bw_reached b) \<and> \<not> lt_use_bw b"

definition gain_ok :: "BBRRateControl \<Rightarrow> bool" where
  "gain_ok b \<longleftrightarrow>
     (case bb_state b of
        Startup \<Rightarrow> bb_pacing_gain b = HIGH_GAIN \<and> bb_cwnd_gain b = HIGH_GAIN
      | Drain \<Rightarrow> bb_pacing_gain b = DRAIN_GAIN \<and> bb_cwnd_gain b = HIGH_GAIN
      | ProbeBW \<Rightarrow> bb_pacing_gain b = PACING_GAIN ! cycle_idx b \<and> bb_cwnd_gain b = CWND_GAIN
      | ProbeRtt \<Rightarrow> bb_pacing_gain b = BBR_UNIT \<and> bb_cwnd_gain b = BBR_UNIT)"

definition window_ok :: "BBRRateControl \<Rightarrow> bool" where
  "window_ok b \<longleftrightarrow> CWND_MIN_TARGET \<le> th_cwnd (throttle b) \<and> (bb_state b = ProbeRtt \<longrightarrow> th_cwnd (throttle b) = CWND_MIN_TARGET)"

definition bbr_inv :: "bool \<Rightarrow> BBRRateControl \<Rightarrow> bool" where
  "bbr_inv q b \<longleftrightarrow> mode_ok q b \<and> gain_ok b \<and> window_ok b"

lemma and_mask_7: "n AND 7 < (8 :: nat)"
  using take_bit_nat_less_exp [of 3 n] by (simp add: take_bit_eq_mask mask_eq_exp_minus_1)

lemma mode_ok_advance [intro]: "mode_ok q b \<Longrightarrow> mode_ok q (advance_cycle_phase b)"
  using and_mask_7 by (simp add: mode_ok_def advance_cycle_phase_def CYCLE_def)

lemma mode_ok_reset_probe_bw: "bb_full_bw_reached b \<Longrightarrow> \<not> lt_use_bw b \<Longrightarrow> mode_ok q (reset_probe_bw_state r b)"
  using and_mask_7 by (simp add: mode_ok_def reset_probe_bw_state_def advance_cycle_phase_def CYCLE_def)

lemma mode_ok_update_bw: "bbr_update_bw rs b = Inr b' \<Longrightarrow> mode_ok q b \<Longrightarrow> mode_ok q b'"
  by (auto simp: bbr_update_bw_def mode_ok_def Let_def split: if_splits)

lemma mode_ok_full_bw: "mode_ok q b \<Longrightarrow> mode_ok q (check_full_bw_reached b)"
  by (auto simp: check_full_bw_reached_def mode_ok_def Let_def)

lemma mode_ok_drain: "mode_ok q b \<Longrightarrow> mode_ok q (check_drain r b)"
  by (auto simp: check_drain_def Let_def intro!: mode_ok_reset_probe_bw) (auto simp: mode_ok_def)

lemma mode_ok_cycle: "mode_ok q b \<Longrightarrow> mode_ok q (update_cycle_phase b)"
  by (auto simp: update_cycle_phase_def)

lemma mode_ok_probe_rtt_done: "mode_ok q b \<Longrightarrow> bb_state b = ProbeRtt \<Longrightarrow> mode_ok q (check_probe_rtt_done now r b)"
  using mode_ok_reset_probe_bw [of "bbr_set_throttle_cwnd (max (prior_cwnd b) (th_cwnd (throttle b))) (b\<lparr> min_rtt_stamp := now \<rparr>)" q r]
  by (simp add: check_probe_rtt_done_def reset_mode_def bbr_set_throttle_cwnd_def mode_ok_def)

lemma mode_ok_enter: "mode_ok q b \<Longrightarrow> mode_ok q (enter_probe_rtt e (take_min_rtt now e rtt b))"
  by (simp add: mode_ok_def enter_probe_rtt_def take_min_rtt_def save_cwnd_def)

lemma mode_ok_done_stamp: "mode_ok q (b\<lparr> probe_rtt_done_stamp := v \<rparr>) = mode_ok q b"
  by (simp add: mode_ok_def)

lemma mode_ok_min_rtt: "mode_ok q b \<Longrightarrow> mode_ok q (update_min_rtt now later r rs b)"
  by (simp add: update_min_rtt_def Let_def mode_ok_enter mode_ok_done_stamp mode_ok_probe_rtt_done)

lemma update_gains_total: "mode_ok q b \<Longrightarrow> \<exists>b'. update_gains b = Inr b' \<and> mode_ok q b' \<and> gain_ok b' \<and> bb_full_bw_reached b' = bb_full_bw_reached b"
  by (auto simp: update_gains_def mode_ok_def gain_ok_def CYCLE_def PACING_GAIN_def split: bbr_mode.splits)

lemma sample_mode_ok: "bbr_rate_sample n l info b = Inr (rs, b') \<Longrightarrow> mode_ok q b \<Longrightarrow> mode_ok q b'"
  by (auto simp: bbr_rate_sample_def mode_ok_def Let_def split: option.splits prod.splits)

lemma update_model_ok: "update_model ev rs b = Inr b' \<Longrightarrow> mode_ok q b \<Longrightarrow> mode_ok q b' \<and> gain_ok b'"
proof -
  assume u: "update_model ev rs b = Inr b'" and m: "mode_ok q b"
  then obtain b1 where b1: "bbr_update_bw rs b = Inr b1" by (auto simp: update_model_def and_then_Inr_iff)
  define b2 where "b2 = update_min_rtt (be_ms ev) (be_ms' ev) (be_rand' ev) rs (update_cycle_phase (check_drain (be_rand ev) (check_full_bw_reached b1)))"
  have "mode_ok q b2" using mode_ok_update_bw [OF b1 m] by (simp add: b2_def mode_ok_min_rtt mode_ok_cycle mode_ok_drain mode_ok_full_bw)
  then obtain b3 where b3: "update_gains b2 = Inr b3" "mode_ok q b3" "gain_ok b3" using update_gains_total by blast
  then have "b' = update_sampling_interval b3" using u b1 by (simp add: update_model_def b2_def Let_def)
  then show ?thesis using b3(2,3) by (auto simp: update_sampling_interval_def mode_ok_def gain_ok_def)
qed

lemma throttle_free [simp]:
  "mode_ok q (b\<lparr> throttle := t \<rparr>) = mode_ok q b" "gain_ok (b\<lparr> throttle := t \<rparr>) = gain_ok b"
  "window_ok (b\<lparr> throttle := t \<rparr>) \<longleftrightarrow> CWND_MIN_TARGET \<le> th_cwnd t \<and> (bb_state b = ProbeRtt \<longrightarrow> th_cwnd t = CWND_MIN_TARGET)"
  by (simp_all add: mode_ok_def gain_ok_def window_ok_def cong: bbr_mode.case_cong)

lemma pacing_throttle: "\<exists>t. bbr_set_pacing_rate bw g b = b\<lparr> throttle := t \<rparr>"
  by (auto simp: bbr_set_pacing_rate_def Let_def intro: exI [of _ "throttle b"])

lemma set_cwnd_ok: "mode_ok q b \<Longrightarrow> gain_ok b \<Longrightarrow> bbr_inv q (bbr_set_cwnd bw g rs (bbr_set_pacing_rate bw g' b))"
  using pacing_throttle [of bw g' b] by (auto simp: bbr_inv_def bbr_set_cwnd_def bbr_set_throttle_cwnd_def Let_def)

lemma inv_throttle: "bbr_inv q b \<Longrightarrow> th_cwnd t = th_cwnd (throttle b) \<Longrightarrow> bbr_inv q (b\<lparr> throttle := t \<rparr>)"
  by (simp add: bbr_inv_def) (simp add: window_ok_def)

lemma control_inv:
  assumes "bbr_control ev b = Inr b'" and "mode_ok q b"
  shows "bbr_inv q b'"
proof -
  obtain rs b2 b3 where "bbr_rate_sample (be_us' ev) (be_us'' ev) (be_info' ev) b = Inr (rs, b2)" "update_model ev rs b2 = Inr b3"
    and b': "b' = bbr_set_cwnd (max_bw b3) (bb_cwnd_gain (bbr_set_pacing_rate (max_bw b3) (bb_pacing_gain b3) b3)) rs
      (bbr_set_pacing_rate (max_bw b3) (bb_pacing_gain b3) b3)"
    using assms(1) by (auto simp: bbr_control_def and_then_Inr_iff Let_def)
  then have "mode_ok q b3 \<and> gain_ok b3" using assms(2) sample_mode_ok update_model_ok by blast
  then show ?thesis unfolding b' using set_cwnd_ok by blast
qed

lemma ack_inv:
  assumes "bbr_ack ev n b = Inr b'" and "bbr_inv q b"
  shows "bbr_inv q b'"
proof -
  obtain infl where i: "get_inflight (be_us ev) (be_info ev) (bb_mss b) = Inr infl"
    using assms(1) by (auto simp: bbr_ack_def and_then_Inr_iff)
  let ?b = "b\<lparr> throttle := Throttle_ack (be_us ev) n infl (throttle b) \<rparr>"
  have b1: "bbr_inv q ?b" using assms(2) by (rule inv_throttle) (simp add: Throttle_ack_def)
  have "bbr_control ev ?b = Inr b' \<or> b' = ?b"
    using assms(1) unfolding bbr_ack_def i Let_def and_then_simps by (metis sum.inject(2))
  then show ?thesis using b1 control_inv unfolding bbr_inv_def by blast
qed

lemma step_inv: "bbr_step b b' \<Longrightarrow> bbr_inv q b \<Longrightarrow> bbr_inv q b'"
  by (erule bbr_stepE)
    (auto simp: bbr_send_def send_next_def sent_app_limited_def Let_def intro: ack_inv intro!: inv_throttle split: if_splits)

lemma reach_inv: "bbr_reach b \<Longrightarrow> bbr_inv False b"
proof (induction rule: bbr_reach.induct)
  case (bbr_start now mss)
  show ?case
    by (simp add: bbr_inv_def mode_ok_def gain_ok_def window_ok_def BBRRateControl_new_def CYCLE_def CWND_MIN_TARGET_def TCP_INIT_CWND_def)
next
  case (bbr_next b b')
  then show ?case using step_inv by blast
qed

section \<open>Properties\<close>

text \<open>
  C33. After any sequence of sends and acknowledgements the window of the controller has at least four packets, exactly four while the
  round trip time is measured; the gains are the ones of the mode; the controller leaves the start-up mode only when the bandwidth
  limit was reached and never returns to it; and the table of gains is indexed within its bounds.
\<close>

theorem bbr_mode_invariant:
  assumes "bbr_reach b" and "bbr_step b b'"
  shows "CWND_MIN_TARGET \<le> th_cwnd (throttle b) \<and> (bb_state b = ProbeRtt \<longrightarrow> th_cwnd (throttle b) = CWND_MIN_TARGET)
    \<and> gain_ok b \<and> cycle_idx b < length PACING_GAIN
    \<and> (bb_state b \<noteq> Startup \<longrightarrow> bb_full_bw_reached b \<and> bb_state b' \<noteq> Startup)"
proof -
  have inv: "bbr_inv False b" using assms(1) by (rule reach_inv)
  have "bb_state b' \<noteq> Startup" if "bb_state b \<noteq> Startup"
  proof -
    have "bbr_inv True b" using inv that by (simp add: bbr_inv_def mode_ok_def)
    from step_inv [OF assms(2) this] show ?thesis by (simp add: bbr_inv_def mode_ok_def)
  qed
  with inv show ?thesis by (simp add: bbr_inv_def mode_ok_def window_ok_def CYCLE_def PACING_GAIN_def)
qed

theorem bbr_mode_invariant_witness:
  "CWND_MIN_TARGET \<le> th_cwnd (throttle (BBRRateControl_new 5 1448)) \<and> gain_ok (BBRRateControl_new 5 1448)
    \<and> cycle_idx (BBRRateControl_new 5 1448) < length PACING_GAIN"
  using bbr_mode_invariant [OF bbr_start bbr_step_send [OF surjective_pairing]] by simp

end
