(* ===== verification/Pe_Crypto.thy ===== *)
theory Pe_Crypto
  imports Peer_Wire
begin

text \<open>
  The encrypted transport of a peer: the Diffie-Hellman handshake of the initiating side
  (\<^verbatim>\<open>bt/pe_crypto.rs\<close>), the socket wrapper that encrypts what is written and decrypts what is read
  (\<^verbatim>\<open>bt/socket.rs\<close>), the timed reads of \<^verbatim>\<open>doro-util/src/net.rs\<close> and the start of a peer
  (\<^verbatim>\<open>BasePeer::do_async_run\<close>), which composes them with the protocol handshake.

  The SHA-1 and RC4 packages and the big integers are parameters, collected in \<open>pe_lib\<close>; a cipher is the key it was
  made from and the number of bytes it has processed, and applying it combines the data with the
  key stream from there on. What arrives on a socket is a list of events; at the end of the
  list the other side has closed the connection.
\<close>

section \<open>Sockets\<close>

datatype arrival = Arrive bytes | Quiet | TimedOut | Broken string

record socket =
  sk_in :: "arrival list"
  sk_out :: bytes
  sk_writes :: "bool list"

text \<open>
  One read into a buffer of \<open>n\<close> bytes. \<open>Quiet\<close> separates what is already there from what comes later, and a
  read with a time limit fails at \<open>TimedOut\<close>.
\<close>

fun sk_read :: "bool \<Rightarrow> nat \<Rightarrow> arrival list \<Rightarrow> bytes result \<times> arrival list" where
  "sk_read timed n [] = (Inr [], [])"
| "sk_read timed n (Quiet # as) = sk_read timed n as"
| "sk_read timed n (TimedOut # as) = (if timed then (Inl (Err ''read timeout''), as) else sk_read timed n as)"
| "sk_read timed n (Broken e # as) = (Inl (Err e), as)"
| "sk_read timed n (Arrive bs # as) = (Inr (take n bs), (if length bs \<le> n then as else Arrive (drop n bs) # as))"

function read_exact :: "nat \<Rightarrow> bytes \<Rightarrow> arrival list \<Rightarrow> bytes result \<times> arrival list" where
  "read_exact n acc as =
     (if n = 0 then (Inr acc, as)
      else
        (case sk_read True n as of
           (Inl e, as) \<Rightarrow> (Inl e, as)
         | (Inr bs, as) \<Rightarrow>
             if bs = [] then (Inl (Err ''unexpected end of file''), as)
             else read_exact (n - length bs) (acc @ bs) as))"
  by pat_completeness auto
termination
  by (relation "measure (\<lambda>(n, acc, as). n)") auto

declare read_exact.simps [simp del]

text \<open>The loop of \<^verbatim>\<open>read_extra_with_timeout\<close> that throws away what has already arrived.\<close>

fun drain :: "arrival list \<Rightarrow> nat result \<times> arrival list" where
  "drain [] = (Inr 0, [])"
| "drain (Quiet # as) = (Inr 0, as)"
| "drain (TimedOut # as) = (Inr 0, TimedOut # as)"
| "drain (Broken e # as) = (Inl (Err e), as)"
| "drain (Arrive bs # as) =
     (if bs = [] then (Inr 0, as)
      else (case drain as of (Inl e, as) \<Rightarrow> (Inl e, as) | (Inr k, as) \<Rightarrow> (Inr (length bs + k), as)))"

definition read_extra :: "nat \<Rightarrow> arrival list \<Rightarrow> (bytes \<times> nat) result \<times> arrival list" where
  "read_extra n as =
     (case read_exact n [] as of
        (Inl e, as) \<Rightarrow> (Inl e, as)
      | (Inr bs, as) \<Rightarrow>
          (case drain as of (Inl e, as) \<Rightarrow> (Inl e, as) | (Inr k, as) \<Rightarrow> (Inr (bs, k), as)))"

definition sk_write :: "bytes \<Rightarrow> socket \<Rightarrow> unit result \<times> socket" where
  "sk_write bs s =
     (case sk_writes s of
        False # ws \<Rightarrow> (Inl (Err ''write failed''), s\<lparr> sk_writes := ws \<rparr>)
      | ws \<Rightarrow> (Inr (), s\<lparr> sk_out := sk_out s @ bs, sk_writes := tl ws \<rparr>))"

section \<open>Ciphers\<close>

record pe_lib =
  lib_sha1 :: "bytes \<Rightarrow> bytes"
  lib_keystream :: "bytes \<Rightarrow> nat \<Rightarrow> u8"
  lib_modpow :: "nat \<Rightarrow> nat \<Rightarrow> nat \<Rightarrow> nat"
  lib_from_be :: "bytes \<Rightarrow> nat"
  lib_to_be :: "nat \<Rightarrow> bytes"

record Rc4Cipher =
  rc_key :: bytes
  rc_pos :: nat

fun xor_stream :: "(nat \<Rightarrow> u8) \<Rightarrow> nat \<Rightarrow> bytes \<Rightarrow> bytes" where
  "xor_stream ks p [] = []"
| "xor_stream ks p (b # bs) = (b XOR ks p) # xor_stream ks (Suc p) bs"

definition apply_keystream :: "pe_lib \<Rightarrow> Rc4Cipher \<Rightarrow> bytes \<Rightarrow> bytes \<times> Rc4Cipher" where
  "apply_keystream lib c bs =
     (xor_stream (lib_keystream lib (rc_key c)) (rc_pos c) bs, c\<lparr> rc_pos := rc_pos c + length bs \<rparr>)"

definition encrypt_payload :: "pe_lib \<Rightarrow> Rc4Cipher \<Rightarrow> bytes \<Rightarrow> bytes \<times> Rc4Cipher" where
  "encrypt_payload = apply_keystream"

definition decrypt_payload :: "pe_lib \<Rightarrow> Rc4Cipher \<Rightarrow> bytes \<Rightarrow> bytes \<times> Rc4Cipher" where
  "decrypt_payload = apply_keystream"

section \<open>Keys\<close>

definition PRIME :: nat where
  "PRIME = 0xFFFFFFFFFFFFFFFFC90FDAA22168C234C4C6628B80DC1CD129024E088A67CC74020BBEA63B139B22514A08798E3404DDEF9519B3CD3A431B302B0A6DF25F14374FE1356D6D51C245E485B576625E7EC6F44C42E9A63A36210000000000090563"

definition G :: nat where "G = 2"

definition SHARE_KEY_LEN :: nat where "SHARE_KEY_LEN = 96"
definition PAD_MAX_LEN :: nat where "PAD_MAX_LEN = 512"
definition VC_MAX_OFFSET :: nat where "VC_MAX_OFFSET = 616"
definition VC :: bytes where "VC = replicate 8 0"
definition CRYPTO_OPTION_LEN :: nat where "CRYPTO_OPTION_LEN = 4"
definition PAD_LEN_UNIT :: nat where "PAD_LEN_UNIT = 2"
definition DISCARD :: bytes where "DISCARD = replicate 1024 0"

datatype CryptoProvide = PlaintextProvide | Rc4Provide

fun provide_bits :: "CryptoProvide \<Rightarrow> nat" where
  "provide_bits PlaintextProvide = 1"
| "provide_bits Rc4Provide = 2"

datatype KeyType = KeyA | KeyB

fun KeyType_as_bytes :: "KeyType \<Rightarrow> bytes" where
  "KeyType_as_bytes KeyA = ascii ''keyA''"
| "KeyType_as_bytes KeyB = ascii ''keyB''"

definition generate_public_key :: "pe_lib \<Rightarrow> nat \<Rightarrow> nat" where
  "generate_public_key lib lprk = lib_modpow lib G lprk PRIME"

text \<open>\<open>seed\<close> are the random bytes of the private key.\<close>

definition generate_key_pair :: "pe_lib \<Rightarrow> bytes \<Rightarrow> nat \<times> nat" where
  "generate_key_pair lib seed = (let lprk = lib_from_be lib seed in (lprk, generate_public_key lib lprk))"

definition send_local_public_key :: "pe_lib \<Rightarrow> nat \<Rightarrow> bytes \<Rightarrow> bytes" where
  "send_local_public_key lib lpuk pad = lib_to_be lib lpuk @ pad"

definition compute_secret :: "pe_lib \<Rightarrow> bytes \<Rightarrow> nat \<Rightarrow> nat result" where
  "compute_secret lib data lprk =
     (if length data < SHARE_KEY_LEN then Inl (Panic ''data len is too short'')
      else Inr (lib_modpow lib (lib_from_be lib (take SHARE_KEY_LEN data)) lprk PRIME))"

definition pe_hash :: "pe_lib \<Rightarrow> bytes list \<Rightarrow> bytes" where
  "pe_hash lib ds = lib_sha1 lib (concat ds)"

definition encrypt_key :: "pe_lib \<Rightarrow> KeyType \<Rightarrow> nat \<Rightarrow> bytes \<Rightarrow> bytes" where
  "encrypt_key lib kt s skey = pe_hash lib [KeyType_as_bytes kt, lib_to_be lib s, skey]"

definition generate_cipher :: "pe_lib \<Rightarrow> nat \<Rightarrow> bytes \<Rightarrow> KeyType \<Rightarrow> Rc4Cipher" where
  "generate_cipher lib s skey kt =
     snd (apply_keystream lib \<lparr> rc_key = encrypt_key lib kt s skey, rc_pos = 0 \<rparr> DISCARD)"

section \<open>The handshake packets\<close>

definition encrypt_a2b_handshake_packet ::
  "pe_lib \<Rightarrow> Rc4Cipher \<Rightarrow> nat \<Rightarrow> bytes \<Rightarrow> bytes \<Rightarrow> nat \<Rightarrow> bytes \<Rightarrow> bytes \<Rightarrow> bytes \<times> Rc4Cipher" where
  "encrypt_a2b_handshake_packet lib rc4 s skey vc provide pad_c ia =
     (let s_bytes = lib_to_be lib s;
          hash_req1 = pe_hash lib [ascii ''req1'', s_bytes];
          hash_xor = map2 (\<lambda>a b. a XOR b) (pe_hash lib [ascii ''req2'', skey]) (pe_hash lib [ascii ''req3'', s_bytes]);
          rha = vc @ to_be_bytes 4 provide @ to_be_bytes 2 (length pad_c mod 2 ^ 16) @ pad_c @ to_be_bytes 2 (length ia mod 2 ^ 16);
          (rha, rc4) = apply_keystream lib rc4 rha;
          (ia, rc4) = apply_keystream lib rc4 ia
      in (hash_req1 @ hash_xor @ rha @ ia, rc4))"

text \<open>Reading until the buffer holds \<open>n\<close> bytes, and decrypting \<open>n\<close> bytes of it from position \<open>pos\<close>.\<close>

definition read_up_to :: "string \<Rightarrow> nat \<Rightarrow> bytes \<Rightarrow> arrival list \<Rightarrow> bytes result \<times> arrival list" where
  "read_up_to msg n recv as =
     (if length recv < n then
        (case read_exact (n - length recv) [] as of
           (Inl e, as) \<Rightarrow> (Inl (Err msg), as)
         | (Inr bs, as) \<Rightarrow> (Inr (recv @ bs), as))
      else (Inr recv, as))"

definition decrypt_range :: "pe_lib \<Rightarrow> nat \<Rightarrow> nat \<Rightarrow> Rc4Cipher \<Rightarrow> bytes \<Rightarrow> bytes \<times> Rc4Cipher" where
  "decrypt_range lib pos n c recv =
     (case apply_keystream lib c (take n (drop pos recv)) of (bs, c) \<Rightarrow> (take pos recv @ bs @ drop (pos + n) recv, c))"

text \<open>The search for the verification constant: eight bytes at a time, each block decrypted once.\<close>

function vc_loop :: "pe_lib \<Rightarrow> nat \<Rightarrow> arrival list \<Rightarrow> Rc4Cipher \<Rightarrow> bytes \<Rightarrow> (nat \<times> bytes) result \<times> arrival list \<times> Rc4Cipher" where
  "vc_loop lib pos as c recv =
     (if VC_MAX_OFFSET \<le> pos then (Inr (pos, recv), as, c)
      else
        (case read_up_to ''vc data is short'' (pos + 8) recv as of
           (Inl e, as) \<Rightarrow> (Inl e, as, c)
         | (Inr recv, as) \<Rightarrow>
             (case decrypt_range lib pos 8 c recv of
                (recv, c) \<Rightarrow>
                  if take 8 (drop pos recv) = VC then (Inr (pos, recv), as, c)
                  else vc_loop lib (pos + 8) as c recv)))"
  by pat_completeness auto
termination
  by (relation "measure (\<lambda>(lib, pos, as, c, recv). VC_MAX_OFFSET - pos)") auto

declare vc_loop.simps [simp del]

text \<open>
  The fields after the constant. When they have not been read yet the length of the missing part is computed as
  \<^verbatim>\<open>CRYPTO_OPTION_LEN + PAD_LEN_UNIT - recv.len()\<close>, which is below zero because the buffer already holds the eight
  bytes of the constant: the subtraction, or in a release build the allocation of that many bytes, panics.
\<close>

definition select_read :: "nat \<Rightarrow> bytes \<Rightarrow> arrival list \<Rightarrow> bytes result \<times> arrival list" where
  "select_read pos recv as =
     (if length recv < pos + CRYPTO_OPTION_LEN + PAD_LEN_UNIT then
        if CRYPTO_OPTION_LEN + PAD_LEN_UNIT < length recv then (Inl (Panic ''capacity overflow''), as)
        else
          (case read_exact (CRYPTO_OPTION_LEN + PAD_LEN_UNIT - length recv) [] as of
             (Inl e, as) \<Rightarrow> (Inl (Err ''crypto_select and len(padD) are short''), as)
           | (Inr bs, as) \<Rightarrow> (Inr (recv @ bs), as))
      else (Inr recv, as))"

definition select_of :: "nat \<Rightarrow> CryptoProvide result" where
  "select_of v =
     (if v AND provide_bits Rc4Provide \<noteq> 0 then Inr Rc4Provide
      else if v AND provide_bits PlaintextProvide \<noteq> 0 then Inr PlaintextProvide
      else Inl (Err ''unsupported crypto method''))"

definition decrypt_b2a_handshake_packet ::
  "pe_lib \<Rightarrow> arrival list \<Rightarrow> Rc4Cipher \<Rightarrow> bytes \<Rightarrow> (CryptoProvide \<times> nat \<times> bytes) result \<times> arrival list \<times> Rc4Cipher" where
  "decrypt_b2a_handshake_packet lib as c recv =
     (case vc_loop lib 0 as c recv of
        (Inl e, as, c) \<Rightarrow> (Inl e, as, c)
      | (Inr (pos, recv), as, c) \<Rightarrow>
          if VC_MAX_OFFSET \<le> pos then (Inl (Err ''no VC found''), as, c)
          else
            (let pos = pos + 8 in
             case select_read pos recv as of
               (Inl e, as) \<Rightarrow> (Inl e, as, c)
             | (Inr recv, as) \<Rightarrow>
                 (case decrypt_range lib pos (CRYPTO_OPTION_LEN + PAD_LEN_UNIT) c recv of
                    (recv, c) \<Rightarrow>
                      (let sel = from_be_slice 4 (take CRYPTO_OPTION_LEN (drop pos recv));
                           pad_d_len = from_be_slice 2 (take PAD_LEN_UNIT (drop (pos + CRYPTO_OPTION_LEN) recv));
                           pos = pos + CRYPTO_OPTION_LEN + PAD_LEN_UNIT
                       in case select_of sel of
                            Inl e \<Rightarrow> (Inl e, as, c)
                          | Inr cs \<Rightarrow>
                              (case read_up_to ''padD is short'' (pos + pad_d_len) recv as of
                                 (Inl e, as) \<Rightarrow> (Inl e, as, c)
                               | (Inr recv, as) \<Rightarrow>
                                   (case decrypt_range lib pos pad_d_len c recv of
                                      (recv, c) \<Rightarrow>
                                        (let pos = pos + pad_d_len in
                                         if cs = Rc4Provide then
                                           (case decrypt_range lib pos (length recv - pos) c recv of
                                              (recv, c) \<Rightarrow> (Inr (cs, pos, recv), as, c))
                                         else (Inr (cs, pos, recv), as, c))))))))"

section \<open>The wrapped socket\<close>

datatype Crypto = Plaintext | Rc4 Rc4Cipher

record TcpStreamWrapper =
  tw_stream :: socket
  tw_lc :: Crypto
  tw_rc :: Crypto

fun crypto_apply :: "pe_lib \<Rightarrow> Crypto \<Rightarrow> bytes \<Rightarrow> bytes \<times> Crypto" where
  "crypto_apply lib Plaintext bs = (bs, Plaintext)"
| "crypto_apply lib (Rc4 c) bs = (case apply_keystream lib c bs of (bs, c) \<Rightarrow> (bs, Rc4 c))"

definition wrapper_read :: "pe_lib \<Rightarrow> nat \<Rightarrow> TcpStreamWrapper \<Rightarrow> bytes result \<times> TcpStreamWrapper" where
  "wrapper_read lib n w =
     (case sk_read False n (sk_in (tw_stream w)) of
        (Inl e, as) \<Rightarrow> (Inl e, w\<lparr> tw_stream := (tw_stream w)\<lparr> sk_in := as \<rparr> \<rparr>)
      | (Inr bs, as) \<Rightarrow>
          (case crypto_apply lib (tw_rc w) bs of
             (bs, rc) \<Rightarrow> (Inr bs, w\<lparr> tw_stream := (tw_stream w)\<lparr> sk_in := as \<rparr>, tw_rc := rc \<rparr>)))"

definition wrapper_write_all :: "pe_lib \<Rightarrow> bytes \<Rightarrow> TcpStreamWrapper \<Rightarrow> unit result \<times> TcpStreamWrapper" where
  "wrapper_write_all lib bs w =
     (case crypto_apply lib (tw_lc w) bs of
        (bs, lc) \<Rightarrow> (case sk_write bs (tw_stream w) of (r, s) \<Rightarrow> (r, w\<lparr> tw_stream := s, tw_lc := lc \<rparr>)))"

text \<open>
  \<^verbatim>\<open>OwnedReadHalfExt::poll_read\<close> decrypts the whole filled part of the buffer, \<open>filled\<close> being there before the read.
\<close>

definition half_poll_read :: "pe_lib \<Rightarrow> bytes \<Rightarrow> bytes \<Rightarrow> Crypto \<Rightarrow> bytes \<times> Crypto" where
  "half_poll_read lib filled arrived c = crypto_apply lib c (filled @ arrived)"

definition half_write_all :: "pe_lib \<Rightarrow> bytes \<Rightarrow> socket \<times> Crypto \<Rightarrow> unit result \<times> socket \<times> Crypto" where
  "half_write_all lib bs = (\<lambda>(s, c). case crypto_apply lib c bs of (bs, c) \<Rightarrow> (case sk_write bs s of (r, s) \<Rightarrow> (r, s, c)))"

text \<open>
  The reading half of a connection as the stream that \<open>reader_poll\<close> consumes: every read fills a fresh buffer.
\<close>

fun decrypt_stream :: "pe_lib \<Rightarrow> Crypto \<Rightarrow> stream \<Rightarrow> stream" where
  "decrypt_stream lib c [] = []"
| "decrypt_stream lib c (IoError e # evs) = IoError e # decrypt_stream lib c evs"
| "decrypt_stream lib c (Data bs # evs) = (case half_poll_read lib [] bs c of (bs, c) \<Rightarrow> Data bs # decrypt_stream lib c evs)"

text \<open>
  \<^verbatim>\<open>WriteFuture::run\<close> on the messages \<open>msgs\<close> sent to its channel; the result counts the exits that it reports.
\<close>

fun write_run :: "pe_lib \<Rightarrow> bytes list \<Rightarrow> socket \<times> Crypto \<Rightarrow> nat \<times> socket \<times> Crypto" where
  "write_run lib [] w = (0, w)"
| "write_run lib (m # msgs) w =
     (case half_write_all lib m w of (r, w) \<Rightarrow>
        (case write_run lib msgs w of (k, w) \<Rightarrow> ((case r of Inl _ \<Rightarrow> Suc k | Inr _ \<Rightarrow> k), w)))"

section \<open>Handshakes\<close>

text \<open>\<open>seed\<close> and \<open>pad\<close> are the random bytes of the private key and of the padding.\<close>

definition init_handshake ::
  "pe_lib \<Rightarrow> bytes \<Rightarrow> bytes \<Rightarrow> socket \<Rightarrow> bytes \<Rightarrow> CryptoProvide \<Rightarrow> TcpStreamWrapper result" where
  "init_handshake lib seed pad sock skey cp =
     (if cp = PlaintextProvide then Inr \<lparr> tw_stream = sock, tw_lc = Plaintext, tw_rc = Plaintext \<rparr>
      else
        (let (lprk, lpuk) = generate_key_pair lib seed in
         case sk_write (send_local_public_key lib lpuk pad) sock of
           (Inl e, sock) \<Rightarrow> Inl e
         | (Inr _, sock) \<Rightarrow>
             (case read_extra SHARE_KEY_LEN (sk_in sock) of
                (Inl e, as) \<Rightarrow> Inl e
              | (Inr (recv, extra), as) \<Rightarrow>
                  if PAD_MAX_LEN < extra then Inl (Err ''more than 608 bytes'')
                  else
                    and_then (compute_secret lib recv lprk) (\<lambda>s.
                      let local_cipher = generate_cipher lib s skey KeyA;
                          remote_cipher = generate_cipher lib s skey KeyB;
                          (data, local_cipher) = encrypt_a2b_handshake_packet lib local_cipher s skey VC (provide_bits cp) [] []
                      in case sk_write data (sock\<lparr> sk_in := as \<rparr>) of
                           (Inl e, sock) \<Rightarrow> Inl e
                         | (Inr _, sock) \<Rightarrow>
                             (case sk_read True 1134 (sk_in sock) of
                                (Inl e, as) \<Rightarrow> Inl e
                              | (Inr recv, as) \<Rightarrow>
                                  (case decrypt_b2a_handshake_packet lib as remote_cipher recv of
                                     (Inl e, as, rc) \<Rightarrow> Inl e
                                   | (Inr (cs, _, _), as, remote_cipher) \<Rightarrow>
                                       let (lc, rc) = (if cs = Rc4Provide then (Rc4 local_cipher, Rc4 remote_cipher) else (Plaintext, Plaintext))
                                       in Inr \<lparr> tw_stream = sock\<lparr> sk_in := as \<rparr>, tw_lc = lc, tw_rc = rc \<rparr>))))))"

definition crypto_handshake :: "pe_lib \<Rightarrow> bytes \<Rightarrow> bytes \<Rightarrow> bytes \<Rightarrow> socket \<Rightarrow> TcpStreamWrapper result" where
  "crypto_handshake lib seed pad ih sock = init_handshake lib seed pad sock ih Rc4Provide"

text \<open>
  \<^verbatim>\<open>BasePeer::protocol_handshake\<close> on a wrapped socket: the message is sent, and one read has to return the answer;
  the result is the identifier and the reserved bits of the other side.
\<close>

definition socket_handshake :: "pe_lib \<Rightarrow> bytes \<Rightarrow> bytes \<Rightarrow> TcpStreamWrapper \<Rightarrow> (bytes \<times> nat \<times> TcpStreamWrapper) result" where
  "socket_handshake lib ih own_id w =
     (let own = handshake_bytes ih own_id in
      case wrapper_write_all lib own w of
        (Inl e, w) \<Rightarrow> Inl e
      | (Inr _, w) \<Rightarrow>
          (case wrapper_read lib (length own) w of
             (Inl e, w) \<Rightarrow> Inl e
           | (Inr resp, w) \<Rightarrow> and_then (protocol_handshake own ih resp) (\<lambda>(pid, rs). Inr (pid, rs, w))))"

text \<open>
  \<^verbatim>\<open>do_async_run\<close> up to the start of the listeners: \<open>conn\<close> is the outcome of connecting.
\<close>

definition peer_connect :: "pe_lib \<Rightarrow> bytes \<Rightarrow> bytes \<Rightarrow> bytes \<Rightarrow> bytes \<Rightarrow> socket result \<Rightarrow> (bytes \<times> nat \<times> TcpStreamWrapper) result" where
  "peer_connect lib seed pad ih own_id conn =
     and_then conn (\<lambda>sock.
     and_then (crypto_handshake lib seed pad ih sock) (\<lambda>w.
     socket_handshake lib ih own_id w))"

section \<open>Stream ciphers\<close>

text \<open>
  What the connection relies on of its cipher: it keeps the length, processing data in parts is processing it at once,
  and applying it twice from the same state gives the data back and the same next state.
\<close>

locale stream_cipher =
  fixes crypt :: "'c \<Rightarrow> bytes \<Rightarrow> bytes \<times> 'c"
  assumes crypt_Nil: "crypt c [] = ([], c)"
    and crypt_length: "length (fst (crypt c bs)) = length bs"
    and crypt_append: "crypt c (xs @ ys) =
      (fst (crypt c xs) @ fst (crypt (snd (crypt c xs)) ys), snd (crypt (snd (crypt c xs)) ys))"
    and crypt_inverse: "crypt c (fst (crypt c bs)) = (bs, snd (crypt c bs))"
begin

text \<open>However the ciphertext is cut, the parts decrypt to the parts of the data.\<close>

lemma decrypt_prefix:
  assumes "fst (crypt c bs) = xs @ ys"
  shows "fst (crypt c xs) = take (length xs) bs"
    and "fst (crypt (snd (crypt c xs)) ys) = drop (length xs) bs"
proof -
  have "fst (crypt c (xs @ ys)) = bs" using crypt_inverse [of c bs] assms by simp
  then have e: "fst (crypt c xs) @ fst (crypt (snd (crypt c xs)) ys) = bs" by (simp add: crypt_append)
  from e show "fst (crypt c xs) = take (length xs) bs" by (metis append_eq_conv_conj crypt_length)
  from e show "fst (crypt (snd (crypt c xs)) ys) = drop (length xs) bs" by (metis append_eq_conv_conj crypt_length)
qed

end

lemma length_xor_stream [simp]: "length (xor_stream ks p bs) = length bs"
  by (induction bs arbitrary: p) auto

lemma xor_stream_append [simp]: "xor_stream ks p (xs @ ys) = xor_stream ks p xs @ xor_stream ks (p + length xs) ys"
  by (induction xs arbitrary: p) auto

lemma xor_stream_inverse [simp]: "xor_stream ks p (xor_stream ks p bs) = bs"
  by (induction bs arbitrary: p) (auto simp: xor.assoc)

lemma take_xor_stream: "take n (xor_stream ks p bs) = xor_stream ks p (take n bs)"
  by (induction bs arbitrary: n p) (auto simp: take_Cons split: nat.split)

lemma drop_xor_stream: "drop n (xor_stream ks p bs) = xor_stream ks (p + n) (drop n bs)"
  by (induction bs arbitrary: n p) (auto simp: drop_Cons split: nat.split)

interpretation pc: stream_cipher "crypto_apply lib"
proof
  fix c bs xs ys
  show "crypto_apply lib c [] = ([], c)" by (cases c) (simp_all add: apply_keystream_def)
  show "length (fst (crypto_apply lib c bs)) = length bs" by (cases c) (simp_all add: apply_keystream_def)
  show "crypto_apply lib c (xs @ ys) = (fst (crypto_apply lib c xs) @ fst (crypto_apply lib (snd (crypto_apply lib c xs)) ys),
      snd (crypto_apply lib (snd (crypto_apply lib c xs)) ys))"
    by (cases c) (simp_all add: apply_keystream_def add.assoc)
  show "crypto_apply lib c (fst (crypto_apply lib c bs)) = (bs, snd (crypto_apply lib c bs))"
    by (cases c) (simp_all add: apply_keystream_def)
qed

section \<open>The transport\<close>

lemma sk_write_ok:
  assumes "list_all id (sk_writes s)"
  shows "sk_write bs s = (Inr (), s\<lparr> sk_out := sk_out s @ bs, sk_writes := tl (sk_writes s) \<rparr>)"
    and "list_all id (tl (sk_writes s))"
  using assms by (cases "sk_writes s"; auto simp: sk_write_def)+

lemma write_run_out:
  assumes "list_all id (sk_writes s)"
  shows "fst (write_run lib msgs (s, c)) = 0
    \<and> sk_out (fst (snd (write_run lib msgs (s, c)))) = sk_out s @ fst (crypto_apply lib c (concat msgs))
    \<and> snd (snd (write_run lib msgs (s, c))) = snd (crypto_apply lib c (concat msgs))"
  using assms
proof (induction msgs arbitrary: s c)
  case Nil
  then show ?case by (simp add: pc.crypt_Nil)
next
  case (Cons m msgs)
  obtain bs c' where e: "crypto_apply lib c m = (bs, c')" by (cases "crypto_apply lib c m")
  obtain s' where w: "sk_write bs s = (Inr (), s')" "sk_out s' = sk_out s @ bs" "list_all id (sk_writes s')"
    using sk_write_ok [OF Cons.prems] by simp
  show ?case using Cons.IH [OF w(3), of c'] w(2)
    by (simp add: half_write_all_def e w(1) pc.crypt_append split: prod.splits)
qed

lemma decrypt_stream_received:
  "fst (crypto_apply lib c plain) = stream_bytes evs @ rest \<Longrightarrow>
     stream_bytes (decrypt_stream lib c evs) = take (length (stream_bytes evs)) plain"
proof (induction evs arbitrary: c plain)
  case (Cons ev evs)
  show ?case
  proof (cases ev)
    case (Data bs)
    with Cons.prems have p: "fst (crypto_apply lib c plain) = bs @ stream_bytes evs @ rest" by simp
    obtain xs c' where e: "crypto_apply lib c bs = (xs, c')" by (cases "crypto_apply lib c bs")
    have x: "xs = take (length bs) plain" using pc.decrypt_prefix(1) [OF p] e by simp
    have "fst (crypto_apply lib c' (stream_bytes evs @ rest)) = drop (length bs) plain" using pc.decrypt_prefix(2) [OF p] e by simp
    then have "fst (crypto_apply lib c' (drop (length bs) plain)) = stream_bytes evs @ rest"
      using pc.crypt_inverse [of lib c' "stream_bytes evs @ rest"] by simp
    from Cons.IH [OF this] show ?thesis
      by (simp add: Data half_poll_read_def e x take_add)
  next
    case (IoError m)
    then show ?thesis using Cons by simp
  qed
qed simp

section \<open>The handshake\<close>

lemma read_exact_first:
  assumes "0 < n" and "n \<le> length bs"
  shows "read_exact n [] (Arrive bs # as) = (Inr (take n bs), (if length bs \<le> n then as else Arrive (drop n bs) # as))"
  using assms by (auto simp: read_exact.simps [of n] read_exact.simps [of 0])

lemma decrypt_range_step:
  assumes "rc_pos c = p" and "n = length mid" and "pos = length front"
  shows "decrypt_range lib pos n c (front @ xor_stream (lib_keystream lib (rc_key c)) p (mid @ rest)) =
    (front @ mid @ xor_stream (lib_keystream lib (rc_key c)) (p + n) rest, c\<lparr> rc_pos := p + n \<rparr>)"
  using assms by (simp add: decrypt_range_def apply_keystream_def)

lemma vc_loop_found:
  assumes "rc_pos c = p" and "recv = xor_stream (lib_keystream lib (rc_key c)) p (VC @ rest)"
  shows "vc_loop lib 0 as c recv = (Inr (0, VC @ xor_stream (lib_keystream lib (rc_key c)) (p + 8) rest), as, c\<lparr> rc_pos := p + 8 \<rparr>)"
proof -
  have l: "length VC = 8" by (simp add: VC_def)
  have "decrypt_range lib 0 8 c recv = (VC @ xor_stream (lib_keystream lib (rc_key c)) (p + 8) rest, c\<lparr> rc_pos := p + 8 \<rparr>)"
    using decrypt_range_step [of c p 8 VC 0 "[]" lib rest] assms l by simp
  then show ?thesis using assms l
    by (simp add: vc_loop.simps [of lib 0] VC_MAX_OFFSET_def read_up_to_def)
qed

text \<open>The fourth packet of the handshake, as the responding side composes it.\<close>

definition b2a_packet :: "nat \<Rightarrow> bytes \<Rightarrow> bytes" where
  "b2a_packet sel pad = VC @ to_be_bytes 4 sel @ to_be_bytes 2 (length pad) @ pad"

lemma length_b2a_packet: "length (b2a_packet sel pad) = 14 + length pad"
  by (simp add: b2a_packet_def VC_def)

text \<open>Reading from data that arrives in pieces of any size.\<close>

lemma read_exact_pieces:
  assumes "[] \<notin> set ks" and "n \<le> length (concat ks)"
  shows "\<exists>ks'. read_exact n acc (map Arrive ks @ as) = (Inr (acc @ take n (concat ks)), map Arrive ks' @ as)
    \<and> concat ks' = drop n (concat ks) \<and> [] \<notin> set ks'"
  using assms
proof (induction ks arbitrary: n acc)
  case Nil
  then show ?case by (simp add: read_exact.simps [of 0])
next
  case (Cons k ks)
  consider "n = 0" | "0 < n" "length k \<le> n" | "0 < n" "n < length k" by linarith
  then show ?case
  proof cases
    case 1
    then show ?thesis using Cons.prems by (intro exI [of _ "k # ks"]) (simp add: read_exact.simps [of 0])
  next
    case 2
    have "\<exists>ks'. read_exact (n - length k) (acc @ k) (map Arrive ks @ as) = (Inr ((acc @ k) @ take (n - length k) (concat ks)), map Arrive ks' @ as)
        \<and> concat ks' = drop (n - length k) (concat ks) \<and> [] \<notin> set ks'"
      using Cons.prems by (intro Cons.IH) auto
    moreover have "read_exact n acc (map Arrive (k # ks) @ as) = read_exact (n - length k) (acc @ k) (map Arrive ks @ as)"
      using 2 Cons.prems by (subst read_exact.simps) auto
    ultimately show ?thesis using 2 by simp
  next
    case 3
    then have "read_exact n acc (map Arrive (k # ks) @ as) = (Inr (acc @ take n k), Arrive (drop n k) # map Arrive ks @ as)"
      by (subst read_exact.simps) (auto simp: read_exact.simps [of 0])
    then show ?thesis using 3 Cons.prems by (intro exI [of _ "drop n k # ks"]) simp
  qed
qed

lemma concat_empty: "[] \<notin> set ks \<Longrightarrow> concat ks = [] \<Longrightarrow> ks = []"
  by (cases ks) auto

lemma drain_pieces: "[] \<notin> set ks \<Longrightarrow> drain (map Arrive ks @ Quiet # as) = (Inr (length (concat ks)), as)"
  by (induction ks) auto

lemma read_extra_padded:
  assumes "length yb = SHARE_KEY_LEN" and "concat ks = yb @ pad" and "[] \<notin> set ks"
  shows "read_extra SHARE_KEY_LEN (map Arrive ks @ Quiet # as) = (Inr (yb, length pad), as)"
proof -
  obtain ks' where "read_exact SHARE_KEY_LEN [] (map Arrive ks @ Quiet # as) = (Inr yb, map Arrive ks' @ Quiet # as)" "concat ks' = pad" "[] \<notin> set ks'"
    using read_exact_pieces [OF assms(3), of SHARE_KEY_LEN "[]" "Quiet # as"] assms(1,2) by auto
  then show ?thesis by (simp add: read_extra_def drain_pieces)
qed

lemma decrypt_b2a_ok:
  assumes "rc_pos c = p" and "recv = xor_stream (lib_keystream lib (rc_key c)) p (VC @ to_be_bytes 4 sel @ to_be_bytes 2 (length pad) @ pad1)"
    and "pad = pad1 @ pad2" and "concat ms = xor_stream (lib_keystream lib (rc_key c)) (p + 14 + length pad1) pad2" and "[] \<notin> set ms"
    and "sel < 2 ^ 32" and "sel AND 2 \<noteq> 0" and "length pad < 2 ^ 16"
  shows "decrypt_b2a_handshake_packet lib (map Arrive ms @ as) c recv =
    (Inr (Rc4Provide, length (b2a_packet sel pad), b2a_packet sel pad), as, c\<lparr> rc_pos := p + length (b2a_packet sel pad) \<rparr>)"
proof -
  let ?ks = "lib_keystream lib (rc_key c)"
  define f where "f = to_be_bytes 4 sel @ to_be_bytes 2 (length pad)"
  have f: "length f = 6" "take 4 f = to_be_bytes 4 sel" "drop 4 f = to_be_bytes 2 (length pad)"
    by (simp_all add: f_def del: to_be_bytes.simps)
  have l: "length VC = 8" by (simp add: VC_def)
  have pkt: "b2a_packet sel pad = VC @ f @ pad" by (simp add: b2a_packet_def f_def)
  define r1 r2 r3 where "r1 = VC @ xor_stream ?ks (p + 8) (f @ pad1)" and "r2 = VC @ f @ xor_stream ?ks (p + 14) pad1"
    and "r3 = VC @ f @ xor_stream ?ks (p + 14) pad"
  note rs = r1_def r2_def r3_def
  have lens: "length r1 = 14 + length pad1" "length r2 = 14 + length pad1" "length r3 = 14 + length pad" "length pad = length pad1 + length pad2"
    using l f(1) assms(3) by (simp_all add: rs)
  have l14: "length (VC @ f) = 14" using l f(1) by simp
  have vc: "vc_loop lib 0 as' c recv = (Inr (0, r1), as', c\<lparr> rc_pos := p + 8 \<rparr>)" for as'
    using vc_loop_found [OF assms(1), of recv lib "f @ pad1" as'] assms(2) by (simp add: f_def r1_def)
  have d1: "decrypt_range lib 8 6 (c\<lparr> rc_pos := p + 8 \<rparr>) r1 = (r2, c\<lparr> rc_pos := p + 14 \<rparr>)"
    using decrypt_range_step [OF _ f(1) [symmetric] l [symmetric], of "c\<lparr> rc_pos := p + 8 \<rparr>" "p + 8" lib pad1]
    by (simp add: rs add.commute [of 14] del: xor_stream_append)
  have up: "read_up_to msg (14 + length pad) r2 (map Arrive ms @ as) = (Inr r3, as)" for msg
  proof (cases "pad2 = []")
    case True
    then have "ms = []" using assms(4,5) concat_empty by simp
    then show ?thesis using True lens assms(3) by (simp add: read_up_to_def rs)
  next
    case False
    have n: "length (concat ms) = length pad2" using assms(4) by simp
    obtain ks' where k: "read_exact (length pad2) [] (map Arrive ms @ as) = (Inr (concat ms), map Arrive ks' @ as)" "concat ks' = []" "[] \<notin> set ks'"
      using read_exact_pieces [OF assms(5), of "length pad2" "[]" as] n by auto
    have "14 + length pad - length r2 = length pad2" "length r2 < 14 + length pad" using lens False by simp_all
    then show ?thesis using k(1) concat_empty [OF k(3,2)] assms(3,4) by (simp add: read_up_to_def rs)
  qed
  have d2: "decrypt_range lib 14 (length pad) (c\<lparr> rc_pos := p + 14 \<rparr>) r3 = (VC @ f @ pad, c\<lparr> rc_pos := p + 14 + length pad \<rparr>)"
    using decrypt_range_step [OF _ refl l14 [symmetric], of "c\<lparr> rc_pos := p + 14 \<rparr>" "p + 14" lib pad "[]"] by (simp add: rs)
  have d3: "decrypt_range lib (14 + length pad) 0 (c\<lparr> rc_pos := p + (14 + length pad) \<rparr>) (VC @ f @ pad) = (VC @ f @ pad, c\<lparr> rc_pos := p + (14 + length pad) \<rparr>)"
    by (simp add: decrypt_range_def apply_keystream_def del: take_append drop_append)
  have sel: "select_of (from_be_slice 4 (take 4 (drop 8 r2))) = Inr Rc4Provide"
    using assms(6,7) l f(1,2) by (simp add: select_of_def rs del: to_be_bytes.simps)
  have n: "from_be_slice 2 (take 2 (drop 12 r2)) = length pad"
    using assms(8) l f(1,3) by (simp add: rs del: to_be_bytes.simps)
  have lp: "length (VC @ f @ pad) = 14 + length pad" using l f(1) by simp
  show ?thesis
    unfolding decrypt_b2a_handshake_packet_def vc pkt lp
    by (simp add: VC_MAX_OFFSET_def select_read_def CRYPTO_OPTION_LEN_def PAD_LEN_UNIT_def lens(1,2) d1 sel n up d2) (simp add: Let_def d3 l f(1) add.assoc)
qed

lemma generate_cipher_eq: "generate_cipher lib s skey kt = \<lparr> rc_key = encrypt_key lib kt s skey, rc_pos = 1024 \<rparr>"
  by (simp add: generate_cipher_def apply_keystream_def DISCARD_def)

text \<open>The beginning of the third packet, which proves knowledge of the secret and of the info hash.\<close>

definition req_hashes :: "pe_lib \<Rightarrow> nat \<Rightarrow> bytes \<Rightarrow> bytes" where
  "req_hashes lib s skey = pe_hash lib [ascii ''req1'', lib_to_be lib s]
     @ map2 (\<lambda>a b. a XOR b) (pe_hash lib [ascii ''req2'', skey]) (pe_hash lib [ascii ''req3'', lib_to_be lib s])"

definition a2b_options :: bytes where
  "a2b_options = VC @ to_be_bytes 4 2 @ to_be_bytes 2 0 @ to_be_bytes 2 0"

lemma length_a2b_options: "length a2b_options = 16"
  by (simp add: a2b_options_def VC_def)

lemma encrypt_a2b_eq:
  "encrypt_a2b_handshake_packet lib c s skey VC 2 [] [] =
     (req_hashes lib s skey @ xor_stream (lib_keystream lib (rc_key c)) (rc_pos c) a2b_options, c\<lparr> rc_pos := rc_pos c + 16 \<rparr>)"
  by (simp add: encrypt_a2b_handshake_packet_def Let_def apply_keystream_def req_hashes_def a2b_options_def VC_def del: to_be_bytes.simps)

text \<open>The handshake up to the fourth packet, whose first part is \<open>m\<close>.\<close>

lemma init_handshake_reply:
  assumes "list_all id (sk_writes sock)" and "length yb = SHARE_KEY_LEN" and "length pad_b \<le> PAD_MAX_LEN"
    and s: "s = lib_modpow lib (lib_from_be lib yb) (lib_from_be lib seed) PRIME"
    and "sk_in sock = map Arrive ks @ Quiet # Arrive m # as" and "length m \<le> 1134" and "concat ks = yb @ pad_b" and "[] \<notin> set ks"
  shows "init_handshake lib seed pad sock skey Rc4Provide =
    (case decrypt_b2a_handshake_packet lib as \<lparr> rc_key = encrypt_key lib KeyB s skey, rc_pos = 1024 \<rparr> m of
       (Inl e, as, rc) \<Rightarrow> Inl e
     | (Inr (cs, _, _), as, rc) \<Rightarrow>
         let (lc, rc) = (if cs = Rc4Provide then (Rc4 \<lparr> rc_key = encrypt_key lib KeyA s skey, rc_pos = 1040 \<rparr>, Rc4 rc) else (Plaintext, Plaintext))
         in Inr \<lparr> tw_stream = sock\<lparr> sk_in := as,
              sk_out := sk_out sock @ lib_to_be lib (generate_public_key lib (lib_from_be lib seed)) @ pad @ req_hashes lib s skey
                @ xor_stream (lib_keystream lib (encrypt_key lib KeyA s skey)) 1024 a2b_options,
              sk_writes := tl (tl (sk_writes sock)) \<rparr>, tw_lc = lc, tw_rc = rc \<rparr>)"
proof -
  have sec: "compute_secret lib yb (lib_from_be lib seed) = Inr s"
    using assms(2) by (simp add: compute_secret_def s)
  have w: "sk_write bs u = (Inr (), u\<lparr> sk_out := sk_out u @ bs, sk_writes := tl (tl (sk_writes sock)) \<rparr>)"
    if "sk_writes u = tl (sk_writes sock)" for bs u
    using sk_write_ok(1) [of u bs] sk_write_ok(2) [OF assms(1)] that by simp
  show ?thesis
    using assms(3,6)
    by (simp add: init_handshake_def generate_key_pair_def send_local_public_key_def Let_def sk_write_ok(1) [OF assms(1)] assms(5)
        read_extra_padded [OF assms(2,7,8)] sec generate_cipher_eq encrypt_a2b_eq w split: sum.split prod.split)
qed

lemma decrypt_b2a_short:
  assumes "rc_pos c = p" and "length r < 6"
  shows "\<exists>as' c'. decrypt_b2a_handshake_packet lib as c (xor_stream (lib_keystream lib (rc_key c)) p (VC @ r)) =
    (Inl (Panic ''capacity overflow''), as', c')"
  using assms(2) unfolding decrypt_b2a_handshake_packet_def vc_loop_found [OF assms(1) refl]
  by (simp add: VC_MAX_OFFSET_def select_read_def CRYPTO_OPTION_LEN_def PAD_LEN_UNIT_def VC_def)

text \<open>Both sides compute the same secret.\<close>

lemma shared_secret:
  assumes "\<forall>b e m. lib_modpow lib b e m = b ^ e mod m"
  shows "lib_modpow lib (generate_public_key lib y) x PRIME = lib_modpow lib (generate_public_key lib x) y PRIME"
  using assms by (simp add: generate_public_key_def power_mod power_mult [symmetric] mult.commute)

lemma socket_handshake_ok:
  assumes "length ih = 20" and "length own_id = 20" and "length pid = 20" and "list_all id (sk_writes (tw_stream w))"
    and "tw_lc w = Rc4 a" and "tw_rc w = Rc4 b"
    and "sk_in (tw_stream w) = Arrive (xor_stream (lib_keystream lib (rc_key b)) (rc_pos b) (handshake_bytes ih pid)) # as"
  shows "\<exists>w'. socket_handshake lib ih own_id w = Inr (pid, LTEP OR DHT_BIT, w')
    \<and> tw_lc w' = Rc4 (a\<lparr> rc_pos := rc_pos a + 68 \<rparr>) \<and> tw_rc w' = Rc4 (b\<lparr> rc_pos := rc_pos b + 68 \<rparr>) \<and> sk_in (tw_stream w') = as
    \<and> sk_out (tw_stream w') = sk_out (tw_stream w) @ xor_stream (lib_keystream lib (rc_key a)) (rc_pos a) (handshake_bytes ih own_id)"
  using assms
  by (simp add: socket_handshake_def Let_def wrapper_write_all_def wrapper_read_def apply_keystream_def sk_write_ok(1)
      length_handshake_bytes handshake_accepted)

section \<open>A concrete library\<close>

text \<open>\<^verbatim>\<open>to_bytes_be\<close>: as many bytes as the number needs, and one for zero.\<close>

function be_min :: "nat \<Rightarrow> bytes" where
  "be_min n = (if n < 256 then [word_of_nat n] else be_min (n div 256) @ [word_of_nat n])"
  by pat_completeness auto
termination
  by (relation "measure (\<lambda>n. n)") auto

declare be_min.simps [simp del]

definition demo_lib :: pe_lib where
  "demo_lib = \<lparr> lib_sha1 = (\<lambda>bs. replicate 20 (sum_list bs)), lib_keystream = (\<lambda>k n. hd k + word_of_nat n),
     lib_modpow = (\<lambda>b e m. b ^ e mod m), lib_from_be = from_be_bytes, lib_to_be = be_min \<rparr>"

text \<open>The private key 767 on our side, and the private key 1 on the other.\<close>

definition demo_seed :: bytes where
  "demo_seed = replicate 18 0 @ [2, 255]"

definition demo_yb :: bytes where
  "demo_yb = to_be_bytes 96 2"

definition demo_secret :: nat where
  "demo_secret = 2 ^ 767"

definition demo_socket :: "bytes \<Rightarrow> arrival list \<Rightarrow> socket" where
  "demo_socket m as = \<lparr> sk_in = Arrive (demo_yb @ [1, 2, 3]) # Quiet # Arrive m # as, sk_out = [], sk_writes = [] \<rparr>"

lemma be_min_eq: "256 ^ k \<le> n \<Longrightarrow> n < 256 ^ Suc k \<Longrightarrow> be_min n = to_be_bytes (Suc k) n"
proof (induction k arbitrary: n)
  case 0
  then show ?case by (simp add: be_min.simps [of n])
next
  case (Suc k)
  have "256 ^ k \<le> n div 256" "n div 256 < 256 ^ Suc k" using Suc.prems by (simp_all add: less_eq_div_iff_mult_less_eq mult.commute div_less_iff_less_mult)
  moreover have "\<not> n < 256" using Suc.prems(1) by (metis leD one_le_numeral one_le_power order_le_less_trans power_Suc mult_le_mono2 mult.right_neutral linorder_not_less)
  moreover have "word_of_nat n = (word_of_nat (n mod 256) :: u8)" by (simp add: word_of_nat_eq_iff take_bit_eq_mod)
  ultimately show ?case using Suc.IH by (subst be_min.simps) simp
qed

lemma demo_key: "length demo_yb = SHARE_KEY_LEN" "lib_from_be demo_lib demo_yb = generate_public_key demo_lib 1"
  by (simp_all only: demo_yb_def length_to_be_bytes SHARE_KEY_LEN_def demo_lib_def generate_public_key_def pe_lib.simps G_def PRIME_def)
    (simp add: from_to_be_bytes del: to_be_bytes.simps)

section \<open>Properties\<close>

text \<open>
  What the responding side derives from the secret, as the protocol says: the secret always has 96 bytes.
\<close>

definition mse_key :: "pe_lib \<Rightarrow> string \<Rightarrow> nat \<Rightarrow> bytes \<Rightarrow> bytes" where
  "mse_key lib tag s skey = lib_sha1 lib (ascii tag @ to_be_bytes SHARE_KEY_LEN s @ skey)"

definition mse_req :: "pe_lib \<Rightarrow> nat \<Rightarrow> bytes \<Rightarrow> bytes" where
  "mse_req lib s skey = lib_sha1 lib (ascii ''req1'' @ to_be_bytes SHARE_KEY_LEN s)
     @ map2 (\<lambda>a b. a XOR b) (lib_sha1 lib (ascii ''req2'' @ skey)) (lib_sha1 lib (ascii ''req3'' @ to_be_bytes SHARE_KEY_LEN s))"

lemma mse_agrees:
  assumes "lib_to_be lib s = to_be_bytes SHARE_KEY_LEN s"
  shows "encrypt_key lib KeyA s skey = mse_key lib ''keyA'' s skey" "encrypt_key lib KeyB s skey = mse_key lib ''keyB'' s skey"
    "req_hashes lib s skey = mse_req lib s skey"
  using assms by (simp_all add: encrypt_key_def pe_hash_def mse_key_def req_hashes_def mse_req_def)

lemma modpow_bound: "\<forall>b e m. lib_modpow lib b e m = b ^ e mod m \<Longrightarrow> lib_modpow lib b e PRIME < 256 ^ 96"
proof -
  assume "\<forall>b e m. lib_modpow lib b e m = b ^ e mod m"
  then have "lib_modpow lib b e PRIME < PRIME" by (simp add: PRIME_def)
  also have "PRIME < 256 ^ 96" by (simp add: PRIME_def)
  finally show ?thesis .
qed

text \<open>The parts of the fourth packet when its first arrival has the fields before the padding.\<close>

lemma b2a_cut:
  assumes "m @ rest = xor_stream ks p (b2a_packet sel pad)" and "14 \<le> length m"
  shows "\<exists>pad1 pad2. pad = pad1 @ pad2 \<and> m = xor_stream ks p (VC @ to_be_bytes 4 sel @ to_be_bytes 2 (length pad) @ pad1)
    \<and> rest = xor_stream ks (p + 14 + length pad1) pad2"
proof -
  define h where "h = VC @ to_be_bytes 4 sel @ to_be_bytes 2 (length pad)"
  have h: "length h = 14" "b2a_packet sel pad = h @ pad" by (simp_all add: h_def b2a_packet_def VC_def del: to_be_bytes.simps)
  let ?k = "length m - 14"
  have "m = take (length m) (m @ rest)" "rest = drop (length m) (m @ rest)" by simp_all
  then have m: "m = xor_stream ks p (take (length m) (h @ pad))" "rest = xor_stream ks (p + length m) (drop (length m) (h @ pad))"
    unfolding assms(1) h(2) take_xor_stream drop_xor_stream by simp_all
  have le: "length m \<le> 14 + length pad" using assms(1) h by (metis le_add1 length_append length_xor_stream)
  have "m = xor_stream ks p (h @ take ?k pad)" using m(1) assms(2) h(1) by (simp del: xor_stream_append)
  moreover have "rest = xor_stream ks (p + 14 + length (take ?k pad)) (drop ?k pad)" using m(2) assms(2) h(1) le by simp
  ultimately show ?thesis by (intro exI [of _ "take ?k pad"] exI [of _ "drop ?k pad"]) (simp add: h_def del: xor_stream_append)
qed

text \<open>
  C27. Starting a peer succeeds with a peer that follows the message stream encryption, knows the info hash and offers RC4, under these conditions on the
  connection: its public key and its first padding arrive, in pieces of any size, before a pause; of its second message the first 14 bytes, up to
  the length of the padding, arrive together, and the rest in pieces of any size; its protocol handshake arrives as one piece of its own; and our public key and
  the shared secret need all of their 96 bytes (the code leaves out leading zeros, the protocol does not). Then, whatever the private keys and paddings are, both
  sides compute the same secret, the verification constant and the options are decrypted, the two key streams are at the positions the other side
  expects, the handshake of the peer is read through the encryption, and what was sent is what the protocol asks for, everything after the public key and the hashes
  encrypted with the key the peer derives.
\<close>

theorem encrypted_peer_starts:
  assumes "\<forall>b e m. lib_modpow lib b e m = b ^ e mod m" and "\<forall>bs. lib_from_be lib bs = from_be_bytes bs"
    and "\<forall>k n. 256 ^ k \<le> n \<longrightarrow> n < 256 ^ Suc k \<longrightarrow> lib_to_be lib n = to_be_bytes (Suc k) n"
    and "list_all id (sk_writes sock)" and "pub = G ^ from_be_bytes seed mod PRIME" and "s = pub ^ y mod PRIME"
    and "256 ^ 95 \<le> pub" and "256 ^ 95 \<le> s"
    and "keya = mse_key lib ''keyA'' s ih" and "keyb = mse_key lib ''keyB'' s ih"
    and "sk_in sock = map Arrive ks @ Quiet # Arrive m # map Arrive ms
      @ Arrive (xor_stream (lib_keystream lib keyb) (1024 + 14 + length pad_d) (handshake_bytes ih pid)) # as"
    and "concat ks = to_be_bytes SHARE_KEY_LEN (G ^ y mod PRIME) @ pad_b" and "[] \<notin> set ks" and "length pad_b \<le> PAD_MAX_LEN"
    and "m @ concat ms = xor_stream (lib_keystream lib keyb) 1024 (b2a_packet sel pad_d)" and "14 \<le> length m" and "[] \<notin> set ms"
    and "sel < 2 ^ 32" and "sel AND 2 \<noteq> 0" and "length pad_d \<le> PAD_MAX_LEN"
    and "length ih = 20" and "length own_id = 20" and "length pid = 20"
  shows "\<exists>w. peer_connect lib seed pad ih own_id (Inr sock) = Inr (pid, LTEP OR DHT_BIT, w)
    \<and> tw_lc w = Rc4 \<lparr> rc_key = keya, rc_pos = 1024 + 16 + 68 \<rparr> \<and> tw_rc w = Rc4 \<lparr> rc_key = keyb, rc_pos = 1024 + 14 + length pad_d + 68 \<rparr>
    \<and> sk_in (tw_stream w) = as
    \<and> sk_out (tw_stream w) = sk_out sock @ to_be_bytes SHARE_KEY_LEN pub @ pad @ mse_req lib s ih
        @ xor_stream (lib_keystream lib keya) 1024 (a2b_options @ handshake_bytes ih own_id)"
proof -
  let ?hs = "Arrive (xor_stream (lib_keystream lib keyb) (1024 + 14 + length pad_d) (handshake_bytes ih pid)) # as"
  let ?yb = "to_be_bytes SHARE_KEY_LEN (G ^ y mod PRIME)"
  let ?out = "sk_out sock @ to_be_bytes SHARE_KEY_LEN pub @ pad @ mse_req lib s ih @ xor_stream (lib_keystream lib keya) 1024 a2b_options"
  have pub: "generate_public_key lib (lib_from_be lib seed) = pub" "generate_public_key lib y = G ^ y mod PRIME"
    using assms(1,2,5) by (simp_all add: generate_public_key_def)
  have small: "G ^ y mod PRIME < 256 ^ 96" "pub < 256 ^ 96" "s < 256 ^ 96"
    using modpow_bound [OF assms(1)] assms(1,5,6) by simp_all
  have yb: "lib_from_be lib ?yb = generate_public_key lib y"
    using small(1) assms(2) by (simp add: SHARE_KEY_LEN_def from_to_be_bytes pub(2) del: to_be_bytes.simps)
  have full: "lib_to_be lib n = to_be_bytes SHARE_KEY_LEN n" if "256 ^ 95 \<le> n" "n < 256 ^ 96" for n
    using assms(3) [rule_format, of 95 n] that by (simp add: SHARE_KEY_LEN_def del: to_be_bytes.simps)
  have s: "s = lib_modpow lib (lib_from_be lib ?yb) (lib_from_be lib seed) PRIME"
    using shared_secret [OF assms(1), of y "lib_from_be lib seed"] assms(1,6) yb pub(1) by simp
  note key = mse_agrees [OF full [OF assms(8) small(3)], of ih]
  have "length (m @ concat ms) = 14 + length pad_d" unfolding assms(15) by (simp add: length_b2a_packet)
  then have m: "length m \<le> 1134" using assms(20) by (simp add: PAD_MAX_LEN_def)
  obtain pad1 pad2 where cut: "pad_d = pad1 @ pad2" "m = xor_stream (lib_keystream lib keyb) 1024 (VC @ to_be_bytes 4 sel @ to_be_bytes 2 (length pad_d) @ pad1)"
    "concat ms = xor_stream (lib_keystream lib keyb) (1024 + 14 + length pad1) pad2" using b2a_cut [OF assms(15,16)] by blast
  have "length pad_d < 2 ^ 16" using assms(20) by (simp add: PAD_MAX_LEN_def)
  with decrypt_b2a_ok [of "\<lparr> rc_key = keyb, rc_pos = 1024 \<rparr>" 1024 m lib sel pad_d pad1 pad2 ms ?hs] cut assms(17-19)
  have dec: "decrypt_b2a_handshake_packet lib (map Arrive ms @ ?hs) \<lparr> rc_key = keyb, rc_pos = 1024 \<rparr> m
      = (Inr (Rc4Provide, 14 + length pad_d, b2a_packet sel pad_d), ?hs, \<lparr> rc_key = keyb, rc_pos = 1024 + 14 + length pad_d \<rparr>)"
    by (simp add: length_b2a_packet)
  define w where "w = \<lparr> tw_stream = sock\<lparr> sk_in := ?hs, sk_out := ?out, sk_writes := tl (tl (sk_writes sock)) \<rparr>,
    tw_lc = Rc4 \<lparr> rc_key = keya, rc_pos = 1040 \<rparr>, tw_rc = Rc4 \<lparr> rc_key = keyb, rc_pos = 1024 + 14 + length pad_d \<rparr> \<rparr>"
  have c: "crypto_handshake lib seed pad ih sock = Inr w"
    using init_handshake_reply [OF assms(4) _ assms(14) s assms(11) m assms(12,13), of pad ih] dec full [OF assms(7) small(2)]
    by (simp add: crypto_handshake_def assms(9,10) key w_def pub(1))
  have "list_all id (sk_writes (tw_stream w))" using assms(4) by (cases "sk_writes sock"; cases "tl (sk_writes sock)") (auto simp: w_def)
  from socket_handshake_ok [OF assms(21-23) this, of "\<lparr> rc_key = keya, rc_pos = 1040 \<rparr>" "\<lparr> rc_key = keyb, rc_pos = 1024 + 14 + length pad_d \<rparr>" lib as]
  obtain w' where "socket_handshake lib ih own_id w = Inr (pid, LTEP OR DHT_BIT, w')"
    "tw_lc w' = Rc4 \<lparr> rc_key = keya, rc_pos = 1108 \<rparr>" "tw_rc w' = Rc4 \<lparr> rc_key = keyb, rc_pos = 1024 + 14 + length pad_d + 68 \<rparr>"
    "sk_in (tw_stream w') = as" "sk_out (tw_stream w') = ?out @ xor_stream (lib_keystream lib keya) 1040 (handshake_bytes ih own_id)"
    by (auto simp: w_def)
  then show ?thesis by (simp add: peer_connect_def c length_a2b_options)
qed

definition demo_reply :: bytes where
  "demo_reply = xor_stream (lib_keystream demo_lib (mse_key demo_lib ''keyB'' demo_secret (replicate 20 1))) 1024 (b2a_packet 2 [5, 6])"

lemma demo_lib_laws:
  "\<forall>b e m. lib_modpow demo_lib b e m = b ^ e mod m" "\<forall>bs. lib_from_be demo_lib bs = from_be_bytes bs"
  "\<forall>k n. 256 ^ k \<le> n \<longrightarrow> n < 256 ^ Suc k \<longrightarrow> lib_to_be demo_lib n = to_be_bytes (Suc k) n"
  by (simp_all add: demo_lib_def be_min_eq del: to_be_bytes.simps power_Suc)

lemma demo_numbers:
  "demo_secret = G ^ from_be_bytes demo_seed mod PRIME" "demo_secret = demo_secret ^ 1 mod PRIME" "256 ^ 95 \<le> demo_secret" "G ^ 1 mod PRIME = 2"
proof -
  have "from_be_bytes demo_seed = 767" unfolding demo_seed_def by code_simp
  then show "demo_secret = G ^ from_be_bytes demo_seed mod PRIME" by (simp add: demo_secret_def G_def PRIME_def)
qed (simp_all add: demo_secret_def G_def PRIME_def)

theorem encrypted_peer_starts_witness:
  "\<exists>w. peer_connect demo_lib demo_seed [9] (replicate 20 1) (replicate 20 2)
      (Inr (demo_socket (take 15 demo_reply) [Arrive (drop 15 demo_reply),
         Arrive (xor_stream (lib_keystream demo_lib (mse_key demo_lib ''keyB'' demo_secret (replicate 20 1))) (1024 + 14 + length [5, 6 :: u8])
            (handshake_bytes (replicate 20 1) (replicate 20 3)))])) = Inr (replicate 20 3, LTEP OR DHT_BIT, w)"
proof -
  let ?sock = "demo_socket (take 15 demo_reply) [Arrive (drop 15 demo_reply),
         Arrive (xor_stream (lib_keystream demo_lib (mse_key demo_lib ''keyB'' demo_secret (replicate 20 1))) (1024 + 14 + length [5, 6 :: u8])
            (handshake_bytes (replicate 20 1) (replicate 20 3)))]"
  have len: "length demo_reply = 16" by (simp add: demo_reply_def length_b2a_packet)
  have f1: "list_all id (sk_writes ?sock)" by (simp add: demo_socket_def)
  have f2: "sk_in ?sock = map Arrive [demo_yb @ [1, 2, 3]] @ Quiet # Arrive (take 15 demo_reply) # map Arrive [drop 15 demo_reply]
      @ Arrive (xor_stream (lib_keystream demo_lib (mse_key demo_lib ''keyB'' demo_secret (replicate 20 1))) (1024 + 14 + length [5, 6 :: u8])
            (handshake_bytes (replicate 20 1) (replicate 20 3))) # []" by (simp add: demo_socket_def)
  have f3: "concat [demo_yb @ [1, 2, 3]] = to_be_bytes SHARE_KEY_LEN (G ^ 1 mod PRIME) @ [1, 2, 3]"
    by (simp only: demo_numbers(4) demo_yb_def SHARE_KEY_LEN_def) simp
  have f4: "take 15 demo_reply @ concat [drop 15 demo_reply] =
      xor_stream (lib_keystream demo_lib (mse_key demo_lib ''keyB'' demo_secret (replicate 20 1))) 1024 (b2a_packet 2 [5, 6])"
    by (simp add: demo_reply_def)
  have e: "[] \<notin> set [demo_yb @ [1, 2, 3]]" "length [1, 2, 3 :: u8] \<le> PAD_MAX_LEN" "14 \<le> length (take 15 demo_reply)" "[] \<notin> set [drop 15 demo_reply]"
    "(2 :: nat) < 2 ^ 32" "(2 :: nat) AND 2 \<noteq> 0" "length [5, 6 :: u8] \<le> PAD_MAX_LEN"
    "length (replicate 20 (1 :: u8)) = 20" "length (replicate 20 (2 :: u8)) = 20" "length (replicate 20 (3 :: u8)) = 20"
    using len by (auto simp: PAD_MAX_LEN_def)
  from encrypted_peer_starts [OF demo_lib_laws f1 demo_numbers(1,2,3,3) refl refl f2 f3 e(1,2) f4 e(3-10), of "[9]"] show ?thesis by blast
qed

text \<open>
  C40. The handshake panics when the first read of the answer ends inside the fields after the verification constant:
  the length of the missing part is computed below zero. The peer that answers decides where its packet is cut.
\<close>

theorem cut_handshake_answer_panics:
  assumes "list_all id (sk_writes sock)" and "length yb = SHARE_KEY_LEN" and "length pad_b \<le> PAD_MAX_LEN"
    and "s = lib_modpow lib (lib_from_be lib yb) (lib_from_be lib seed) PRIME"
    and "sk_in sock = Arrive (yb @ pad_b) # Quiet # Arrive (xor_stream (lib_keystream lib (encrypt_key lib KeyB s ih)) 1024 (VC @ r)) # as"
    and "length r < 6"
  shows "panics (peer_connect lib seed pad ih own_id (Inr sock))"
proof -
  have "length (xor_stream (lib_keystream lib (encrypt_key lib KeyB s ih)) 1024 (VC @ r)) \<le> 1134" using assms(6) by (simp add: VC_def)
  note reply = init_handshake_reply [OF assms(1-4) _ this, of "[yb @ pad_b]" as pad ih]
  have "yb \<noteq> []" using assms(2) by (auto simp: SHARE_KEY_LEN_def)
  then show ?thesis
    using reply assms(5) decrypt_b2a_short [of "\<lparr> rc_key = encrypt_key lib KeyB s ih, rc_pos = 1024 \<rparr>" 1024 r lib as] assms(6)
    by (auto simp: peer_connect_def crypto_handshake_def simp del: xor_stream_append)
qed

theorem cut_handshake_answer_panics_witness:
  "panics (peer_connect demo_lib (replicate 20 7) [9] (replicate 20 1) (replicate 20 2)
     (Inr (demo_socket (xor_stream (lib_keystream demo_lib (encrypt_key demo_lib KeyB
        (lib_modpow demo_lib (lib_from_be demo_lib demo_yb) (lib_from_be demo_lib (replicate 20 7)) PRIME) (replicate 20 1))) 1024 (VC @ [0, 0])) [])))"
  by (rule cut_handshake_answer_panics [OF _ demo_key(1) _ refl, of _ "[1, 2, 3]" _ _ _ "[0, 0]" "[]"])
    (simp_all add: demo_socket_def PAD_MAX_LEN_def)

text \<open>
  C39. The encryption is transparent: as long as the writes succeed, what has arrived of the messages a peer has sent, in pieces of any
  size, is read by the other side as the same number of bytes of the messages themselves, in order.
\<close>

theorem encrypted_transport_transparent:
  assumes "list_all id (sk_writes s)" and "write_run lib msgs (s, c) = (k, s', c')"
    and "sk_out s' = sk_out s @ stream_bytes evs @ rest"
  shows "k = 0 \<and> stream_bytes (decrypt_stream lib c evs) = take (length (stream_bytes evs)) (concat msgs)"
proof -
  have "k = 0" "fst (crypto_apply lib c (concat msgs)) = stream_bytes evs @ rest"
    using write_run_out [OF assms(1), of lib msgs c] assms(2,3) by simp_all
  then show ?thesis using decrypt_stream_received by blast
qed

theorem encrypted_transport_transparent_witness:
  "stream_bytes (decrypt_stream demo_lib (Rc4 \<lparr> rc_key = [5], rc_pos = 0 \<rparr>) [Data [4], Data [4, 4]]) = [1, 2, 3]"
proof -
  have "write_run demo_lib [[1, 2], [3, 4]] (\<lparr> sk_in = [], sk_out = [], sk_writes = [] \<rparr>, Rc4 \<lparr> rc_key = [5], rc_pos = 0 \<rparr>) =
    (0, \<lparr> sk_in = [], sk_out = [4, 4, 4, 12], sk_writes = [] \<rparr>, Rc4 \<lparr> rc_key = [5], rc_pos = 4 \<rparr>)"
    by code_simp
  from encrypted_transport_transparent [OF _ this, of "[Data [4], Data [4, 4]]" "[12]"] show ?thesis by simp
qed

end
