(* ===== verification/Tracker.thy ===== *)
theory Tracker
  imports Extend_Data Effect
begin

text \<open>
  Trackers (\<^verbatim>\<open>bt/tracker.rs\<close>, \<^verbatim>\<open>bt/tracker/udp_tracker.rs\<close>, \<^verbatim>\<open>bt/tracker/http_tracker.rs\<close>): choosing the protocol for an
  address, the two exchanges with a UDP tracker, the answer of an HTTP tracker, and the periodic scan.
  The clock, the random numbers and the network are arguments: \<open>un_net\<close> gives the answer to a datagram or an
  error, \<open>hn_get\<close> the status and the body for an address. Percent encoding is an argument, too.
\<close>

section \<open>Addresses of peers\<close>

definition parse_peers_v4 :: "bytes \<Rightarrow> SocketAddr list result" where
  "parse_peers_v4 bs =
     (if length bs mod 6 \<noteq> 0 then Inl (Err ''peers length should be a multiple of 6'')
      else Inr (map (\<lambda>c. SocketAddrV4 (take 4 c) (from_be_slice 2 (drop 4 c))) (chunks 6 bs)))"

definition parse_peers_v6 :: "bytes \<Rightarrow> SocketAddr list result" where
  "parse_peers_v6 bs =
     (if length bs mod 18 \<noteq> 0 then Inl (Err ''peers length should be a multiple of 18'')
      else Inr (map (\<lambda>c. SocketAddrV6 (take 16 c) (from_be_slice 2 (drop 16 c))) (chunks 18 bs)))"

section \<open>Data\<close>

datatype AnnounceEvent = EvNone | EvCompleted | EvStarted | EvStopped

fun event_code :: "AnnounceEvent \<Rightarrow> nat" where
  "event_code EvNone = 0"
| "event_code EvCompleted = 1"
| "event_code EvStarted = 2"
| "event_code EvStopped = 3"

fun event_name :: "AnnounceEvent \<Rightarrow> string" where
  "event_name EvNone = ''''"
| "event_name EvCompleted = ''completed''"
| "event_name EvStarted = ''started''"
| "event_name EvStopped = ''stopped''"

record AnnounceInfo =
  ai_download :: nat
  ai_uploaded :: nat
  ai_resource_size :: nat
  ai_port :: nat

record Connect =
  connection_id :: nat
  conn_timestamp :: nat

record UdpAnnounce =
  ua_interval :: nat
  ua_leechers :: nat
  ua_seedrs :: nat
  ua_peers :: "SocketAddr list"

record UdpTracker =
  ut_connect :: Connect
  ut_retry_count :: nat
  ut_announce :: string
  ut_info_hash :: bytes
  ut_peer_id :: bytes
  ut_next_request_time :: nat

definition UdpTracker_new :: "string \<Rightarrow> bytes \<Rightarrow> bytes \<Rightarrow> UdpTracker" where
  "UdpTracker_new a h p = \<lparr> ut_connect = \<lparr> connection_id = 0, conn_timestamp = 0 \<rparr>, ut_retry_count = 0, ut_announce = a,
     ut_info_hash = h, ut_peer_id = p, ut_next_request_time = 0 \<rparr>"

record HttpTracker =
  ht_announce :: string
  ht_info_hash :: bytes
  ht_peer_id :: bytes
  ht_next_request_time :: nat

definition HttpTracker_new :: "string \<Rightarrow> bytes \<Rightarrow> bytes \<Rightarrow> HttpTracker" where
  "HttpTracker_new a h p = \<lparr> ht_announce = a, ht_info_hash = h, ht_peer_id = p, ht_next_request_time = 0 \<rparr>"

datatype TrackerInstance = UDP UdpTracker | HTTP HttpTracker

section \<open>Choosing the protocol\<close>

text \<open>\<^verbatim>\<open>str::find\<close>: the first position of a pattern.\<close>

fun find_sub :: "string \<Rightarrow> string \<Rightarrow> nat option" where
  "find_sub pat [] = (if pat = [] then Some 0 else None)"
| "find_sub pat (c # s) = (if take (length pat) (c # s) = pat then Some 0 else map_option Suc (find_sub pat s))"

text \<open>A position of a string slice: the end, or not inside the encoding of a character.\<close>

definition char_boundary :: "string \<Rightarrow> nat \<Rightarrow> bool" where
  "char_boundary s i \<longleftrightarrow> i = length s \<or> (i < length s \<and> \<not> cont_byte (word_of_nat (of_char (s ! i))))"

definition str_slice :: "string \<Rightarrow> nat \<Rightarrow> nat \<Rightarrow> string result" where
  "str_slice s i j =
     (if i \<le> j \<and> char_boundary s i \<and> char_boundary s j then Inr (take (j - i) (drop i s))
      else Inl (Panic ''byte index is not a char boundary''))"

definition parse_tracker_host :: "string \<Rightarrow> bytes \<Rightarrow> bytes \<Rightarrow> TrackerInstance option result" where
  "parse_tracker_host announce h p =
     (if take 4 announce = ''http'' then Inr (Some (HTTP (HttpTracker_new announce h p)))
      else if take 6 announce = ''udp://'' then
        let announce = drop 6 announce in
        (case find_sub ''/announce'' announce of
           Some fin \<Rightarrow> and_then (str_slice announce 6 (fin + 6)) (\<lambda>a. Inr (Some (UDP (UdpTracker_new a h p))))
         | None \<Rightarrow> Inr (Some (UDP (UdpTracker_new announce h p))))
      else Inr None)"

text \<open>\<^verbatim>\<open>instance_tracker\<close>: the loop over the announce addresses; the third argument is the set \<^verbatim>\<open>visited\<close>.\<close>

fun instance_loop :: "bytes \<Rightarrow> bytes \<Rightarrow> string list \<Rightarrow> string list \<Rightarrow> (AnnounceEvent \<times> TrackerInstance) list result" where
  "instance_loop h p visited [] = Inr []"
| "instance_loop h p visited (a # as) =
     (if a \<in> set visited then instance_loop h p visited as
      else
        and_then (parse_tracker_host a h p) (\<lambda>t.
        and_then (instance_loop h p (a # visited) as) (\<lambda>ts.
        Inr (case t of Some t \<Rightarrow> (EvStarted, t) # ts | None \<Rightarrow> ts))))"

definition instance_tracker :: "bytes \<Rightarrow> string list list \<Rightarrow> bytes \<Rightarrow> (AnnounceEvent \<times> TrackerInstance) list result" where
  "instance_tracker p trackers h = instance_loop h p [] (concat trackers)"

section \<open>UDP trackers\<close>

definition CONNECTION_ID_TIMEOUT :: nat where "CONNECTION_ID_TIMEOUT = 60"
definition MAX_RETRY_NUM :: nat where "MAX_RETRY_NUM = 8"
definition SOCKET_READ_TIMEOUT_MS :: nat where "SOCKET_READ_TIMEOUT_MS = 15000"
definition MAX_PAYLOAD_SIZE :: nat where "MAX_PAYLOAD_SIZE = 65507"
definition TRACKER_PROTOCOL_ID :: nat where "TRACKER_PROTOCOL_ID = 4497486125440"
definition MIN_CONNECT_RESP_SIZE :: nat where "MIN_CONNECT_RESP_SIZE = 16"
definition MIN_ANNOUNCE_RESP_SIZE :: nat where "MIN_ANNOUNCE_RESP_SIZE = 20"

text \<open>The readings of the clock, the transaction numbers and the network during one announce.\<close>

record udp_env =
  un_now1 :: nat
  un_now2 :: nat
  un_now3 :: nat
  un_tran1 :: nat
  un_tran2 :: nat
  un_key :: nat
  un_net :: "string \<Rightarrow> bytes \<Rightarrow> bytes result"

type_synonym 'a ut = "(UdpTracker, 'a) eff"

datatype Action = AConnect | AAnnounce | AScrape | AError

fun action_code :: "Action \<Rightarrow> nat" where
  "action_code AConnect = 0"
| "action_code AAnnounce = 1"
| "action_code AScrape = 2"
| "action_code AError = 3"

definition gen_protocol_head :: "nat \<Rightarrow> Action \<Rightarrow> nat \<Rightarrow> bytes" where
  "gen_protocol_head cid act tran = write_u32 tran (write_u32 (action_code act) (write_u64 cid []))"

text \<open>A datagram longer than the buffer is cut.\<close>

definition send_recv :: "udp_env \<Rightarrow> bytes \<Rightarrow> string \<Rightarrow> int \<Rightarrow> bytes result" where
  "send_recv n data target expect =
     and_then (un_net n target data) (\<lambda>resp.
     Inr (take (if expect < 0 then MAX_PAYLOAD_SIZE else nat expect) resp))"

definition udp_send :: "udp_env \<Rightarrow> bytes \<Rightarrow> int \<Rightarrow> bytes ut" where
  "udp_send n data expect =
     eff_bind (gets ut_retry_count) (\<lambda>rc.
       if MAX_RETRY_NUM < rc then fail (Err ''too many retries'')
       else
         eff_bind (gets ut_announce) (\<lambda>target.
           (case send_recv n data target expect of
              Inr resp \<Rightarrow> eff_bind (modify (\<lambda>t. t\<lparr> ut_retry_count := 0 \<rparr>)) (\<lambda>_. ret resp)
            | Inl e \<Rightarrow> fail e)))"

definition check_resp_data :: "bytes \<Rightarrow> nat \<Rightarrow> unit result" where
  "check_resp_data data tran =
     (if from_be_slice 4 (take 4 (drop 4 data)) \<noteq> tran then Inl (Err ''transaction id mismatch'')
      else if from_be_slice 4 (take 4 data) = action_code AError then Inl (Err ''tracker error'')
      else Inr ())"

definition connecting :: "udp_env \<Rightarrow> Connect ut" where
  "connecting n =
     eff_bind (udp_send n (gen_protocol_head TRACKER_PROTOCOL_ID AConnect (un_tran1 n)) (int MIN_CONNECT_RESP_SIZE)) (\<lambda>resp.
       if length resp < MIN_CONNECT_RESP_SIZE then fail (Err ''response too short'')
       else
         eff_bind (lift_result (check_resp_data resp (un_tran1 n))) (\<lambda>_.
         ret \<lparr> connection_id = from_be_slice 8 (take 8 (drop 8 resp)), conn_timestamp = un_now2 n \<rparr>))"

definition update_connect :: "udp_env \<Rightarrow> unit ut" where
  "update_connect n =
     eff_bind (gets (\<lambda>t. conn_timestamp (ut_connect t))) (\<lambda>ts.
       if ts \<le> un_now1 n \<and> un_now1 n - ts \<le> CONNECTION_ID_TIMEOUT then ret ()
       else eff_bind (connecting n) (\<lambda>c. modify (\<lambda>t. t\<lparr> ut_connect := c \<rparr>)))"

definition announce_request :: "udp_env \<Rightarrow> AnnounceEvent \<Rightarrow> AnnounceInfo \<Rightarrow> UdpTracker \<Rightarrow> bytes" where
  "announce_request n e i t =
     (let req = gen_protocol_head (connection_id (ut_connect t)) AAnnounce (un_tran2 n);
          req = write_bytes (ut_peer_id t) (write_bytes (ut_info_hash t) req);
          req = write_u64 (ai_uploaded i) (write_u64 (ai_resource_size i - ai_download i) (write_u64 (ai_download i) req));
          req = write_u32 (un_key n) (write_u32 0 (write_u32 (event_code e) req))
      in write_u16 (ai_port i) (write_i32 (- 1) req))"

definition udp_announcing :: "udp_env \<Rightarrow> AnnounceEvent \<Rightarrow> AnnounceInfo \<Rightarrow> UdpAnnounce ut" where
  "udp_announcing n e i =
     eff_bind (update_connect n) (\<lambda>_.
     eff_bind (gets (announce_request n e i)) (\<lambda>req.
     eff_bind (udp_send n req (- 1)) (\<lambda>resp.
       if length resp < MIN_ANNOUNCE_RESP_SIZE then fail (Err ''response too short'')
       else
         eff_bind (lift_result (check_resp_data resp (un_tran2 n))) (\<lambda>_.
         let interval = from_be_slice 4 (take 4 (drop 8 resp)) in
         eff_bind (lift_result (parse_peers_v4 (drop 20 resp))) (\<lambda>ps.
         eff_bind (modify (\<lambda>t. t\<lparr> ut_next_request_time := wrap64 (un_now3 n + interval) \<rparr>)) (\<lambda>_.
         ret \<lparr> ua_interval = interval, ua_leechers = from_be_slice 4 (take 4 (drop 12 resp)),
               ua_seedrs = from_be_slice 4 (take 4 (drop 16 resp)), ua_peers = ps \<rparr>))))))"

definition inc_retry_count :: "nat \<Rightarrow> nat ut" where
  "inc_retry_count now =
     eff_bind (gets ut_retry_count) (\<lambda>rc.
       if MAX_RETRY_NUM < rc then ret U64_MAX
       else
         let interval = SOCKET_READ_TIMEOUT_MS * (rc + 1) in
         eff_bind (modify (\<lambda>t. t\<lparr> ut_retry_count := rc + 1, ut_next_request_time := wrap64 (now + interval) \<rparr>)) (\<lambda>_.
         ret interval))"

section \<open>HTTP trackers\<close>

record HttpAnnounce =
  ha_interval :: nat
  ha_incomplete :: nat
  ha_complete :: nat
  ha_downloaded :: "nat option"
  ha_peers :: "SocketAddr list"
  ha_min_interval :: "nat option"
  ha_peers6 :: "SocketAddr list"

record HttpAcc =
  hc_interval :: "nat option"
  hc_incomplete :: "nat option"
  hc_complete :: "nat option"
  hc_downloaded :: "nat option"
  hc_peers :: "SocketAddr list option"
  hc_min_interval :: "nat option"
  hc_peers6 :: "SocketAddr list option"

definition HttpAcc_new :: HttpAcc where
  "HttpAcc_new = \<lparr> hc_interval = None, hc_incomplete = None, hc_complete = None, hc_downloaded = None, hc_peers = None,
     hc_min_interval = None, hc_peers6 = None \<rparr>"

definition HttpAnnounce_entry :: "bytes \<Rightarrow> Object \<Rightarrow> HttpAcc \<Rightarrow> Decoder \<Rightarrow> (HttpAcc \<times> Decoder) result" where
  "HttpAnnounce_entry k v acc d =
     (if k = ascii ''interval'' then set_field (decode_uint U64_MAX v d) (\<lambda>x. acc\<lparr> hc_interval := Some x \<rparr>)
      else if k = ascii ''incomplete'' then set_field (decode_uint U64_MAX v d) (\<lambda>x. acc\<lparr> hc_incomplete := Some x \<rparr>)
      else if k = ascii ''complete'' then set_field (decode_uint U64_MAX v d) (\<lambda>x. acc\<lparr> hc_complete := Some x \<rparr>)
      else if k = ascii ''downloaded'' then set_field (decode_uint U64_MAX v d) (\<lambda>x. acc\<lparr> hc_downloaded := Some x \<rparr>)
      else if k = ascii ''min interval'' then set_field (decode_uint U64_MAX v d) (\<lambda>x. acc\<lparr> hc_min_interval := Some x \<rparr>)
      else
        (case v of
           OBytes s \<Rightarrow>
             if k = ascii ''peers'' then and_then (addrs_to_object s) (\<lambda>ps. Inr (acc\<lparr> hc_peers := Some ps \<rparr>, d))
             else if k = ascii ''peers6'' then and_then (addrs_to_object s) (\<lambda>ps. Inr (acc\<lparr> hc_peers6 := Some ps \<rparr>, d))
             else skip_field v acc d
         | _ \<Rightarrow> skip_field v acc d))"

definition HttpAnnounce_finish :: "HttpAcc \<Rightarrow> HttpAnnounce result" where
  "HttpAnnounce_finish acc =
     and_then (ok_or_missing ''interval'' (hc_interval acc)) (\<lambda>i.
     and_then (ok_or_missing ''incomplete'' (hc_incomplete acc)) (\<lambda>inc.
     and_then (ok_or_missing ''complete'' (hc_complete acc)) (\<lambda>com.
     Inr \<lparr> ha_interval = i, ha_incomplete = inc, ha_complete = com, ha_downloaded = hc_downloaded acc,
           ha_peers = (case hc_peers acc of None \<Rightarrow> [] | Some ps \<Rightarrow> ps), ha_min_interval = hc_min_interval acc,
           ha_peers6 = (case hc_peers6 acc of None \<Rightarrow> [] | Some ps \<Rightarrow> ps) \<rparr>)))"

definition HttpAnnounce_decode :: "HttpAnnounce reader" where
  "HttpAnnounce_decode v d =
     and_then (try_into_dictionary v) (\<lambda>_.
     and_then (dict_fold (fuel d) HttpAnnounce_entry HttpAcc_new d) (\<lambda>(acc, d').
     and_then (HttpAnnounce_finish acc) (\<lambda>x. Inr (x, d'))))"

record http_env =
  hn_encode :: "bytes \<Rightarrow> string"
  hn_get :: "string \<Rightarrow> (bool \<times> bytes) result"

definition dec_str :: "nat \<Rightarrow> string" where "dec_str n = string_of (to_dec n)"

definition query_url :: "http_env \<Rightarrow> AnnounceEvent \<Rightarrow> AnnounceInfo \<Rightarrow> HttpTracker \<Rightarrow> string" where
  "query_url n e i t =
     ht_announce t @ ''?info_hash='' @ hn_encode n (ht_info_hash t) @ ''&peer_id='' @ hn_encode n (ht_peer_id t)
     @ ''&port='' @ dec_str (ai_port i) @ ''&uploaded='' @ dec_str (ai_uploaded i) @ ''&downloaded='' @ dec_str (ai_download i)
     @ ''&left='' @ dec_str (ai_resource_size i - ai_download i) @ ''&compact=1&event='' @ event_name e"

definition http_announcing :: "http_env \<Rightarrow> AnnounceEvent \<Rightarrow> AnnounceInfo \<Rightarrow> HttpTracker \<Rightarrow> HttpAnnounce result" where
  "http_announcing n e i t =
     and_then (hn_get n (query_url n e i t)) (\<lambda>(ok, body).
       if \<not> ok then Inl (Err ''HTTP request failed'')
       else from_bencode False 2048 HttpAnnounce_decode body)"

definition unusable :: "HttpTracker \<Rightarrow> nat \<times> HttpTracker" where
  "unusable t = (U64_MAX, t\<lparr> ht_next_request_time := U64_MAX \<rparr>)"

section \<open>Scanning\<close>

text \<open>
  One tracker: the time to the next request, the hosts that are handed to the task, and the new state. A panic
  ends the task of the scan.
\<close>

definition scan_udp_tracker ::
  "udp_env \<Rightarrow> nat \<Rightarrow> nat \<Rightarrow> AnnounceInfo \<Rightarrow> AnnounceEvent \<times> UdpTracker \<Rightarrow> (nat \<times> SocketAddr list option \<times> AnnounceEvent \<times> UdpTracker) option" where
  "scan_udp_tracker n now scan_time i x =
     (case x of (e, t) \<Rightarrow>
       if ut_next_request_time t \<le> scan_time then
         (case udp_announcing n e i t of
            None \<Rightarrow> None
          | Some (Inr a, t') \<Rightarrow> Some (ua_interval a, Some (ua_peers a), EvNone, t')
          | Some (Inl _, t') \<Rightarrow>
              (case inc_retry_count now t' of
                 Some (Inr k, t'') \<Rightarrow> Some (k, None, e, t'')
               | _ \<Rightarrow> None))
       else Some (U64_MAX, None, e, t))"

definition scan_http_tracker ::
  "http_env \<Rightarrow> nat \<Rightarrow> AnnounceInfo \<Rightarrow> AnnounceEvent \<times> HttpTracker \<Rightarrow> nat \<times> SocketAddr list option \<times> AnnounceEvent \<times> HttpTracker" where
  "scan_http_tracker n scan_time i x =
     (case x of (e, t) \<Rightarrow>
       if ht_next_request_time t \<le> scan_time then
         (case http_announcing n e i t of
            Inr a \<Rightarrow> (case ha_min_interval a of Some k \<Rightarrow> k | None \<Rightarrow> ha_interval a, Some (ha_peers a), EvNone, t)
          | Inl _ \<Rightarrow> (case unusable t of (k, t') \<Rightarrow> (k, None, e, t')))
       else (U64_MAX, None, e, t))"

definition tracker_handle_process ::
  "udp_env \<Rightarrow> http_env \<Rightarrow> nat \<Rightarrow> nat \<Rightarrow> AnnounceInfo \<Rightarrow> AnnounceEvent \<times> TrackerInstance
    \<Rightarrow> (nat \<times> SocketAddr list option \<times> AnnounceEvent \<times> TrackerInstance) option" where
  "tracker_handle_process un hn now scan_time i x =
     (case x of
        (e, UDP t) \<Rightarrow> map_option (\<lambda>(k, hs, e', t'). (k, hs, e', UDP t')) (scan_udp_tracker un now scan_time i (e, t))
      | (e, HTTP t) \<Rightarrow> (case scan_http_tracker hn scan_time i (e, t) of (k, hs, e', t') \<Rightarrow> Some (k, hs, e', HTTP t')))"

text \<open>All trackers, each with its own network; the hosts in the order of the trackers, and the shortest interval.\<close>

fun scan_tracker ::
  "(nat \<Rightarrow> udp_env \<times> http_env \<times> nat) \<Rightarrow> nat \<Rightarrow> AnnounceInfo \<Rightarrow> (AnnounceEvent \<times> TrackerInstance) list
    \<Rightarrow> (nat \<times> SocketAddr list list \<times> (AnnounceEvent \<times> TrackerInstance) list) option" where
  "scan_tracker env scan_time i [] = Some (U64_MAX, [], [])"
| "scan_tracker env scan_time i (x # xs) =
     (case env 0 of (un, hn, now) \<Rightarrow>
       case tracker_handle_process un hn now scan_time i x of
         None \<Rightarrow> None
       | Some (k, hs, e, t) \<Rightarrow>
           (case scan_tracker (env \<circ> Suc) scan_time i xs of
              None \<Rightarrow> None
            | Some (k', hss, ts) \<Rightarrow> Some (min k' k, (case hs of None \<Rightarrow> hss | Some h \<Rightarrow> h # hss), (e, t) # ts)))"

text \<open>
  \<^verbatim>\<open>Tracker::run\<close>: round after round with the scan time that was read when the tracker was created; the intervals
  slept between the rounds are the first result.
\<close>

fun tracker_rounds ::
  "(nat \<Rightarrow> udp_env \<times> http_env \<times> nat) list \<Rightarrow> nat \<Rightarrow> AnnounceInfo \<Rightarrow> (AnnounceEvent \<times> TrackerInstance) list
    \<Rightarrow> (nat list \<times> SocketAddr list list \<times> (AnnounceEvent \<times> TrackerInstance) list) option" where
  "tracker_rounds [] scan_time i ts = Some ([], [], ts)"
| "tracker_rounds (env # envs) scan_time i ts =
     (case scan_tracker env scan_time i ts of
        None \<Rightarrow> None
      | Some (k, hs, ts') \<Rightarrow>
          (case tracker_rounds envs scan_time i ts' of
             None \<Rightarrow> None
           | Some (ks, hss, ts'') \<Rightarrow> Some (k # ks, hs @ hss, ts'')))"


section \<open>Lemmas\<close>

lemma parse_peers_v4_addrs:
  assumes "\<forall>a \<in> set as. addr4_ok a"
  shows "parse_peers_v4 (concat (map addr_bytes as)) = Inr as"
proof -
  have "length (concat (map addr_bytes as)) = 6 * length as"
    using assms a4.length_enc by (intro length_concat_width) blast
  moreover have "(\<lambda>c. SocketAddrV4 (take 4 c) (from_be_slice 2 (drop 4 c))) = addr6_to_object"
    by (simp add: fun_eq_iff addr6_to_object_def)
  ultimately show ?thesis using a4.dec_array [OF assms] by (simp add: parse_peers_v4_def)
qed

text \<open>The answers a tracker gives: a connection number, and the hosts of an announce.\<close>

definition connect_answer :: "nat \<Rightarrow> nat \<Rightarrow> bytes" where
  "connect_answer tran cid = to_be_bytes 4 0 @ to_be_bytes 4 tran @ to_be_bytes 8 cid"

definition announce_answer :: "nat \<Rightarrow> UdpAnnounce \<Rightarrow> bytes" where
  "announce_answer tran a = to_be_bytes 4 1 @ to_be_bytes 4 tran @ to_be_bytes 4 (ua_interval a) @ to_be_bytes 4 (ua_leechers a)
     @ to_be_bytes 4 (ua_seedrs a) @ concat (map addr_bytes (ua_peers a))"

lemma connecting_ok:
  assumes "un_net n (ut_announce t) (gen_protocol_head TRACKER_PROTOCOL_ID AConnect (un_tran1 n)) = Inr (connect_answer (un_tran1 n) cid)"
    and "ut_retry_count t \<le> MAX_RETRY_NUM" and "un_tran1 n < 2 ^ 32" and "cid < 2 ^ 64"
  shows "connecting n t = Some (Inr \<lparr> connection_id = cid, conn_timestamp = un_now2 n \<rparr>, t\<lparr> ut_retry_count := 0 \<rparr>)"
proof -
  have "udp_send n (gen_protocol_head TRACKER_PROTOCOL_ID AConnect (un_tran1 n)) (int MIN_CONNECT_RESP_SIZE) t
      = Some (Inr (connect_answer (un_tran1 n) cid), t\<lparr> ut_retry_count := 0 \<rparr>)"
    using assms(1,2)
    by (simp add: udp_send_def eff_bind_def gets_def send_recv_def modify_def ret_def MIN_CONNECT_RESP_SIZE_def connect_answer_def)
  moreover have "check_resp_data (connect_answer (un_tran1 n) cid) (un_tran1 n) = Inr ()"
    using assms(3) by (simp add: check_resp_data_def connect_answer_def)
  moreover have "from_be_slice 8 (take 8 (drop 8 (connect_answer (un_tran1 n) cid))) = cid"
    using assms(4) by (simp add: connect_answer_def)
  ultimately show ?thesis
    by (simp add: connecting_def eff_bind_def lift_result_def ret_def MIN_CONNECT_RESP_SIZE_def connect_answer_def)
qed


lemma udp_send_ok:
  assumes "un_net n (ut_announce t) req = Inr resp" and "ut_retry_count t \<le> MAX_RETRY_NUM" and "length resp \<le> MAX_PAYLOAD_SIZE"
  shows "udp_send n req (- 1) t = Some (Inr resp, t\<lparr> ut_retry_count := 0 \<rparr>)"
  using assms by (simp add: udp_send_def eff_bind_def gets_def send_recv_def modify_def ret_def)

lemma update_connect_ok:
  assumes "un_net n (ut_announce t) (gen_protocol_head TRACKER_PROTOCOL_ID AConnect (un_tran1 n)) = Inr (connect_answer (un_tran1 n) cid)"
    and "ut_retry_count t \<le> MAX_RETRY_NUM" and "un_tran1 n < 2 ^ 32" and "cid < 2 ^ 64"
    and "conn_timestamp (ut_connect t) + CONNECTION_ID_TIMEOUT < un_now1 n"
  shows "update_connect n t = Some (Inr (), t\<lparr> ut_retry_count := 0, ut_connect := \<lparr> connection_id = cid, conn_timestamp = un_now2 n \<rparr> \<rparr>)"
proof -
  have "\<not> un_now1 n - conn_timestamp (ut_connect t) \<le> CONNECTION_ID_TIMEOUT" using assms(5) by linarith
  then show ?thesis
    using connecting_ok [OF assms(1-4)] by (simp add: update_connect_def eff_bind_def gets_def modify_def)
qed

lemma length_announce_answer: "\<forall>a \<in> set (ua_peers x). addr4_ok a \<Longrightarrow> length (announce_answer tran x) = 20 + 6 * length (ua_peers x)"
  using length_concat_width [of "ua_peers x" addr_bytes 6] a4.length_enc by (simp add: announce_answer_def)

lemma udp_exchange:
  assumes "un_net n (ut_announce t) (gen_protocol_head TRACKER_PROTOCOL_ID AConnect (un_tran1 n)) = Inr (connect_answer (un_tran1 n) cid)"
    and "un_net n (ut_announce t) (announce_request n e i (t\<lparr> ut_connect := \<lparr> connection_id = cid, conn_timestamp = un_now2 n \<rparr> \<rparr>))
      = Inr (announce_answer (un_tran2 n) a)"
    and "ut_retry_count t \<le> MAX_RETRY_NUM" and "conn_timestamp (ut_connect t) + CONNECTION_ID_TIMEOUT < un_now1 n"
    and "un_tran1 n < 2 ^ 32" and "un_tran2 n < 2 ^ 32" and "cid < 2 ^ 64"
    and "ua_interval a < 2 ^ 32" and "ua_leechers a < 2 ^ 32" and "ua_seedrs a < 2 ^ 32"
    and "\<forall>x \<in> set (ua_peers a). addr4_ok x" and "length (ua_peers a) \<le> 10914"
  shows "\<exists>t'. udp_announcing n e i t = Some (Inr a, t')
    \<and> ut_next_request_time t' = wrap64 (un_now3 n + ua_interval a) \<and> ut_retry_count t' = 0 \<and> connection_id (ut_connect t') = cid"
proof -
  let ?resp = "announce_answer (un_tran2 n) a"
  let ?t = "t\<lparr> ut_retry_count := 0, ut_connect := \<lparr> connection_id = cid, conn_timestamp = un_now2 n \<rparr> \<rparr>"
  note l = length_announce_answer [OF assms(11)]
  have req: "announce_request n e i ?t = announce_request n e i (t\<lparr> ut_connect := \<lparr> connection_id = cid, conn_timestamp = un_now2 n \<rparr> \<rparr>)"
    by (simp add: announce_request_def)
  have s: "udp_send n (announce_request n e i ?t) (- 1) ?t = Some (Inr ?resp, ?t)"
    using udp_send_ok [of n ?t "announce_request n e i ?t" ?resp] assms(2,12) l req by (simp add: MAX_PAYLOAD_SIZE_def MAX_RETRY_NUM_def)
  have c: "check_resp_data ?resp (un_tran2 n) = Inr ()"
    using assms(6) by (simp add: check_resp_data_def announce_answer_def)
  have f: "from_be_slice 4 (take 4 (drop 8 ?resp)) = ua_interval a" "from_be_slice 4 (take 4 (drop 12 ?resp)) = ua_leechers a"
    "from_be_slice 4 (take 4 (drop 16 ?resp)) = ua_seedrs a" "parse_peers_v4 (drop 20 ?resp) = Inr (ua_peers a)"
    using assms(8-10) parse_peers_v4_addrs [OF assms(11)] by (simp_all add: announce_answer_def)
  have "udp_announcing n e i t = Some (Inr a, ?t\<lparr> ut_next_request_time := wrap64 (un_now3 n + ua_interval a) \<rparr>)"
    using update_connect_ok [OF assms(1,3,5,7,4)] s c f l
    by (simp add: udp_announcing_def eff_bind_def gets_def MIN_ANNOUNCE_RESP_SIZE_def lift_result_def Let_def modify_def ret_def)
  then show ?thesis by simp
qed

lemma announcing_next_time:
  assumes "udp_announcing n e i t = Some (Inr a, t')"
  shows "ut_next_request_time t' = wrap64 (un_now3 n + ua_interval a)"
  using assms
  by (auto simp: udp_announcing_def eff_bind_def gets_def lift_result_def modify_def ret_def fail_def Let_def
      split: option.split_asm sum.split_asm if_split_asm)

lemma find_sub_skip:
  assumes "CHR ''/'' \<notin> set h"
  shows "find_sub ''/announce'' (h @ ''/announce'' @ r) = Some (length h)"
  using assms by (induction h) auto

text \<open>A tracker with one host, for examples.\<close>

definition demo_announce :: UdpAnnounce where
  "demo_announce = \<lparr> ua_interval = 1800, ua_leechers = 1, ua_seedrs = 2, ua_peers = [SocketAddrV4 [10, 0, 0, 7] 51413] \<rparr>"

definition demo_net :: udp_env where
  "demo_net = \<lparr> un_now1 = 1000, un_now2 = 1000, un_now3 = 1001, un_tran1 = 5, un_tran2 = 6, un_key = 9,
     un_net = \<lambda>_ req. Inr (if length req = 16 then connect_answer 5 77 else announce_answer 6 demo_announce) \<rparr>"

definition demo_tracker :: UdpTracker where
  "demo_tracker = UdpTracker_new ''tracker.example:80'' (replicate 20 1) (replicate 20 2)"

lemma demo_hyps:
  "un_net demo_net (ut_announce demo_tracker) (gen_protocol_head TRACKER_PROTOCOL_ID AConnect (un_tran1 demo_net)) = Inr (connect_answer (un_tran1 demo_net) 77)"
  "un_net demo_net (ut_announce demo_tracker) (announce_request demo_net e i (demo_tracker\<lparr> ut_connect := \<lparr> connection_id = 77, conn_timestamp = un_now2 demo_net \<rparr> \<rparr>))
      = Inr (announce_answer (un_tran2 demo_net) demo_announce)"
  "ut_retry_count demo_tracker \<le> MAX_RETRY_NUM" "conn_timestamp (ut_connect demo_tracker) + CONNECTION_ID_TIMEOUT < un_now1 demo_net"
  "un_tran1 demo_net < 2 ^ 32" "un_tran2 demo_net < 2 ^ 32" "77 < (2 ^ 64 :: nat)"
  "ua_interval demo_announce < 2 ^ 32" "ua_leechers demo_announce < 2 ^ 32" "ua_seedrs demo_announce < 2 ^ 32"
  "\<forall>x \<in> set (ua_peers demo_announce). addr4_ok x" "length (ua_peers demo_announce) \<le> 10914"
  by (simp_all add: demo_net_def demo_tracker_def demo_announce_def UdpTracker_new_def gen_protocol_head_def announce_request_def
      write_defs Let_def MAX_RETRY_NUM_def CONNECTION_ID_TIMEOUT_def)

section \<open>Properties\<close>

text \<open>
  C32. The exchange with a UDP tracker: after the connection number was obtained with the first datagram, the
  announce carries it, and the hosts, the counts and the interval of the tracker's answer are what the caller
  gets; the next request is due after the interval.
\<close>

theorem udp_announce_exchange:
  assumes "un_net n (ut_announce t) (gen_protocol_head TRACKER_PROTOCOL_ID AConnect (un_tran1 n)) = Inr (connect_answer (un_tran1 n) cid)"
    and "un_net n (ut_announce t) (announce_request n e i (t\<lparr> ut_connect := \<lparr> connection_id = cid, conn_timestamp = un_now2 n \<rparr> \<rparr>))
      = Inr (announce_answer (un_tran2 n) a)"
    and "ut_retry_count t \<le> MAX_RETRY_NUM" and "conn_timestamp (ut_connect t) + CONNECTION_ID_TIMEOUT < un_now1 n"
    and "un_tran1 n < 2 ^ 32" and "un_tran2 n < 2 ^ 32" and "cid < 2 ^ 64"
    and "ua_interval a < 2 ^ 32" and "ua_leechers a < 2 ^ 32" and "ua_seedrs a < 2 ^ 32"
    and "\<forall>x \<in> set (ua_peers a). addr4_ok x" and "length (ua_peers a) \<le> 10914"
  shows "\<exists>t'. udp_announcing n e i t = Some (Inr a, t')
    \<and> ut_next_request_time t' = wrap64 (un_now3 n + ua_interval a) \<and> ut_retry_count t' = 0 \<and> connection_id (ut_connect t') = cid"
  by (rule udp_exchange [OF assms])

theorem udp_announce_exchange_witness:
  "\<exists>t'. udp_announcing demo_net EvStarted \<lparr> ai_download = 0, ai_uploaded = 0, ai_resource_size = 9, ai_port = 80 \<rparr> demo_tracker = Some (Inr demo_announce, t')
    \<and> ut_next_request_time t' = wrap64 (un_now3 demo_net + ua_interval demo_announce) \<and> ut_retry_count t' = 0 \<and> connection_id (ut_connect t') = 77"
  by (rule udp_announce_exchange [OF demo_hyps])

text \<open>
  A UDP tracker is asked successfully at most once: the scan compares the time of the next request with the
  time at which the scanner was created, which no round updates, so after an answer with a positive
  interval every later round leaves the tracker alone, whatever the network would answer.
\<close>

theorem udp_tracker_asked_once:
  assumes "scan_udp_tracker n now scan_time i (e, t) = Some (k, Some hosts, e', t')"
    and "scan_time \<le> un_now3 n" and "0 < k" and "un_now3 n + k < 2 ^ 64"
  shows "scan_udp_tracker n' now' scan_time i' (e', t') = Some (U64_MAX, None, e', t')"
proof -
  obtain a where "udp_announcing n e i t = Some (Inr a, t')" "k = ua_interval a"
    using assms(1) by (auto simp: scan_udp_tracker_def split: if_split_asm option.split_asm sum.split_asm)
  then have "ut_next_request_time t' = un_now3 n + k" using announcing_next_time assms(4) by simp
  then show ?thesis using assms(2,3) by (simp add: scan_udp_tracker_def)
qed

theorem udp_tracker_asked_once_witness:
  "\<exists>e t. scan_udp_tracker demo_net 0 1000 \<lparr> ai_download = 0, ai_uploaded = 0, ai_resource_size = 9, ai_port = 80 \<rparr> (EvStarted, demo_tracker)
      = Some (1800, Some [SocketAddrV4 [10, 0, 0, 7] 51413], e, t)
    \<and> scan_udp_tracker demo_net 0 1000 \<lparr> ai_download = 0, ai_uploaded = 0, ai_resource_size = 9, ai_port = 80 \<rparr> (e, t) = Some (U64_MAX, None, e, t)"
proof -
  let ?i = "\<lparr> ai_download = 0, ai_uploaded = 0, ai_resource_size = 9, ai_port = 80 \<rparr>"
  obtain t where "udp_announcing demo_net EvStarted ?i demo_tracker = Some (Inr demo_announce, t)"
    using udp_exchange [OF demo_hyps, of EvStarted ?i] by blast
  then have s: "scan_udp_tracker demo_net 0 1000 ?i (EvStarted, demo_tracker) = Some (1800, Some [SocketAddrV4 [10, 0, 0, 7] 51413], EvNone, t)"
    by (simp add: scan_udp_tracker_def demo_tracker_def UdpTracker_new_def demo_announce_def)
  from udp_tracker_asked_once [OF s, of demo_net 0 ?i] s show ?thesis by (auto simp: demo_net_def)
qed

text \<open>
  The address of a UDP tracker whose URL has the usual path \<^verbatim>\<open>/announce\<close> is cut wrongly: the prefix \<^verbatim>\<open>udp://\<close> has
  been removed when its length is skipped a second time, so the first six characters of the host are lost and the
  beginning of the path is appended.
\<close>

theorem udp_announce_path_mangles_host:
  assumes "CHR ''/'' \<notin> set h" and "6 \<le> length h" and "\<forall>c \<in> set h. of_char c < (128 :: nat)"
  shows "\<exists>t. parse_tracker_host (''udp://'' @ h @ ''/announce'') ih p = Inr (Some (UDP t))
    \<and> ut_announce t = drop 6 h @ ''/annou'' \<and> ut_announce t \<noteq> h"
proof -
  let ?s = "h @ ''/announce''"
  have f: "find_sub ''/announce'' ?s = Some (length h)" using find_sub_skip [OF assms(1), of "[]"] by simp
  have "\<forall>c \<in> set ?s. of_char c < (128 :: nat)" using assms(3) by (simp; code_simp)
  then have "of_char (?s ! j) < (128 :: nat)" if "j < length ?s" for j using that nth_mem by blast
  then have "\<not> cont_byte (word_of_nat (of_char (?s ! j)))" if "j < length ?s" for j
    using that by (fastforce simp: cont_byte_def word_le_nat_alt unat_of_nat)
  then have b: "char_boundary ?s 6" "char_boundary ?s (length h + 6)" using assms(2) by (simp_all add: char_boundary_def, simp add: cont_byte_def)
  have sl: "str_slice ?s 6 (length h + 6) = Inr (drop 6 h @ ''/annou'')"
    using assms(2) b by (simp add: str_slice_def)
  have "drop 6 h @ ''/annou'' \<noteq> h"
  proof
    assume "drop 6 h @ ''/annou'' = h"
    then have "CHR ''/'' \<in> set h" by (metis in_set_conv_decomp)
    with assms(1) show False by simp
  qed
  with f sl show ?thesis by (simp add: parse_tracker_host_def Let_def UdpTracker_new_def)
qed


theorem udp_announce_path_mangles_host_witness:
  "\<exists>t. parse_tracker_host (''udp://'' @ ''tracker.example:80'' @ ''/announce'') [] [] = Inr (Some (UDP t))
    \<and> ut_announce t = drop 6 ''tracker.example:80'' @ ''/annou'' \<and> ut_announce t \<noteq> ''tracker.example:80''"
  by (rule udp_announce_path_mangles_host) simp_all

end
