(* ===== verification/Routing.thy ===== *)
theory Routing
  imports Bitmap "HOL-Library.List_Lexorder" "HOL-Library.Product_Lexorder" "HOL-Library.Multiset"
begin

text \<open>
  The Kademlia routing table of the DHT node (\<^verbatim>\<open>bt/dht/routing.rs\<close>): node identifiers and their
  XOR distance, buckets that hold at most eight nodes sharing a prefix, splitting of the
  bucket of the own identifier, replacement of stale nodes and the search for the nodes
  closest to a target. \<open>now\<close> is the value of \<^verbatim>\<open>now_secs()\<close>, \<open>fill\<close> and \<open>rng\<close> are the random
  source of \<^verbatim>\<open>random_node\<close>.
\<close>

section \<open>Identifiers\<close>

type_synonym NodeId = bytes

definition K_BUCKET_SIZE :: nat where "K_BUCKET_SIZE = 8"
definition REFRESH_INTERVAL :: nat where "REFRESH_INTERVAL = 900"

definition NodeId_try_from :: "bytes \<Rightarrow> NodeId result" where
  "NodeId_try_from v = (if length v \<noteq> 20 then Inl (Err ''Invalid node ID length'') else Inr v)"

definition NodeId_distance :: "NodeId \<Rightarrow> NodeId \<Rightarrow> bytes" where
  "NodeId_distance a b = map (\<lambda>i. a ! i XOR b ! i) [0..<20]"

definition NodeId_bit :: "NodeId \<Rightarrow> nat \<Rightarrow> u8 result" where
  "NodeId_bit a i =
     (let (idx, offset) = bitmap_offset i
      in if idx < length a then Inr (a ! idx AND offset) else Inl (Panic ''index out of bounds''))"

section \<open>Buckets\<close>

record Node =
  n_id :: NodeId
  n_addr :: SocketAddr
  last_seen :: nat
  responsed :: bool

definition Node_new :: "nat \<Rightarrow> NodeId \<Rightarrow> SocketAddr \<Rightarrow> Node" where
  "Node_new now i a = \<lparr> n_id = i, n_addr = a, last_seen = now, responsed = True \<rparr>"

definition Node_touch :: "nat \<Rightarrow> Node \<Rightarrow> Node" where
  "Node_touch now n = n\<lparr> last_seen := now, responsed := True \<rparr>"

datatype AddResult = Added | Updated | ReplacedStale | BucketFull Node

definition is_success :: "AddResult \<Rightarrow> bool" where
  "is_success r = (case r of BucketFull _ \<Rightarrow> False | _ \<Rightarrow> True)"

record Bucket =
  prefix_id :: NodeId
  prefix_len :: nat
  nodes :: "Node list"
  lastchange :: nat
  can_split :: bool

definition Bucket_new :: "nat \<Rightarrow> NodeId \<Rightarrow> nat \<Rightarrow> bool \<Rightarrow> Bucket" where
  "Bucket_new now p l cs =
     \<lparr> prefix_id = p, prefix_len = l, nodes = [], lastchange = now, can_split = cs \<rparr>"

text \<open>The loop of \<^verbatim>\<open>contains\<close> from index \<open>i\<close> with \<open>n\<close> indices to go.\<close>

fun contains_loop :: "NodeId \<Rightarrow> NodeId \<Rightarrow> nat \<Rightarrow> nat \<Rightarrow> bool result" where
  "contains_loop p x i 0 = Inr True"
| "contains_loop p x i (Suc n) =
     and_then (NodeId_bit p i) (\<lambda>u. and_then (NodeId_bit x i) (\<lambda>v.
       if u \<noteq> v then Inr False else contains_loop p x (Suc i) n))"

definition Bucket_contains :: "Bucket \<Rightarrow> NodeId \<Rightarrow> bool result" where
  "Bucket_contains b x = contains_loop (prefix_id b) x 0 (prefix_len b)"

definition is_full :: "Bucket \<Rightarrow> bool" where
  "is_full b \<longleftrightarrow> K_BUCKET_SIZE \<le> length (nodes b)"

definition pop_stale_node :: "nat \<Rightarrow> Bucket \<Rightarrow> nat option" where
  "pop_stale_node now b =
     position (\<lambda>n. \<not> responsed n \<and> REFRESH_INTERVAL < now - last_seen n) (nodes b)"

definition move_to_end :: "nat \<Rightarrow> Bucket \<Rightarrow> Bucket" where
  "move_to_end pos b =
     (if pos < length (nodes b)
      then b\<lparr> nodes := remove_at pos (nodes b) @ [nodes b ! pos] \<rparr> else b)"

definition Bucket_add_node :: "nat \<Rightarrow> Node \<Rightarrow> Bucket \<Rightarrow> AddResult \<times> Bucket" where
  "Bucket_add_node now node b =
     (case position (\<lambda>n. n_id n = n_id node) (nodes b) of
        Some pos \<Rightarrow>
          (Updated, (move_to_end pos (b\<lparr> nodes := (nodes b)[pos := node] \<rparr>))\<lparr> lastchange := now \<rparr>)
      | None \<Rightarrow>
          if \<not> is_full b then (Added, b\<lparr> nodes := nodes b @ [node], lastchange := now \<rparr>)
          else case pop_stale_node now b of
            Some pos \<Rightarrow>
              (ReplacedStale, b\<lparr> nodes := remove_at pos (nodes b) @ [node], lastchange := now \<rparr>)
          | None \<Rightarrow> (BucketFull node, b))"

definition Bucket_split :: "nat \<Rightarrow> Bucket \<Rightarrow> (Bucket \<times> Bucket) result" where
  "Bucket_split now b =
     (let p = prefix_id b; (idx, offset) = bitmap_offset (prefix_len b)
      in if length p \<le> idx then Inl (Panic ''index out of bounds'')
         else Inr (Bucket_new now (p[idx := p ! idx AND NOT offset]) (prefix_len b + 1) (can_split b),
                   Bucket_new now (p[idx := p ! idx OR offset]) (prefix_len b + 1) (can_split b)))"

definition random_node :: "(nat \<Rightarrow> bytes) \<Rightarrow> (u8 \<Rightarrow> u8) \<Rightarrow> Bucket \<Rightarrow> NodeId result" where
  "random_node fill rng b =
     (let (idx, offset) = bitmap_offset (prefix_len b);
          h = (if idx + 1 < 20 then take (idx + 1) (prefix_id b) @ fill (19 - idx) else prefix_id b)
      in if length h \<le> idx then Inl (Panic ''index out of bounds'')
         else Inr (h[idx := (h ! idx AND (255 - (offset - 1))) OR rng offset]))"

section \<open>The routing table\<close>

record RoutingTable =
  own_id :: NodeId
  buckets :: "Bucket list"

definition RoutingTable_new :: "nat \<Rightarrow> NodeId \<Rightarrow> RoutingTable" where
  "RoutingTable_new now own =
     \<lparr> own_id = own, buckets = [Bucket_new now (replicate 20 0) 0 True] \<rparr>"

text \<open>\<^verbatim>\<open>Iterator::position\<close> with a predicate that may panic.\<close>

fun position_result :: "('a \<Rightarrow> bool result) \<Rightarrow> 'a list \<Rightarrow> nat option result" where
  "position_result P [] = Inr None"
| "position_result P (x # xs) =
     and_then (P x) (\<lambda>b. if b then Inr (Some 0)
       else and_then (position_result P xs) (\<lambda>r. Inr (map_option Suc r)))"

definition find_bucket_for_node :: "NodeId \<Rightarrow> RoutingTable \<Rightarrow> nat option result" where
  "find_bucket_for_node x rt = position_result (\<lambda>b. Bucket_contains b x) (buckets rt)"

definition find_or_create_bucket :: "NodeId \<Rightarrow> RoutingTable \<Rightarrow> nat result" where
  "find_or_create_bucket x rt =
     and_then (find_bucket_for_node x rt) (\<lambda>r.
       case r of Some i \<Rightarrow> Inr i
       | None \<Rightarrow> Inl (Panic ''No bucket found for node - routing table inconsistency!''))"

fun distribute :: "nat \<Rightarrow> Node list \<Rightarrow> Bucket \<Rightarrow> Bucket \<Rightarrow> (Bucket \<times> Bucket) result" where
  "distribute now [] b0 b1 = Inr (b0, b1)"
| "distribute now (n # ns) b0 b1 =
     and_then (Bucket_contains b0 (n_id n)) (\<lambda>c.
       if c then distribute now ns (snd (Bucket_add_node now n b0)) b1
       else distribute now ns b0 (snd (Bucket_add_node now n b1)))"

definition split_bucket :: "nat \<Rightarrow> nat \<Rightarrow> RoutingTable \<Rightarrow> RoutingTable result" where
  "split_bucket now index rt =
     (if length (buckets rt) \<le> index then Inl (Panic ''index out of bounds'')
      else
        and_then (Bucket_split now (buckets rt ! index)) (\<lambda>(b0, b1).
        and_then (distribute now (nodes (buckets rt ! index)) b0 b1) (\<lambda>(b0, b1).
        and_then (Bucket_contains b0 (own_id rt)) (\<lambda>c0.
        and_then (Bucket_contains b1 (own_id rt)) (\<lambda>c1.
        Inr (rt\<lparr> buckets := remove_at index (buckets rt)
                 @ [b0\<lparr> can_split := c0 \<rparr>, b1\<lparr> can_split := c1 \<rparr>] \<rparr>))))))"

definition set_bucket :: "nat \<Rightarrow> Bucket \<Rightarrow> RoutingTable \<Rightarrow> RoutingTable" where
  "set_bucket i b rt = rt\<lparr> buckets := (buckets rt)[i := b] \<rparr>"

text \<open>\<^verbatim>\<open>update_lastchange\<close> on the bucket at an index.\<close>

definition update_lastchange :: "nat \<Rightarrow> nat \<Rightarrow> RoutingTable \<Rightarrow> RoutingTable" where
  "update_lastchange now i rt = set_bucket i ((buckets rt ! i)\<lparr> lastchange := now \<rparr>) rt"

definition RoutingTable_add_node :: "nat \<Rightarrow> Node \<Rightarrow> RoutingTable \<Rightarrow> (bool \<times> RoutingTable) result" where
  "RoutingTable_add_node now node rt =
     (if n_id node = own_id rt then Inr (False, rt)
      else
        and_then (find_or_create_bucket (n_id node) rt) (\<lambda>i.
        case Bucket_add_node now node (buckets rt ! i) of
          (BucketFull node', b) \<Rightarrow>
            if can_split b then
              and_then (split_bucket now i (set_bucket i b rt)) (\<lambda>rt1.
              and_then (find_or_create_bucket (n_id node') rt1) (\<lambda>j.
              case Bucket_add_node now node' (buckets rt1 ! j) of
                (r, b') \<Rightarrow>
                  if is_success r then Inr (True, update_lastchange now j (set_bucket j b' rt1))
                  else Inr (False, set_bucket j b' rt1)))
            else Inr (False, set_bucket i b rt)
        | (_, b) \<Rightarrow> Inr (True, update_lastchange now i (set_bucket i b rt))))"

text \<open>
  The maximum heap of \<^verbatim>\<open>find_closest_nodes\<close>, represented by its elements in ascending order
  of \<^verbatim>\<open>NodeWithDistance\<close>: \<^verbatim>\<open>push\<close> inserts, \<^verbatim>\<open>pop\<close> removes the greatest, \<^verbatim>\<open>into_sorted_vec\<close> is the list.
\<close>

definition dist_key :: "NodeId \<Rightarrow> Node \<Rightarrow> bytes \<times> NodeId" where
  "dist_key target n = (NodeId_distance (n_id n) target, n_id n)"

definition heap_step :: "NodeId \<Rightarrow> nat \<Rightarrow> Node \<Rightarrow> Node list \<Rightarrow> Node list" where
  "heap_step target cnt n heap =
     (let heap' = insort_key (dist_key target) n heap
      in if cnt < length heap' then butlast heap' else heap')"

definition find_closest_nodes :: "RoutingTable \<Rightarrow> NodeId \<Rightarrow> nat \<Rightarrow> Node list" where
  "find_closest_nodes rt target cnt =
     (if cnt = 0 then []
      else fold (\<lambda>b heap. fold (heap_step target cnt) (nodes b) heap) (buckets rt) [])"

definition next_refresh_bucket :: "nat \<Rightarrow> RoutingTable \<Rightarrow> nat option" where
  "next_refresh_bucket now rt = position (\<lambda>b. REFRESH_INTERVAL < now - lastchange b) (buckets rt)"

definition mark_node_responded :: "nat \<Rightarrow> NodeId \<Rightarrow> RoutingTable \<Rightarrow> RoutingTable result" where
  "mark_node_responded now x rt =
     and_then (find_bucket_for_node x rt) (\<lambda>r.
       case r of None \<Rightarrow> Inr rt
       | Some i \<Rightarrow>
           (let b = buckets rt ! i
            in case position (\<lambda>n. n_id n = x) (nodes b) of
                 None \<Rightarrow> Inr rt
               | Some pos \<Rightarrow>
                   Inr (set_bucket i (move_to_end pos
                     (b\<lparr> nodes := (nodes b)[pos := Node_touch now (nodes b ! pos)] \<rparr>)) rt)))"

definition mark_node_unresponsive :: "NodeId \<Rightarrow> RoutingTable \<Rightarrow> RoutingTable result" where
  "mark_node_unresponsive x rt =
     and_then (find_bucket_for_node x rt) (\<lambda>r.
       case r of None \<Rightarrow> Inr rt
       | Some i \<Rightarrow>
           (let b = buckets rt ! i
            in case position (\<lambda>n. n_id n = x) (nodes b) of
                 None \<Rightarrow> Inr rt
               | Some pos \<Rightarrow>
                   Inr (set_bucket i
                     (b\<lparr> nodes := (nodes b)[pos := (nodes b ! pos)\<lparr> responsed := False \<rparr>] \<rparr>) rt)))"

definition all_nodes :: "RoutingTable \<Rightarrow> Node list" where
  "all_nodes rt = concat (map nodes (buckets rt))"

definition get_node_num :: "RoutingTable \<Rightarrow> nat" where
  "get_node_num rt = sum_list (map (\<lambda>b. length (nodes b)) (buckets rt))"

section \<open>Identifiers as bit strings\<close>

definition id_ok :: "NodeId \<Rightarrow> bool" where "id_ok x \<longleftrightarrow> length x = 20"

definition agree :: "NodeId \<Rightarrow> NodeId \<Rightarrow> nat \<Rightarrow> bool" where
  "agree p x n \<longleftrightarrow> (\<forall>i < n. bitmap_has p i = bitmap_has x i)"

lemma and_exp_eq_iff: "(a AND 2 ^ n = b AND 2 ^ n) \<longleftrightarrow> bit a n = bit b n" if "n < 8" for a b :: u8
proof
  assume "a AND 2 ^ n = b AND 2 ^ n"
  then have "bit (a AND 2 ^ n) n = bit (b AND 2 ^ n) n" by simp
  then show "bit a n = bit b n" using that by (simp add: bit_and_iff bit_exp_iff)
next
  assume "bit a n = bit b n"
  then show "a AND 2 ^ n = b AND 2 ^ n"
    by (intro bit_word_eqI) (auto simp: bit_and_iff bit_exp_iff)
qed

lemma NodeId_bit_ok:
  assumes "id_ok p" and "id_ok x" and "i < 160"
  shows "\<exists>u v. NodeId_bit p i = Inr u \<and> NodeId_bit x i = Inr v \<and> (u = v \<longleftrightarrow> bitmap_has p i = bitmap_has x i)"
  using assms
  by (simp add: NodeId_bit_def bitmap_offset_def id_ok_def push_bit_eq_mult bitmap_has_iff and_exp_eq_iff)

lemma agree_Suc_shift:
  "(\<forall>j. i \<le> j \<and> j < i + Suc n \<longrightarrow> Q j) \<longleftrightarrow> Q i \<and> (\<forall>j. Suc i \<le> j \<and> j < Suc i + n \<longrightarrow> Q j)"
  using Suc_le_eq le_eq_less_or_eq by (metis add_Suc add_Suc_right lessI less_add_Suc1)

lemma contains_loop_eq:
  assumes "id_ok p" and "id_ok x" and "i + n \<le> 160"
  shows "contains_loop p x i n = Inr (\<forall>j. i \<le> j \<and> j < i + n \<longrightarrow> bitmap_has p j = bitmap_has x j)"
  using assms
proof (induction n arbitrary: i)
  case 0
  then show ?case by auto
next
  case (Suc n)
  from NodeId_bit_ok [OF Suc.prems(1,2), of i] Suc.prems(3) obtain u v where
    "NodeId_bit p i = Inr u" "NodeId_bit x i = Inr v" "u = v \<longleftrightarrow> bitmap_has p i = bitmap_has x i"
    by auto
  with Suc show ?case by (simp add: agree_Suc_shift del: add_Suc_right)
qed

lemma agree_trans: "agree p x n \<Longrightarrow> agree p y n \<Longrightarrow> agree x y n"
  by (simp add: agree_def)

lemma agree_Suc: "agree p x (Suc n) \<longleftrightarrow> agree p x n \<and> bitmap_has p n = bitmap_has x n"
  by (auto simp: agree_def less_Suc_eq)

lemma agree_0 [simp]: "agree p x 0"
  by (simp add: agree_def)

lemma bit_eq_u8: "(\<forall>n < 8. bit a n = bit b n) \<Longrightarrow> a = (b :: u8)"
  by (rule bit_word_eqI) simp

lemma agree_160:
  assumes "id_ok x" and "id_ok y" and "agree x y 160"
  shows "x = y"
proof (rule nth_equalityI)
  show "length x = length y" using assms by (simp add: id_ok_def)
next
  fix k assume k: "k < length x"
  show "x ! k = y ! k"
  proof (rule bit_eq_u8, intro allI impI)
    fix n :: nat assume "n < 8"
    define i where "i = 8 * k + (7 - n)"
    have i: "i < 160" "i div 8 = k" using k \<open>n < 8\<close> assms(1) by (auto simp: id_ok_def i_def)
    have "i mod 8 = 7 - n" unfolding i_def by (subst mod_mult_self4) simp
    then have n: "7 - i mod 8 = n" using \<open>n < 8\<close> by simp
    have "bitmap_has x i = bitmap_has y i" using assms(3) i(1) by (simp add: agree_def)
    then show "bit (x ! k) n = bit (y ! k) n"
      using assms(1,2) k by (simp add: bitmap_has_iff id_ok_def i(2) n)
  qed
qed

lemma distinct_agree_159:
  assumes "\<forall>x \<in> set xs. id_ok x \<and> agree p x 159" and "distinct xs"
  shows "length xs \<le> 2"
proof -
  have "inj_on (\<lambda>x. bitmap_has x 159) (set xs)"
  proof (rule inj_onI)
    fix x y assume xy: "x \<in> set xs" "y \<in> set xs" and e: "bitmap_has x 159 = bitmap_has y 159"
    have "agree x y 159" using assms(1) xy agree_trans by blast
    with e have "agree x y (Suc 159)" by (simp only: agree_Suc)
    then show "x = y" using agree_160 assms(1) xy by simp
  qed
  then have "card (set xs) \<le> card (UNIV :: bool set)"
    by (rule card_inj_on_le) auto
  then show ?thesis using assms(2) by (simp add: distinct_card)
qed

section \<open>Bucket invariant\<close>

text \<open>
  \<open>bucket_ok own b\<close>: the prefix has 20 bytes and at most 159 significant bits, at most eight
  nodes with pairwise distinct identifiers, each in the range of the bucket and none the own
  identifier. \<open>bucket_inv\<close> adds that the bucket may be split exactly when it is the one of the
  own identifier.
\<close>

definition in_bucket :: "Bucket \<Rightarrow> NodeId \<Rightarrow> bool" where
  "in_bucket b x \<longleftrightarrow> agree (prefix_id b) x (prefix_len b)"

definition bucket_ok :: "NodeId \<Rightarrow> Bucket \<Rightarrow> bool" where
  "bucket_ok own b \<longleftrightarrow>
     id_ok (prefix_id b) \<and> prefix_len b \<le> 159 \<and> length (nodes b) \<le> K_BUCKET_SIZE
     \<and> (\<forall>n \<in> set (nodes b). id_ok (n_id n) \<and> in_bucket b (n_id n) \<and> n_id n \<noteq> own)
     \<and> distinct (map n_id (nodes b))"

definition bucket_inv :: "NodeId \<Rightarrow> Bucket \<Rightarrow> bool" where
  "bucket_inv own b \<longleftrightarrow> bucket_ok own b \<and> (can_split b \<longleftrightarrow> in_bucket b own)"

lemma Bucket_contains_eq [simp]:
  "id_ok (prefix_id b) \<Longrightarrow> prefix_len b \<le> 160 \<Longrightarrow> id_ok x \<Longrightarrow> Bucket_contains b x = Inr (in_bucket b x)"
  by (simp add: Bucket_contains_def contains_loop_eq in_bucket_def agree_def)

lemma in_bucket_update [simp]:
  "in_bucket (b\<lparr>nodes := ns\<rparr>) x = in_bucket b x"
  "in_bucket (b\<lparr>lastchange := t\<rparr>) x = in_bucket b x"
  "in_bucket (b\<lparr>can_split := c\<rparr>) x = in_bucket b x"
  by (simp_all add: in_bucket_def)

lemma bucket_ok_lastchange [simp]:
  "bucket_ok own (b\<lparr>lastchange := t\<rparr>) = bucket_ok own b"
  "bucket_ok own (b\<lparr>can_split := c\<rparr>) = bucket_ok own b"
  "bucket_inv own (b\<lparr>lastchange := t\<rparr>) = bucket_inv own b"
  by (simp_all add: bucket_ok_def bucket_inv_def)

lemma distinct_map_list_update:
  "distinct (map f xs) \<Longrightarrow> i < length xs \<Longrightarrow> f y = f (xs ! i) \<Longrightarrow> map f (xs[i := y]) = map f xs"
  by (metis list_update_id map_update)

lemma set_move_last: "i < length xs \<Longrightarrow> set (remove_at i xs @ [xs ! i]) = set xs"
  and distinct_move_last: "i < length xs \<Longrightarrow> distinct (map f xs) \<Longrightarrow> distinct (map f (remove_at i xs @ [xs ! i]))"
proof -
  assume i: "i < length xs"
  from remove_at_split [OF i] obtain us vs where e: "xs = us @ xs ! i # vs" "remove_at i xs = us @ vs" by blast
  show "set (remove_at i xs @ [xs ! i]) = set xs" by (subst (2) e(1)) (auto simp: e(2))
  show "distinct (map f (remove_at i xs @ [xs ! i]))" if "distinct (map f xs)"
    using that by (subst (asm) e(1)) (auto simp: e(2))
qed

lemma move_to_end_simps [simp]:
  "prefix_id (move_to_end pos b) = prefix_id b"
  "prefix_len (move_to_end pos b) = prefix_len b"
  "can_split (move_to_end pos b) = can_split b"
  by (simp_all add: move_to_end_def)

lemma move_to_end_nodes:
  assumes "pos < length (nodes b)"
  shows "set (nodes (move_to_end pos b)) = set (nodes b)"
    and "length (nodes (move_to_end pos b)) = length (nodes b)"
    and "distinct (map n_id (nodes b)) \<Longrightarrow> distinct (map n_id (nodes (move_to_end pos b)))"
  using assms set_move_last [OF assms] distinct_move_last [OF assms, of n_id]
  by (simp_all add: move_to_end_def)

lemma in_bucket_move [simp]: "in_bucket (move_to_end pos b) x = in_bucket b x"
  by (simp add: in_bucket_def)

lemma bucket_ok_move:
  assumes "bucket_ok own b" and "pos < length (nodes b)"
  shows "bucket_ok own (move_to_end pos b)"
  using assms move_to_end_nodes [OF assms(2)] by (simp add: bucket_ok_def)

lemma bucket_ok_replace:
  assumes "bucket_ok own b" and "pos < length (nodes b)" and "n_id n = n_id (nodes b ! pos)"
  shows "bucket_ok own (b\<lparr>nodes := (nodes b)[pos := n]\<rparr>)"
proof -
  have "map n_id ((nodes b)[pos := n]) = map n_id (nodes b)"
    using assms distinct_map_list_update [of n_id "nodes b" pos n] by (simp add: bucket_ok_def)
  moreover have "\<forall>m \<in> set ((nodes b)[pos := n]). n_id m \<in> n_id ` set (nodes b)"
    using set_update_subset_insert [of "nodes b" pos n] assms(2,3) by (fastforce intro: imageI)
  ultimately show ?thesis using assms(1) by (auto simp: bucket_ok_def) (metis imageE)+
qed

text \<open>The nodes an addition may drop: one with the same identifier and silent, stale ones.\<close>

definition replaceable :: "nat \<Rightarrow> Node \<Rightarrow> Node \<Rightarrow> bool" where
  "replaceable now n m \<longleftrightarrow> n_id m = n_id n \<or> \<not> responsed m \<and> REFRESH_INTERVAL < now - last_seen m"

lemma set_drop_one:
  assumes "i < length xs"
  shows "set xs - set (xs[i := y]) \<subseteq> {xs ! i}" and "set xs - set (remove_at i xs) \<subseteq> {xs ! i}"
  using arg_cong [OF id_take_nth_drop [OF assms], of set] assms
  by (auto simp: remove_at_def upd_conv_take_nth_drop)

text \<open>What \<^verbatim>\<open>Bucket::add_node\<close> does to the bucket.\<close>

lemma Bucket_add_node_spec:
  assumes ok: "bucket_ok own b" and n: "id_ok (n_id n)" "in_bucket b (n_id n)" "n_id n \<noteq> own"
    and r: "Bucket_add_node now n b = (r, b')"
  shows "bucket_ok own b'"
    and "prefix_id b' = prefix_id b" and "prefix_len b' = prefix_len b" and "can_split b' = can_split b"
    and "is_success r \<Longrightarrow> n \<in> set (nodes b') \<and> set (nodes b') \<subseteq> insert n (set (nodes b))"
    and "\<not> is_success r \<Longrightarrow> r = BucketFull n \<and> b' = b \<and> is_full b \<and> n_id n \<notin> n_id ` set (nodes b)"
    and "\<not> is_full b \<Longrightarrow> n_id n \<notin> n_id ` set (nodes b) \<Longrightarrow> nodes b' = nodes b @ [n]"
    and "\<forall>m \<in> set (nodes b) - set (nodes b'). replaceable now n m"
proof -
  have "bucket_ok own b' \<and> prefix_id b' = prefix_id b \<and> prefix_len b' = prefix_len b
    \<and> can_split b' = can_split b
    \<and> (is_success r \<longrightarrow> n \<in> set (nodes b') \<and> set (nodes b') \<subseteq> insert n (set (nodes b)))
    \<and> (\<not> is_success r \<longrightarrow> r = BucketFull n \<and> b' = b \<and> is_full b \<and> n_id n \<notin> n_id ` set (nodes b))
    \<and> (\<not> is_full b \<longrightarrow> n_id n \<notin> n_id ` set (nodes b) \<longrightarrow> nodes b' = nodes b @ [n])
    \<and> (\<forall>m \<in> set (nodes b) - set (nodes b'). replaceable now n m)"
  proof (cases "position (\<lambda>m. n_id m = n_id n) (nodes b)")
    case (Some pos)
    note p = position_SomeD [OF Some]
    define b1 where "b1 = b\<lparr>nodes := (nodes b)[pos := n]\<rparr>"
    have b': "b' = (move_to_end pos b1)\<lparr>lastchange := now\<rparr>" and "is_success r"
      using r Some by (auto simp: Bucket_add_node_def b1_def is_success_def)
    moreover have "bucket_ok own b1"
      unfolding b1_def using ok p by (intro bucket_ok_replace) auto
    moreover have l: "pos < length (nodes b1)" using p by (simp add: b1_def)
    moreover have "n \<in> set (nodes b1)" using p by (simp add: b1_def set_update_memI)
    moreover have "set (nodes b1) \<subseteq> insert n (set (nodes b))"
      by (simp add: b1_def set_update_subset_insert)
    moreover have "n_id n \<in> n_id ` set (nodes b)" using p by (metis image_eqI nth_mem)
    moreover have "\<forall>m \<in> set (nodes b) - set (nodes b1). replaceable now n m"
      using p set_drop_one(1) [of pos "nodes b" n] by (auto simp: b1_def replaceable_def)
    ultimately show ?thesis
      using bucket_ok_move [of own b1 pos] move_to_end_nodes [OF l] by (simp add: b1_def)
  next
    case None
    then have new: "n_id n \<notin> n_id ` set (nodes b)" by (auto simp: position_None_iff)
    show ?thesis
    proof (cases "is_full b")
      case False
      with None r have "b' = b\<lparr>nodes := nodes b @ [n], lastchange := now\<rparr>" "is_success r"
        by (auto simp: Bucket_add_node_def is_success_def)
      with False ok n new show ?thesis by (auto simp: bucket_ok_def is_full_def in_bucket_def)
    next
      case True
      show ?thesis
      proof (cases "pop_stale_node now b")
        case None
        with True \<open>position (\<lambda>m. n_id m = n_id n) (nodes b) = None\<close> r ok new show ?thesis
          by (auto simp: Bucket_add_node_def is_success_def)
      next
        case (Some pos)
        then have p: "pos < length (nodes b)" using position_SomeD by (fastforce simp: pop_stale_node_def)
        have b': "b' = b\<lparr>nodes := remove_at pos (nodes b) @ [n], lastchange := now\<rparr>" "is_success r"
          using True Some None r by (auto simp: Bucket_add_node_def is_success_def)
        have "set (remove_at pos (nodes b)) \<subseteq> set (nodes b)" by (rule set_remove_at_subset)
        moreover have "distinct (map n_id (remove_at pos (nodes b)))"
          using ok by (intro distinct_map_remove_at) (simp add: bucket_ok_def)
        moreover have "\<forall>m \<in> set (nodes b) - set (remove_at pos (nodes b)). replaceable now n m"
          using set_drop_one(2) [OF p] position_SomeD Some
          by (fastforce simp: pop_stale_node_def replaceable_def)
        ultimately show ?thesis using True ok n new p b' by (auto simp: bucket_ok_def in_bucket_def)
      qed
    qed
  qed
  then show "bucket_ok own b'"
    and "prefix_id b' = prefix_id b" and "prefix_len b' = prefix_len b" and "can_split b' = can_split b"
    and "is_success r \<Longrightarrow> n \<in> set (nodes b') \<and> set (nodes b') \<subseteq> insert n (set (nodes b))"
    and "\<not> is_success r \<Longrightarrow> r = BucketFull n \<and> b' = b \<and> is_full b \<and> n_id n \<notin> n_id ` set (nodes b)"
    and "\<not> is_full b \<Longrightarrow> n_id n \<notin> n_id ` set (nodes b) \<Longrightarrow> nodes b' = nodes b @ [n]"
    and "\<forall>m \<in> set (nodes b) - set (nodes b'). replaceable now n m"
    by auto
qed

section \<open>Splitting a bucket\<close>

lemma bitmap_has_clear:
  assumes "i div 8 < length p"
  shows "bitmap_has (p[i div 8 := p ! (i div 8) AND NOT (push_bit (7 - i mod 8) 1)]) j \<longleftrightarrow>
    bitmap_has p j \<and> j \<noteq> i"
  using assms div_mod_8_eq [of j i]
  by (cases "j div 8 = i div 8")
    (auto simp: bitmap_has_iff bit_and_iff bit_not_iff bit_exp_iff push_bit_eq_mult)

lemma bitmap_has_set:
  assumes "i div 8 < length p"
  shows "bitmap_has (p[i div 8 := p ! (i div 8) OR push_bit (7 - i mod 8) 1]) j \<longleftrightarrow>
    bitmap_has p j \<or> j = i"
proof -
  have "i < 8 * length p" using assms by (simp add: div_less_iff_less_mult mult.commute)
  then show ?thesis
    using bitmap_has_put [of p i j] assms by (simp add: bitmap_put_def bitmap_offset_def)
qed

lemma Bucket_split_spec:
  assumes "id_ok (prefix_id b)" and "prefix_len b < 160"
  shows "\<exists>b0 b1. Bucket_split now b = Inr (b0, b1)
    \<and> id_ok (prefix_id b0) \<and> id_ok (prefix_id b1) \<and> nodes b0 = [] \<and> nodes b1 = []
    \<and> prefix_len b0 = Suc (prefix_len b) \<and> prefix_len b1 = Suc (prefix_len b)
    \<and> (\<forall>x. in_bucket b0 x \<longleftrightarrow> in_bucket b x \<and> \<not> bitmap_has x (prefix_len b))
    \<and> (\<forall>x. in_bucket b1 x \<longleftrightarrow> in_bucket b x \<and> bitmap_has x (prefix_len b))"
proof -
  let ?i = "prefix_len b" and ?p = "prefix_id b"
  have idx: "?i div 8 < length ?p" using assms by (simp add: id_ok_def)
  define p0 where "p0 = ?p[?i div 8 := ?p ! (?i div 8) AND NOT (push_bit (7 - ?i mod 8) 1)]"
  define p1 where "p1 = ?p[?i div 8 := ?p ! (?i div 8) OR push_bit (7 - ?i mod 8) 1]"
  have has: "bitmap_has p0 j \<longleftrightarrow> bitmap_has ?p j \<and> j \<noteq> ?i" "bitmap_has p1 j \<longleftrightarrow> bitmap_has ?p j \<or> j = ?i" for j
    using bitmap_has_clear [OF idx] bitmap_has_set [OF idx] by (simp_all only: p0_def p1_def)
  have ok: "id_ok p0" "id_ok p1" using assms by (simp_all add: id_ok_def p0_def p1_def)
  have "Bucket_split now b = Inr (Bucket_new now p0 (Suc ?i) (can_split b), Bucket_new now p1 (Suc ?i) (can_split b))"
    using idx by (simp add: Bucket_split_def bitmap_offset_def Let_def p0_def p1_def)
  moreover have "agree p0 x (Suc ?i) \<longleftrightarrow> agree ?p x ?i \<and> \<not> bitmap_has x ?i" for x
    unfolding agree_Suc by (auto simp: agree_def has)
  moreover have "agree p1 x (Suc ?i) \<longleftrightarrow> agree ?p x ?i \<and> bitmap_has x ?i" for x
    unfolding agree_Suc by (auto simp: agree_def has)
  ultimately show ?thesis using ok by (simp add: Bucket_new_def in_bucket_def)
qed

lemma distribute_spec:
  assumes ok: "bucket_ok own b0" "bucket_ok own b1"
    and cap: "length (nodes b0) + length (nodes b1) + length ns \<le> K_BUCKET_SIZE"
    and ns: "\<forall>n \<in> set ns. id_ok (n_id n) \<and> n_id n \<noteq> own \<and> (in_bucket b0 (n_id n) \<or> in_bucket b1 (n_id n))"
    and dist: "distinct (map n_id (nodes b0 @ nodes b1 @ ns))"
  shows "\<exists>c0 c1. distribute now ns b0 b1 = Inr (c0, c1) \<and> bucket_ok own c0 \<and> bucket_ok own c1
    \<and> prefix_id c0 = prefix_id b0 \<and> prefix_len c0 = prefix_len b0
    \<and> prefix_id c1 = prefix_id b1 \<and> prefix_len c1 = prefix_len b1
    \<and> set (nodes c0) \<union> set (nodes c1) = set (nodes b0) \<union> set (nodes b1) \<union> set ns"
  using assms
proof (induction ns arbitrary: b0 b1)
  case Nil
  then show ?case by simp
next
  case (Cons n ns)
  have n: "id_ok (n_id n)" "n_id n \<noteq> own" using Cons.prems(4) by simp_all
  have c: "Bucket_contains b0 (n_id n) = Inr (in_bucket b0 (n_id n))"
    using Cons.prems(1) n by (simp add: bucket_ok_def)
  show ?case
  proof (cases "in_bucket b0 (n_id n)")
    case True
    obtain r d where a: "Bucket_add_node now n b0 = (r, d)" by fastforce
    note sp = Bucket_add_node_spec [OF Cons.prems(1) n(1) True n(2) a]
    have "\<not> is_full b0" using Cons.prems(3) by (simp add: is_full_def)
    with sp(7) Cons.prems(5) have d: "nodes d = nodes b0 @ [n]" by auto
    have ib: "in_bucket d x = in_bucket b0 x" for x using sp(2,3) by (simp add: in_bucket_def)
    from Cons.IH [OF sp(1) Cons.prems(2)] Cons.prems(3-5) sp(2,3) d ib a c True
    show ?thesis by (auto simp: insert_commute)
  next
    case False
    then have i1: "in_bucket b1 (n_id n)" using Cons.prems(4) by simp
    obtain r d where a: "Bucket_add_node now n b1 = (r, d)" by fastforce
    note sp = Bucket_add_node_spec [OF Cons.prems(2) n(1) i1 n(2) a]
    have "\<not> is_full b1" using Cons.prems(3) by (simp add: is_full_def)
    with sp(7) Cons.prems(5) have d: "nodes d = nodes b1 @ [n]" by auto
    have ib: "in_bucket d x = in_bucket b1 x" for x using sp(2,3) by (simp add: in_bucket_def)
    from Cons.IH [OF Cons.prems(1) sp(1)] Cons.prems(3-5) sp(2,3) d ib a c False
    show ?thesis by (auto simp: insert_commute)
  qed
qed

section \<open>Table invariant\<close>

text \<open>The buckets partition the identifier space and every bucket satisfies its invariant.\<close>

definition rt_inv :: "RoutingTable \<Rightarrow> bool" where
  "rt_inv rt \<longleftrightarrow>
     id_ok (own_id rt) \<and> (\<forall>b \<in> set (buckets rt). bucket_inv (own_id rt) b)
     \<and> (\<forall>x. id_ok x \<longrightarrow> length (filter (\<lambda>b. in_bucket b x) (buckets rt)) = 1)"

lemma rt_inv_bucket: "rt_inv rt \<Longrightarrow> i < length (buckets rt) \<Longrightarrow> bucket_inv (own_id rt) (buckets rt ! i)"
  by (simp add: rt_inv_def)

lemma position_result_eq:
  "\<forall>x \<in> set xs. P x = Inr (Q x) \<Longrightarrow> position_result P xs = Inr (position Q xs)"
  by (induction xs) auto

lemma find_bucket_eq:
  assumes "rt_inv rt" and "id_ok x"
  shows "find_bucket_for_node x rt = Inr (position (\<lambda>b. in_bucket b x) (buckets rt))"
  unfolding find_bucket_for_node_def
  using assms
  by (intro position_result_eq ballI Bucket_contains_eq) (force simp: rt_inv_def bucket_inv_def bucket_ok_def)+

lemma find_bucket_total:
  assumes "rt_inv rt" and "id_ok x"
  obtains i where "position (\<lambda>b. in_bucket b x) (buckets rt) = Some i"
    and "i < length (buckets rt)" and "in_bucket (buckets rt ! i) x"
    and "find_or_create_bucket x rt = Inr i"
proof -
  have "filter (\<lambda>b. in_bucket b x) (buckets rt) \<noteq> []"
    using assms by (metis list.size(3) rt_inv_def zero_neq_one)
  then have "\<exists>b \<in> set (buckets rt). in_bucket b x" by (simp add: filter_empty_conv)
  then obtain i where p: "position (\<lambda>b. in_bucket b x) (buckets rt) = Some i"
    using position_ex [of _ "buckets rt" "\<lambda>b. in_bucket b x"] by blast
  moreover have "find_or_create_bucket x rt = Inr i"
    using p assms by (simp add: find_or_create_bucket_def find_bucket_eq)
  ultimately show ?thesis using that position_SomeD [OF p] by blast
qed

lemma filter_length_update:
  assumes "i < length bs" and "\<forall>x. P b' = P (bs ! i)"
  shows "length (filter P (bs[i := b'])) = length (filter P bs)"
proof -
  have "bs = take i bs @ bs ! i # drop (Suc i) bs" by (rule id_take_nth_drop [OF assms(1)])
  then have "length (filter P bs) = length (filter P (take i bs @ bs ! i # drop (Suc i) bs))" by simp
  then show ?thesis using assms by (simp add: upd_conv_take_nth_drop)
qed

text \<open>Replacing a bucket by one with the same range keeps the invariant.\<close>

lemma rt_inv_set_bucket:
  assumes "rt_inv rt" and "i < length (buckets rt)" and "bucket_inv (own_id rt) b"
    and "\<And>x. in_bucket b x = in_bucket (buckets rt ! i) x"
  shows "rt_inv (set_bucket i b rt)"
proof -
  have "\<forall>b' \<in> set ((buckets rt)[i := b]). bucket_inv (own_id rt) b'"
    using assms(1,3) set_update_subset_insert [of "buckets rt" i b] by (auto simp: rt_inv_def)
  then show ?thesis
    using assms(1,2,4) by (simp add: rt_inv_def set_bucket_def filter_length_update)
qed

lemma set_bucket_simps [simp]:
  "own_id (set_bucket i b rt) = own_id rt"
  "length (buckets (set_bucket i b rt)) = length (buckets rt)"
  "i < length (buckets rt) \<Longrightarrow> buckets (set_bucket i b rt) ! i = b"
  "set_bucket i c (set_bucket i b rt) = set_bucket i c rt"
  "set_bucket i (buckets rt ! i) rt = rt"
  by (simp_all add: set_bucket_def)

lemma update_lastchange_eq:
  "i < length (buckets rt) \<Longrightarrow>
     update_lastchange now i (set_bucket i b rt) = set_bucket i (b\<lparr>lastchange := now\<rparr>) rt"
  by (simp add: update_lastchange_def)

definition node_set :: "RoutingTable \<Rightarrow> Node set" where
  "node_set rt = set (all_nodes rt)"

lemma node_set_def': "node_set rt = (\<Union>b \<in> set (buckets rt). set (nodes b))"
  by (auto simp: node_set_def all_nodes_def)

lemma node_set_set_bucket:
  assumes "i < length (buckets rt)"
  shows "node_set (set_bucket i b rt) \<subseteq> set (nodes b) \<union> node_set rt"
    and "set (nodes b) \<subseteq> node_set (set_bucket i b rt)"
    and "nodes b = nodes (buckets rt ! i) \<Longrightarrow> node_set (set_bucket i b rt) = node_set rt"
    and "set (nodes (buckets rt ! i)) \<subseteq> node_set rt"
    and "node_set rt - node_set (set_bucket i b rt) \<subseteq> set (nodes (buckets rt ! i)) - set (nodes b)"
proof -
  let ?bs = "buckets rt"
  have e: "set (?bs[i := b]) = insert b (set (take i ?bs) \<union> set (drop (Suc i) ?bs))"
    using assms by (simp add: upd_conv_take_nth_drop)
  have e': "set ?bs = insert (?bs ! i) (set (take i ?bs) \<union> set (drop (Suc i) ?bs))"
    using arg_cong [OF id_take_nth_drop [OF assms], of set] by simp
  show "node_set (set_bucket i b rt) \<subseteq> set (nodes b) \<union> node_set rt"
    and "set (nodes b) \<subseteq> node_set (set_bucket i b rt)"
    and "nodes b = nodes (buckets rt ! i) \<Longrightarrow> node_set (set_bucket i b rt) = node_set rt"
    and "set (nodes (buckets rt ! i)) \<subseteq> node_set rt"
    and "node_set rt - node_set (set_bucket i b rt) \<subseteq> set (nodes (buckets rt ! i)) - set (nodes b)"
    unfolding node_set_def' by (auto simp: set_bucket_def e) (auto simp: e')
qed

text \<open>A full bucket never has the maximal prefix length, so a split stays in range.\<close>

lemma full_bucket_prefix_len:
  assumes "bucket_ok own b" and "is_full b"
  shows "prefix_len b < 159"
proof (rule ccontr)
  assume "\<not> prefix_len b < 159"
  then have "prefix_len b = 159" using assms(1) by (simp add: bucket_ok_def)
  then have "length (map n_id (nodes b)) \<le> 2"
    using assms(1) by (intro distinct_agree_159 [of _ "prefix_id b"]) (auto simp: bucket_ok_def in_bucket_def)
  then show False using assms(2) by (simp add: is_full_def K_BUCKET_SIZE_def)
qed

lemma filter_length_remove_at:
  assumes "i < length bs"
  shows "length (filter P (remove_at i bs)) + (if P (bs ! i) then 1 else 0) = length (filter P bs)"
proof -
  have "length (filter P bs) = length (filter P (take i bs @ bs ! i # drop (Suc i) bs))"
    using id_take_nth_drop [OF assms] by simp
  then show ?thesis by (simp add: remove_at_def)
qed

lemma split_bucket_spec:
  assumes inv: "rt_inv rt" and i: "i < length (buckets rt)" and "prefix_len (buckets rt ! i) < 159"
  shows "\<exists>rt'. split_bucket now i rt = Inr rt' \<and> rt_inv rt' \<and> own_id rt' = own_id rt
    \<and> node_set rt' = node_set rt"
proof -
  let ?own = "own_id rt"
  define b where "b = buckets rt ! i"
  have bi: "bucket_inv ?own b" using inv i unfolding b_def by (rule rt_inv_bucket)
  then have ok: "bucket_ok ?own b" by (simp add: bucket_inv_def)
  from Bucket_split_spec [of b now] ok assms(3) obtain b0 b1 where
    sp: "Bucket_split now b = Inr (b0, b1)" "id_ok (prefix_id b0)" "id_ok (prefix_id b1)"
      "nodes b0 = []" "nodes b1 = []" "prefix_len b0 = Suc (prefix_len b)" "prefix_len b1 = Suc (prefix_len b)"
    and in0: "\<And>x. in_bucket b0 x \<longleftrightarrow> in_bucket b x \<and> \<not> bitmap_has x (prefix_len b)"
    and in1: "\<And>x. in_bucket b1 x \<longleftrightarrow> in_bucket b x \<and> bitmap_has x (prefix_len b)"
    by (auto simp: bucket_ok_def b_def)
  have "bucket_ok ?own b0" "bucket_ok ?own b1"
    using sp assms(3) by (simp_all add: bucket_ok_def b_def)
  from distribute_spec [OF this, of "nodes b" now] ok sp obtain c0 c1 where
    di: "distribute now (nodes b) b0 b1 = Inr (c0, c1)" "bucket_ok ?own c0" "bucket_ok ?own c1"
      "prefix_id c0 = prefix_id b0" "prefix_len c0 = prefix_len b0"
      "prefix_id c1 = prefix_id b1" "prefix_len c1 = prefix_len b1"
      "set (nodes c0) \<union> set (nodes c1) = set (nodes b)"
    by (auto simp: bucket_ok_def in0 in1)
  have ic: "in_bucket c0 x = in_bucket b0 x" "in_bucket c1 x = in_bucket b1 x" for x
    using di by (simp_all add: in_bucket_def)
  define d0 where "d0 = c0\<lparr>can_split := in_bucket c0 ?own\<rparr>"
  define d1 where "d1 = c1\<lparr>can_split := in_bucket c1 ?own\<rparr>"
  define rt' where "rt' = rt\<lparr>buckets := remove_at i (buckets rt) @ [d0, d1]\<rparr>"
  have "id_ok ?own" using inv by (simp add: rt_inv_def)
  then have run: "split_bucket now i rt = Inr rt'"
    using i sp(1) di assms(3) sp(2,3,6,7)
    by (simp add: split_bucket_def b_def [symmetric] d0_def d1_def rt'_def)
  have "bucket_inv ?own d0" "bucket_inv ?own d1"
    using di(2,3) by (simp_all add: bucket_inv_def d0_def d1_def)
  moreover have "\<forall>c \<in> set (remove_at i (buckets rt)). bucket_inv ?own c"
    using inv set_remove_at_subset [of i "buckets rt"] by (auto simp: rt_inv_def)
  moreover have "length (filter (\<lambda>b. in_bucket b x) (remove_at i (buckets rt) @ [d0, d1])) = 1" if "id_ok x" for x
    using inv that filter_length_remove_at [OF i, of "\<lambda>b. in_bucket b x", folded b_def]
    by (auto simp: rt_inv_def d0_def d1_def ic in0 in1 split: if_splits)
  ultimately have "rt_inv rt'" using inv by (auto simp: rt_inv_def rt'_def)
  moreover have "node_set rt' = node_set rt"
  proof -
    have "set (buckets rt) = insert b (set (remove_at i (buckets rt)))"
      using arg_cong [OF id_take_nth_drop [OF i], of set] by (simp add: remove_at_def b_def)
    then show ?thesis using di(8) by (auto simp: node_set_def' rt'_def d0_def d1_def)
  qed
  ultimately show ?thesis using run by (simp add: rt'_def)
qed

section \<open>Operations of the table\<close>

text \<open>Adding to the bucket at \<open>i\<close>, which is the one of the node.\<close>

lemma rt_inv_bucket_add:
  assumes inv: "rt_inv rt" and i: "i < length (buckets rt)" "in_bucket (buckets rt ! i) (n_id n)"
    and n: "id_ok (n_id n)" "n_id n \<noteq> own_id rt"
    and r: "Bucket_add_node now n (buckets rt ! i) = (r, b)"
  shows "rt_inv (set_bucket i (b\<lparr>lastchange := t\<rparr>) rt)" and "rt_inv (set_bucket i b rt)"
    and "is_success r \<Longrightarrow> n \<in> node_set (set_bucket i (b\<lparr>lastchange := t\<rparr>) rt)
          \<and> node_set (set_bucket i (b\<lparr>lastchange := t\<rparr>) rt) \<subseteq> insert n (node_set rt)"
    and "\<not> is_success r \<Longrightarrow> r = BucketFull n \<and> set_bucket i b rt = rt \<and> is_full (buckets rt ! i) \<and> b = buckets rt ! i"
    and "\<forall>m \<in> node_set rt - node_set (set_bucket i (b\<lparr>lastchange := t\<rparr>) rt). replaceable now n m"
proof -
  have bi: "bucket_inv (own_id rt) (buckets rt ! i)" using inv i(1) by (rule rt_inv_bucket)
  then have ok: "bucket_ok (own_id rt) (buckets rt ! i)" by (simp add: bucket_inv_def)
  note sp = Bucket_add_node_spec [OF ok n(1) i(2) n(2) r]
  have ib: "in_bucket b x = in_bucket (buckets rt ! i) x" for x using sp(2,3) by (simp add: in_bucket_def)
  have "bucket_inv (own_id rt) b" using bi sp(1,4) ib by (simp add: bucket_inv_def)
  then show "rt_inv (set_bucket i (b\<lparr>lastchange := t\<rparr>) rt)" and "rt_inv (set_bucket i b rt)"
    using inv i(1) by (intro rt_inv_set_bucket; simp add: ib)+
  show "is_success r \<Longrightarrow> n \<in> node_set (set_bucket i (b\<lparr>lastchange := t\<rparr>) rt)
          \<and> node_set (set_bucket i (b\<lparr>lastchange := t\<rparr>) rt) \<subseteq> insert n (node_set rt)"
    using sp(5) node_set_set_bucket(1,2) [OF i(1), of "b\<lparr>lastchange := t\<rparr>"]
      node_set_set_bucket(4) [OF i(1)] by auto
  show "\<not> is_success r \<Longrightarrow> r = BucketFull n \<and> set_bucket i b rt = rt \<and> is_full (buckets rt ! i) \<and> b = buckets rt ! i"
    using sp(6) by (simp add: set_bucket_def)
  show "\<forall>m \<in> node_set rt - node_set (set_bucket i (b\<lparr>lastchange := t\<rparr>) rt). replaceable now n m"
    using sp(8) node_set_set_bucket(5) [OF i(1), of "b\<lparr>lastchange := t\<rparr>"] by auto
qed

lemma RoutingTable_add_node_spec:
  assumes inv: "rt_inv rt" and n: "id_ok (n_id n)"
  shows "\<exists>ok rt'. RoutingTable_add_node now n rt = Inr (ok, rt') \<and> rt_inv rt' \<and> own_id rt' = own_id rt
    \<and> (if ok then n \<in> node_set rt' \<and> node_set rt' \<subseteq> insert n (node_set rt) else node_set rt' = node_set rt)
    \<and> (\<forall>m \<in> node_set rt - node_set rt'. replaceable now n m)"
proof (cases "n_id n = own_id rt")
  case True
  with inv show ?thesis by (auto simp: RoutingTable_add_node_def)
next
  case False
  from find_bucket_total [OF inv n] obtain i where
    i: "i < length (buckets rt)" "in_bucket (buckets rt ! i) (n_id n)" "find_or_create_bucket (n_id n) rt = Inr i"
    by blast
  obtain r b where r: "Bucket_add_node now n (buckets rt ! i) = (r, b)" by fastforce
  note add = rt_inv_bucket_add [OF inv i(1,2) n False r]
  show ?thesis
  proof (cases "is_success r")
    case True
    then have "RoutingTable_add_node now n rt = Inr (True, set_bucket i (b\<lparr>lastchange := now\<rparr>) rt)"
      using False i r by (cases r) (simp_all add: RoutingTable_add_node_def is_success_def update_lastchange_eq)
    with add(1) [where t = now] add(3) [where t = now] add(5) [where t = now] True show ?thesis by auto
  next
    case full: False
    note f = add(4) [OF full]
    show ?thesis
    proof (cases "can_split b")
      case no: False
      then have "RoutingTable_add_node now n rt = Inr (False, rt)"
        using False i r f by (simp add: RoutingTable_add_node_def)
      with inv show ?thesis by auto
    next
      case True
      have "bucket_ok (own_id rt) (buckets rt ! i)"
        using rt_inv_bucket [OF inv i(1)] by (simp add: bucket_inv_def)
      with f have "prefix_len (buckets rt ! i) < 159" by (intro full_bucket_prefix_len) auto
      from split_bucket_spec [OF inv i(1) this, of now] obtain rt1 where
        s: "split_bucket now i rt = Inr rt1" "rt_inv rt1" "own_id rt1 = own_id rt" "node_set rt1 = node_set rt"
        by blast
      from find_bucket_total [OF s(2) n] obtain j where
        j: "j < length (buckets rt1)" "in_bucket (buckets rt1 ! j) (n_id n)" "find_or_create_bucket (n_id n) rt1 = Inr j"
        by blast
      obtain r' b' where r': "Bucket_add_node now n (buckets rt1 ! j) = (r', b')" by fastforce
      have "n_id n \<noteq> own_id rt1" using False s(3) by simp
      note add' = rt_inv_bucket_add [OF s(2) j(1,2) n this r']
      have "RoutingTable_add_node now n rt =
          (if is_success r' then Inr (True, set_bucket j (b'\<lparr>lastchange := now\<rparr>) rt1) else Inr (False, set_bucket j b' rt1))"
        using False i r f s j r' True
        by (simp add: RoutingTable_add_node_def update_lastchange_eq)
      with add'(1) [where t = now] add'(2,4) add'(3) [where t = now] add'(5) [where t = now] s show ?thesis
        by (cases "is_success r'") auto
    qed
  qed
qed

text \<open>Replacing a node by one with the same identifier, as the two marking operations do.\<close>

lemma rt_inv_mark:
  assumes inv: "rt_inv rt" and i: "i < length (buckets rt)" and b: "b = buckets rt ! i"
    and pos: "pos < length (nodes b)" and n: "n_id n = n_id (nodes b ! pos)"
  shows "rt_inv (set_bucket i (b\<lparr>nodes := (nodes b)[pos := n]\<rparr>) rt)"
    and "rt_inv (set_bucket i (move_to_end pos (b\<lparr>nodes := (nodes b)[pos := n]\<rparr>)) rt)"
proof -
  let ?b = "b\<lparr>nodes := (nodes b)[pos := n]\<rparr>"
  have bi: "bucket_inv (own_id rt) b" using inv i unfolding b by (rule rt_inv_bucket)
  then have ok: "bucket_ok (own_id rt) ?b" using pos n by (intro bucket_ok_replace) (simp_all add: bucket_inv_def)
  moreover have "bucket_ok (own_id rt) (move_to_end pos ?b)" using ok pos by (intro bucket_ok_move) simp_all
  ultimately have "bucket_inv (own_id rt) ?b" "bucket_inv (own_id rt) (move_to_end pos ?b)"
    using bi by (simp_all add: bucket_inv_def)
  then show "rt_inv (set_bucket i ?b rt)" and "rt_inv (set_bucket i (move_to_end pos ?b) rt)"
    using inv i by (intro rt_inv_set_bucket; simp add: b)+
qed

lemma mark_spec:
  assumes inv: "rt_inv rt" and x: "id_ok x"
  shows "\<exists>rt'. mark_node_responded now x rt = Inr rt' \<and> rt_inv rt' \<and> own_id rt' = own_id rt"
    and "\<exists>rt'. mark_node_unresponsive x rt = Inr rt' \<and> rt_inv rt' \<and> own_id rt' = own_id rt"
proof -
  from find_bucket_total [OF inv x] obtain i where
    i: "position (\<lambda>b. in_bucket b x) (buckets rt) = Some i" "i < length (buckets rt)" by blast
  let ?b = "buckets rt ! i"
  have f: "find_bucket_for_node x rt = Inr (Some i)" using inv x i by (simp add: find_bucket_eq)
  show "\<exists>rt'. mark_node_responded now x rt = Inr rt' \<and> rt_inv rt' \<and> own_id rt' = own_id rt"
    and "\<exists>rt'. mark_node_unresponsive x rt = Inr rt' \<and> rt_inv rt' \<and> own_id rt' = own_id rt"
    using f inv rt_inv_mark [OF inv i(2) refl] position_SomeD [of "\<lambda>n. n_id n = x" "nodes ?b"]
    by (auto simp: mark_node_responded_def mark_node_unresponsive_def Let_def Node_touch_def
        split: option.split)
qed

section \<open>Reachable tables\<close>

text \<open>
  The operations the rest of the node applies to its table: adding a node, marking a node,
  touching the bucket that is due for a refresh.
\<close>

inductive rt_reach :: "NodeId \<Rightarrow> RoutingTable \<Rightarrow> bool" for own where
  reach_new: "rt_reach own (RoutingTable_new now own)"
| reach_add: "rt_reach own rt \<Longrightarrow> id_ok (n_id n) \<Longrightarrow> RoutingTable_add_node now n rt = Inr (ok, rt') \<Longrightarrow> rt_reach own rt'"
| reach_responded: "rt_reach own rt \<Longrightarrow> id_ok x \<Longrightarrow> mark_node_responded now x rt = Inr rt' \<Longrightarrow> rt_reach own rt'"
| reach_unresponsive: "rt_reach own rt \<Longrightarrow> id_ok x \<Longrightarrow> mark_node_unresponsive x rt = Inr rt' \<Longrightarrow> rt_reach own rt'"
| reach_refresh: "rt_reach own rt \<Longrightarrow> next_refresh_bucket now rt = Some i \<Longrightarrow> rt_reach own (update_lastchange now' i rt)"

lemma rt_inv_new: "id_ok own \<Longrightarrow> rt_inv (RoutingTable_new now own)"
  by (simp add: rt_inv_def RoutingTable_new_def Bucket_new_def bucket_inv_def bucket_ok_def in_bucket_def
      K_BUCKET_SIZE_def id_ok_def)

lemma rt_inv_refresh: "rt_inv rt \<Longrightarrow> i < length (buckets rt) \<Longrightarrow> rt_inv (update_lastchange now i rt)"
  unfolding update_lastchange_def by (intro rt_inv_set_bucket) (simp_all add: rt_inv_bucket)

lemma rt_reach_inv:
  assumes "rt_reach own rt" and "id_ok own"
  shows "rt_inv rt \<and> own_id rt = own"
  using assms
proof (induction rule: rt_reach.induct)
  case (reach_new now)
  then show ?case using rt_inv_new [of own now] by (simp add: RoutingTable_new_def)
next
  case (reach_add rt n now ok rt')
  then show ?case using RoutingTable_add_node_spec [of rt n now] by auto
next
  case (reach_responded rt x now rt')
  then show ?case using mark_spec(1) [of rt x now] by auto
next
  case (reach_unresponsive rt x rt')
  then show ?case using mark_spec(2) [of rt x] by auto
next
  case (reach_refresh rt now i now')
  then have "i < length (buckets rt)" using position_SomeD by (fastforce simp: next_refresh_bucket_def)
  then show ?case using reach_refresh rt_inv_refresh by (auto simp: update_lastchange_def)
qed

lemma filter_one_index:
  assumes "length (filter P xs) = 1" and "i < length xs" and "j < length xs" and "P (xs ! i)" and "P (xs ! j)"
  shows "i = j"
proof -
  have "card {k. k < length xs \<and> P (xs ! k)} = 1" using assms(1) by (simp add: length_filter_conv_card)
  then obtain k where k: "{k. k < length xs \<and> P (xs ! k)} = {k}" by (rule card_1_singletonE)
  have "i \<in> {k. k < length xs \<and> P (xs ! k)}" "j \<in> {k. k < length xs \<and> P (xs ! k)}" using assms by simp_all
  then show ?thesis unfolding k by simp
qed

lemma distinct_concat_map:
  assumes "\<forall>b \<in> set bs. distinct (map f (g b))"
    and "\<forall>i j. i < j \<longrightarrow> j < length bs \<longrightarrow> f ` set (g (bs ! i)) \<inter> f ` set (g (bs ! j)) = {}"
  shows "distinct (map f (concat (map g bs)))"
  using assms
proof (induction bs)
  case Nil
  then show ?case by simp
next
  case (Cons b bs)
  have disj: "f ` set (g b) \<inter> f ` set (g c) = {}" if "c \<in> set bs" for c
  proof -
    from that obtain j where "j < length bs" "c = bs ! j" by (metis in_set_conv_nth)
    then show ?thesis using Cons.prems(2) [rule_format, of 0 "Suc j"] by simp
  qed
  have "\<forall>i j. i < j \<longrightarrow> j < length bs \<longrightarrow> f ` set (g (bs ! i)) \<inter> f ` set (g (bs ! j)) = {}"
  proof (intro allI impI)
    fix i j assume "i < j" "j < length bs"
    then show "f ` set (g (bs ! i)) \<inter> f ` set (g (bs ! j)) = {}"
      using Cons.prems(2) [rule_format, of "Suc i" "Suc j"] by simp
  qed
  then have "distinct (map f (concat (map g bs)))" using Cons by simp
  moreover have "f ` set (g b) \<inter> f ` set (concat (map g bs)) = {}" using disj by fastforce
  ultimately show ?case using Cons.prems(1) by simp
qed

lemma all_ids_distinct:
  assumes "rt_inv rt"
  shows "distinct (map n_id (all_nodes rt))"
  unfolding all_nodes_def
proof (rule distinct_concat_map)
  show "\<forall>b \<in> set (buckets rt). distinct (map n_id (nodes b))"
    using assms by (simp add: rt_inv_def bucket_inv_def bucket_ok_def)
next
  have "x \<notin> n_id ` set (nodes (buckets rt ! j))" if "i < j" "j < length (buckets rt)"
    "x \<in> n_id ` set (nodes (buckets rt ! i))" for i j x
  proof
    assume xj: "x \<in> n_id ` set (nodes (buckets rt ! j))"
    have "in_bucket (buckets rt ! k) x \<and> id_ok x" if "k < length (buckets rt)" "x \<in> n_id ` set (nodes (buckets rt ! k))" for k
      using rt_inv_bucket [OF assms that(1)] that(2) by (auto simp: bucket_inv_def bucket_ok_def)
    then have "in_bucket (buckets rt ! i) x" "in_bucket (buckets rt ! j) x" "id_ok x"
      using that xj by auto
    moreover have "length (filter (\<lambda>b. in_bucket b x) (buckets rt)) = 1"
      using assms calculation(3) by (simp add: rt_inv_def)
    ultimately have "i = j" using that(1,2) filter_one_index [of "\<lambda>b. in_bucket b x" "buckets rt" i j] by simp
    then show False using that(1) by simp
  qed
  then show "\<forall>i j. i < j \<longrightarrow> j < length (buckets rt) \<longrightarrow>
      n_id ` set (nodes (buckets rt ! i)) \<inter> n_id ` set (nodes (buckets rt ! j)) = {}" by blast
qed

section \<open>Closest nodes\<close>

lemma take_insort_take: "take c (insort_key k x (take c ys)) = take c (insort_key k x ys)"
proof (induction ys arbitrary: c)
  case Nil
  then show ?case by simp
next
  case (Cons y ys)
  then show ?case by (cases c) (auto simp: take_Cons' min_def)
qed

lemma heap_step_take:
  "heap_step target c n (take c ys) = take c (insort_key (dist_key target) n ys)"
proof -
  let ?h = "insort_key (dist_key target) n (take c ys)"
  have "length ?h \<le> Suc c" by simp
  then have "heap_step target c n (take c ys) = take c ?h"
    by (auto simp: heap_step_def Let_def butlast_conv_take)
  then show ?thesis by (simp only: take_insort_take)
qed

lemma fold_heap_step:
  "fold (heap_step target c) ns (take c ys) = take c (fold (insort_key (dist_key target)) ns ys)"
  by (induction ns arbitrary: ys) (simp_all add: heap_step_take)

lemma fold_nested: "fold (\<lambda>b. fold f (g b)) bs s = fold f (concat (map g bs)) s"
  by (induction bs arbitrary: s) simp_all

lemma sort_key_unique:
  assumes "distinct (map f xs)"
  shows "fold (insort_key f) xs [] = sort_key f xs"
proof -
  have "fold (insort_key f) xs [] = sort_key f (rev xs)" by (simp add: sort_key_def foldr_conv_fold)
  also have "\<dots> = sort_key f xs"
  proof (rule map_sorted_distinct_set_unique)
    show "inj_on f (set (sort_key f (rev xs)) \<union> set (sort_key f xs))"
      using assms by (simp add: distinct_map)
    show "distinct (map f (sort_key f (rev xs)))" and "distinct (map f (sort_key f xs))"
      using assms by (simp_all add: distinct_map)
  qed simp_all
  finally show ?thesis .
qed

lemma distinct_dist_key: "distinct (map n_id ns) \<Longrightarrow> distinct (map (dist_key target) ns)"
  by (auto simp: distinct_map inj_on_def dist_key_def)

lemma find_closest_nodes_eq:
  assumes "distinct (map n_id (all_nodes rt))"
  shows "find_closest_nodes rt target c = take c (sort_key (dist_key target) (all_nodes rt))"
proof -
  have "fold (\<lambda>b. fold (heap_step target c) (nodes b)) (buckets rt) [] =
      take c (fold (insort_key (dist_key target)) (all_nodes rt) [])"
    using fold_heap_step [of target c "all_nodes rt" "[]"] by (simp add: fold_nested all_nodes_def)
  then show ?thesis
    using sort_key_unique [OF distinct_dist_key [OF assms]] by (simp add: find_closest_nodes_def)
qed

section \<open>Random identifiers of a bucket\<close>

lemma mask_above: "n < 8 \<Longrightarrow> bit (255 - (2 ^ n - 1) :: u8) m \<longleftrightarrow> m < 8 \<and> n \<le> m"
proof -
  assume n: "n < 8"
  have "(255 :: u8) = - 1" by simp
  then have "(255 - (2 ^ n - 1) :: u8) = NOT (mask n)"
    by (simp add: not_eq_complement mask_eq_exp_minus_1)
  then show ?thesis by (auto simp: bit_not_iff bit_mask_iff)
qed

lemma bit_small_u8: "r < 2 ^ n \<Longrightarrow> n < 8 \<Longrightarrow> bit (r :: u8) m \<Longrightarrow> m < n"
proof -
  assume "r < 2 ^ n" "n < 8" "bit r m"
  moreover have "unat (2 ^ n :: u8) = 2 ^ n"
  proof -
    have "(2 :: nat) ^ n < 2 ^ 8" using \<open>n < 8\<close> by (intro power_strict_increasing) simp_all
    then show ?thesis using unat_of_nat [of "2 ^ n", where ?'a = 8] by simp
  qed
  ultimately have "unat r < 2 ^ n" by (simp add: word_less_nat_alt)
  then have "take_bit n (unat r) = unat r" by (simp add: take_bit_nat_eq_self)
  moreover have "bit (unat r) m" using \<open>bit r m\<close> by (simp add: bit_unsigned_iff bit_imp_le_length)
  ultimately show "m < n" by (metis bit_take_bit_iff)
qed

lemma random_node_spec:
  assumes p: "id_ok (prefix_id b)" "prefix_len b \<le> 159"
    and fill: "\<And>n. length (fill n) = n" and rng: "\<And>u. 0 < u \<Longrightarrow> rng u < u"
  shows "\<exists>x. random_node fill rng b = Inr x \<and> id_ok x \<and> agree (prefix_id b) x (Suc (prefix_len b))"
proof -
  let ?p = "prefix_id b" and ?l = "prefix_len b"
  define idx where "idx = ?l div 8"
  define n where "n = 7 - ?l mod 8"
  define h where "h = (if idx + 1 < 20 then take (idx + 1) ?p @ fill (19 - idx) else ?p)"
  define x where "x = h[idx := (h ! idx AND (255 - (2 ^ n - 1))) OR rng (2 ^ n)]"
  have idx: "idx < 20" and n: "n < 8" using p by (simp_all add: idx_def n_def)
  have lh: "length h = 20" using p idx fill by (simp add: h_def id_ok_def min_def)
  have hk: "h ! k = ?p ! k" if "k \<le> idx" for k
    using that p idx by (simp add: h_def nth_append id_ok_def)
  have "random_node fill rng b = Inr x"
    using lh idx
    by (simp only: random_node_def bitmap_offset_def Let_def prod.case push_bit_of_1 idx_def [symmetric]
        n_def [symmetric] h_def [symmetric] x_def [symmetric]) (simp add: not_le)
  moreover have "id_ok x" using lh by (simp add: x_def id_ok_def)
  moreover have "bitmap_has ?p j = bitmap_has x j" if "j \<le> ?l" for j
  proof (cases "j div 8 = idx")
    case True
    have "j mod 8 \<le> ?l mod 8"
      using that True div_mult_mod_eq [of j 8] div_mult_mod_eq [of ?l 8] unfolding idx_def by linarith
    then have m: "n \<le> 7 - j mod 8" by (simp add: n_def diff_le_mono2)
    have "0 < (2 ^ n :: u8)" using exp_u8_nonzero [OF n] by (simp add: word_gt_0)
    then have "\<not> bit (rng (2 ^ n)) (7 - j mod 8)"
      using bit_small_u8 [OF rng n, of "7 - j mod 8"] m by (auto simp: not_less)
    moreover have "bit (255 - (2 ^ n - 1) :: u8) (7 - j mod 8)"
      using m by (simp only: mask_above [OF n]) simp
    ultimately have "bit (x ! idx) (7 - j mod 8) = bit (?p ! idx) (7 - j mod 8)"
      using lh idx hk [of idx]
      by (simp only: x_def nth_list_update_eq bit_or_iff bit_and_iff order_refl simp_thms)
    then show ?thesis using True idx p \<open>id_ok x\<close> by (simp add: bitmap_has_iff id_ok_def)
  next
    case False
    then have "j div 8 < idx" using that div_le_mono [of j ?l 8] by (simp add: idx_def)
    then show ?thesis using hk [of "j div 8"] lh p idx by (auto simp: bitmap_has_iff x_def id_ok_def)
  qed
  ultimately show ?thesis by (auto simp: agree_def less_Suc_eq_le)
qed

section \<open>Properties\<close>

lemma rt_inv_contains:
  "rt_inv rt \<Longrightarrow> b \<in> set (buckets rt) \<Longrightarrow> id_ok x \<Longrightarrow> Bucket_contains b x = Inr (in_bucket b x)"
  by (rule Bucket_contains_eq) (force simp: rt_inv_def bucket_inv_def bucket_ok_def)+

lemma rt_inv_unique_bucket:
  assumes "rt_inv rt" and "id_ok x"
  shows "\<exists>!i. i < length (buckets rt) \<and> Bucket_contains (buckets rt ! i) x = Inr True"
proof -
  from find_bucket_total [OF assms] obtain i where i: "i < length (buckets rt)" "in_bucket (buckets rt ! i) x"
    by blast
  have c: "Bucket_contains (buckets rt ! k) x = Inr (in_bucket (buckets rt ! k) x)" if "k < length (buckets rt)" for k
    using that by (intro rt_inv_contains [OF assms(1) _ assms(2)] nth_mem)
  have one: "length (filter (\<lambda>b. in_bucket b x) (buckets rt)) = 1" using assms by (simp add: rt_inv_def)
  show ?thesis
    using i c filter_one_index [OF one] by (intro ex1I [of _ i]) auto
qed

text \<open>
  C4. In every table the operations can reach from a new one, each 160-bit identifier belongs to
  exactly one bucket, a bucket holds at most eight nodes and only nodes of its own range, no
  identifier is stored twice and the own identifier is never stored.
\<close>

theorem routing_table_invariant:
  assumes "rt_reach own rt" and "id_ok own"
  shows "(\<forall>x. id_ok x \<longrightarrow> (\<exists>!i. i < length (buckets rt) \<and> Bucket_contains (buckets rt ! i) x = Inr True))
    \<and> (\<forall>b \<in> set (buckets rt). length (nodes b) \<le> 8 \<and> (\<forall>n \<in> set (nodes b). Bucket_contains b (n_id n) = Inr True))
    \<and> distinct (map n_id (all_nodes rt)) \<and> own \<notin> n_id ` set (all_nodes rt)"
proof -
  have inv: "rt_inv rt" and own: "own_id rt = own" using rt_reach_inv [OF assms] by simp_all
  have "length (nodes b) \<le> 8 \<and> (\<forall>n \<in> set (nodes b). Bucket_contains b (n_id n) = Inr True \<and> n_id n \<noteq> own)"
    if "b \<in> set (buckets rt)" for b
    using inv that rt_inv_contains [OF inv that] own
    by (auto simp: rt_inv_def bucket_inv_def bucket_ok_def K_BUCKET_SIZE_def)
  then show ?thesis
    using rt_inv_unique_bucket [OF inv] all_ids_distinct [OF inv] by (auto simp: all_nodes_def)
qed

theorem routing_table_invariant_witness:
  "distinct (map n_id (all_nodes (RoutingTable_new 0 (replicate 20 7))))
    \<and> (\<exists>!i. i < length (buckets (RoutingTable_new 0 (replicate 20 7)))
         \<and> Bucket_contains (buckets (RoutingTable_new 0 (replicate 20 7)) ! i) (replicate 20 5) = Inr True)"
  using routing_table_invariant [OF reach_new [where now = 0 and own = "replicate 20 7"]]
  by (simp add: id_ok_def)

text \<open>
  C25. Adding a node to a reachable table never panics: a bucket for the node always exists and a
  split never runs past the last bit. When it reports success the node is stored and nothing
  else was added; otherwise the stored nodes are unchanged. A node that disappears had the same
  identifier or was silent and not seen for longer than the refresh interval.
\<close>

theorem routing_add_node_total:
  assumes "rt_reach own rt" and "id_ok own" and "id_ok (n_id n)"
  shows "\<exists>ok rt'. RoutingTable_add_node now n rt = Inr (ok, rt')
    \<and> (if ok then n \<in> set (all_nodes rt') \<and> set (all_nodes rt') \<subseteq> insert n (set (all_nodes rt))
       else set (all_nodes rt') = set (all_nodes rt))
    \<and> (\<forall>m \<in> set (all_nodes rt) - set (all_nodes rt').
         n_id m = n_id n \<or> \<not> responsed m \<and> REFRESH_INTERVAL < now - last_seen m)"
  using RoutingTable_add_node_spec [of rt n now] rt_reach_inv [OF assms(1,2)] assms(3)
  by (auto simp: node_set_def replaceable_def split: if_splits)

theorem routing_add_node_total_witness:
  "\<exists>ok rt'. RoutingTable_add_node 5 (Node_new 5 (replicate 20 1) (SocketAddrV4 [127, 0, 0, 1] 80))
      (RoutingTable_new 0 (replicate 20 7)) = Inr (ok, rt')
    \<and> (if ok then Node_new 5 (replicate 20 1) (SocketAddrV4 [127, 0, 0, 1] 80) \<in> set (all_nodes rt')
         \<and> set (all_nodes rt') \<subseteq> insert (Node_new 5 (replicate 20 1) (SocketAddrV4 [127, 0, 0, 1] 80))
              (set (all_nodes (RoutingTable_new 0 (replicate 20 7))))
       else set (all_nodes rt') = set (all_nodes (RoutingTable_new 0 (replicate 20 7))))"
  using routing_add_node_total [OF reach_new [where now = 0 and own = "replicate 20 7"], where now = 5
      and n = "Node_new 5 (replicate 20 1) (SocketAddrV4 [127, 0, 0, 1] 80)"]
  unfolding id_ok_def Node_new_def by fastforce

text \<open>
  C19. The bounded heap of \<^verbatim>\<open>find_closest_nodes\<close> returns exactly the requested number of nodes (or all
  of them) closest to the target in XOR distance, in ascending order.
\<close>

theorem find_closest_nodes_sorted:
  assumes "rt_reach own rt" and "id_ok own"
  shows "find_closest_nodes rt target c = take c (sort_key (dist_key target) (all_nodes rt))"
  using rt_reach_inv [OF assms] by (intro find_closest_nodes_eq all_ids_distinct) simp

theorem find_closest_nodes_sorted_witness:
  "find_closest_nodes (RoutingTable_new 0 (replicate 20 7)) (replicate 20 3) 8 =
     take 8 (sort_key (dist_key (replicate 20 3)) (all_nodes (RoutingTable_new 0 (replicate 20 7))))"
  by (rule find_closest_nodes_sorted [OF reach_new]) (simp add: id_ok_def)

text \<open>
  The random identifier drawn to refresh a bucket never panics and lies in that bucket. It also
  always repeats the bit that follows the prefix, so only one half of the bucket's range is
  ever drawn.
\<close>

theorem random_node_in_bucket:
  assumes "rt_reach own rt" and "id_ok own" and "b \<in> set (buckets rt)"
    and "\<And>k. length (fill k) = k" and "\<And>u. 0 < u \<Longrightarrow> rng u < u"
  shows "\<exists>x. random_node fill rng b = Inr x \<and> length x = 20 \<and> Bucket_contains b x = Inr True
    \<and> bitmap_has x (prefix_len b) = bitmap_has (prefix_id b) (prefix_len b)"
proof -
  have inv: "rt_inv rt" using rt_reach_inv [OF assms(1,2)] by simp
  then have "id_ok (prefix_id b)" "prefix_len b \<le> 159"
    using assms(3) by (auto simp: rt_inv_def bucket_inv_def bucket_ok_def)
  from random_node_spec [where fill = fill and rng = rng, OF this assms(4,5)] obtain x where
    x: "random_node fill rng b = Inr x" "id_ok x" "agree (prefix_id b) x (Suc (prefix_len b))" by blast
  then show ?thesis
    using rt_inv_contains [OF inv assms(3) x(2)] by (auto simp: agree_Suc in_bucket_def id_ok_def)
qed

theorem random_node_in_bucket_witness:
  "\<exists>x. random_node (\<lambda>k. replicate k 9) (\<lambda>u. 0) (Bucket_new 0 (replicate 20 0) 0 True) = Inr x
    \<and> length x = 20 \<and> Bucket_contains (Bucket_new 0 (replicate 20 0) 0 True) x = Inr True"
proof -
  let ?b = "Bucket_new 0 (replicate 20 0) 0 True"
  have "?b \<in> set (buckets (RoutingTable_new 0 (replicate 20 7)))" by (simp add: RoutingTable_new_def)
  then show ?thesis
    using random_node_in_bucket [OF reach_new [where now = 0 and own = "replicate 20 7"], of ?b
        "\<lambda>k. replicate k 9" "\<lambda>u. 0"]
    by (auto simp: id_ok_def)
qed

end
