(* ===== verification/Dht_Entity.thy ===== *)
theory Dht_Entity
  imports Bencode_Typed Routing
begin

text \<open>
  The messages of the DHT (\<^verbatim>\<open>bt/dht/entity.rs\<close>): the envelope \<^verbatim>\<open>DHTBase\<close> of queries and responses, the
  compact node lists, and the bodies of \<^verbatim>\<open>ping\<close>, \<^verbatim>\<open>get_peers\<close> and \<^verbatim>\<open>find_node\<close>.
\<close>

section \<open>Nodes\<close>

record Host =
  host_id :: NodeId
  host_addr :: SocketAddr

definition Host_to_object :: "bytes \<Rightarrow> Host result" where
  "Host_to_object bs =
     (if length bs \<noteq> 26 \<and> length bs \<noteq> 38 then Inl (Err ''26 or 38 bytes expected'')
      else
        and_then (SocketAddrExt_to_object (drop 20 bs)) (\<lambda>a.
          Inr \<lparr> host_id = take 20 bs, host_addr = a \<rparr>))"

definition VecHost_to_object :: "bytes \<Rightarrow> Host list result" where
  "VecHost_to_object bs =
     (if length bs mod 26 = 0 then map_result Host_to_object (chunks 26 bs)
      else if length bs mod 38 = 0 then map_result Host_to_object (chunks 38 bs)
      else Inl (Err ''26 or 38 bytes per host expected''))"

definition NodeId_decode :: "NodeId reader" where
  "NodeId_decode v d =
     and_then (try_into_bytes v) (\<lambda>bs. and_then (NodeId_try_from bs) (\<lambda>i. Inr (i, d)))"

definition NodeId_encode :: "NodeId \<Rightarrow> writer" where "NodeId_encode i = emit_bytes i"

section \<open>The envelope\<close>

record 'a DHTBase =
  dht_a :: "'a option"
  dht_r :: "'a option"
  dht_q :: "string option"
  dht_t :: Value
  dht_y :: string
  dht_p :: "nat option"
  dht_v :: "Value option"
  dht_ip :: "SocketAddr option"
  dht_ipv6 :: "SocketAddr option"
  dht_ipv4 :: "SocketAddr option"
  dht_reqq :: "nat option"

definition DHTBase_request :: "'a \<Rightarrow> string \<Rightarrow> nat \<Rightarrow> 'a DHTBase" where
  "DHTBase_request a q t =
     \<lparr> dht_a = Some a, dht_r = None, dht_q = Some q, dht_t = VBytes (to_be_bytes 2 t), dht_y = ''q'',
       dht_p = None, dht_v = None, dht_ip = None, dht_ipv6 = None, dht_ipv4 = None, dht_reqq = None \<rparr>"

definition DHTBase_t :: "'a DHTBase \<Rightarrow> nat result" where
  "DHTBase_t b = (case dht_t b of VBytes bs \<Rightarrow> Inr (from_be_slice 2 bs) | _ \<Rightarrow> Inl (Panic ''internal error: entered unreachable code''))"

text \<open>The local variables of the decoder.\<close>

record 'a DHTAcc =
  acc_a :: "'a option"
  acc_r :: "'a option"
  acc_q :: "string option"
  acc_t :: "Value option"
  acc_y :: "string option"
  acc_p :: "nat option"
  acc_v :: "Value option"
  acc_ip :: "SocketAddr option"
  acc_ipv6 :: "SocketAddr option"
  acc_ipv4 :: "SocketAddr option"
  acc_reqq :: "nat option"

definition DHTAcc_new :: "'a DHTAcc" where
  "DHTAcc_new = \<lparr> acc_a = None, acc_r = None, acc_q = None, acc_t = None, acc_y = None, acc_p = None,
     acc_v = None, acc_ip = None, acc_ipv6 = None, acc_ipv4 = None, acc_reqq = None \<rparr>"

definition DHTBase_entry ::
  "'a reader \<Rightarrow> bytes \<Rightarrow> Object \<Rightarrow> 'a DHTAcc \<Rightarrow> Decoder \<Rightarrow> ('a DHTAcc \<times> Decoder) result" where
  "DHTBase_entry rd k v acc d =
     (if k = ascii ''a'' then set_field (rd v d) (\<lambda>x. acc\<lparr> acc_a := Some x \<rparr>)
      else if k = ascii ''r'' then set_field (rd v d) (\<lambda>x. acc\<lparr> acc_r := Some x \<rparr>)
      else if k = ascii ''q'' then set_field (decode_String v d) (\<lambda>x. acc\<lparr> acc_q := Some x \<rparr>)
      else if k = ascii ''t'' then set_field (read_value v d) (\<lambda>x. acc\<lparr> acc_t := Some x \<rparr>)
      else if k = ascii ''y'' then set_field (decode_String v d) (\<lambda>x. acc\<lparr> acc_y := Some x \<rparr>)
      else if k = ascii ''p'' then set_field (decode_uint U16_MAX v d) (\<lambda>x. acc\<lparr> acc_p := Some x \<rparr>)
      else if k = ascii ''v'' then set_field (read_value v d) (\<lambda>x. acc\<lparr> acc_v := Some x \<rparr>)
      else if k = ascii ''ip'' then set_field (SocketAddrExt_decode v d) (\<lambda>x. acc\<lparr> acc_ip := Some x \<rparr>)
      else if k = ascii ''ipv6'' then set_field (SocketAddrExt_decode v d) (\<lambda>x. acc\<lparr> acc_ipv6 := Some x \<rparr>)
      else if k = ascii ''ipv4'' then set_field (SocketAddrExt_decode v d) (\<lambda>x. acc\<lparr> acc_ipv4 := Some x \<rparr>)
      else if k = ascii ''reqq'' then set_field (decode_uint U32_MAX v d) (\<lambda>x. acc\<lparr> acc_reqq := Some x \<rparr>)
      else skip_field v acc d)"

definition DHTBase_finish :: "'a DHTAcc \<Rightarrow> 'a DHTBase result" where
  "DHTBase_finish acc =
     and_then (ok_or_missing ''t'' (acc_t acc)) (\<lambda>t.
     and_then (ok_or_missing ''y'' (acc_y acc)) (\<lambda>y.
     if acc_a acc = None \<and> acc_r acc = None then missing_field ''a or r''
     else if acc_a acc \<noteq> None \<and> acc_q acc = None then missing_field ''q''
     else Inr \<lparr> dht_a = acc_a acc, dht_r = acc_r acc, dht_q = acc_q acc, dht_t = t, dht_y = y,
                dht_p = acc_p acc, dht_v = acc_v acc, dht_ip = acc_ip acc, dht_ipv6 = acc_ipv6 acc,
                dht_ipv4 = acc_ipv4 acc, dht_reqq = acc_reqq acc \<rparr>))"

definition DHTBase_decode :: "'a reader \<Rightarrow> 'a DHTBase reader" where
  "DHTBase_decode rd v d =
     and_then (try_into_dictionary v) (\<lambda>_.
     and_then (dict_fold (fuel d) (DHTBase_entry rd) DHTAcc_new d) (\<lambda>(acc, d').
     and_then (DHTBase_finish acc) (\<lambda>x. Inr (x, d'))))"

definition fail_writer :: "string \<Rightarrow> writer" where "fail_writer s e = Inl (Err s)"

definition DHTBase_encode :: "('a \<Rightarrow> writer) \<Rightarrow> 'a DHTBase \<Rightarrow> writer" where
  "DHTBase_encode w b =
     emit_dict (emit_all
       (opt_pair ''a'' (dht_a b) w @ opt_pair ''r'' (dht_r b) w
        @ (case dht_q b of Some q \<Rightarrow> [emit_pair (ascii ''q'') (emit_str q)]
           | None \<Rightarrow> if dht_a b \<noteq> None then [fail_writer ''missing q field''] else [])
        @ [emit_pair (ascii ''t'') (emit_Value (dht_t b)), emit_pair (ascii ''y'') (emit_str (dht_y b))]))"

section \<open>Bodies\<close>

definition is_bytes :: "Object \<Rightarrow> bool" where
  "is_bytes v = (case v of OBytes _ \<Rightarrow> True | _ \<Rightarrow> False)"

record Ping =
  ping_id :: NodeId
  ping_port :: "nat option"

definition Ping_new :: "NodeId \<Rightarrow> Ping" where "Ping_new i = \<lparr> ping_id = i, ping_port = None \<rparr>"

definition Ping_encode :: "Ping \<Rightarrow> writer" where
  "Ping_encode p =
     emit_dict (emit_all (emit_pair (ascii ''id'') (NodeId_encode (ping_id p)) # opt_pair ''port'' (ping_port p) emit_int))"

definition Ping_entry :: "bytes \<Rightarrow> Object \<Rightarrow> NodeId option \<times> nat option \<Rightarrow> Decoder
    \<Rightarrow> ((NodeId option \<times> nat option) \<times> Decoder) result" where
  "Ping_entry k v acc d =
     (case acc of (i, p) \<Rightarrow>
       if k = ascii ''id'' then set_field (NodeId_decode v d) (\<lambda>x. (Some x, p))
       else if k = ascii ''p'' then set_field (decode_uint U16_MAX v d) (\<lambda>x. (i, Some x))
       else skip_field v acc d)"

definition Ping_decode :: "Ping reader" where
  "Ping_decode v d =
     and_then (try_into_dictionary v) (\<lambda>_.
     and_then (dict_fold (fuel d) Ping_entry (None, None) d) (\<lambda>((i, p), d').
     and_then (ok_or_missing ''id'' i) (\<lambda>i. Inr (\<lparr> ping_id = i, ping_port = p \<rparr>, d'))))"

record GetPeersResp =
  gp_id :: NodeId
  gp_nodes :: "Host list option"
  gp_values :: "SocketAddr list option"
  gp_token :: "Value option"
  gp_p :: "nat option"

type_synonym GetPeersAcc = "NodeId option \<times> GetPeersResp"

definition GetPeersResp_entry ::
  "bytes \<Rightarrow> Object \<Rightarrow> GetPeersAcc \<Rightarrow> Decoder \<Rightarrow> (GetPeersAcc \<times> Decoder) result" where
  "GetPeersResp_entry k v acc d =
     (case acc of (i, g) \<Rightarrow>
       if k = ascii ''id'' then set_field (NodeId_decode v d) (\<lambda>x. (Some x, g))
       else if k = ascii ''nodes'' \<and> is_bytes v then
         set_field (and_then (try_into_bytes v) (\<lambda>s. and_then (VecHost_to_object s) (\<lambda>hs. Inr (hs, d))))
           (\<lambda>x. (i, g\<lparr> gp_nodes := Some x \<rparr>))
       else if k = ascii ''values'' then
         set_field (decode_Vec SocketAddrExt_decode v d) (\<lambda>x. (i, g\<lparr> gp_values := Some x \<rparr>))
       else if k = ascii ''token'' then set_field (read_value v d) (\<lambda>x. (i, g\<lparr> gp_token := Some x \<rparr>))
       else if k = ascii ''p'' then set_field (decode_uint U16_MAX v d) (\<lambda>x. (i, g\<lparr> gp_p := Some x \<rparr>))
       else skip_field v acc d)"

definition GetPeersResp_decode :: "GetPeersResp reader" where
  "GetPeersResp_decode v d =
     and_then (try_into_dictionary v) (\<lambda>_.
     and_then (dict_fold (fuel d) GetPeersResp_entry
       (None, \<lparr> gp_id = [], gp_nodes = None, gp_values = None, gp_token = None, gp_p = None \<rparr>) d) (\<lambda>((i, g), d').
     and_then (ok_or_missing ''id'' i) (\<lambda>i. Inr (g\<lparr> gp_id := i \<rparr>, d'))))"

record GetPeersReq =
  gpr_id :: NodeId
  gpr_info_hash :: NodeId

definition GetPeersReq_encode :: "GetPeersReq \<Rightarrow> writer" where
  "GetPeersReq_encode r =
     emit_dict (emit_all [emit_pair (ascii ''id'') (NodeId_encode (gpr_id r)),
                          emit_pair (ascii ''info_hash'') (NodeId_encode (gpr_info_hash r))])"

record FindNodeReq =
  fn_id :: NodeId
  fn_target :: NodeId

definition FindNodeReq_encode :: "FindNodeReq \<Rightarrow> writer" where
  "FindNodeReq_encode r =
     emit_dict (emit_all [emit_pair (ascii ''id'') (NodeId_encode (fn_id r)),
                          emit_pair (ascii ''target'') (NodeId_encode (fn_target r))])"

record FindNodeResp =
  fnr_id :: NodeId
  fnr_nodes :: "Host list"

definition FindNodeResp_entry :: "bytes \<Rightarrow> Object \<Rightarrow> NodeId option \<times> Host list option \<Rightarrow> Decoder
    \<Rightarrow> ((NodeId option \<times> Host list option) \<times> Decoder) result" where
  "FindNodeResp_entry k v acc d =
     (case acc of (i, ns) \<Rightarrow>
       if k = ascii ''id'' then set_field (NodeId_decode v d) (\<lambda>x. (Some x, ns))
       else if k = ascii ''nodes'' \<and> is_bytes v then
         set_field (and_then (try_into_bytes v) (\<lambda>s. and_then (VecHost_to_object s) (\<lambda>hs. Inr (hs, d))))
           (\<lambda>x. (i, Some x))
       else skip_field v acc d)"

definition FindNodeResp_decode :: "FindNodeResp reader" where
  "FindNodeResp_decode v d =
     and_then (try_into_dictionary v) (\<lambda>_.
     and_then (dict_fold (fuel d) FindNodeResp_entry (None, None) d) (\<lambda>((i, ns), d').
     and_then (ok_or_missing ''id'' i) (\<lambda>i.
     and_then (ok_or_missing ''nodes'' ns) (\<lambda>ns. Inr (\<lparr> fnr_id = i, fnr_nodes = ns \<rparr>, d')))))"

section \<open>Lemmas\<close>

lemma decodes_NodeId [decode_intros]: "length i = 20 \<Longrightarrow> decodes NodeId_decode (VBytes i) i"
  by (rule decodes_atom)
    (simp_all add: atom_def obj_of_def NodeId_decode_def try_into_bytes_def NodeId_try_from_def)

lemma decodes_skip [decode_intros]: "atom v \<Longrightarrow> decodes (\<lambda>ob. skip_field ob acc) v acc"
  by (rule decodes_atom; cases v) (simp_all add: obj_of_def atom_def skip_field_def drop_object_def fuel_def)

text \<open>The text of a ping query body; the port is written under a key that the reader does not know.\<close>

definition Ping_value :: "Ping \<Rightarrow> Value" where
  "Ping_value p = VDict ((ascii ''id'', VBytes (ping_id p))
     # (case ping_port p of None \<Rightarrow> [] | Some n \<Rightarrow> [(ascii ''port'', VInteger (int n))]))"

lemma writes_Ping: "writes (Ping_encode p) (Ping_value p)"
proof -
  define x where "x = (ascii ''id'', NodeId_encode (ping_id p), VBytes (ping_id p))
      # (case ping_port p of None \<Rightarrow> [] | Some n \<Rightarrow> [(ascii ''port'', emit_int n, VInteger (int n))])"
  have "\<forall>(k, w, v) \<in> set x. writes w v"
    by (auto simp: x_def NodeId_encode_def writes_atom split: option.split)
  moreover have "keys_sorted None (map fst x)" by (simp add: x_def split: option.split)
  ultimately have "writes (emit_dict (emit_all (map (\<lambda>(k, w, v). emit_pair k w) x))) (VDict (map (\<lambda>(k, w, v). (k, v)) x))"
    by (rule writes_dict)
  then show ?thesis by (simp add: x_def Ping_value_def Ping_encode_def opt_pair_def split: option.split_asm option.split)
qed

lemma decodes_Ping:
  assumes "length (ping_id p) = 20"
  shows "decodes Ping_decode (Ping_value p) (Ping_new (ping_id p))"
  unfolding Ping_value_def
proof (rule decodes_dict [where f = Ping_entry and ?acc0.0 = "(None, None)"
    and g = "\<lambda>k v (i, q). if k = ascii ''id'' then (Some (ping_id p), q) else (i, q)"
    and h = "\<lambda>(i, q). and_then (ok_or_missing ''id'' i) (\<lambda>i. Inr \<lparr> ping_id = i, ping_port = q \<rparr>)"])
  show "Ping_decode (ODict s) d = and_then (dict_fold (fuel d) Ping_entry (None, None) d)
      (\<lambda>(acc, d'). and_then (case acc of (i, q) \<Rightarrow> and_then (ok_or_missing ''id'' i)
         (\<lambda>i. Inr \<lparr> ping_id = i, ping_port = q \<rparr>)) (\<lambda>x. Inr (x, d')))" for s d
    by (auto simp: Ping_decode_def try_into_dictionary_def and_then_def split: sum.split)
next
  fix k v and acc :: "NodeId option \<times> nat option"
  obtain i q where acc: "acc = (i, q)" by fastforce
  assume "(k, v) \<in> set ((ascii ''id'', VBytes (ping_id p))
      # (case ping_port p of None \<Rightarrow> [] | Some n \<Rightarrow> [(ascii ''port'', VInteger (int n))]))"
  then consider "k = ascii ''id''" "v = VBytes (ping_id p)" | n where "k = ascii ''port''" "v = VInteger (int n)"
    by (auto split: option.splits)
  then show "decodes (\<lambda>ob. Ping_entry k ob acc) v
      (case acc of (i, q) \<Rightarrow> if k = ascii ''id'' then (Some (ping_id p), q) else (i, q))"
  proof cases
    case 1
    then show ?thesis
      using decodes_set_field [OF decodes_NodeId [OF assms], of "\<lambda>x. (Some x, q)"]
      by (simp add: acc Ping_entry_def [abs_def])
  next
    case 2
    then show ?thesis using decodes_skip [of "VInteger (int n)"] by (simp add: acc Ping_entry_def [abs_def] atom_def)
  qed
qed (auto simp: ok_or_missing_def Ping_new_def split: option.split)

text \<open>The envelope, for any body whose text and reader are known.\<close>

definition query_value :: "Value \<Rightarrow> string \<Rightarrow> nat \<Rightarrow> Value" where
  "query_value a q t = VDict [(ascii ''a'', a), (ascii ''q'', VBytes (ascii q)),
     (ascii ''t'', VBytes (to_be_bytes 2 t)), (ascii ''y'', VBytes (ascii ''q''))]"

definition response_value :: "Value \<Rightarrow> Value \<Rightarrow> Value" where
  "response_value r t = VDict [(ascii ''r'', r), (ascii ''t'', t), (ascii ''y'', VBytes (ascii ''r''))]"

definition DHTBase_response :: "'a \<Rightarrow> Value \<Rightarrow> 'a DHTBase" where
  "DHTBase_response r t =
     \<lparr> dht_a = None, dht_r = Some r, dht_q = None, dht_t = t, dht_y = ''r'',
       dht_p = None, dht_v = None, dht_ip = None, dht_ipv6 = None, dht_ipv4 = None, dht_reqq = None \<rparr>"

definition DHTBase_store :: "'a \<Rightarrow> bytes \<Rightarrow> Value \<Rightarrow> 'a DHTAcc \<Rightarrow> 'a DHTAcc" where
  "DHTBase_store x k v acc =
     (if k = ascii ''a'' then acc\<lparr> acc_a := Some x \<rparr>
      else if k = ascii ''r'' then acc\<lparr> acc_r := Some x \<rparr>
      else case v of VBytes s \<Rightarrow>
        if k = ascii ''q'' then acc\<lparr> acc_q := Some (string_of s) \<rparr>
        else if k = ascii ''t'' then acc\<lparr> acc_t := Some v \<rparr>
        else acc\<lparr> acc_y := Some (string_of s) \<rparr>
      | _ \<Rightarrow> acc\<lparr> acc_t := Some v \<rparr>)"

lemma string_of_ascii [simp]: "string_of (ascii s) = s"
  by (induction s) (simp_all add: string_of_def unat_of_nat of_char_of)

lemmas string_of_letter = string_of_ascii [of "''q''", simplified] string_of_ascii [of "''r''", simplified]

lemma length_ascii [simp]: "length (ascii s) = length s"
  by (simp add: ascii_def)

lemma DHTBase_entry_simps:
  "DHTBase_entry rd (ascii ''a'') ob acc = (\<lambda>d. set_field (rd ob d) (\<lambda>x. acc\<lparr> acc_a := Some x \<rparr>))"
  "DHTBase_entry rd (ascii ''r'') ob acc = (\<lambda>d. set_field (rd ob d) (\<lambda>x. acc\<lparr> acc_r := Some x \<rparr>))"
  "DHTBase_entry rd (ascii ''q'') ob acc = (\<lambda>d. set_field (decode_String ob d) (\<lambda>x. acc\<lparr> acc_q := Some x \<rparr>))"
  "DHTBase_entry rd (ascii ''t'') ob acc = (\<lambda>d. set_field (read_value ob d) (\<lambda>x. acc\<lparr> acc_t := Some x \<rparr>))"
  "DHTBase_entry rd (ascii ''y'') ob acc = (\<lambda>d. set_field (decode_String ob d) (\<lambda>x. acc\<lparr> acc_y := Some x \<rparr>))"
  by (simp_all add: DHTBase_entry_def [abs_def])

lemma decodes_entry_body:
  assumes "decodes rd v x"
  shows "decodes (\<lambda>ob. DHTBase_entry rd (ascii ''a'') ob acc) v (DHTBase_store x (ascii ''a'') v acc)"
    and "decodes (\<lambda>ob. DHTBase_entry rd (ascii ''r'') ob acc) v (DHTBase_store x (ascii ''r'') v acc)"
  using decodes_set_field [OF assms, of "\<lambda>x. acc\<lparr> acc_a := Some x \<rparr>"]
    decodes_set_field [OF assms, of "\<lambda>x. acc\<lparr> acc_r := Some x \<rparr>"]
  by (simp_all only: DHTBase_entry_simps) (simp_all add: DHTBase_store_def)

lemma decodes_entry_q:
  assumes "utf8_valid s" and "length s < 2 ^ 64"
  shows "decodes (\<lambda>ob. DHTBase_entry rd (ascii ''q'') ob acc) (VBytes s) (DHTBase_store x (ascii ''q'') (VBytes s) acc)"
    and "decodes (\<lambda>ob. DHTBase_entry rd (ascii ''y'') ob acc) (VBytes s) (DHTBase_store x (ascii ''y'') (VBytes s) acc)"
  using decodes_set_field [OF decodes_String [OF assms(2,1)], of "\<lambda>x. acc\<lparr> acc_q := Some x \<rparr>"]
    decodes_set_field [OF decodes_String [OF assms(2,1)], of "\<lambda>x. acc\<lparr> acc_y := Some x \<rparr>"]
  by (simp_all only: DHTBase_entry_simps) (simp_all add: DHTBase_store_def)

lemma decodes_entry_t:
  assumes "value_ok v"
  shows "decodes (\<lambda>ob. DHTBase_entry rd (ascii ''t'') ob acc) v (DHTBase_store x (ascii ''t'') v acc)"
  using decodes_set_field [OF decodes_read_value [OF assms], of "\<lambda>x. acc\<lparr> acc_t := Some x \<rparr>"]
  by (cases v) (simp_all only: DHTBase_entry_simps, simp_all add: DHTBase_store_def)

lemma DHTBase_decode_dict:
  "DHTBase_decode rd (ODict s) d = and_then (dict_fold (fuel d) (DHTBase_entry rd) DHTAcc_new d)
     (\<lambda>(acc, d'). and_then (DHTBase_finish acc) (\<lambda>x. Inr (x, d')))"
  by (simp add: DHTBase_decode_def try_into_dictionary_def)

lemma decodes_query:
  assumes "decodes rd v x" and "utf8_valid (ascii q)" and "length q < 2 ^ 64"
  shows "decodes (DHTBase_decode rd) (query_value v q t) (DHTBase_request x q t)"
  unfolding query_value_def
proof (rule decodes_dict [where f = "DHTBase_entry rd" and ?acc0.0 = DHTAcc_new and h = DHTBase_finish
    and g = "DHTBase_store x"])
  fix k w and acc :: "'a DHTAcc"
  assume m: "(k, w) \<in> set [(ascii ''a'', v), (ascii ''q'', VBytes (ascii q)), (ascii ''t'', VBytes (to_be_bytes 2 t)),
      (ascii ''y'', VBytes (ascii ''q''))]"
  have "utf8_valid (ascii ''q'')" "length (ascii ''q'') < 2 ^ 64" "value_ok (VBytes (to_be_bytes 2 t))" by simp_all
  note es = decodes_entry_body(1) [OF assms(1)] decodes_entry_q(1) [OF assms(2)] decodes_entry_t [OF this(3)]
    decodes_entry_q(2) [OF this(1,2)]
  from m show "decodes (\<lambda>ob. DHTBase_entry rd k ob acc) w (DHTBase_store x k w acc)"
    using es assms(3) by (auto simp del: ascii_simps)
qed (simp_all add: DHTBase_decode_dict DHTBase_store_def DHTAcc_new_def DHTBase_finish_def ok_or_missing_def DHTBase_request_def
      string_of_letter)

lemma decodes_response:
  assumes "decodes rd v x" and "value_ok t"
  shows "decodes (DHTBase_decode rd) (response_value v t) (DHTBase_response x t)"
  unfolding response_value_def
proof (rule decodes_dict [where f = "DHTBase_entry rd" and ?acc0.0 = DHTAcc_new and h = DHTBase_finish
    and g = "DHTBase_store x"])
  fix k w and acc :: "'a DHTAcc"
  assume m: "(k, w) \<in> set [(ascii ''r'', v), (ascii ''t'', t), (ascii ''y'', VBytes (ascii ''r''))]"
  have "utf8_valid (ascii ''r'')" "length (ascii ''r'') < 2 ^ 64" by simp_all
  note es = decodes_entry_body(2) [OF assms(1)] decodes_entry_t [OF assms(2)] decodes_entry_q(2) [OF this]
  from m show "decodes (\<lambda>ob. DHTBase_entry rd k ob acc) w (DHTBase_store x k w acc)"
    using es by (auto simp del: ascii_simps)
qed (simp_all add: DHTBase_decode_dict DHTBase_store_def DHTAcc_new_def DHTBase_finish_def ok_or_missing_def DHTBase_response_def
      string_of_letter split: Value.split)

lemma writes_query:
  assumes "writes (w a) v"
  shows "writes (DHTBase_encode w (DHTBase_request a q t)) (query_value v q t)"
proof -
  define x where "x = [(ascii ''a'', w a, v), (ascii ''q'', emit_str q, VBytes (ascii q)),
      (ascii ''t'', emit_Value (VBytes (to_be_bytes 2 t)), VBytes (to_be_bytes 2 t)),
      (ascii ''y'', emit_str ''q'', VBytes (ascii ''q''))]"
  have s: "emit_str u = emit_bytes (ascii u)" for u by (simp add: emit_str_def emit_bytes_def fun_eq_iff)
  have "\<forall>(k, w, v) \<in> set x. writes w v"
    unfolding x_def s using assms by (simp add: writes_atom del: ascii_simps)
  moreover have "keys_sorted None (map fst x)" by (simp add: x_def)
  ultimately have "writes (emit_dict (emit_all (map (\<lambda>(k, w, v). emit_pair k w) x))) (VDict (map (\<lambda>(k, w, v). (k, v)) x))"
    by (rule writes_dict)
  then show ?thesis
    by (simp add: x_def query_value_def DHTBase_encode_def DHTBase_request_def opt_pair_def)
qed

lemma writes_ids:
  assumes "bytes_less k1 k2"
  shows "writes (emit_dict (emit_all [emit_pair k1 (NodeId_encode i), emit_pair k2 (NodeId_encode j)]))
    (VDict [(k1, VBytes i), (k2, VBytes j)])"
  using writes_dict [of "[(k1, NodeId_encode i, VBytes i), (k2, NodeId_encode j, VBytes j)]"] assms
  by (simp add: NodeId_encode_def writes_atom)

lemma depth_query: "depth (query_value v q t) = Suc (depth v)"
  by (simp add: query_value_def)

lemma depth_response: "depth (response_value v (VBytes s)) = Suc (depth v)"
  "depth (response_value v (VInteger i)) = Suc (depth v)"
  by (simp_all add: response_value_def)

text \<open>What the UDP server reads of a query: the envelope with the body as a plain value.\<close>

lemma query_transaction:
  assumes "writes (w a) v" and "value_ok v" and "depth v < MAX_DEPTH" and "utf8_valid (ascii q)" and "length q < 2 ^ 64"
    and "t < 2 ^ 16"
  shows "\<exists>bs b. to_bencode MAX_DEPTH (DHTBase_encode w (DHTBase_request a q t)) = Inr bs
    \<and> from_bencode False 2048 (DHTBase_decode read_value) bs = Inr b \<and> DHTBase_t b = Inr t"
proof -
  let ?v = "query_value v q t"
  have "to_bencode MAX_DEPTH (DHTBase_encode w (DHTBase_request a q t)) = Inr (value_bytes ?v)"
    using to_bencode_writes [OF writes_query [where w = w and a = a, OF assms(1)]] assms(3) by (simp add: depth_query)
  moreover have "from_bencode False 2048 (DHTBase_decode read_value) (value_bytes ?v @ []) = Inr (DHTBase_request v q t)"
    using assms by (intro from_bencode_decodes decodes_query decodes_read_value) (simp_all add: depth_query MAX_DEPTH_def)
  moreover have "DHTBase_t (DHTBase_request v q t) = Inr t"
    using assms(6) by (simp add: DHTBase_t_def DHTBase_request_def)
  ultimately show ?thesis by simp
qed

section \<open>Properties\<close>

text \<open>
  A ping query is always encoded, and decoding it gives the same query, except that the port is
  lost: it is written under the key \<^verbatim>\<open>port\<close> and read under the key \<^verbatim>\<open>p\<close>.
\<close>

theorem dht_ping_roundtrip:
  assumes "length (ping_id p) = 20" and "t < 2 ^ 16"
  shows "\<exists>bs. to_bencode MAX_DEPTH (DHTBase_encode Ping_encode (DHTBase_request p ''ping'' t)) = Inr bs
    \<and> from_bencode False 2048 (DHTBase_decode Ping_decode) (bs @ rest) =
        Inr (DHTBase_request (p\<lparr> ping_port := None \<rparr>) ''ping'' t)"
proof -
  let ?v = "query_value (Ping_value p) ''ping'' t"
  have d: "depth ?v \<le> MAX_DEPTH" by (simp add: depth_query Ping_value_def MAX_DEPTH_def split: option.split)
  then have "to_bencode MAX_DEPTH (DHTBase_encode Ping_encode (DHTBase_request p ''ping'' t)) = Inr (value_bytes ?v)"
    by (intro to_bencode_writes writes_query writes_Ping)
  moreover have "Ping_new (ping_id p) = p\<lparr> ping_port := None \<rparr>" by (simp add: Ping_new_def)
  with decodes_Ping [OF assms(1)]
  have "from_bencode False 2048 (DHTBase_decode Ping_decode) (value_bytes ?v @ rest) =
      Inr (DHTBase_request (p\<lparr> ping_port := None \<rparr>) ''ping'' t)"
    using d by (intro from_bencode_decodes decodes_query) (simp_all add: MAX_DEPTH_def)
  ultimately show ?thesis by simp
qed

theorem dht_ping_roundtrip_witness:
  "\<exists>bs. to_bencode MAX_DEPTH (DHTBase_encode Ping_encode
      (DHTBase_request \<lparr> ping_id = replicate 20 7, ping_port = Some 6881 \<rparr> ''ping'' 513)) = Inr bs
    \<and> from_bencode False 2048 (DHTBase_decode Ping_decode) (bs @ []) =
        Inr (DHTBase_request (\<lparr> ping_id = replicate 20 7, ping_port = Some 6881 \<rparr>\<lparr> ping_port := None \<rparr>) ''ping'' 513)"
  by (rule dht_ping_roundtrip) simp_all

text \<open>
  The \<^verbatim>\<open>get_peers\<close> and \<^verbatim>\<open>find_node\<close> queries are always encoded (their \<^verbatim>\<open>unwrap\<close> cannot fail), and
  the receiving UDP server reads the transaction number they were made with.
\<close>

theorem dht_queries_carry_transaction:
  assumes "length i = 20" and "length j = 20" and "t < 2 ^ 16"
  shows "(\<exists>bs b. to_bencode MAX_DEPTH (DHTBase_encode GetPeersReq_encode
      (DHTBase_request \<lparr> gpr_id = i, gpr_info_hash = j \<rparr> ''get_peers'' t)) = Inr bs
      \<and> from_bencode False 2048 (DHTBase_decode read_value) bs = Inr b \<and> DHTBase_t b = Inr t)
    \<and> (\<exists>bs b. to_bencode MAX_DEPTH (DHTBase_encode FindNodeReq_encode
      (DHTBase_request \<lparr> fn_id = i, fn_target = j \<rparr> ''find_node'' t)) = Inr bs
      \<and> from_bencode False 2048 (DHTBase_decode read_value) bs = Inr b \<and> DHTBase_t b = Inr t)"
proof -
  have g: "writes (GetPeersReq_encode \<lparr> gpr_id = i, gpr_info_hash = j \<rparr>)
      (VDict [(ascii ''id'', VBytes i), (ascii ''info_hash'', VBytes j)])"
    using writes_ids [of "ascii ''id''" "ascii ''info_hash''" i j] by (simp add: GetPeersReq_encode_def [abs_def])
  have f: "writes (FindNodeReq_encode \<lparr> fn_id = i, fn_target = j \<rparr>)
      (VDict [(ascii ''id'', VBytes i), (ascii ''target'', VBytes j)])"
    using writes_ids [of "ascii ''id''" "ascii ''target''" i j] by (simp add: FindNodeReq_encode_def [abs_def])
  show ?thesis using assms by (intro conjI query_transaction [where w = GetPeersReq_encode, OF g] query_transaction [where w = FindNodeReq_encode, OF f]) (simp_all add: MAX_DEPTH_def)
qed

theorem dht_queries_carry_transaction_witness:
  "(\<exists>bs b. to_bencode MAX_DEPTH (DHTBase_encode GetPeersReq_encode
      (DHTBase_request \<lparr> gpr_id = replicate 20 1, gpr_info_hash = replicate 20 2 \<rparr> ''get_peers'' 300)) = Inr bs
      \<and> from_bencode False 2048 (DHTBase_decode read_value) bs = Inr b \<and> DHTBase_t b = Inr 300)
    \<and> (\<exists>bs b. to_bencode MAX_DEPTH (DHTBase_encode FindNodeReq_encode
      (DHTBase_request \<lparr> fn_id = replicate 20 1, fn_target = replicate 20 2 \<rparr> ''find_node'' 300)) = Inr bs
      \<and> from_bencode False 2048 (DHTBase_decode read_value) bs = Inr b \<and> DHTBase_t b = Inr 300)"
  by (rule dht_queries_carry_transaction) simp_all

end
