(* ===== verification/Dht.thy ===== *)
theory Dht
  imports Torrent_Parse Dht_Entity
begin

text \<open>
  The DHT node (\<^verbatim>\<open>bt/dht.rs\<close>, \<^verbatim>\<open>mapper/dht.rs\<close>): the queries \<^verbatim>\<open>ping\<close> and \<^verbatim>\<open>get_peers\<close>, the search for peers with its
  concurrent tasks, the refresh of the routing table, and the stored table. The network is an argument: it gives
  the datagram that answers a query within the time limit, or nothing. The routing table is shared by all
  tasks behind a mutex; a task touches it in one critical section, so it is modelled as one step.
\<close>

section \<open>Queries\<close>

definition EXPECT_CLOSEST_NODE_NUM :: nat where "EXPECT_CLOSEST_NODE_NUM = 30"
definition GET_PEERS_CONCURRENCY :: nat where "GET_PEERS_CONCURRENCY = 10"
definition DHT_WAIT_PEER_LIMIT :: nat where "DHT_WAIT_PEER_LIMIT = 20"
definition DHT_EXPECT_PEERS :: nat where "DHT_EXPECT_PEERS = 25"

type_synonym dht_net = "nat \<Rightarrow> bytes \<Rightarrow> SocketAddr \<Rightarrow> bytes option"

text \<open>\<^verbatim>\<open>Result::unwrap\<close> and \<^verbatim>\<open>Result::ok\<close>; a panic is not an error that \<^verbatim>\<open>ok\<close> hides.\<close>

definition unwrap_result :: "'a result \<Rightarrow> 'a result" where
  "unwrap_result r = (case r of Inl _ \<Rightarrow> Inl (Panic ''called Result::unwrap() on an Err value'') | Inr x \<Rightarrow> Inr x)"

definition result_ok :: "'a result \<Rightarrow> 'a option result" where
  "result_ok r = (case r of Inr x \<Rightarrow> Inr (Some x) | Inl (Err _) \<Rightarrow> Inr None | Inl (Panic s) \<Rightarrow> Inl (Panic s))"

definition dht_ping :: "dht_net \<Rightarrow> NodeId \<Rightarrow> nat \<Rightarrow> SocketAddr \<Rightarrow> Ping DHTBase option result" where
  "dht_ping net own t addr =
     and_then (unwrap_result (to_bencode MAX_DEPTH (DHTBase_encode Ping_encode (DHTBase_request (Ping_new own) ''ping'' t)))) (\<lambda>req.
       case net t req addr of
         None \<Rightarrow> Inr None
       | Some resp \<Rightarrow> result_ok (from_bencode False 2048 (DHTBase_decode Ping_decode) resp))"

definition dht_get_peers :: "dht_net \<Rightarrow> NodeId \<Rightarrow> nat \<Rightarrow> SocketAddr \<Rightarrow> NodeId \<Rightarrow> (Host list \<times> SocketAddr list) result" where
  "dht_get_peers net own t addr ih =
     and_then (unwrap_result (to_bencode MAX_DEPTH (DHTBase_encode GetPeersReq_encode
       (DHTBase_request \<lparr> gpr_id = own, gpr_info_hash = ih \<rparr> ''get_peers'' t)))) (\<lambda>req.
       case net t req addr of
         None \<Rightarrow> Inr ([], [])
       | Some resp \<Rightarrow>
           and_then (result_ok (from_bencode False 2048 (DHTBase_decode GetPeersResp_decode) resp)) (\<lambda>b.
             case b of
               None \<Rightarrow> Inr ([], [])
             | Some b \<Rightarrow>
                 (case dht_r b of
                    None \<Rightarrow> Inr ([], [])
                  | Some r \<Rightarrow> Inr ((case gp_nodes r of None \<Rightarrow> [] | Some ns \<Rightarrow> ns),
                                   (case gp_values r of None \<Rightarrow> [] | Some vs \<Rightarrow> vs)))))"

section \<open>Asking one node\<close>

definition check_add_node ::
  "dht_net \<Rightarrow> nat \<Rightarrow> nat \<Rightarrow> NodeId option \<Rightarrow> SocketAddr \<Rightarrow> RoutingTable \<Rightarrow> (bool \<times> RoutingTable) result" where
  "check_add_node net now t node_id addr rt =
     and_then (dht_ping net (own_id rt) t addr) (\<lambda>resp.
       case Option.bind resp dht_r of
         None \<Rightarrow>
           (case node_id of
              Some x \<Rightarrow> and_then (mark_node_unresponsive x rt) (\<lambda>rt'. Inr (False, rt'))
            | None \<Rightarrow> Inr (False, rt))
       | Some p \<Rightarrow> and_then (RoutingTable_add_node now (Node_new now (ping_id p) addr) rt) (\<lambda>(_, rt'). Inr (True, rt')))"

type_synonym target = "NodeId option \<times> SocketAddr"

text \<open>The loop over the nodes of an answer: those not farther than \<open>lim\<close> are queued, \<open>m\<close> is the least distance.\<close>

fun closer_nodes :: "NodeId \<Rightarrow> bytes \<Rightarrow> Host list \<Rightarrow> target list \<Rightarrow> bytes \<Rightarrow> target list \<times> bytes" where
  "closer_nodes ih lim [] q m = (q, m)"
| "closer_nodes ih lim (n # ns) q m =
     (let dist = NodeId_distance (host_id n) ih
      in if dist \<le> lim then closer_nodes ih lim ns (q @ [(Some (host_id n), host_addr n)]) (min m dist)
         else closer_nodes ih lim ns q m)"

text \<open>
  What one task does; the hosts it hands to the download task are the second result. \<open>t1\<close> and \<open>t2\<close> are the
  transaction numbers of its two queries.
\<close>

definition async_find_peers ::
  "dht_net \<Rightarrow> nat \<Rightarrow> nat \<Rightarrow> nat \<Rightarrow> NodeId \<Rightarrow> target \<times> bytes \<Rightarrow> RoutingTable
     \<Rightarrow> ((target list \<times> bytes \<times> nat) option \<times> SocketAddr list \<times> RoutingTable) result" where
  "async_find_peers net now t1 t2 ih job rt =
     (case job of ((node_id, addr), min_dist) \<Rightarrow>
       and_then (check_add_node net now t1 node_id addr rt) (\<lambda>(ok, rt').
         if \<not> ok then Inr (None, [], rt')
         else
           and_then (dht_get_peers net (own_id rt) t2 addr ih) (\<lambda>(ns, vs).
             case closer_nodes ih min_dist ns [] min_dist of
               (q, m) \<Rightarrow> Inr (Some (q, m, length vs), vs, rt'))))"

section \<open>Searching\<close>

text \<open>
  A search: its local variables, the tasks that run, the results that wait to be taken from the set of
  futures (\<open>None\<close>: the task failed or panicked), and the place in the loop. \<open>AtNext\<close> waits for a result,
  \<open>AtPop\<close> takes a node from the queue, \<open>Draining\<close> checks the remaining nodes after enough peers were found.
\<close>

datatype place = AtTop | AtNext | AtPop | Draining | Ended

record Search =
  fp_info_hash :: NodeId
  fp_expect :: nat
  fp_queue :: "target list"
  fp_used :: nat
  fp_min :: bytes
  fp_count :: nat
  fp_running :: "(target \<times> bytes) list"
  fp_results :: "(target list \<times> bytes \<times> nat) option list"
  fp_place :: place
  fp_notified :: bool
  fp_asked :: nat

record Dht =
  dht_table :: RoutingTable
  dht_permits :: nat
  dht_bootstrap :: "string list"
  dht_searches :: "Search list"

definition DHT_init :: "RoutingTable \<Rightarrow> string list \<Rightarrow> Dht" where
  "DHT_init rt boots = \<lparr> dht_table = rt, dht_permits = GET_PEERS_CONCURRENCY, dht_bootstrap = boots, dht_searches = [] \<rparr>"

definition find_peers :: "NodeId \<Rightarrow> nat \<Rightarrow> RoutingTable \<Rightarrow> Search" where
  "find_peers ih expect rt =
     \<lparr> fp_info_hash = ih, fp_expect = expect,
       fp_queue = map (\<lambda>n. (Some (n_id n), n_addr n)) (find_closest_nodes rt ih EXPECT_CLOSEST_NODE_NUM),
       fp_used = 0, fp_min = NodeId_distance (own_id rt) ih, fp_count = 0, fp_running = [], fp_results = [],
       fp_place = AtTop, fp_notified = False, fp_asked = 0 \<rparr>"

text \<open>The loop over the bootstrap nodes that were not used yet: the number it tries, and the first address found.\<close>

fun next_bootstrap :: "(string \<Rightarrow> SocketAddr option) \<Rightarrow> string list \<Rightarrow> nat \<times> SocketAddr option" where
  "next_bootstrap resolve [] = (0, None)"
| "next_bootstrap resolve (domain # ds) =
     (case resolve domain of
        Some a \<Rightarrow> (1, Some a)
      | None \<Rightarrow> (case next_bootstrap resolve ds of (n, a) \<Rightarrow> (Suc n, a)))"

definition fill_queue :: "(string \<Rightarrow> SocketAddr option) \<Rightarrow> string list \<Rightarrow> Search \<Rightarrow> Search" where
  "fill_queue resolve boots s =
     (if fp_queue s \<noteq> [] then s
      else
        (case next_bootstrap resolve (drop (fp_used s) boots) of
           (n, a) \<Rightarrow> s\<lparr> fp_used := fp_used s + n, fp_queue := (case a of None \<Rightarrow> [] | Some a \<Rightarrow> [(None, a)]) \<rparr>))"

text \<open>Whether the set of futures is empty.\<close>

definition no_futures :: "Search \<Rightarrow> bool" where
  "no_futures s \<longleftrightarrow> fp_running s = [] \<and> fp_results s = []"

definition turn_top :: "(string \<Rightarrow> SocketAddr option) \<Rightarrow> string list \<Rightarrow> nat \<Rightarrow> Search \<Rightarrow> Search" where
  "turn_top resolve boots permits s =
     (let s' = fill_queue resolve boots s
      in s'\<lparr> fp_place := (if (permits = 0 \<or> fp_queue s' = []) \<and> \<not> no_futures s' then AtNext else AtPop) \<rparr>)"

definition take_result :: "nat \<Rightarrow> Search \<Rightarrow> Search" where
  "take_result i s =
     (let s' = s\<lparr> fp_results := remove_at i (fp_results s) \<rparr>
      in case fp_results s ! i of
           None \<Rightarrow> s'\<lparr> fp_place := AtPop \<rparr>
         | Some (ns, md, found) \<Rightarrow>
             (let s'' = s'\<lparr> fp_queue := fp_queue s @ ns, fp_count := fp_count s + found \<rparr>
              in if fp_expect s \<le> fp_count s'' then s''\<lparr> fp_place := Draining \<rparr>
                 else s''\<lparr> fp_min := md, fp_place := AtPop \<rparr>))"

text \<open>Taking a node: a task is started, under a permit, or the search ends when nothing is left.\<close>

definition launch_task :: "Search \<Rightarrow> Search" where
  "launch_task s = s\<lparr> fp_queue := tl (fp_queue s), fp_running := fp_running s @ [(hd (fp_queue s), fp_min s)],
     fp_asked := Suc (fp_asked s), fp_place := AtTop \<rparr>"

definition pop_empty :: "Search \<Rightarrow> Search" where
  "pop_empty s = s\<lparr> fp_place := (if no_futures s then Ended else AtTop) \<rparr>"

definition finish_search :: "Search \<Rightarrow> Search" where
  "finish_search s = s\<lparr> fp_place := Ended, fp_notified := True \<rparr>"

definition task_done :: "nat \<Rightarrow> (target list \<times> bytes \<times> nat) option \<Rightarrow> Search \<Rightarrow> Search" where
  "task_done j r s = s\<lparr> fp_running := remove_at j (fp_running s), fp_results := fp_results s @ [r] \<rparr>"

text \<open>\<^verbatim>\<open>DHTTimedTask::find_peers\<close>: a search is started only when few peers are waiting.\<close>

definition timed_find_peers :: "nat \<Rightarrow> NodeId \<Rightarrow> Dht \<Rightarrow> Dht" where
  "timed_find_peers waiting ih d =
     (if waiting < DHT_WAIT_PEER_LIMIT
      then d\<lparr> dht_searches := dht_searches d @ [find_peers ih DHT_EXPECT_PEERS (dht_table d)] \<rparr> else d)"

section \<open>Refreshing the table\<close>

definition refresh_pick ::
  "nat \<Rightarrow> (nat \<Rightarrow> bytes) \<Rightarrow> (u8 \<Rightarrow> u8) \<Rightarrow> RoutingTable \<Rightarrow> ((NodeId \<times> SocketAddr) option \<times> RoutingTable) result" where
  "refresh_pick now fill rng rt =
     (case next_refresh_bucket now rt of
        None \<Rightarrow> Inr (None, rt)
      | Some i \<Rightarrow>
          (let rt' = update_lastchange now i rt
           in and_then (random_node fill rng (buckets rt' ! i)) (\<lambda>x.
                Inr ((case find_closest_nodes rt' x 1 of [] \<Rightarrow> None | n # _ \<Rightarrow> Some (x, n_addr n)), rt'))))"

text \<open>The loop that adds the nodes of an answer; \<open>clock k\<close> is the time of the \<open>k\<close>-th call.\<close>

fun refresh_add :: "(nat \<Rightarrow> nat) \<Rightarrow> Host list \<Rightarrow> RoutingTable \<Rightarrow> RoutingTable result" where
  "refresh_add clock [] rt = Inr rt"
| "refresh_add clock (n # ns) rt =
     and_then (RoutingTable_add_node (clock 0) (Node_new (clock 0) (host_id n) (host_addr n)) rt) (\<lambda>(_, rt').
       refresh_add (clock \<circ> Suc) ns rt')"

record refresh_env =
  rf_now :: nat
  rf_clock :: "nat \<Rightarrow> nat"
  rf_fill :: "nat \<Rightarrow> bytes"
  rf_rng :: "u8 \<Rightarrow> u8"
  rf_net :: dht_net
  rf_tran :: nat

text \<open>One turn of the loop: the new table, and whether the loop goes on.\<close>

definition refresh_round :: "refresh_env \<Rightarrow> RoutingTable \<Rightarrow> (bool \<times> RoutingTable) result" where
  "refresh_round e rt =
     and_then (refresh_pick (rf_now e) (rf_fill e) (rf_rng e) rt) (\<lambda>(target, rt').
       case target of
         None \<Rightarrow> Inr (False, rt')
       | Some (x, addr) \<Rightarrow>
           and_then (dht_get_peers (rf_net e) (own_id rt') (rf_tran e) addr x) (\<lambda>(ns, _).
           and_then (refresh_add (rf_clock e) ns rt') (\<lambda>rt''. Inr (True, rt''))))"

text \<open>The loop with fuel; the result says whether it came to its end.\<close>

fun refresh_loop :: "nat \<Rightarrow> (nat \<Rightarrow> refresh_env) \<Rightarrow> RoutingTable \<Rightarrow> (bool \<times> RoutingTable) result" where
  "refresh_loop 0 env rt = Inr (False, rt)"
| "refresh_loop (Suc k) env rt =
     and_then (refresh_round (env 0) rt) (\<lambda>(goes_on, rt').
       if goes_on then refresh_loop k (env \<circ> Suc) rt' else Inr (True, rt'))"

section \<open>Steps\<close>

text \<open>
  The steps of all searches and of the refresh on the shared state, in any order. The network, the clock and
  the results of name resolution are free in every step, so nothing is assumed about what other nodes send.
\<close>

definition upd_search :: "nat \<Rightarrow> Search \<Rightarrow> Dht \<Rightarrow> Dht" where
  "upd_search k s d = d\<lparr> dht_searches := (dht_searches d)[k := s] \<rparr>"

inductive dht_step :: "Dht \<Rightarrow> Dht \<Rightarrow> bool" where
  step_start: "length ih = 20 \<Longrightarrow> dht_step d (timed_find_peers waiting ih d)"
| step_top: "\<lbrakk> k < length (dht_searches d); fp_place (dht_searches d ! k) = AtTop \<rbrakk>
    \<Longrightarrow> dht_step d (upd_search k (turn_top resolve (dht_bootstrap d) (dht_permits d) (dht_searches d ! k)) d)"
| step_next: "\<lbrakk> k < length (dht_searches d); fp_place (dht_searches d ! k) = AtNext; i < length (fp_results (dht_searches d ! k)) \<rbrakk>
    \<Longrightarrow> dht_step d (upd_search k (take_result i (dht_searches d ! k)) d)"
| step_launch: "\<lbrakk> k < length (dht_searches d); fp_place (dht_searches d ! k) = AtPop; fp_queue (dht_searches d ! k) \<noteq> []; 0 < dht_permits d \<rbrakk>
    \<Longrightarrow> dht_step d (upd_search k (launch_task (dht_searches d ! k)) (d\<lparr> dht_permits := dht_permits d - 1 \<rparr>))"
| step_empty: "\<lbrakk> k < length (dht_searches d); fp_place (dht_searches d ! k) = AtPop; fp_queue (dht_searches d ! k) = [] \<rbrakk>
    \<Longrightarrow> dht_step d (upd_search k (pop_empty (dht_searches d ! k)) d)"
| step_drain: "\<lbrakk> k < length (dht_searches d); fp_place (dht_searches d ! k) = Draining; fp_queue (dht_searches d ! k) = (node_id, addr) # q;
      check_add_node net now t node_id addr (dht_table d) = Inr (ok, rt) \<rbrakk>
    \<Longrightarrow> dht_step d (upd_search k ((dht_searches d ! k)\<lparr> fp_queue := q \<rparr>) (d\<lparr> dht_table := rt \<rparr>))"
| step_drain_panic: "\<lbrakk> k < length (dht_searches d); fp_place (dht_searches d ! k) = Draining; fp_queue (dht_searches d ! k) = (node_id, addr) # q;
      check_add_node net now t node_id addr (dht_table d) = Inl e \<rbrakk>
    \<Longrightarrow> dht_step d (upd_search k ((dht_searches d ! k)\<lparr> fp_queue := q, fp_place := Ended \<rparr>) d)"
| step_drained: "\<lbrakk> k < length (dht_searches d); fp_place (dht_searches d ! k) = Draining; fp_queue (dht_searches d ! k) = [] \<rbrakk>
    \<Longrightarrow> dht_step d (upd_search k (finish_search (dht_searches d ! k)) d)"
| step_task: "\<lbrakk> k < length (dht_searches d); j < length (fp_running (dht_searches d ! k));
      async_find_peers net now t1 t2 (fp_info_hash (dht_searches d ! k)) (fp_running (dht_searches d ! k) ! j) (dht_table d) = Inr (r, hosts, rt) \<rbrakk>
    \<Longrightarrow> dht_step d (upd_search k (task_done j r (dht_searches d ! k)) (d\<lparr> dht_table := rt, dht_permits := dht_permits d + 1 \<rparr>))"
| step_task_panic: "\<lbrakk> k < length (dht_searches d); j < length (fp_running (dht_searches d ! k));
      async_find_peers net now t1 t2 (fp_info_hash (dht_searches d ! k)) (fp_running (dht_searches d ! k) ! j) (dht_table d) = Inl e \<rbrakk>
    \<Longrightarrow> dht_step d (upd_search k (task_done j None (dht_searches d ! k)) (d\<lparr> dht_permits := dht_permits d + 1 \<rparr>))"
| step_refresh_pick: "refresh_pick now fill rng (dht_table d) = Inr (target, rt) \<Longrightarrow> dht_step d (d\<lparr> dht_table := rt \<rparr>)"
| step_refresh_add: "\<lbrakk> dht_get_peers net own t addr x = Inr (ns, vs); refresh_add clock ns (dht_table d) = Inr rt \<rbrakk>
    \<Longrightarrow> dht_step d (d\<lparr> dht_table := rt \<rparr>)"

inductive dht_reach :: "NodeId \<Rightarrow> Dht \<Rightarrow> bool" for own where
  dht_start: "rt_reach own rt \<Longrightarrow> dht_reach own (DHT_init rt boots)"
| dht_next: "dht_reach own d \<Longrightarrow> dht_step d d' \<Longrightarrow> dht_reach own d'"


section \<open>What the readers yield\<close>

definition yields :: "'a reader \<Rightarrow> ('a \<Rightarrow> bool) \<Rightarrow> bool" where
  "yields rd P \<longleftrightarrow> (\<forall>v d x d'. rd v d = Inr (x, d') \<longrightarrow> P x)"

lemma yieldsD: "yields rd P \<Longrightarrow> rd v d = Inr (x, d') \<Longrightarrow> P x"
  by (auto simp: yields_def)

lemma yields_from_bencode: "yields rd P \<Longrightarrow> from_bencode ordered dp rd bs = Inr x \<Longrightarrow> P x"
  by (auto simp: from_bencode_def and_then_Inr_iff split: option.split_asm dest: yieldsD)

text \<open>A reader that goes through a dictionary: what every entry keeps, and what the end makes of it.\<close>

lemma yields_dict:
  assumes "\<And>v d x d'. rd v d = Inr (x, d') \<Longrightarrow> \<exists>acc d1. dict_fold (fuel d) f acc0 d = Inr (acc, d1) \<and> (J acc \<longrightarrow> P x)"
    and "J acc0"
    and "\<And>k v acc d acc' d'. J acc \<Longrightarrow> f k v acc d = Inr (acc', d') \<Longrightarrow> J acc'"
  shows "yields rd P"
  unfolding yields_def
proof (intro allI impI)
  fix v d x d' assume "rd v d = Inr (x, d')"
  then obtain acc d1 where f: "dict_fold (fuel d) f acc0 d = Inr (acc, d1)" and P: "J acc \<longrightarrow> P x" using assms(1) by blast
  have "J acc" by (rule dict_fold_invariant [OF f, where P = "\<lambda>acc _. J acc"]) (use assms(2,3) in auto)
  with P show "P x" by blast
qed

lemma yields_NodeId: "yields NodeId_decode id_ok"
  by (auto simp: yields_def NodeId_decode_def and_then_Inr_iff NodeId_try_from_def id_ok_def split: if_split_asm)

lemma yields_Ping: "yields Ping_decode (\<lambda>p. id_ok (ping_id p))"
proof (rule yields_dict [where f = Ping_entry and ?acc0.0 = "(None, None)" and J = "\<lambda>acc. \<forall>i. fst acc = Some i \<longrightarrow> id_ok i"])
  fix v d x d' assume "Ping_decode v d = Inr (x, d')"
  then show "\<exists>acc d1. dict_fold (fuel d) Ping_entry (None, None) d = Inr (acc, d1)
      \<and> ((\<forall>i. fst acc = Some i \<longrightarrow> id_ok i) \<longrightarrow> id_ok (ping_id x))"
    by (fastforce simp: Ping_decode_def and_then_Inr_iff ok_or_missing_def missing_field_def split: option.split_asm)
next
  fix k v d d' and acc acc' :: "NodeId option \<times> nat option"
  assume "\<forall>i. fst acc = Some i \<longrightarrow> id_ok i" "Ping_entry k v acc d = Inr (acc', d')"
  then show "\<forall>i. fst acc' = Some i \<longrightarrow> id_ok i"
    by (auto simp: Ping_entry_def set_field_Inr_iff simp del: ascii_simps split: if_split_asm prod.split_asm
        dest: skip_field_Inr yieldsD [OF yields_NodeId])
qed simp

lemma VecHost_ids: "VecHost_to_object bs = Inr hs \<Longrightarrow> h \<in> set hs \<Longrightarrow> id_ok (host_id h)"
proof -
  assume "VecHost_to_object bs = Inr hs" "h \<in> set hs"
  then obtain c where "Host_to_object c = Inr h"
    by (auto simp: VecHost_to_object_def split: if_split_asm dest: map_result_set)
  then show ?thesis by (auto simp: Host_to_object_def and_then_Inr_iff id_ok_def split: if_split_asm)
qed

definition hosts_ok :: "Host list option \<Rightarrow> bool" where
  "hosts_ok x \<longleftrightarrow> (\<forall>hs. x = Some hs \<longrightarrow> (\<forall>h \<in> set hs. id_ok (host_id h)))"

lemma yields_GetPeersResp: "yields GetPeersResp_decode (\<lambda>g. hosts_ok (gp_nodes g))"
proof (rule yields_dict [where f = GetPeersResp_entry and J = "\<lambda>acc. hosts_ok (gp_nodes (snd acc))"
      and ?acc0.0 = "(None, \<lparr> gp_id = [], gp_nodes = None, gp_values = None, gp_token = None, gp_p = None \<rparr>)"])
  fix v d x d' assume "GetPeersResp_decode v d = Inr (x, d')"
  then show "\<exists>acc d1. dict_fold (fuel d) GetPeersResp_entry
        (None, \<lparr> gp_id = [], gp_nodes = None, gp_values = None, gp_token = None, gp_p = None \<rparr>) d = Inr (acc, d1)
      \<and> (hosts_ok (gp_nodes (snd acc)) \<longrightarrow> hosts_ok (gp_nodes x))"
    by (fastforce simp: GetPeersResp_decode_def and_then_Inr_iff)
next
  fix k v d d' and acc acc' :: GetPeersAcc
  assume "hosts_ok (gp_nodes (snd acc))" "GetPeersResp_entry k v acc d = Inr (acc', d')"
  then show "hosts_ok (gp_nodes (snd acc'))"
    by (auto simp: GetPeersResp_entry_def set_field_Inr_iff and_then_Inr_iff hosts_ok_def simp del: ascii_simps
        split: if_split_asm prod.split_asm dest: skip_field_Inr VecHost_ids)
qed (simp add: hosts_ok_def)

lemma yields_DHTBase:
  assumes "yields rd P"
  shows "yields (DHTBase_decode rd) (\<lambda>b. \<forall>x. dht_r b = Some x \<longrightarrow> P x)"
proof (rule yields_dict [where f = "DHTBase_entry rd" and ?acc0.0 = DHTAcc_new and J = "\<lambda>acc. \<forall>x. acc_r acc = Some x \<longrightarrow> P x"])
  fix v d x d' assume "DHTBase_decode rd v d = Inr (x, d')"
  then show "\<exists>acc d1. dict_fold (fuel d) (DHTBase_entry rd) DHTAcc_new d = Inr (acc, d1)
      \<and> ((\<forall>x. acc_r acc = Some x \<longrightarrow> P x) \<longrightarrow> (\<forall>y. dht_r x = Some y \<longrightarrow> P y))"
    by (auto simp: DHTBase_decode_def and_then_Inr_iff DHTBase_finish_def missing_field_def split: if_split_asm)
next
  fix k v d d' and acc acc' :: "'a DHTAcc"
  assume "\<forall>x. acc_r acc = Some x \<longrightarrow> P x" "DHTBase_entry rd k v acc d = Inr (acc', d')"
  then show "\<forall>x. acc_r acc' = Some x \<longrightarrow> P x"
    by (auto simp: DHTBase_entry_def set_field_Inr_iff simp del: ascii_simps split: if_split_asm
        dest: skip_field_Inr yieldsD [OF assms])
qed (simp add: DHTAcc_new_def)

lemma result_ok_Some [simp]: "result_ok r = Inr (Some x) \<longleftrightarrow> r = Inr x"
  and result_ok_Inr [simp]: "result_ok (Inr y) = Inr (Some y)"
  by (auto simp: result_ok_def split: sum.split error.split)

lemma ping_id_ok: "dht_ping net own t addr = Inr (Some b) \<Longrightarrow> dht_r b = Some p \<Longrightarrow> id_ok (ping_id p)"
  by (auto simp: dht_ping_def and_then_Inr_iff dest!: yields_from_bencode [OF yields_DHTBase [OF yields_Ping]] split: option.split_asm)

lemma get_peers_cases:
  assumes "dht_get_peers net own t addr x = Inr (ns, vs)"
  obtains "ns = []" "vs = []"
  | bs b r where "from_bencode False 2048 (DHTBase_decode GetPeersResp_decode) bs = Inr b" "dht_r b = Some r"
      "ns = (case gp_nodes r of None \<Rightarrow> [] | Some ns \<Rightarrow> ns)" "vs = (case gp_values r of None \<Rightarrow> [] | Some vs \<Rightarrow> vs)"
proof -
  from assms obtain req where q: "(case net t req addr of
         None \<Rightarrow> Inr ([], [])
       | Some resp \<Rightarrow>
           and_then (result_ok (from_bencode False 2048 (DHTBase_decode GetPeersResp_decode) resp)) (\<lambda>b.
             case b of
               None \<Rightarrow> Inr ([], [])
             | Some b \<Rightarrow>
                 (case dht_r b of
                    None \<Rightarrow> Inr ([], [])
                  | Some r \<Rightarrow> Inr ((case gp_nodes r of None \<Rightarrow> [] | Some ns \<Rightarrow> ns),
                                   (case gp_values r of None \<Rightarrow> [] | Some vs \<Rightarrow> vs))))) = Inr (ns, vs)"
    unfolding dht_get_peers_def and_then_Inr_iff by blast
  show ?thesis
  proof (cases "net t req addr")
    case None
    then show ?thesis using q that(1) by simp
  next
    case (Some resp)
    then obtain ob where ob: "result_ok (from_bencode False 2048 (DHTBase_decode GetPeersResp_decode) resp) = Inr ob"
      using q by (auto simp: and_then_Inr_iff)
    then show ?thesis using q Some that by (cases ob) (auto split: option.split_asm)
  qed
qed

lemma get_peers_ids_ok: 
  assumes "dht_get_peers net own t addr x = Inr (ns, vs)" and "n \<in> set ns"
  shows "id_ok (host_id n)"
  using assms(1)
proof (cases rule: get_peers_cases)
  case (2 bs b r)
  then have "hosts_ok (gp_nodes r)" using yields_from_bencode [OF yields_DHTBase [OF yields_GetPeersResp]] by blast
  with 2 assms(2) show ?thesis by (auto simp: hosts_ok_def split: option.split_asm)
qed (use assms(2) in simp)

section \<open>The table under the operations\<close>

lemma check_add_node_ok:
  assumes "rt_inv rt" and "\<And>x. node_id = Some x \<Longrightarrow> id_ok x"
  shows "check_add_node net now t node_id addr rt = Inr (ok, rt') \<Longrightarrow> rt_inv rt' \<and> own_id rt' = own_id rt"
    and "check_add_node net now t node_id addr rt = Inl e \<Longrightarrow> dht_ping net (own_id rt) t addr = Inl e"
proof -
  have bad: "\<exists>rt'. (case node_id of Some x \<Rightarrow> and_then (mark_node_unresponsive x rt) (\<lambda>rt'. Inr (False, rt')) | None \<Rightarrow> Inr (False, rt))
      = Inr (False, rt') \<and> rt_inv rt' \<and> own_id rt' = own_id rt"
  proof (cases node_id)
    case (Some x)
    then obtain rt1 where "mark_node_unresponsive x rt = Inr rt1" "rt_inv rt1" "own_id rt1 = own_id rt"
      using mark_spec(2) [OF assms] by blast
    with Some show ?thesis by simp
  qed (use assms in simp)
  have good: "\<exists>rt'. and_then (RoutingTable_add_node now (Node_new now x addr) rt) (\<lambda>(_, rt'). Inr (True, rt')) = Inr (True, rt')
      \<and> rt_inv rt' \<and> own_id rt' = own_id rt" if "id_ok x" for x
    using RoutingTable_add_node_spec [OF assms(1), of "Node_new now x addr" now] that by (auto simp: Node_new_def)
  have "\<exists>b rt'. check_add_node net now t node_id addr rt = Inr (b, rt') \<and> rt_inv rt' \<and> own_id rt' = own_id rt"
    if p: "dht_ping net (own_id rt) t addr = Inr resp" for resp
  proof (cases "Option.bind resp dht_r")
    case None
    then show ?thesis using p bad by (auto simp: check_add_node_def)
  next
    case (Some q)
    then obtain b where "resp = Some b" "dht_r b = Some q" by (auto simp: bind_eq_Some_conv)
    then show ?thesis using p ping_id_ok [of net "own_id rt" t addr b q] good [of "ping_id q"] by (auto simp: check_add_node_def)
  qed
  then show "check_add_node net now t node_id addr rt = Inr (ok, rt') \<Longrightarrow> rt_inv rt' \<and> own_id rt' = own_id rt"
    and "check_add_node net now t node_id addr rt = Inl e \<Longrightarrow> dht_ping net (own_id rt) t addr = Inl e"
    by (cases "dht_ping net (own_id rt) t addr"; fastforce simp: check_add_node_def)+
qed

definition target_ok :: "target \<Rightarrow> bool" where
  "target_ok x \<longleftrightarrow> (\<forall>i. fst x = Some i \<longrightarrow> id_ok i)"

lemma closer_nodes_ok:
  assumes "closer_nodes ih lim ns q m = (q', m')" and "\<forall>n \<in> set ns. id_ok (host_id n)" and "\<forall>x \<in> set q. target_ok x"
  shows "\<forall>x \<in> set q'. target_ok x"
  using assms
proof (induction ns arbitrary: q m)
  case (Cons n ns)
  let ?x = "(Some (host_id n), host_addr n)" and ?d = "NodeId_distance (host_id n) ih"
  have "target_ok ?x" using Cons.prems(2) by (simp add: target_ok_def)
  then show ?case
    using Cons.IH [of "q @ [?x]" "min m ?d"] Cons.IH [of q m] Cons.prems by (cases "?d \<le> lim") (simp_all add: Let_def)
qed simp

lemma async_find_peers_cases:
  assumes "async_find_peers net now t1 t2 ih ((i, a), md) rt = Inr (r, hosts, rt')"
  obtains "check_add_node net now t1 i a rt = Inr (False, rt')" "r = None"
  | ns q m where "check_add_node net now t1 i a rt = Inr (True, rt')" "dht_get_peers net (own_id rt) t2 a ih = Inr (ns, hosts)"
      "closer_nodes ih md ns [] md = (q, m)" "r = Some (q, m, length hosts)"
proof -
  obtain ok rt1 where c: "check_add_node net now t1 i a rt = Inr (ok, rt1)"
    using assms by (auto simp: async_find_peers_def and_then_Inr_iff)
  show ?thesis
  proof (cases ok)
    case True
    then obtain ns vs where g: "dht_get_peers net (own_id rt) t2 a ih = Inr (ns, vs)"
      using assms c by (auto simp: async_find_peers_def and_then_Inr_iff)
    obtain q m where "closer_nodes ih md ns [] md = (q, m)" by fastforce
    with True c g assms show ?thesis by (auto simp: async_find_peers_def intro: that(2))
  qed (use assms c in \<open>auto simp: async_find_peers_def intro: that(1)\<close>)
qed

fun answer_ok :: "(target list \<times> bytes \<times> nat) option \<Rightarrow> bool" where
  "answer_ok None = True"
| "answer_ok (Some (q, m, c)) = list_all target_ok q"

lemma async_find_peers_ok:
  assumes "async_find_peers net now t1 t2 ih (x, md) rt = Inr (r, hosts, rt')" and "rt_inv rt" and "target_ok x"
  shows "rt_inv rt' \<and> own_id rt' = own_id rt \<and> answer_ok r"
proof -
  obtain i a where x: "x = (i, a)" by fastforce
  have id: "\<And>y. i = Some y \<Longrightarrow> id_ok y" using assms(3) by (simp add: target_ok_def x)
  have ok: "rt_inv rt1 \<and> own_id rt1 = own_id rt" if "check_add_node net now t1 i a rt = Inr (b, rt1)" for b rt1
    using check_add_node_ok(1) [OF assms(2) id that] .
  from assms(1) [unfolded x] show ?thesis
  proof (cases rule: async_find_peers_cases)
    case 1
    then show ?thesis using ok [OF 1(1)] by simp
  next
    case (2 ns q m)
    have "\<forall>y \<in> set q. target_ok y" using closer_nodes_ok [OF 2(3)] get_peers_ids_ok [OF 2(2)] by simp
    then show ?thesis using ok [OF 2(1)] 2(4) by (simp add: list_all_iff)
  qed
qed

lemma refresh_pick_ok:
  assumes "refresh_pick now fill rng rt = Inr (target, rt')" and "rt_inv rt"
  shows "rt_inv rt' \<and> own_id rt' = own_id rt"
proof -
  have "rt_inv (update_lastchange now i rt)" if "next_refresh_bucket now rt = Some i" for i
    using rt_inv_refresh [OF assms(2)] position_SomeD(1) that unfolding next_refresh_bucket_def by blast
  then show ?thesis
    using assms by (cases "next_refresh_bucket now rt") (auto simp: refresh_pick_def Let_def and_then_Inr_iff update_lastchange_def)
qed

lemma refresh_add_ok:
  assumes "\<forall>n \<in> set ns. id_ok (host_id n)" and "rt_inv rt"
  shows "\<exists>rt'. refresh_add clock ns rt = Inr rt' \<and> rt_inv rt' \<and> own_id rt' = own_id rt"
  using assms
proof (induction ns arbitrary: clock rt)
  case (Cons n ns)
  let ?n = "Node_new (clock 0) (host_id n) (host_addr n)"
  obtain b rt1 where "RoutingTable_add_node (clock 0) ?n rt = Inr (b, rt1)" "rt_inv rt1" "own_id rt1 = own_id rt"
    using RoutingTable_add_node_spec [OF Cons.prems(2), of ?n "clock 0"] Cons.prems(1) by (auto simp: Node_new_def)
  with Cons.IH [of rt1 "clock \<circ> Suc"] Cons.prems(1) show ?case by (simp add: comp_def)
qed simp

section \<open>The invariant of the node\<close>

definition search_ok :: "Search \<Rightarrow> bool" where
  "search_ok s \<longleftrightarrow> list_all target_ok (fp_queue s) \<and> list_all (\<lambda>x. target_ok (fst x)) (fp_running s)
     \<and> list_all answer_ok (fp_results s)
     \<and> (fp_place s = Draining \<longrightarrow> fp_expect s \<le> fp_count s)
     \<and> (fp_notified s \<longrightarrow> fp_place s = Ended \<and> fp_expect s \<le> fp_count s)"

definition running_tasks :: "Dht \<Rightarrow> nat" where
  "running_tasks d = sum_list (map (\<lambda>s. length (fp_running s)) (dht_searches d))"

definition dht_inv :: "NodeId \<Rightarrow> Dht \<Rightarrow> bool" where
  "dht_inv own d \<longleftrightarrow> rt_inv (dht_table d) \<and> own_id (dht_table d) = own
     \<and> dht_permits d + running_tasks d = GET_PEERS_CONCURRENCY \<and> (\<forall>s \<in> set (dht_searches d). search_ok s)"

lemma closest_target_ok:
  assumes "rt_inv rt" and "n \<in> set (find_closest_nodes rt x c)"
  shows "id_ok (n_id n)"
proof -
  have "n \<in> set (all_nodes rt)"
    using assms(2) find_closest_nodes_eq [OF all_ids_distinct [OF assms(1)]] by (auto dest!: in_set_takeD)
  then show ?thesis using assms(1) by (auto simp: all_nodes_def rt_inv_def bucket_inv_def bucket_ok_def)
qed

lemma sum_update_nth:
  fixes xs :: "nat list"
  assumes "k < length xs"
  shows "sum_list (xs[k := y]) + xs ! k = sum_list xs + y"
  using assms elem_le_sum_list [OF assms] by (simp add: sum_list_update)

lemma running_upd:
  assumes "k < length (dht_searches d)"
  shows "running_tasks (upd_search k s d) + length (fp_running (dht_searches d ! k)) = running_tasks d + length (fp_running s)"
  using sum_update_nth [of k "map (\<lambda>s. length (fp_running s)) (dht_searches d)"] assms
  by (simp add: running_tasks_def upd_search_def map_update)

lemma upd_search_simps [simp]:
  "dht_table (upd_search k s d) = dht_table d"
  "dht_permits (upd_search k s d) = dht_permits d"
  "dht_bootstrap (upd_search k s d) = dht_bootstrap d"
  "dht_searches (upd_search k s d) = (dht_searches d)[k := s]"
  "running_tasks (d\<lparr> dht_table := rt \<rparr>) = running_tasks d"
  "running_tasks (d\<lparr> dht_permits := p \<rparr>) = running_tasks d"
  by (simp_all add: upd_search_def running_tasks_def)

lemma dht_inv_upd:
  assumes "dht_inv own d" and "k < length (dht_searches d)" and "search_ok s"
    and "rt_inv rt" and "own_id rt = own"
    and "p + length (fp_running s) = dht_permits d + length (fp_running (dht_searches d ! k))"
  shows "dht_inv own (upd_search k s (d\<lparr> dht_table := rt, dht_permits := p \<rparr>))"
proof -
  let ?d = "d\<lparr> dht_table := rt, dht_permits := p \<rparr>"
  have "k < length (dht_searches ?d)" using assms(2) by simp
  note running_upd [OF this, of s]
  then have "running_tasks (upd_search k s ?d) + length (fp_running (dht_searches d ! k)) = running_tasks d + length (fp_running s)"
    by (simp add: running_tasks_def)
  then have "p + running_tasks (upd_search k s ?d) = dht_permits d + running_tasks d" using assms(6) by linarith
  moreover have "set ((dht_searches d)[k := s]) \<subseteq> {s. search_ok s}"
    using assms(1,3) by (intro set_update_subsetI) (auto simp: dht_inv_def)
  ultimately show ?thesis using assms by (auto simp: dht_inv_def)
qed

text \<open>A step that changes only one search.\<close>

lemma dht_inv_upd_only:
  assumes "dht_inv own d" and "k < length (dht_searches d)" and "search_ok s"
    and "length (fp_running s) = length (fp_running (dht_searches d ! k))"
  shows "dht_inv own (upd_search k s d)"
  using dht_inv_upd [OF assms(1-3), of "dht_table d" "dht_permits d"] assms(1,4) by (simp add: dht_inv_def)

lemma search_ok_nth: "dht_inv own d \<Longrightarrow> k < length (dht_searches d) \<Longrightarrow> search_ok (dht_searches d ! k)"
  by (simp add: dht_inv_def)

lemma list_all_remove_at: "list_all P xs \<Longrightarrow> list_all P (remove_at i xs)"
  using set_remove_at_subset [of i xs] by (auto simp: list_all_iff)

lemma search_ok_top:
  assumes "search_ok s" and "fp_place s = AtTop"
  shows "search_ok (turn_top resolve boots permits s)" and "fp_running (turn_top resolve boots permits s) = fp_running s"
  using assms by (auto simp: search_ok_def turn_top_def fill_queue_def Let_def target_ok_def split: prod.split option.split)

lemma search_ok_take:
  assumes "search_ok s" and "fp_place s = AtNext" and "i < length (fp_results s)"
  shows "search_ok (take_result i s)" and "fp_running (take_result i s) = fp_running s"
proof -
  have "answer_ok (fp_results s ! i)" using assms(1,3) by (simp add: search_ok_def list_all_length)
  then show "search_ok (take_result i s)"
    using assms by (cases "fp_results s ! i" rule: answer_ok.cases) (auto simp: search_ok_def take_result_def Let_def list_all_remove_at)
  show "fp_running (take_result i s) = fp_running s" by (auto simp: take_result_def Let_def split: option.split)
qed

lemma search_ok_task:
  assumes "search_ok s" and "answer_ok r"
  shows "search_ok (task_done j r s)"
  using assms by (simp add: search_ok_def task_done_def list_all_remove_at)

lemma dht_step_inv:
  assumes "dht_step d d'" and inv: "dht_inv own d"
  shows "dht_inv own d'"
  using assms
proof (induction rule: dht_step.cases)
  case (step_start ih d0 waiting)
  have "search_ok (find_peers ih DHT_EXPECT_PEERS (dht_table d))"
    using closest_target_ok [of "dht_table d"] inv by (auto simp: search_ok_def find_peers_def target_ok_def dht_inv_def list_all_iff)
  then show ?case using step_start inv by (auto simp: timed_find_peers_def dht_inv_def running_tasks_def find_peers_def)
next
  case (step_top k d0 resolve)
  then show ?case using search_ok_top [OF search_ok_nth [OF inv]] by (simp add: dht_inv_upd_only)
next
  case (step_next k d0 i)
  then show ?case using search_ok_take [OF search_ok_nth [OF inv]] by (simp add: dht_inv_upd_only)
next
  case (step_launch k d0)
  then have "search_ok (launch_task (dht_searches d ! k))"
    using search_ok_nth [OF inv, of k]
    by (cases "fp_queue (dht_searches d ! k)") (simp_all add: search_ok_def launch_task_def)
  then show ?case
    using dht_inv_upd [OF inv, of k "launch_task (dht_searches d ! k)" "dht_table d" "dht_permits d - 1"] step_launch inv
    by (simp add: launch_task_def dht_inv_def)
next
  case (step_empty k d0)
  then have "search_ok (pop_empty (dht_searches d ! k))"
    using search_ok_nth [OF inv, of k] by (auto simp: search_ok_def pop_empty_def)
  then show ?case using step_empty inv by (simp add: dht_inv_upd_only pop_empty_def)
next
  case (step_drain k d0 node_id addr q net now t ok rt)
  have s: "search_ok (dht_searches d ! k)" using search_ok_nth [OF inv] step_drain by simp
  then have "\<And>x. node_id = Some x \<Longrightarrow> id_ok x" using step_drain by (auto simp: search_ok_def target_ok_def)
  then have rt: "rt_inv rt \<and> own_id rt = own"
    using check_add_node_ok(1) [of "dht_table d" node_id net now t addr ok rt] step_drain inv by (auto simp: dht_inv_def)
  have "search_ok ((dht_searches d ! k)\<lparr> fp_queue := q \<rparr>)" using s step_drain by (auto simp: search_ok_def)
  then show ?case using dht_inv_upd [OF inv, of k _ rt "dht_permits d"] step_drain rt by simp
next
  case (step_drain_panic k d0 node_id addr q net now t e)
  have "search_ok ((dht_searches d ! k)\<lparr> fp_queue := q, fp_place := Ended \<rparr>)"
    using search_ok_nth [OF inv, of k] step_drain_panic by (auto simp: search_ok_def)
  then show ?case using step_drain_panic inv by (simp add: dht_inv_upd_only)
next
  case (step_drained k d0)
  then have "search_ok (finish_search (dht_searches d ! k))"
    using search_ok_nth [OF inv, of k] by (auto simp: search_ok_def finish_search_def)
  then show ?case using step_drained inv by (simp add: dht_inv_upd_only finish_search_def)
next
  case (step_task k d0 j net now t1 t2 r hosts rt)
  let ?s = "dht_searches d ! k"
  obtain x md where j: "fp_running ?s ! j = (x, md)" by fastforce
  have s: "search_ok ?s" using search_ok_nth [OF inv] step_task by simp
  then have "target_ok x" using step_task j by (auto simp: search_ok_def list_all_length)
  then have a: "rt_inv rt \<and> own_id rt = own_id (dht_table d) \<and> answer_ok r"
    using async_find_peers_ok [of net now t1 t2 "fp_info_hash ?s" x md "dht_table d" r hosts rt] step_task j inv by (simp add: dht_inv_def)
  have "search_ok (task_done j r ?s)" using search_ok_task [OF s] a by simp
  then show ?case
    using dht_inv_upd [OF inv, of k "task_done j r ?s" rt "dht_permits d + 1"] step_task a inv by (auto simp: task_done_def dht_inv_def)
next
  case (step_task_panic k d0 j net now t1 t2 e)
  let ?s = "dht_searches d ! k"
  have "search_ok (task_done j None ?s)" using search_ok_task [of ?s None j] search_ok_nth [OF inv] step_task_panic by simp
  then show ?case
    using dht_inv_upd [OF inv, of k "task_done j None ?s" "dht_table d" "dht_permits d + 1"] step_task_panic inv
    by (auto simp: task_done_def dht_inv_def)
next
  case (step_refresh_pick now fill rng d0 target rt)
  then have "rt_inv rt \<and> own_id rt = own" using refresh_pick_ok [of now fill rng "dht_table d" target rt] inv by (simp add: dht_inv_def)
  then show ?case using step_refresh_pick(1,2) inv by (simp add: dht_inv_def)
next
  case (step_refresh_add net own' t addr x ns vs clock d0 rt)
  have "rt_inv rt \<and> own_id rt = own"
    using refresh_add_ok [of ns "dht_table d" clock] get_peers_ids_ok [OF step_refresh_add(3)] step_refresh_add(1,4) inv by (auto simp: dht_inv_def)
  then show ?case using step_refresh_add(1,2) inv by (simp add: dht_inv_def)
qed

lemma dht_reach_inv: "dht_reach own d \<Longrightarrow> id_ok own \<Longrightarrow> dht_inv own d"
proof (induction rule: dht_reach.induct)
  case (dht_start rt boots)
  then show ?case using rt_reach_inv [of own rt] by (simp add: dht_inv_def DHT_init_def running_tasks_def)
qed (blast intro: dht_step_inv)

section \<open>The refresh ends\<close>

text \<open>The buckets that were not touched since a time.\<close>

definition stale_buckets :: "nat \<Rightarrow> RoutingTable \<Rightarrow> nat" where
  "stale_buckets start rt = length (filter (\<lambda>b. lastchange b < start) (buckets rt))"

lemma stale_set_bucket:
  assumes "i < length (buckets rt)"
  shows "stale_buckets start (set_bucket i b rt) + (if lastchange (buckets rt ! i) < start then 1 else 0)
    = stale_buckets start rt + (if lastchange b < start then 1 else 0)"
proof -
  let ?P = "\<lambda>b. lastchange b < start"
  have "buckets rt = take i (buckets rt) @ buckets rt ! i # drop (Suc i) (buckets rt)" using assms by (rule id_take_nth_drop)
  then have "filter ?P (buckets rt) = filter ?P (take i (buckets rt)) @ filter ?P (buckets rt ! i # drop (Suc i) (buckets rt))"
    using filter_append by metis
  then have "length (filter ?P (buckets rt)) = length (filter ?P (take i (buckets rt))) + (if ?P (buckets rt ! i) then 1 else 0)
      + length (filter ?P (drop (Suc i) (buckets rt)))"
    by simp
  then show ?thesis
    using assms by (simp add: stale_buckets_def set_bucket_def upd_conv_take_nth_drop)
qed

lemma Bucket_add_node_lastchange:
  "Bucket_add_node now n b = (r, b') \<Longrightarrow> lastchange b' = now \<or> b' = b"
  by (auto simp: Bucket_add_node_def split: option.split_asm if_split_asm)

lemma distribute_lastchange:
  assumes "distribute now ns b0 b1 = Inr (c0, c1)" and "lastchange b0 = now" and "lastchange b1 = now"
  shows "lastchange c0 = now \<and> lastchange c1 = now"
  using assms
proof (induction ns arbitrary: b0 b1)
  case (Cons n ns)
  have l: "lastchange (snd (Bucket_add_node now n b)) = now" if "lastchange b = now" for b
    using Bucket_add_node_lastchange [of now n b] that by (metis prod.collapse)
  obtain c where "Bucket_contains b0 (n_id n) = Inr c" using Cons.prems(1) by (auto simp: and_then_Inr_iff)
  then show ?case using Cons l by (cases c) auto
qed simp

lemma split_bucket_stale:
  assumes "split_bucket now i rt = Inr rt'" and "start \<le> now"
  shows "stale_buckets start rt' \<le> stale_buckets start rt"
proof -
  obtain b0 b1 c0 c1 x0 x1 where i: "i < length (buckets rt)" and b: "Bucket_split now (buckets rt ! i) = Inr (b0, b1)"
    and "distribute now (nodes (buckets rt ! i)) b0 b1 = Inr (c0, c1)"
    and rt': "rt' = rt\<lparr> buckets := remove_at i (buckets rt) @ [c0\<lparr> can_split := x0 \<rparr>, c1\<lparr> can_split := x1 \<rparr>] \<rparr>"
    using assms(1) by (fastforce simp: split_bucket_def and_then_Inr_iff split: if_split_asm)
  moreover have "lastchange b0 = now" "lastchange b1 = now"
    using b by (auto simp: Bucket_split_def Bucket_new_def Let_def split: if_split_asm prod.split_asm)
  ultimately have "lastchange c0 = now" "lastchange c1 = now" using distribute_lastchange by blast+
  then show ?thesis
    using assms(2) filter_length_remove_at [OF i, of "\<lambda>b. lastchange b < start"] by (simp add: stale_buckets_def rt')
qed

lemma stale_set_le:
  assumes "i < length (buckets rt)" and "start \<le> lastchange b \<or> b = buckets rt ! i"
  shows "stale_buckets start (set_bucket i b rt) \<le> stale_buckets start rt"
  using stale_set_bucket [OF assms(1), of start b] assms(2) by (auto split: if_split_asm)

lemma position_result_bound: "position_result P xs = Inr (Some i) \<Longrightarrow> i < length xs"
  by (induction xs arbitrary: i) (auto simp: and_then_Inr_iff split: if_split_asm)

lemma add_node_stale:
  assumes "RoutingTable_add_node now n rt = Inr (ok, rt')" and "rt_inv rt" and "id_ok (n_id n)" and "start \<le> now"
  shows "stale_buckets start rt' \<le> stale_buckets start rt"
proof (cases "n_id n = own_id rt")
  case True
  then show ?thesis using assms(1) by (simp add: RoutingTable_add_node_def)
next
  case False
  have le: "stale_buckets start (set_bucket i (b\<lparr> lastchange := now \<rparr>) r) \<le> stale_buckets start r" if "i < length (buckets r)" for i b r
    using stale_set_le [OF that] assms(4) by simp
  from find_bucket_total [OF assms(2,3)] obtain i where i: "i < length (buckets rt)" "find_or_create_bucket (n_id n) rt = Inr i" by blast
  obtain r b where r: "Bucket_add_node now n (buckets rt ! i) = (r, b)" by fastforce
  show ?thesis
  proof (cases "is_success r")
    case True
    then have "rt' = set_bucket i (b\<lparr>lastchange := now\<rparr>) rt"
      using assms(1) False i r by (cases r) (simp_all add: RoutingTable_add_node_def is_success_def update_lastchange_eq)
    then show ?thesis using le [OF i(1)] by simp
  next
    case full: False
    then obtain n' where n': "r = BucketFull n'" by (cases r) (auto simp: is_success_def)
    with r have b: "b = buckets rt ! i" "n' = n" by (auto simp: Bucket_add_node_def split: option.split_asm if_split_asm)
    show ?thesis
    proof (cases "can_split b")
      case False
      then show ?thesis using assms(1) \<open>n_id n \<noteq> own_id rt\<close> i r n' b by (simp add: RoutingTable_add_node_def set_bucket_def)
    next
      case True
      then obtain rt1 j where s: "split_bucket now i rt = Inr rt1" and j: "find_or_create_bucket (n_id n) rt1 = Inr j"
        using assms(1) False i r n' b by (auto simp: RoutingTable_add_node_def and_then_Inr_iff set_bucket_def)
      obtain r' b' where r': "Bucket_add_node now n (buckets rt1 ! j) = (r', b')" by fastforce
      have "rt' = (if is_success r' then update_lastchange now j (set_bucket j b' rt1) else set_bucket j b' rt1)"
        using assms(1) False i r n' b True s j r' by (auto simp: RoutingTable_add_node_def set_bucket_def split: if_split_asm)
      moreover have jl: "j < length (buckets rt1)"
        using j position_result_bound [of _ "buckets rt1"] by (auto simp: find_or_create_bucket_def find_bucket_for_node_def and_then_Inr_iff split: option.split_asm)
      ultimately have "stale_buckets start rt' \<le> stale_buckets start rt1"
        using le [OF jl] stale_set_le [OF jl, of start b'] Bucket_add_node_lastchange [OF r'] assms(4)
        by (auto simp: update_lastchange_eq)
      then show ?thesis using split_bucket_stale [OF s assms(4)] by linarith
    qed
  qed
qed

lemma refresh_add_stale:
  assumes "refresh_add clock ns rt = Inr rt'" and "rt_inv rt" and "\<forall>n \<in> set ns. id_ok (host_id n)" and "\<forall>k. start \<le> clock k"
  shows "stale_buckets start rt' \<le> stale_buckets start rt"
  using assms
proof (induction ns arbitrary: clock rt)
  case (Cons n ns)
  let ?n = "Node_new (clock 0) (host_id n) (host_addr n)"
  have id: "id_ok (n_id ?n)" using Cons.prems(3) by (simp add: Node_new_def)
  obtain b rt1 where a: "RoutingTable_add_node (clock 0) ?n rt = Inr (b, rt1)" "rt_inv rt1"
    using RoutingTable_add_node_spec [OF Cons.prems(2) id, of "clock 0"] by blast
  then have "stale_buckets start rt' \<le> stale_buckets start rt1" using Cons.IH [of "clock \<circ> Suc" rt1] Cons.prems by (simp add: comp_def)
  then show ?case using add_node_stale [OF a(1) Cons.prems(2) id, of start] Cons.prems(4) le_trans by blast
qed simp

text \<open>One turn of the loop touches a bucket that was not touched since the start, so there are fewer of them.\<close>

lemma refresh_round_stale:
  assumes "refresh_round e rt = Inr (True, rt')" and "rt_inv rt"
    and "start \<le> rf_now e" and "rf_now e \<le> start + REFRESH_INTERVAL" and "\<forall>k. start \<le> rf_clock e k"
  shows "stale_buckets start rt' < stale_buckets start rt"
proof -
  obtain x addr rt1 ns vs where p: "refresh_pick (rf_now e) (rf_fill e) (rf_rng e) rt = Inr (Some (x, addr), rt1)"
    and g: "dht_get_peers (rf_net e) (own_id rt1) (rf_tran e) addr x = Inr (ns, vs)" and a: "refresh_add (rf_clock e) ns rt1 = Inr rt'"
    using assms(1) by (auto simp: refresh_round_def and_then_Inr_iff split: option.split_asm)
  obtain i where i: "next_refresh_bucket (rf_now e) rt = Some i" "rt1 = update_lastchange (rf_now e) i rt"
    using p by (auto simp: refresh_pick_def Let_def and_then_Inr_iff split: option.split_asm)
  have b: "i < length (buckets rt)" "REFRESH_INTERVAL < rf_now e - lastchange (buckets rt ! i)"
    using position_SomeD [OF i(1) [unfolded next_refresh_bucket_def]] by auto
  have "lastchange (buckets rt ! i) < start" using b(2) assms(4) by linarith
  then have "Suc (stale_buckets start rt1) = stale_buckets start rt"
    using stale_set_bucket [OF b(1), of start "(buckets rt ! i)\<lparr> lastchange := rf_now e \<rparr>"] assms(3)
    by (simp add: i(2) update_lastchange_def)
  moreover have "stale_buckets start rt' \<le> stale_buckets start rt1"
    using refresh_add_stale [OF a _ _ assms(5)] refresh_pick_ok [OF p assms(2)] get_peers_ids_ok [OF g] by blast
  ultimately show ?thesis by linarith
qed

text \<open>What the environment of a refresh has to provide: a clock within one interval, random numbers in range, and answers without a panic.\<close>

definition refresh_env_ok :: "nat \<Rightarrow> refresh_env \<Rightarrow> bool" where
  "refresh_env_ok start e \<longleftrightarrow> start \<le> rf_now e \<and> rf_now e \<le> start + REFRESH_INTERVAL \<and> (\<forall>k. start \<le> rf_clock e k)
     \<and> (\<forall>k. length (rf_fill e k) = k) \<and> (\<forall>u > 0. rf_rng e u < u)
     \<and> (\<forall>own addr x. \<exists>r. dht_get_peers (rf_net e) own (rf_tran e) addr x = Inr r)"

lemma refresh_round_total:
  assumes "rt_inv rt" and "refresh_env_ok start e"
  shows "\<exists>b rt'. refresh_round e rt = Inr (b, rt') \<and> rt_inv rt' \<and> own_id rt' = own_id rt"
proof -
  have "\<exists>t rt'. refresh_pick (rf_now e) (rf_fill e) (rf_rng e) rt = Inr (t, rt')"
  proof (cases "next_refresh_bucket (rf_now e) rt")
    case (Some i)
    let ?rt = "update_lastchange (rf_now e) i rt"
    have i: "i < length (buckets rt)" using position_SomeD Some unfolding next_refresh_bucket_def by blast
    then have "bucket_inv (own_id ?rt) (buckets ?rt ! i)"
      using rt_inv_bucket [OF assms(1) i] i by (simp add: update_lastchange_def)
    then have "\<exists>x. random_node (rf_fill e) (rf_rng e) (buckets ?rt ! i) = Inr x"
      using random_node_spec [of "buckets ?rt ! i" "rf_fill e" "rf_rng e"] assms(2)
      unfolding refresh_env_ok_def bucket_inv_def bucket_ok_def by blast
    then show ?thesis using Some by (auto simp: refresh_pick_def Let_def)
  qed (simp add: refresh_pick_def)
  then obtain t rt1 where p: "refresh_pick (rf_now e) (rf_fill e) (rf_rng e) rt = Inr (t, rt1)" by blast
  note ok = refresh_pick_ok [OF p assms(1)]
  show ?thesis
  proof (cases t)
    case None
    then show ?thesis using p ok by (auto simp: refresh_round_def)
  next
    case (Some y)
    obtain x addr where y: "y = (x, addr)" by fastforce
    have "\<exists>r. dht_get_peers (rf_net e) (own_id rt1) (rf_tran e) addr x = Inr r"
      using assms(2) unfolding refresh_env_ok_def by blast
    then obtain ns vs where g: "dht_get_peers (rf_net e) (own_id rt1) (rf_tran e) addr x = Inr (ns, vs)" by auto
    obtain rt2 where "refresh_add (rf_clock e) ns rt1 = Inr rt2" "rt_inv rt2" "own_id rt2 = own_id rt1"
      using refresh_add_ok [of ns rt1 "rf_clock e"] get_peers_ids_ok [OF g] ok by blast
    then show ?thesis using p ok Some y g by (auto simp: refresh_round_def)
  qed
qed

lemma refresh_loop_ends:
  assumes "rt_inv rt" and "\<forall>k. refresh_env_ok start (env k)" and "stale_buckets start rt < n"
  shows "\<exists>rt'. refresh_loop n env rt = Inr (True, rt') \<and> rt_inv rt' \<and> own_id rt' = own_id rt"
  using assms
proof (induction n arbitrary: env rt)
  case (Suc n)
  have e: "refresh_env_ok start (env 0)" using Suc.prems(2) by blast
  obtain b rt1 where r: "refresh_round (env 0) rt = Inr (b, rt1)" "rt_inv rt1" "own_id rt1 = own_id rt"
    using refresh_round_total [OF Suc.prems(1) e] by blast
  show ?case
  proof (cases b)
    case True
    then have "stale_buckets start rt1 < stale_buckets start rt"
      using refresh_round_stale [OF _ Suc.prems(1), of "env 0" rt1 start] r(1) e by (simp add: refresh_env_ok_def)
    moreover have "\<forall>k. refresh_env_ok start ((env \<circ> Suc) k)" using Suc.prems(2) by simp
    ultimately show ?thesis using Suc.IH [of rt1 "env \<circ> Suc"] r True Suc.prems(3) by (simp add: comp_def)
  qed (use r in simp)
qed simp

section \<open>Encoding the queries\<close>

lemma ping_encodes:
  "\<exists>bs. to_bencode MAX_DEPTH (DHTBase_encode Ping_encode (DHTBase_request p ''ping'' t)) = Inr bs"
proof -
  have "depth (query_value (Ping_value p) ''ping'' t) \<le> MAX_DEPTH"
    by (simp add: depth_query Ping_value_def MAX_DEPTH_def split: option.split)
  then show ?thesis using to_bencode_writes [OF writes_query [where w = Ping_encode, OF writes_Ping]] by blast
qed

lemma get_peers_encodes:
  "\<exists>bs. to_bencode MAX_DEPTH (DHTBase_encode GetPeersReq_encode (DHTBase_request \<lparr> gpr_id = i, gpr_info_hash = j \<rparr> ''get_peers'' t)) = Inr bs"
proof -
  let ?v = "VDict [(ascii ''id'', VBytes i), (ascii ''info_hash'', VBytes j)]"
  have g: "writes (GetPeersReq_encode \<lparr> gpr_id = i, gpr_info_hash = j \<rparr>) ?v"
    using writes_ids [of "ascii ''id''" "ascii ''info_hash''" i j] by (simp add: GetPeersReq_encode_def [abs_def])
  have "depth (query_value ?v ''get_peers'' t) \<le> MAX_DEPTH" by (simp add: depth_query MAX_DEPTH_def)
  then show ?thesis using to_bencode_writes [OF writes_query [where w = GetPeersReq_encode, OF g]] by blast
qed

text \<open>A node that does not answer.\<close>

lemma silent_queries:
  "dht_ping (\<lambda>_ _ _. None) own t addr = Inr None"
  "dht_get_peers (\<lambda>_ _ _. None) own t addr x = Inr ([], [])"
  using ping_encodes [of "Ping_new own" t] get_peers_encodes [of own x t]
  by (auto simp: dht_ping_def dht_get_peers_def unwrap_result_def)

section \<open>A node that names itself\<close>

text \<open>
  The state in which a search comes back after it asked a node whose answer names the node itself: nothing but
  the number of questions asked has changed.
\<close>

definition self_search :: "NodeId \<Rightarrow> NodeId \<Rightarrow> SocketAddr \<Rightarrow> nat \<Rightarrow> Search \<Rightarrow> bool" where
  "self_search ih x a n s \<longleftrightarrow> fp_info_hash s = ih \<and> fp_place s = AtPop \<and> fp_queue s = [(Some x, a)] \<and> fp_running s = [] \<and> fp_results s = []
     \<and> NodeId_distance x ih \<le> fp_min s \<and> fp_count s < fp_expect s \<and> fp_asked s = n"

lemma fill_queue_none: "fp_queue s = [] \<Longrightarrow> \<exists>u. fill_queue (\<lambda>_. None) boots s = s\<lparr> fp_used := u, fp_queue := [] \<rparr>"
proof -
  have "\<exists>n. next_bootstrap (\<lambda>_. None) ds = (n, None)" for ds by (induction ds) auto
  then obtain n where "next_bootstrap (\<lambda>_. None) (drop (fp_used s) boots) = (n, None)" by blast
  then show "fp_queue s = [] \<Longrightarrow> ?thesis" by (auto simp: fill_queue_def)
qed

lemma self_round:
  assumes inv: "dht_inv own d" and k: "k < length (dht_searches d)" and s: "self_search ih x a n (dht_searches d ! k)"
    and p: "0 < dht_permits d"
    and ping: "dht_ping net own t1 a = Inr (Some b)" "dht_r b \<noteq> None"
    and peers: "dht_get_peers net own t2 a ih = Inr ([\<lparr> host_id = x, host_addr = a \<rparr>], [])"
  shows "\<exists>d'. dht_step\<^sup>*\<^sup>* d d' \<and> k < length (dht_searches d') \<and> self_search ih x a (Suc n) (dht_searches d' ! k) \<and> 0 < dht_permits d'"
proof -
  let ?s0 = "dht_searches d ! k"
  define d1 where "d1 = upd_search k (launch_task ?s0) (d\<lparr> dht_permits := dht_permits d - 1 \<rparr>)"
  have st1: "dht_step d d1" unfolding d1_def using k s p by (intro step_launch) (simp_all add: self_search_def)
  define s1' where "s1' = launch_task ?s0"
  have s1: "dht_searches d1 ! k = s1'" "k < length (dht_searches d1)" using k by (simp_all add: d1_def s1'_def)
  have f1: "fp_place s1' = AtTop" "fp_queue s1' = []" "fp_running s1' = [((Some x, a), fp_min ?s0)]" "fp_results s1' = []"
    "fp_info_hash s1' = ih" "fp_count s1' < fp_expect s1'" "fp_asked s1' = Suc n"
    using s by (simp_all add: s1'_def launch_task_def self_search_def)
  define s2' where "s2' = turn_top (\<lambda>_. None) (dht_bootstrap d1) (dht_permits d1) s1'"
  define d2 where "d2 = upd_search k s2' d1"
  have st2: "dht_step d1 d2" unfolding d2_def s2'_def using step_top [of k d1 "\<lambda>_. None"] s1 f1 by simp
  obtain u where "fill_queue (\<lambda>_. None) (dht_bootstrap d1) s1' = s1'\<lparr> fp_used := u, fp_queue := [] \<rparr>" using fill_queue_none f1(2) by blast
  then have s2e: "s2' = s1'\<lparr> fp_used := u, fp_queue := [], fp_place := AtNext \<rparr>" using f1 by (simp add: s2'_def turn_top_def Let_def no_futures_def)
  have s2: "dht_searches d2 ! k = s2'" "k < length (dht_searches d2)" using s1 by (simp_all add: d2_def)
  have inv2: "dht_inv own d2" using inv st1 st2 dht_step_inv by blast
  then have rt: "rt_inv (dht_table d2)" "own_id (dht_table d2) = own" by (simp_all add: dht_inv_def)
  obtain q where q: "dht_r b = Some q" using ping(2) by blast
  then have "id_ok (ping_id q)" using ping_id_ok ping(1) by blast
  then obtain ok rt' where "RoutingTable_add_node 0 (Node_new 0 (ping_id q) a) (dht_table d2) = Inr (ok, rt')"
    using RoutingTable_add_node_spec [OF rt(1), of "Node_new 0 (ping_id q) a" 0] by (auto simp: Node_new_def)
  then have "check_add_node net 0 t1 (Some x) a (dht_table d2) = Inr (True, rt')" using ping(1) q rt(2) by (simp add: check_add_node_def)
  moreover have m: "min (fp_min ?s0) (NodeId_distance x ih) = NodeId_distance x ih" using s by (simp add: self_search_def min_absorb2)
  ultimately have a: "async_find_peers net 0 t1 t2 (fp_info_hash (dht_searches d2 ! k)) (fp_running (dht_searches d2 ! k) ! 0) (dht_table d2)
      = Inr (Some ([(Some x, a)], NodeId_distance x ih, 0), [], rt')"
    using peers rt(2) s2 s2e f1 s by (simp add: async_find_peers_def Let_def self_search_def)
  define r where "r = Some ([(Some x, a)], NodeId_distance x ih, 0 :: nat)"
  define d3 where "d3 = upd_search k (task_done 0 r s2') (d2\<lparr> dht_table := rt', dht_permits := dht_permits d2 + 1 \<rparr>)"
  have st3: "dht_step d2 d3" using step_task [OF s2(2) _ a] s2 s2e f1 by (simp add: d3_def r_def)
  define s3' where "s3' = task_done 0 r s2'"
  have s3: "dht_searches d3 ! k = s3'" "k < length (dht_searches d3)" using s2 by (simp_all add: d3_def s3'_def)
  have f3: "fp_results s3' = [r]" "fp_place s3' = AtNext" "fp_running s3' = []" "fp_queue s3' = []" "fp_info_hash s3' = ih"
    "fp_count s3' < fp_expect s3'" "fp_asked s3' = Suc n"
    using s2e f1 by (simp_all add: s3'_def task_done_def remove_at_def)
  define d4 where "d4 = upd_search k (take_result 0 s3') d3"
  have st4: "dht_step d3 d4" unfolding d4_def using step_next [of k d3 0] s3 f3 by simp
  have "self_search ih x a (Suc n) (dht_searches d4 ! k)"
    using s3 f3 by (simp add: d4_def self_search_def take_result_def r_def Let_def remove_at_def)
  moreover have "dht_step\<^sup>*\<^sup>* d d4" using st1 st2 st3 st4 by (meson converse_rtranclp_into_rtranclp rtranclp.rtrancl_refl)
  moreover have "0 < dht_permits d4" by (simp add: d4_def d3_def)
  ultimately show ?thesis using s3(2) by (auto simp: d4_def)
qed

end
