(* ===== verification/Dht_Props.thy ===== *)
theory Dht_Props
  imports Dht
begin

text \<open>
  Properties of the DHT node: the table and the limits hold whatever other nodes send, the refresh ends, the stored
  table is restored (\<^verbatim>\<open>mapper/dht.rs\<close>, \<^verbatim>\<open>bootstrap.rs\<close>), and a search that a node keeps busy for ever.
\<close>

section \<open>The stored table\<close>

text \<open>
  The rows of the table \<^verbatim>\<open>dht\<close> in the order of their numbers; what \<^verbatim>\<open>bincode\<close> writes into a column is an argument, reading
  panics on bytes it did not write.
\<close>

record dht_codec =
  enc_id :: "NodeId \<Rightarrow> bytes"
  dec_id :: "bytes \<Rightarrow> NodeId result"
  enc_table :: "RoutingTable \<Rightarrow> bytes"
  dec_table :: "bytes \<Rightarrow> RoutingTable result"
  enc_boot :: "string list \<Rightarrow> bytes"
  dec_boot :: "bytes \<Rightarrow> string list result"

record DhtRow =
  dr_id :: nat
  dr_own :: bytes
  dr_table :: bytes
  dr_boot :: bytes

record DHTEntity =
  de_id :: "nat option"
  de_own :: "NodeId option"
  de_table :: "RoutingTable option"
  de_boot :: "string list option"

definition DEFAULT_BOOTSTRAP_NODES :: "string list" where
  "DEFAULT_BOOTSTRAP_NODES = [''dht.libtorrent.org:25401'', ''dht.transmissionbt.com:6881'', ''router.bittorrent.com:6881'',
     ''router.utorrent.com:6881'', ''dht.aelitis.com:6881'']"

text \<open>\<open>rid\<close> is the random identifier.\<close>

definition DHTEntity_init :: "nat \<Rightarrow> NodeId \<Rightarrow> DHTEntity" where
  "DHTEntity_init now rid = \<lparr> de_id = None, de_own = Some rid, de_table = Some (RoutingTable_new now rid), de_boot = Some DEFAULT_BOOTSTRAP_NODES \<rparr>"

definition load_dht_entity :: "dht_codec \<Rightarrow> DhtRow list \<Rightarrow> DHTEntity option result" where
  "load_dht_entity c rows =
     (case rows of
        [] \<Rightarrow> Inr None
      | _ \<Rightarrow>
          (let r = last rows
           in and_then (dec_id c (dr_own r)) (\<lambda>own.
              and_then (dec_table c (dr_table r)) (\<lambda>rt.
              and_then (dec_boot c (dr_boot r)) (\<lambda>boots.
              Inr (Some \<lparr> de_id = Some (dr_id r), de_own = Some own, de_table = Some rt, de_boot = Some boots \<rparr>))))))"

definition store_dht_entity :: "dht_codec \<Rightarrow> DHTEntity \<Rightarrow> DhtRow list \<Rightarrow> DhtRow list result" where
  "store_dht_entity c e rows =
     (case (de_own e, de_table e, de_boot e) of
        (Some own, Some rt, Some boots) \<Rightarrow>
          Inr (rows @ [\<lparr> dr_id = (if rows = [] then 1 else Suc (dr_id (last rows))), dr_own = enc_id c own,
            dr_table = enc_table c rt, dr_boot = enc_boot c boots \<rparr>])
      | _ \<Rightarrow> Inl (Panic ''called Option::unwrap() on a None value''))"

definition update_routing_table :: "dht_codec \<Rightarrow> RoutingTable \<Rightarrow> DhtRow list \<Rightarrow> nat \<times> DhtRow list" where
  "update_routing_table c rt rows =
     (if rows = [] then (0, rows) else (1, butlast rows @ [(last rows)\<lparr> dr_table := enc_table c rt \<rparr>]))"

definition load_routing_table :: "dht_codec \<Rightarrow> nat \<Rightarrow> NodeId \<Rightarrow> DhtRow list \<Rightarrow> ((RoutingTable \<times> string list) \<times> DhtRow list) result" where
  "load_routing_table c now rid rows =
     and_then (load_dht_entity c rows) (\<lambda>loaded.
       let e = (case loaded of Some e \<Rightarrow> e | None \<Rightarrow> DHTEntity_init now rid);
           own = (case de_own e of Some x \<Rightarrow> x | None \<Rightarrow> rid);
           rt = (case de_table e of Some t \<Rightarrow> t | None \<Rightarrow> RoutingTable_new now own);
           boots = (case de_boot e of Some bs \<Rightarrow> bs | None \<Rightarrow> DEFAULT_BOOTSTRAP_NODES)
       in if loaded = None then
            and_then (store_dht_entity c \<lparr> de_id = None, de_own = Some own, de_table = Some rt, de_boot = Some boots \<rparr> rows) (\<lambda>rows'.
              Inr ((rt, boots), rows'))
          else Inr ((rt, boots), rows))"

section \<open>Answers of other nodes, for examples\<close>

definition nodes_value :: "NodeId \<Rightarrow> bytes \<Rightarrow> Value" where
  "nodes_value i s = VDict [(ascii ''id'', VBytes i), (ascii ''nodes'', VBytes s)]"

lemma decodes_GetPeersResp:
  assumes "length i = 20" and "VecHost_to_object s = Inr hs" and "length s < 2 ^ 64"
  shows "decodes GetPeersResp_decode (nodes_value i s)
    \<lparr> gp_id = i, gp_nodes = Some hs, gp_values = None, gp_token = None, gp_p = None \<rparr>"
  unfolding nodes_value_def
proof (rule decodes_dict [where f = GetPeersResp_entry
      and ?acc0.0 = "(None, \<lparr> gp_id = [], gp_nodes = None, gp_values = None, gp_token = None, gp_p = None \<rparr>)"
      and h = "\<lambda>(j, g). and_then (ok_or_missing ''id'' j) (\<lambda>j. Inr (g\<lparr> gp_id := j \<rparr>))"
      and g = "\<lambda>k v (j, g). if k = ascii ''id'' then (Some i, g) else (j, g\<lparr> gp_nodes := Some hs \<rparr>)"])
  show "GetPeersResp_decode (ODict u) d = and_then (dict_fold (fuel d) GetPeersResp_entry
        (None, \<lparr> gp_id = [], gp_nodes = None, gp_values = None, gp_token = None, gp_p = None \<rparr>) d)
      (\<lambda>(acc, d'). and_then (case acc of (j, g) \<Rightarrow> and_then (ok_or_missing ''id'' j) (\<lambda>j. Inr (g\<lparr> gp_id := j \<rparr>))) (\<lambda>x. Inr (x, d')))" for u d
    by (auto simp: GetPeersResp_decode_def try_into_dictionary_def and_then_def split: sum.split)
next
  fix k v and acc :: GetPeersAcc
  obtain j g where acc: "acc = (j, g)" by fastforce
  assume "(k, v) \<in> set [(ascii ''id'', VBytes i), (ascii ''nodes'', VBytes s)]"
  then consider "k = ascii ''id''" "v = VBytes i" | "k = ascii ''nodes''" "v = VBytes s" by (auto simp del: ascii_simps)
  then show "decodes (\<lambda>ob. GetPeersResp_entry k ob acc) v
      (case acc of (j, g) \<Rightarrow> if k = ascii ''id'' then (Some i, g) else (j, g\<lparr> gp_nodes := Some hs \<rparr>))"
  proof cases
    case 1
    then show ?thesis
      using decodes_set_field [OF decodes_NodeId [OF assms(1)], of "\<lambda>x. (Some x, g)"]
      by (simp add: acc GetPeersResp_entry_def [abs_def])
  next
    case 2
    show ?thesis
      using 2 assms(2,3)
      by (auto simp: acc GetPeersResp_entry_def is_bytes_def set_field_def try_into_bytes_def obj_of_def atom_def intro!: decodes_atom)
  qed
qed (simp_all add: ok_or_missing_def)

lemma VecHost_one:
  assumes "length x = 20" and "addr4_ok a"
  shows "VecHost_to_object (x @ addr_bytes a) = Inr [\<lparr> host_id = x, host_addr = a \<rparr>]"
proof -
  have l: "length (addr_bytes a) = 6" using a4.length_enc assms(2) by blast
  then have "chunks 26 (x @ addr_bytes a) = [x @ addr_bytes a]"
    using chunks_append [of "x @ addr_bytes a" 26 "[]"] assms(1) by simp
  moreover have "Host_to_object (x @ addr_bytes a) = Inr \<lparr> host_id = x, host_addr = a \<rparr>"
    using assms l SocketAddrExt_roundtrip [of a] by (simp add: Host_to_object_def)
  ultimately show ?thesis using assms(1) l by (simp add: VecHost_to_object_def)
qed

text \<open>A node that answers every ping, and every question for peers with itself.\<close>

definition self_net :: "NodeId \<Rightarrow> SocketAddr \<Rightarrow> dht_net" where
  "self_net x a t req addr = Some (value_bytes (if t = 1
     then response_value (Ping_value (Ping_new x)) (VBytes (to_be_bytes 2 t))
     else response_value (nodes_value x (x @ addr_bytes a)) (VBytes (to_be_bytes 2 t))))"

lemma self_net_ping:
  assumes "length x = 20"
  shows "dht_ping (self_net x a) own 1 addr = Inr (Some (DHTBase_response (Ping_new x) (VBytes (to_be_bytes 2 1))))"
proof -
  let ?v = "response_value (Ping_value (Ping_new x)) (VBytes (to_be_bytes 2 1))"
  have "from_bencode False 2048 (DHTBase_decode Ping_decode) (value_bytes ?v @ []) = Inr (DHTBase_response (Ping_new x) (VBytes (to_be_bytes 2 1)))"
    using decodes_Ping [of "Ping_new x"] assms
    by (intro from_bencode_decodes decodes_response) (simp_all add: Ping_new_def depth_response Ping_value_def)
  then show ?thesis
    using ping_encodes [of "Ping_new own" 1] by (auto simp: dht_ping_def self_net_def unwrap_result_def)
qed

lemma self_net_peers:
  assumes "length x = 20" and "addr4_ok a"
  shows "dht_get_peers (self_net x a) own 2 addr ih = Inr ([\<lparr> host_id = x, host_addr = a \<rparr>], [])"
proof -
  let ?v = "response_value (nodes_value x (x @ addr_bytes a)) (VBytes (to_be_bytes 2 2))"
  have "length (x @ addr_bytes a) < 2 ^ 64" using assms(1) a4.length_enc [OF assms(2)] by simp
  then have "from_bencode False 2048 (DHTBase_decode GetPeersResp_decode) (value_bytes ?v @ [])
      = Inr (DHTBase_response \<lparr> gp_id = x, gp_nodes = Some [\<lparr> host_id = x, host_addr = a \<rparr>], gp_values = None, gp_token = None, gp_p = None \<rparr> (VBytes (to_be_bytes 2 2)))"
    using decodes_GetPeersResp [OF assms(1) VecHost_one [OF assms]]
    by (intro from_bencode_decodes decodes_response) (simp_all add: depth_response nodes_value_def)
  then show ?thesis
    using get_peers_encodes [of own ih 2] by (auto simp: dht_get_peers_def self_net_def unwrap_result_def DHTBase_response_def)
qed

text \<open>A node with one neighbour in its table, and a search that has just begun.\<close>

definition demo_own :: NodeId where "demo_own = replicate 20 255"
definition demo_peer :: NodeId where "demo_peer = replicate 20 1"
definition demo_addr :: SocketAddr where "demo_addr = SocketAddrV4 [10, 0, 0, 9] 6881"

definition demo_table :: RoutingTable where
  "demo_table = \<lparr> own_id = demo_own, buckets = [\<lparr> prefix_id = replicate 20 0, prefix_len = 0,
     nodes = [Node_new 5 demo_peer demo_addr], lastchange = 5, can_split = True \<rparr>] \<rparr>"

lemma demo_table_reach: "rt_reach demo_own demo_table"
proof -
  have "RoutingTable_add_node 5 (Node_new 5 demo_peer demo_addr) (RoutingTable_new 0 demo_own) = Inr (True, demo_table)"
    by code_simp
  then show ?thesis
    using reach_add [OF reach_new [of demo_own 0], of "Node_new 5 demo_peer demo_addr" 5 True demo_table]
    by (simp add: Node_new_def id_ok_def demo_peer_def)
qed

definition demo_dht :: Dht where "demo_dht = timed_find_peers 0 (replicate 20 0) (DHT_init demo_table [])"

definition demo_dht2 :: Dht where
  "demo_dht2 = upd_search 0 (turn_top (\<lambda>_. None) [] 10 (dht_searches demo_dht ! 0)) demo_dht"

lemma demo_dht_search:
  "dht_searches demo_dht = [find_peers (replicate 20 0) DHT_EXPECT_PEERS demo_table]"
  "fp_queue (find_peers (replicate 20 0) DHT_EXPECT_PEERS demo_table) = [(Some demo_peer, demo_addr)]"
  "dht_permits demo_dht = 10" "dht_bootstrap demo_dht = []"
  by (simp_all add: demo_dht_def timed_find_peers_def DHT_init_def DHT_WAIT_PEER_LIMIT_def GET_PEERS_CONCURRENCY_def find_peers_def
      find_closest_nodes_def EXPECT_CLOSEST_NODE_NUM_def demo_table_def heap_step_def Node_new_def)

lemma demo_dht_reach: "dht_reach demo_own demo_dht" "dht_reach demo_own demo_dht2"
proof -
  show r: "dht_reach demo_own demo_dht"
    unfolding demo_dht_def by (rule dht_next [OF dht_start [OF demo_table_reach] step_start]) simp
  have "dht_step demo_dht demo_dht2"
    using step_top [of 0 demo_dht "\<lambda>_. None"] by (simp add: demo_dht2_def demo_dht_search) (simp add: find_peers_def)
  then show "dht_reach demo_own demo_dht2" using r dht_next by blast
qed

section \<open>Properties\<close>

text \<open>
  C5. Whatever datagrams other nodes send and however the searches, their tasks and the refresh interleave, the
  routing table of the node stays well formed with its own identifier, at most ten questions for peers are under way,
  a permit is free for every task that is not, and a task is told that its search is finished only when the
  search has found the expected number of peers.
\<close>

theorem dht_node_invariant:
  assumes "dht_reach own d" and "length own = 20"
  shows "rt_inv (dht_table d) \<and> own_id (dht_table d) = own
    \<and> dht_permits d + sum_list (map (\<lambda>s. length (fp_running s)) (dht_searches d)) = GET_PEERS_CONCURRENCY
    \<and> (\<forall>s \<in> set (dht_searches d). fp_notified s \<longrightarrow> fp_place s = Ended \<and> fp_expect s \<le> fp_count s)"
  using dht_reach_inv [OF assms(1)] assms(2) by (simp add: dht_inv_def running_tasks_def search_ok_def id_ok_def)

theorem dht_node_invariant_witness:
  "rt_inv (dht_table demo_dht2) \<and> own_id (dht_table demo_dht2) = replicate 20 255
    \<and> dht_permits demo_dht2 + sum_list (map (\<lambda>s. length (fp_running s)) (dht_searches demo_dht2)) = GET_PEERS_CONCURRENCY
    \<and> \<not> list_ex (\<lambda>s. fp_notified s \<and> (fp_place s \<noteq> Ended \<or> fp_count s < fp_expect s)) (dht_searches demo_dht2)"
  using dht_node_invariant [OF demo_dht_reach(2)] by (auto simp: demo_own_def list_ex_iff)

text \<open>
  C36. The refresh of the routing table ends: as long as its questions take less than the refresh interval altogether
  it makes at most one turn for every bucket that was stale at the start, and one more.
\<close>

theorem refresh_terminates:
  assumes "rt_reach own rt" and "length own = 20" and "\<forall>k. refresh_env_ok start (env k)"
  shows "\<exists>rt'. refresh_loop (Suc (length (buckets rt))) env rt = Inr (True, rt') \<and> rt_inv rt' \<and> own_id rt' = own"
proof -
  have "stale_buckets start rt < Suc (length (buckets rt))" by (simp add: stale_buckets_def le_imp_less_Suc)
  then show ?thesis
    using refresh_loop_ends [OF _ assms(3), of rt "Suc (length (buckets rt))"] rt_reach_inv [OF assms(1)] assms(2)
    by (simp add: id_ok_def del: refresh_loop.simps)
qed

theorem refresh_terminates_witness:
  "\<exists>rt'. refresh_loop (Suc (length (buckets demo_table)))
      (\<lambda>k. \<lparr> rf_now = 2000, rf_clock = (\<lambda>j. 2000), rf_fill = (\<lambda>n. replicate n 3), rf_rng = (\<lambda>u. 0), rf_net = (\<lambda>_ _ _. None), rf_tran = k \<rparr>) demo_table
    = Inr (True, rt') \<and> rt_inv rt' \<and> own_id rt' = replicate 20 255"
  using refresh_terminates [OF demo_table_reach, of 2000
      "\<lambda>k. \<lparr> rf_now = 2000, rf_clock = (\<lambda>j. 2000), rf_fill = (\<lambda>n. replicate n 3), rf_rng = (\<lambda>u. 0), rf_net = (\<lambda>_ _ _. None), rf_tran = k \<rparr>"]
  by (simp add: refresh_env_ok_def silent_queries demo_own_def del: refresh_loop.simps)

text \<open>
  C37. A search need not end: a node that answers every question for peers with its own contact is asked again
  and again. The nodes that were asked are not remembered, and the contact is never farther than the least
  distance so far, so after any number of questions the search stands where it stood.
\<close>

theorem search_asks_forever:
  assumes "dht_reach own d" and "length own = 20" and "k < length (dht_searches d)" and "0 < dht_permits d"
    and "fp_place (dht_searches d ! k) = AtPop" and "fp_queue (dht_searches d ! k) = [(Some x, a)]"
    and "fp_running (dht_searches d ! k) = []" and "fp_results (dht_searches d ! k) = []"
    and "NodeId_distance x (fp_info_hash (dht_searches d ! k)) \<le> fp_min (dht_searches d ! k)"
    and "fp_count (dht_searches d ! k) < fp_expect (dht_searches d ! k)"
    and "dht_ping net own t1 a = Inr (Some b)" and "dht_r b \<noteq> None"
    and "dht_get_peers net own t2 a (fp_info_hash (dht_searches d ! k)) = Inr ([\<lparr> host_id = x, host_addr = a \<rparr>], [])"
  shows "\<exists>d'. dht_step\<^sup>*\<^sup>* d d' \<and> fp_asked (dht_searches d' ! k) = fp_asked (dht_searches d ! k) + n \<and> fp_place (dht_searches d' ! k) \<noteq> Ended"
proof -
  let ?ih = "fp_info_hash (dht_searches d ! k)" and ?n = "fp_asked (dht_searches d ! k)"
  have "\<exists>d'. dht_step\<^sup>*\<^sup>* d d' \<and> k < length (dht_searches d') \<and> self_search ?ih x a (?n + n) (dht_searches d' ! k) \<and> 0 < dht_permits d' \<and> dht_inv own d'"
  proof (induction n)
    case 0
    then show ?case using assms dht_reach_inv by (auto simp: self_search_def id_ok_def intro!: exI [of _ d])
  next
    case (Suc n)
    then obtain d' where d': "dht_step\<^sup>*\<^sup>* d d'" "k < length (dht_searches d')" "self_search ?ih x a (?n + n) (dht_searches d' ! k)"
      "0 < dht_permits d'" "dht_inv own d'" by blast
    from self_round [OF d'(5,2,3,4) assms(11-13)] obtain d'' where
      d'': "dht_step\<^sup>*\<^sup>* d' d''" "k < length (dht_searches d'')" "self_search ?ih x a (Suc (?n + n)) (dht_searches d'' ! k)" "0 < dht_permits d''"
      by blast
    have "dht_inv own d''" using d''(1) d'(5) by (induction rule: rtranclp_induct) (auto intro: dht_step_inv)
    then show ?case using d'(1) d'' by (auto intro: rtranclp_trans)
  qed
  then show ?thesis by (auto simp: self_search_def)
qed

theorem search_asks_forever_witness:
  "\<exists>d'. dht_step\<^sup>*\<^sup>* demo_dht2 d' \<and> fp_asked (dht_searches d' ! 0) = 0 + 1000 \<and> fp_place (dht_searches d' ! 0) \<noteq> Ended"
proof -
  let ?s = "dht_searches demo_dht2 ! 0"
  have s: "?s = (find_peers (replicate 20 0) DHT_EXPECT_PEERS demo_table)\<lparr> fp_place := AtPop \<rparr>"
    by (simp add: demo_dht2_def demo_dht_search turn_top_def fill_queue_def)
  have f: "fp_queue ?s = [(Some demo_peer, demo_addr)]" "fp_info_hash ?s = replicate 20 0" "fp_place ?s = AtPop"
    "fp_running ?s = []" "fp_results ?s = []" "fp_count ?s < fp_expect ?s" "fp_asked ?s = 0"
    using demo_dht_search(2) by (simp_all add: s find_peers_def DHT_EXPECT_PEERS_def)
  have d: "NodeId_distance demo_peer (fp_info_hash ?s) \<le> fp_min ?s"
    by (simp add: s find_peers_def demo_table_def) code_simp
  have "length demo_own = 20" "0 < length (dht_searches demo_dht2)" "0 < dht_permits demo_dht2"
    by (simp_all add: demo_own_def demo_dht2_def demo_dht_search)
  note h = demo_dht_reach(2) this f(3,1,4,5) d f(6)
  have "length demo_peer = 20" "addr4_ok demo_addr" by (simp_all add: demo_peer_def demo_addr_def)
  note p = self_net_ping [OF this(1), of demo_addr demo_own demo_addr] and g = self_net_peers [OF this, of demo_own demo_addr "fp_info_hash ?s"]
  have "dht_r (DHTBase_response (Ping_new demo_peer) (VBytes (to_be_bytes 2 1))) \<noteq> None" by (simp add: DHTBase_response_def)
  from search_asks_forever [OF h p this g, of 1000] show ?thesis by (simp only: f(7))
qed

text \<open>
  C38. The routing table survives a restart: after the refresh has written a table, the next start loads
  exactly this table and the bootstrap nodes that were stored with it; the first start creates an empty table
  and stores it.
\<close>

theorem routing_table_survives_restart:
  assumes "dec_id c (enc_id c rid) = Inr rid" and "dec_table c (enc_table c (RoutingTable_new now rid)) = Inr (RoutingTable_new now rid)"
    and "dec_table c (enc_table c rt) = Inr rt" and "dec_boot c (enc_boot c DEFAULT_BOOTSTRAP_NODES) = Inr DEFAULT_BOOTSTRAP_NODES"
  shows "\<exists>rows. load_routing_table c now rid [] = Inr ((RoutingTable_new now rid, DEFAULT_BOOTSTRAP_NODES), rows)
    \<and> load_routing_table c now' rid' rows = Inr ((RoutingTable_new now rid, DEFAULT_BOOTSTRAP_NODES), rows)
    \<and> (\<exists>rows'. update_routing_table c rt rows = (1, rows') \<and> load_routing_table c now' rid' rows' = Inr ((rt, DEFAULT_BOOTSTRAP_NODES), rows'))"
  using assms
  by (auto simp: load_routing_table_def load_dht_entity_def store_dht_entity_def update_routing_table_def DHTEntity_init_def Let_def)

definition demo_dht_codec :: dht_codec where
  "demo_dht_codec = \<lparr> enc_id = id, dec_id = Inr, enc_table = (\<lambda>rt. if rt = demo_table then [1] else [0]),
     dec_table = (\<lambda>bs. if bs = [1] then Inr demo_table else Inr (RoutingTable_new 0 demo_own)),
     enc_boot = (\<lambda>_. []), dec_boot = (\<lambda>_. Inr DEFAULT_BOOTSTRAP_NODES) \<rparr>"

theorem routing_table_survives_restart_witness:
  "\<exists>rows. load_routing_table demo_dht_codec 0 demo_own [] = Inr ((RoutingTable_new 0 demo_own, DEFAULT_BOOTSTRAP_NODES), rows)
    \<and> load_routing_table demo_dht_codec 9 demo_peer rows = Inr ((RoutingTable_new 0 demo_own, DEFAULT_BOOTSTRAP_NODES), rows)
    \<and> (\<exists>rows'. update_routing_table demo_dht_codec demo_table rows = (1, rows')
        \<and> load_routing_table demo_dht_codec 9 demo_peer rows' = Inr ((demo_table, DEFAULT_BOOTSTRAP_NODES), rows'))"
  by (rule routing_table_survives_restart)
    (simp_all add: demo_dht_codec_def RoutingTable_new_def demo_table_def Bucket_new_def)

end
