(* ===== verification/Magnet.thy ===== *)
theory Magnet
  imports Torrent_Parse Servant Peer_Launch
begin

text \<open>
  The magnet task (\<^verbatim>\<open>core/task/magnet.rs\<close>): reading a magnet link, finding peers, downloading the metadata of the torrent
  from one of them and reporting the torrent to the subscribers. It uses the servant of \<open>Servant\<close> with callbacks of
  its own and the pool of \<open>Peer_Launch\<close>. Splitting a URL into its query pairs and decoding hexadecimal digits are
  done by libraries and are arguments.
\<close>

section \<open>Magnet links\<close>

record Magnet =
  mg_info_hash :: bytes
  mg_trackers :: "string list"
  mg_name :: "string option"
  mg_file_size :: "nat option"

record link_env =
  le_query_pairs :: "string \<Rightarrow> (string \<times> string) list result"
  le_hex_decode :: "string \<Rightarrow> bytes result"

definition SHA1_ENCODEN_LEN :: nat where "SHA1_ENCODEN_LEN = 40"

definition is_ascii_hexdigit :: "char \<Rightarrow> bool" where
  "is_ascii_hexdigit c \<longleftrightarrow> c \<in> set ''0123456789abcdefABCDEF''"

definition check_info_hash :: "string \<Rightarrow> bool" where
  "check_info_hash s \<longleftrightarrow> length s = SHA1_ENCODEN_LEN \<and> list_all is_ascii_hexdigit s"

text \<open>\<^verbatim>\<open>split(":").last()\<close>, which always exists.\<close>

definition last_segment :: "string \<Rightarrow> string" where
  "last_segment s = rev (takeWhile (\<lambda>c. c \<noteq> CHR '':'') (rev s))"

text \<open>\<^verbatim>\<open>str::parse::<u64>\<close>: digits, with an optional sign in front.\<close>

definition parse_u64 :: "string \<Rightarrow> nat result" where
  "parse_u64 s =
     parse_uint U64_MAX (ascii (case s of c # r \<Rightarrow> if c = CHR ''+'' \<and> r \<noteq> [] then r else s | [] \<Rightarrow> []))"

record LinkAcc =
  la_info_hash :: "bytes option"
  la_trackers :: "string list"
  la_name :: "string option"
  la_file_size :: "nat option"

definition LinkAcc_new :: LinkAcc where
  "LinkAcc_new = \<lparr> la_info_hash = None, la_trackers = [], la_name = None, la_file_size = None \<rparr>"

definition link_pair :: "link_env \<Rightarrow> string \<times> string \<Rightarrow> LinkAcc \<Rightarrow> LinkAcc result" where
  "link_pair e kv acc =
     (case kv of (k, v) \<Rightarrow>
       if k = ''xt'' then
         let h = last_segment v in
         if \<not> check_info_hash h then Inl (Err ''wrong info_hash'')
         else
           and_then (le_hex_decode e h) (\<lambda>bs.
             if length bs = 20 then Inr (acc\<lparr> la_info_hash := Some bs \<rparr>) else Inl (Err ''info_hash is not 20 bytes long''))
       else if k = ''tr'' then Inr (acc\<lparr> la_trackers := la_trackers acc @ [v] \<rparr>)
       else if k = ''dn'' then Inr (acc\<lparr> la_name := Some v \<rparr>)
       else if k = ''xl'' then and_then (parse_u64 v) (\<lambda>n. Inr (acc\<lparr> la_file_size := Some n \<rparr>))
       else Inr acc)"

fun link_pairs :: "link_env \<Rightarrow> (string \<times> string) list \<Rightarrow> LinkAcc \<Rightarrow> LinkAcc result" where
  "link_pairs e [] acc = Inr acc"
| "link_pairs e (kv # kvs) acc = and_then (link_pair e kv acc) (link_pairs e kvs)"

definition Magnet_from_url :: "link_env \<Rightarrow> string \<Rightarrow> Magnet result" where
  "Magnet_from_url e url =
     and_then (le_query_pairs e url) (\<lambda>kvs.
     and_then (link_pairs e kvs LinkAcc_new) (\<lambda>acc.
       case la_info_hash acc of
         None \<Rightarrow> Inl (Err ''missing info hash'')
       | Some h \<Rightarrow> Inr \<lparr> mg_info_hash = h, mg_trackers = la_trackers acc, mg_name = la_name acc, mg_file_size = la_file_size acc \<rparr>))"

section \<open>State\<close>

text \<open>A subscriber: whether its channel is closed, the room left in it, and what it got.\<close>

record Subscriber =
  sub_closed :: bool
  sub_room :: nat
  sub_got :: "Torrent list"

record MagnetTask =
  mt_magnet :: Magnet
  mt_servant :: DefaultServant
  mt_pool :: "unit Pool"
  mt_finished :: bool
  mt_task_callback :: bool
  mt_finish_calls :: nat
  mt_subscribers :: "Subscriber list"
  mt_next_id :: nat
  mt_cancelled :: bool

type_synonym 'a mt = "(MagnetTask, 'a) eff"

definition ParseMagnet_new :: "Magnet \<Rightarrow> (nat \<Rightarrow> Peer) \<Rightarrow> Store \<Rightarrow> nat \<Rightarrow> MagnetTask" where
  "ParseMagnet_new m heap st i =
     \<lparr> mt_magnet = m, mt_servant = (DefaultServant_new None [] Map.empty [] False heap st)\<lparr> sv_callback := Some True \<rparr>,
       mt_pool = Pool_new, mt_finished = False, mt_task_callback = False, mt_finish_calls = 0, mt_subscribers = [],
       mt_next_id = i, mt_cancelled = False \<rparr>"

definition magnet_pool :: "(unit Pool, 'a) eff \<Rightarrow> 'a mt" where
  "magnet_pool m s = (case m (mt_pool s) of None \<Rightarrow> None | Some (r, p) \<Rightarrow> Some (r, s\<lparr> mt_pool := p \<rparr>))"

definition magnet_servant_call :: "'a sv \<Rightarrow> ('a result \<times> Event list) mt" where
  "magnet_servant_call m s =
     (case m ((mt_servant s)\<lparr> sv_events := [] \<rparr>) of
        None \<Rightarrow> None
      | Some (r, v) \<Rightarrow> Some (Inr (r, sv_events v), s\<lparr> mt_servant := v\<lparr> sv_events := [] \<rparr> \<rparr>))"

section \<open>Task control\<close>

definition magnet_set_callback :: "unit mt" where
  "magnet_set_callback =
     eff_bind (gets mt_task_callback) (\<lambda>b.
       if b then fail (Panic ''task callback has been set'') else modify (\<lambda>s. s\<lparr> mt_task_callback := True \<rparr>))"

definition control_finish :: "unit mt" where
  "control_finish =
     eff_bind (gets mt_task_callback) (\<lambda>b.
       if b then modify (\<lambda>s. s\<lparr> mt_finish_calls := mt_finish_calls s + 1 \<rparr>) else fail (Panic ''unwrap of None''))"

definition add_subscribe :: "Subscriber \<Rightarrow> unit mt" where
  "add_subscribe x = modify (\<lambda>s. s\<lparr> mt_subscribers := mt_subscribers s @ [x] \<rparr>)"

text \<open>Sending to a subscriber: nothing happens on a closed channel, and a full one makes the sender wait.\<close>

definition sub_send :: "Torrent \<Rightarrow> Subscriber \<Rightarrow> Subscriber option" where
  "sub_send t x =
     (if sub_closed x then Some x
      else if sub_room x = 0 then None
      else Some (x\<lparr> sub_room := sub_room x - 1, sub_got := sub_got x @ [t] \<rparr>))"

function notify_loop :: "Torrent \<Rightarrow> nat \<Rightarrow> Subscriber list \<Rightarrow> Subscriber list option" where
  "notify_loop t idx subs =
     (if idx < length subs then
        (case sub_send t (subs ! idx) of
           None \<Rightarrow> None
         | Some x \<Rightarrow>
             if sub_closed x then notify_loop t idx (remove_at idx (subs[idx := x]))
             else notify_loop t (Suc idx) (subs[idx := x]))
      else Some subs)"
  by pat_completeness auto
termination
  by (relation "measure (\<lambda>(t, idx, subs). length subs - idx)") (auto simp: length_remove_at)

declare notify_loop.simps [simp del]

definition notify_event :: "Torrent \<Rightarrow> unit mt" where
  "notify_event t s =
     (case notify_loop t 0 (mt_subscribers s) of None \<Rightarrow> None | Some subs \<Rightarrow> Some (Inr (), s\<lparr> mt_subscribers := subs \<rparr>))"

section \<open>Peers\<close>

definition magnet_finish :: "unit mt" where
  "magnet_finish = eff_bind (modify (\<lambda>s. s\<lparr> mt_finished := True \<rparr>)) (\<lambda>_. control_finish)"

definition magnet_start_peer :: "PeerInfo \<Rightarrow> unit mt" where
  "magnet_start_peer pi = eff_bind (gets mt_finished) (\<lambda>fin. if fin then ret () else magnet_pool (launch_send pi))"

definition magnet_start_wait_peer :: "unit mt" where
  "magnet_start_wait_peer =
     eff_bind (magnet_pool take_from_wait_queue) (\<lambda>r. case r of None \<Rightarrow> ret () | Some pi \<Rightarrow> magnet_start_peer pi)"

definition magnet_next_id :: "nat mt" where
  "magnet_next_id =
     eff_bind (gets mt_next_id) (\<lambda>i.
     eff_bind (modify (\<lambda>s. s\<lparr> mt_next_id := wrap64 (i + 1) \<rparr>)) (\<lambda>_.
     if i = 0 then fail (Panic ''id counter overflow'') else ret i))"

definition magnet_receive_host :: "SocketAddr \<Rightarrow> HostSource \<Rightarrow> unit mt" where
  "magnet_receive_host a src =
     eff_bind magnet_next_id (\<lambda>i. magnet_start_peer \<lparr> pi_id = i, pi_addr = a, pi_source = src, pi_waited = False \<rparr>)"

definition magnet_receive_hosts :: "SocketAddr list \<Rightarrow> HostSource \<Rightarrow> unit mt" where
  "magnet_receive_hosts hosts src = eff_each (\<lambda>a. magnet_receive_host a src) hosts"

definition magnet_on_peer_exit :: "nat \<Rightarrow> PeerExitReason \<Rightarrow> unit mt" where
  "magnet_on_peer_exit pid reason =
     eff_bind (gets mt_cancelled) (\<lambda>c.
       if c then ret ()
       else
         eff_bind (magnet_pool (remove_peer pid)) (\<lambda>r. case r of
           None \<Rightarrow> ret ()
         | Some pi \<Rightarrow>
             if reason = ExitException DeadlyError then ret ()
             else eff_bind (magnet_pool (modify (release_host (pi_addr pi)))) (\<lambda>_. magnet_start_wait_peer)))"

section \<open>The callbacks of a magnet task\<close>

definition parse_torrent_from_metadata :: "Magnet \<Rightarrow> Peer \<Rightarrow> Torrent result" where
  "parse_torrent_from_metadata m p =
     (case pe_metadata p of
        None \<Rightarrow> Inl (Err ''metadata not initialised'')
      | Some md \<Rightarrow> and_then (Info_from_bencode md) (\<lambda>i. Inr (Torrent_new i (mg_info_hash m) (mg_trackers m))))"

text \<open>
  What the servant calls. The torrent of \<^verbatim>\<open>on_metadata_complete\<close> is an event that the task handles when the
  operation of the servant ends; the calls the task does not define do nothing.
\<close>

definition magnet_callbacks :: "Magnet \<Rightarrow> callbacks" where
  "magnet_callbacks m pid c =
     (case c of
        OnHandshakeSuccess \<Rightarrow> with_peer_result pid request_extend_handsake
      | OnExtendHandshakeSuccess \<Rightarrow> request_metadata_piece pid
      | OnMetadataPieceWrite \<Rightarrow> request_metadata_piece pid
      | OnMetadataComplete \<Rightarrow>
          eff_bind (gets (sv_peer pid)) (\<lambda>p.
          eff_bind (lift_result (parse_torrent_from_metadata m p)) (\<lambda>t. notify (ParseSuccess t)))
      | _ \<Rightarrow> ret ())"

fun magnet_on_event :: "Event \<Rightarrow> unit mt" where
  "magnet_on_event (ParseSuccess t) = eff_bind (notify_event t) (\<lambda>_. magnet_finish)"
| "magnet_on_event (OnPeerExit pid reason) = magnet_on_peer_exit pid reason"
| "magnet_on_event _ = ret ()"

definition magnet_servant_op :: "'a sv \<Rightarrow> 'a mt" where
  "magnet_servant_op m =
     eff_bind (magnet_servant_call m) (\<lambda>(r, es).
     eff_bind (eff_each magnet_on_event es) (\<lambda>_. lift_result r))"

text \<open>A message of a peer, as the task that reads from it hands it to the servant.\<close>

definition magnet_handle :: "env \<Rightarrow> nat \<Rightarrow> MsgType \<Rightarrow> bytes \<Rightarrow> unit mt" where
  "magnet_handle ev pid mt payload =
     eff_bind (gets mt_magnet) (\<lambda>m. magnet_servant_op (handle ev (magnet_callbacks m) pid mt payload))"

section \<open>The launcher of a magnet task\<close>

definition magnet_launch_recv :: "nat \<Rightarrow> nat \<Rightarrow> bool \<Rightarrow> unit mt" where
  "magnet_launch_recv conn_limit start_limit room = magnet_pool (launch_recv (\<lambda>_. conn_limit) start_limit conn_limit room)"

definition magnet_launch_join :: "nat option \<Rightarrow> unit mt" where
  "magnet_launch_join w =
     eff_bind (magnet_pool (case w of None \<Rightarrow> launch_inline_done | Some k \<Rightarrow> launch_join k)) (\<lambda>failed.
       if failed then magnet_start_wait_peer else ret ())"

definition magnet_launch_error :: "nat \<Rightarrow> unit mt" where
  "magnet_launch_error k = eff_bind (magnet_pool (launch_join_error k)) (\<lambda>_. control_finish)"

definition magnet_async_run :: "Dashbord \<Rightarrow> nat option \<Rightarrow> nat option \<Rightarrow> unit mt" where
  "magnet_async_run d w outcome =
     eff_bind (magnet_pool (gets (starting w))) (\<lambda>r. case r of
       None \<Rightarrow> (\<lambda>_. None)
     | Some pi \<Rightarrow>
         (case outcome of
            None \<Rightarrow> magnet_pool (modify (set_progress w StartFailed))
          | Some reserved \<Rightarrow>
              eff_bind (gets mt_magnet) (\<lambda>m.
              eff_bind (magnet_servant_op (add_peer (magnet_callbacks m) (pi_id pi) (Peer_new (pi_id pi) d reserved))) (\<lambda>_.
              magnet_pool (modify (set_progress w Started))))))"

end
