(* ===== verification/Magnet_Props.thy ===== *)
theory Magnet_Props
  imports Magnet
begin

text \<open>
  Properties of the magnet task: which links are accepted, who is told the result, and what becomes of the
  metadata that a peer sends.
\<close>

section \<open>Links\<close>

definition good_xt :: "link_env \<Rightarrow> string \<Rightarrow> bytes \<Rightarrow> bool" where
  "good_xt e v h \<longleftrightarrow> check_info_hash (last_segment v) \<and> le_hex_decode e (last_segment v) = Inr h \<and> length h = 20"

text \<open>What one pair does, and when it is refused.\<close>

lemma link_pair_Inr:
  "link_pair e (k, v) acc = Inr acc' \<longleftrightarrow>
     (if k = ''xt'' then \<exists>h. good_xt e v h \<and> acc' = acc\<lparr> la_info_hash := Some h \<rparr>
      else if k = ''tr'' then acc' = acc\<lparr> la_trackers := la_trackers acc @ [v] \<rparr>
      else if k = ''dn'' then acc' = acc\<lparr> la_name := Some v \<rparr>
      else if k = ''xl'' then \<exists>n. parse_u64 v = Inr n \<and> acc' = acc\<lparr> la_file_size := Some n \<rparr>
      else acc' = acc)"
  by (auto simp: link_pair_def good_xt_def and_then_Inr_iff Let_def)

definition link_ok :: "link_env \<Rightarrow> (string \<times> string) list \<Rightarrow> bool" where
  "link_ok e kvs \<longleftrightarrow> (\<forall>(k, v) \<in> set kvs. (k = ''xt'' \<longrightarrow> (\<exists>h. good_xt e v h)) \<and> (k = ''xl'' \<longrightarrow> (\<exists>n. parse_u64 v = Inr n)))"

lemma link_pairs_ok: "(\<exists>acc'. link_pairs e kvs acc = Inr acc') \<longleftrightarrow> link_ok e kvs"
proof (induction kvs arbitrary: acc)
  case (Cons kv kvs)
  obtain k v where kv: "kv = (k, v)" by fastforce
  have "(\<exists>acc1. link_pair e kv acc = Inr acc1) \<longleftrightarrow> (k = ''xt'' \<longrightarrow> (\<exists>h. good_xt e v h)) \<and> (k = ''xl'' \<longrightarrow> (\<exists>n. parse_u64 v = Inr n))"
    by (cases "k = ''xt''"; cases "k = ''xl''") (auto simp: kv link_pair_Inr)
  moreover have "(\<exists>acc'. link_pairs e (kv # kvs) acc = Inr acc') \<longleftrightarrow> (\<exists>acc1. link_pair e kv acc = Inr acc1) \<and> link_ok e kvs"
    using Cons.IH by (auto simp: and_then_Inr_iff)
  ultimately show ?case by (simp add: link_ok_def kv)
qed (simp add: link_ok_def)

lemma link_pairs_result:
  assumes "link_pairs e kvs acc = Inr acc'"
  shows "la_trackers acc' = la_trackers acc @ map snd (filter (\<lambda>kv. fst kv = ''tr'') kvs)
    \<and> (if filter (\<lambda>kv. fst kv = ''xt'') kvs = [] then la_info_hash acc' = la_info_hash acc
       else \<exists>h. good_xt e (snd (last (filter (\<lambda>kv. fst kv = ''xt'') kvs))) h \<and> la_info_hash acc' = Some h)"
  using assms
proof (induction kvs arbitrary: acc)
  case (Cons kv kvs)
  obtain k v where kv: "kv = (k, v)" by fastforce
  obtain acc1 where a: "link_pair e (k, v) acc = Inr acc1" "link_pairs e kvs acc1 = Inr acc'"
    using Cons.prems by (auto simp: and_then_Inr_iff kv)
  note ih = Cons.IH [OF a(2)]
  show ?case
  proof (cases "k = ''xt''")
    case True
    then obtain h where "good_xt e v h" "acc1 = acc\<lparr> la_info_hash := Some h \<rparr>" using a(1) by (auto simp: link_pair_Inr)
    then show ?thesis using ih True by (auto simp: kv)
  next
    case False
    then have "la_info_hash acc1 = la_info_hash acc" "la_trackers acc1 = la_trackers acc @ (if k = ''tr'' then [v] else [])"
      using a(1) by (auto simp: link_pair_Inr split: if_split_asm)
    then show ?thesis using ih False by (auto simp: kv)
  qed
qed simp

lemma Magnet_from_url_Inr:
  assumes "le_query_pairs e url = Inr kvs"
  shows "(\<exists>m. Magnet_from_url e url = Inr m) \<longleftrightarrow> link_ok e kvs \<and> (\<exists>v. (''xt'', v) \<in> set kvs)"
    and "Magnet_from_url e url = Inr m \<Longrightarrow> mg_trackers m = map snd (filter (\<lambda>kv. fst kv = ''tr'') kvs)
      \<and> good_xt e (snd (last (filter (\<lambda>kv. fst kv = ''xt'') kvs))) (mg_info_hash m)"
proof -
  have x: "filter (\<lambda>kv. fst kv = ''xt'') kvs = [] \<longleftrightarrow> \<not> (\<exists>v. (''xt'', v) \<in> set kvs)" by (auto simp: filter_empty_conv)
  have r: "la_trackers acc = map snd (filter (\<lambda>kv. fst kv = ''tr'') kvs)
      \<and> (if filter (\<lambda>kv. fst kv = ''xt'') kvs = [] then la_info_hash acc = None
         else \<exists>h. good_xt e (snd (last (filter (\<lambda>kv. fst kv = ''xt'') kvs))) h \<and> la_info_hash acc = Some h)"
    if "link_pairs e kvs LinkAcc_new = Inr acc" for acc
    using link_pairs_result [OF that] by (simp add: LinkAcc_new_def)
  show "(\<exists>m. Magnet_from_url e url = Inr m) \<longleftrightarrow> link_ok e kvs \<and> (\<exists>v. (''xt'', v) \<in> set kvs)"
  proof (cases "link_pairs e kvs LinkAcc_new")
    case (Inl err)
    then show ?thesis using assms link_pairs_ok [of e kvs LinkAcc_new] by (simp add: Magnet_from_url_def)
  next
    case (Inr acc)
    then have "link_ok e kvs" using link_pairs_ok [of e kvs LinkAcc_new] by blast
    then show ?thesis
      using assms r [OF Inr] Inr x by (cases "filter (\<lambda>kv. fst kv = ''xt'') kvs = []") (auto simp: Magnet_from_url_def split: if_split_asm)
  qed
  show "Magnet_from_url e url = Inr m \<Longrightarrow> mg_trackers m = map snd (filter (\<lambda>kv. fst kv = ''tr'') kvs)
      \<and> good_xt e (snd (last (filter (\<lambda>kv. fst kv = ''xt'') kvs))) (mg_info_hash m)"
    using assms r by (fastforce simp: Magnet_from_url_def and_then_Inr_iff split: option.split_asm if_split_asm)
qed

section \<open>Subscribers\<close>

definition got :: "Torrent \<Rightarrow> Subscriber \<Rightarrow> Subscriber" where
  "got t x = x\<lparr> sub_room := sub_room x - 1, sub_got := sub_got x @ [t] \<rparr>"

lemma notify_loop_spec:
  assumes "\<forall>x \<in> set rest. \<not> sub_closed x \<longrightarrow> 0 < sub_room x"
  shows "notify_loop t (length pre) (pre @ rest) = Some (pre @ map (got t) (filter (\<lambda>x. \<not> sub_closed x) rest))"
  using assms
proof (induction rest arbitrary: pre)
  case Nil
  then show ?case by (subst notify_loop.simps) simp
next
  case (Cons x rest)
  show ?case
  proof (cases "sub_closed x")
    case True
    have "notify_loop t (length pre) (pre @ x # rest) = notify_loop t (length pre) (pre @ rest)"
      by (subst notify_loop.simps) (simp add: sub_send_def True remove_at_def)
    then show ?thesis using Cons True by simp
  next
    case False
    then have "sub_send t x = Some (got t x)" "\<not> sub_closed (got t x)" using Cons.prems by (simp_all add: sub_send_def got_def)
    then have "notify_loop t (length pre) (pre @ x # rest) = notify_loop t (length (pre @ [got t x])) ((pre @ [got t x]) @ rest)"
      by (subst notify_loop.simps) (simp add: False)
    also have "\<dots> = Some ((pre @ [got t x]) @ map (got t) (filter (\<lambda>x. \<not> sub_closed x) rest))"
      using Cons.prems by (intro Cons.IH) simp
    finally show ?thesis using False by simp
  qed
qed

section \<open>Metadata from a peer\<close>

text \<open>A peer that has made the handshakes and offers metadata under the number \<open>u\<close>, and what the servant has of it.\<close>

definition offers :: "u8 \<Rightarrow> Peer \<Rightarrow> bool" where
  "offers u p \<longleftrightarrow> pe_runnable p \<and> is_can_be_request_metadata p \<and> extend_id_map p u = Some (ExtendedId_get_value UtMetadata)"

definition received :: "bytes \<Rightarrow> nat set \<Rightarrow> Peer \<Rightarrow> bool" where
  "received md ks p \<longleftrightarrow> md_inv md ks p \<or> (ks = {} \<and> pe_metadata p = None \<and> pe_metadata_bitfield p = None \<and> metadata_piece_idx p = 0)"

definition downloading :: "u8 \<Rightarrow> nat \<Rightarrow> bytes \<Rightarrow> nat set \<Rightarrow> DefaultServant \<Rightarrow> bool" where
  "downloading u pid md ks s \<longleftrightarrow> sv_callback s = Some True \<and> pid \<in> sv_peers s \<and> offers u (sv_peer pid s) \<and> received md ks (sv_peer pid s)"

text \<open>The message with piece \<open>k\<close>: the number of the extension, the header, the data.\<close>

definition metadata_header :: "bytes \<Rightarrow> nat \<Rightarrow> Metadata" where
  "metadata_header md k = \<lparr> md_msg_type = MtData, md_piece = k, md_total_size = Some (length md) \<rparr>"

definition metadata_message :: "u8 \<Rightarrow> bytes \<Rightarrow> nat \<Rightarrow> bytes" where
  "metadata_message u md k = u # value_bytes (VDict (Metadata_entries (metadata_header md k))) @ metadata_chunk md k"

lemma received_init: "received md ks p \<Longrightarrow> md_inv md ks (init_metadata_piece (length md) p)"
  unfolding received_def
proof (elim disjE)
  assume i: "md_inv md ks p"
  then have "init_metadata_piece (length md) p = p" by (auto simp: md_inv_def init_metadata_piece_def)
  with i show ?thesis by simp
qed (use md_inv_init in auto)

lemma offers_same:
  "offers u (init_metadata_piece n p) = offers u p"
  "set_metadata_piece k bs p = Inr p' \<Longrightarrow> offers u p' = offers u p"
proof -
  have f: "offers u q = offers u p" if "pe_runnable q = pe_runnable p" "pe_op_reserved q = pe_op_reserved p"
    "extend_handshake_data q = extend_handshake_data p" "extend_id_map q = extend_id_map p" for q p
    using that by (simp add: offers_def is_can_be_request_metadata_def is_ltep_def check_extend_support_def)
  show "offers u (init_metadata_piece n p) = offers u p"
    by (rule f) (simp_all add: init_metadata_piece_def Let_def split: option.split)
  show "set_metadata_piece k bs p = Inr p' \<Longrightarrow> offers u p' = offers u p"
    by (rule f) (auto simp: set_metadata_piece_def Let_def split: option.split_asm if_split_asm prod.split_asm)
qed

lemma request_metadata_ok:
  assumes "offers u p" and "i < 2 ^ 32"
  shows "\<exists>bs. Peer_request_metadata_piece i p = Inr (Peer_send bs p)"
proof -
  obtain h n where h: "extend_handshake_data p = Some h" "map_of (hs_m h) (ExtendedId_get_name UtMetadata) = Some n"
    using assms(1) by (auto simp: offers_def is_can_be_request_metadata_def check_extend_support_def split: option.split_asm)
  have "metadata_ok (Metadata_request i)" using assms(2) by (simp add: metadata_ok_def Metadata_request_def)
  from metadata_decodes(1) [OF this] show ?thesis
    using h assms(1) by (auto simp: Peer_request_metadata_piece_def check_runnable_def offers_def metadata_piece_bytes_def simp del: value_bytes.simps)
qed

lemma request_next_piece:
  assumes "downloading u pid md ks s"
  shows "\<exists>bs. request_metadata_piece pid s = Some (Inr (), set_peer pid (Peer_send bs (sv_peer pid s)) s)"
proof -
  have "wrap32 (metadata_piece_idx (sv_peer pid s)) < 2 ^ 32" by (simp add: wrap32_def)
  then obtain bs where "Peer_request_metadata_piece (wrap32 (metadata_piece_idx (sv_peer pid s))) (sv_peer pid s) = Inr (Peer_send bs (sv_peer pid s))"
    using request_metadata_ok assms unfolding downloading_def by blast
  then show ?thesis
    using assms by (auto simp: request_metadata_piece_def eff_bind_def gets_def downloading_def with_peer_result_def modify_result_def)
qed

lemma metadata_piece_arrives:
  assumes "received md ks p" and "offers u p" and "k < div_ceil (length md) METADATA_PIECE_SIZE" and "length md < 2 ^ 32"
  shows "\<exists>q. set_metadata_piece k (metadata_chunk md k) (init_metadata_piece (length md) p) = Inr q \<and> md_inv md (insert k ks) q \<and> offers u q"
  using md_inv_set [OF received_init [OF assms(1)] assms(3,4)] offers_same assms(2) by blast

lemma header_decodes:
  assumes "k < 2 ^ 32" and "length md < 2 ^ 32"
  shows "from_bencode_first 2048 Metadata_decode (value_bytes (VDict (Metadata_entries (metadata_header md k))) @ bs)
    = Inr (metadata_header md k, length (value_bytes (VDict (Metadata_entries (metadata_header md k)))))"
  using assms by (intro metadata_decodes) (simp add: metadata_ok_def metadata_header_def)

text \<open>One message: the servant asks for the next piece, or hands over the torrent when the metadata is complete.\<close>

lemma handle_metadata_message:
  assumes d: "downloading u pid md ks s" and k: "k < div_ceil (length md) METADATA_PIECE_SIZE"
    and len: "length md < 2 ^ 32" "length md \<le> ev_metadata_size_limit ev"
  obtains q where "md_inv md (insert k ks) q" "offers u q"
    "handle ev (magnet_callbacks m) pid ExtensionProtocol (metadata_message u md k) s
      = (if {..<div_ceil (length md) METADATA_PIECE_SIZE} \<subseteq> insert k ks then magnet_callbacks m pid OnMetadataComplete
         else request_metadata_piece pid) (set_peer pid q s)"
proof -
  let ?p = "sv_peer pid s"
  have k32: "k < 2 ^ 32" using k len(1) less_div_ceil_iff [of METADATA_PIECE_SIZE k "length md"]
    by (simp add: METADATA_PIECE_SIZE_def)
  obtain q where q: "set_metadata_piece k (metadata_chunk md k) (init_metadata_piece (length md) ?p) = Inr q" "md_inv md (insert k ks) q" "offers u q"
    using metadata_piece_arrives k len(1) d unfolding downloading_def by blast
  have c: "is_metadata_complete q = Inr ({..<div_ceil (length md) METADATA_PIECE_SIZE} \<subseteq> insert k ks)" using md_inv_complete(1) [OF q(2)] .
  have "handle ev (magnet_callbacks m) pid ExtensionProtocol (metadata_message u md k) s
      = handle_ut_metadata_data ev (magnet_callbacks m) pid (metadata_header md k) (metadata_chunk md k) s"
    using d header_decodes [OF k32 len(1)]
    by (simp add: handle_def eff_bind_def gets_def downloading_def handle_extension_protocol_def metadata_message_def offers_def
        extend_id_transform_def handle_ut_metadata_def lift_result_def metadata_header_def del: value_bytes.simps)
  also have "\<dots> = (if {..<div_ceil (length md) METADATA_PIECE_SIZE} \<subseteq> insert k ks then magnet_callbacks m pid OnMetadataComplete
         else request_metadata_piece pid) (set_peer pid q s)"
    using d len(2) q(1) c
    by (simp add: handle_ut_metadata_data_def metadata_header_def with_peer_def with_peer_result_def modify_def modify_result_def eff_bind_def
        gets_def set_peer_def sv_peer_def lift_result_def call_def callback_def downloading_def ret_def magnet_callbacks_def)
  finally show ?thesis using that q(2,3) by blast
qed

lemma downloading_events [simp]: "downloading u pid md ks (s\<lparr> sv_events := es \<rparr>) = downloading u pid md ks s"
  by (simp add: downloading_def sv_peer_def)

lemma offers_send [simp]: "offers u (Peer_send bs p) = offers u p" "md_inv md ks (Peer_send bs p) = md_inv md ks p"
  by (simp_all add: offers_def is_can_be_request_metadata_def is_ltep_def check_extend_support_def Peer_send_def md_inv_def)

lemma magnet_handle_more:
  assumes d: "downloading u pid md ks (mt_servant s)" and k: "k < div_ceil (length md) METADATA_PIECE_SIZE"
    and len: "length md < 2 ^ 32" "length md \<le> ev_metadata_size_limit ev"
    and "\<not> {..<div_ceil (length md) METADATA_PIECE_SIZE} \<subseteq> insert k ks"
  shows "\<exists>v. magnet_handle ev pid ExtensionProtocol (metadata_message u md k) s = Some (Inr (), s\<lparr> mt_servant := v \<rparr>)
    \<and> downloading u pid md (insert k ks) v"
proof -
  let ?s = "(mt_servant s)\<lparr> sv_events := [] \<rparr>"
  have ds: "downloading u pid md ks ?s" using d by simp
  obtain q where q: "md_inv md (insert k ks) q" "offers u q"
    and e: "handle ev (magnet_callbacks (mt_magnet s)) pid ExtensionProtocol (metadata_message u md k) ?s
      = (if {..<div_ceil (length md) METADATA_PIECE_SIZE} \<subseteq> insert k ks then magnet_callbacks (mt_magnet s) pid OnMetadataComplete
         else request_metadata_piece pid) (set_peer pid q ?s)"
    by (rule handle_metadata_message [OF ds k len])
  have h: "handle ev (magnet_callbacks (mt_magnet s)) pid ExtensionProtocol (metadata_message u md k) ?s = request_metadata_piece pid (set_peer pid q ?s)"
    unfolding e using assms(5) by (simp only: if_False)
  have "downloading u pid md (insert k ks) (set_peer pid q ?s)"
    using ds q(1,2) by (simp add: downloading_def set_peer_def sv_peer_def received_def)
  from request_next_piece [OF this] obtain bs where
    b: "request_metadata_piece pid (set_peer pid q ?s) = Some (Inr (), set_peer pid (Peer_send bs q) (set_peer pid q ?s))"
    by (auto simp: sv_peer_def set_peer_def)
  define v where "v = set_peer pid (Peer_send bs q) (set_peer pid q ?s)"
  have "downloading u pid md (insert k ks) v" and "v\<lparr> sv_events := [] \<rparr> = v" and "sv_events v = []"
    using ds q(1,2) by (simp_all add: v_def downloading_def set_peer_def sv_peer_def received_def)
  then show ?thesis
    using h b [folded v_def]
    by (intro exI [of _ v]) (simp add: magnet_handle_def magnet_servant_op_def magnet_servant_call_def eff_bind_def gets_def lift_result_def ret_def)
qed

text \<open>The last message: the subscribers get the torrent and the task is finished.\<close>

lemma magnet_handle_last:
  assumes d: "downloading u pid md ks (mt_servant s)" and k: "k < div_ceil (length md) METADATA_PIECE_SIZE"
    and len: "length md < 2 ^ 32" "length md \<le> ev_metadata_size_limit ev"
    and c: "{..<div_ceil (length md) METADATA_PIECE_SIZE} \<subseteq> insert k ks"
    and i: "Info_from_bencode md = Inr i" and cb: "mt_task_callback s"
    and subs: "\<forall>x \<in> set (mt_subscribers s). \<not> sub_closed x \<longrightarrow> 0 < sub_room x"
  shows "\<exists>s'. magnet_handle ev pid ExtensionProtocol (metadata_message u md k) s = Some (Inr (), s')
    \<and> mt_finished s' \<and> mt_finish_calls s' = mt_finish_calls s + 1
    \<and> mt_subscribers s' = map (got (Torrent_new i (mg_info_hash (mt_magnet s)) (mg_trackers (mt_magnet s)))) (filter (\<lambda>x. \<not> sub_closed x) (mt_subscribers s))"
proof -
  let ?s = "(mt_servant s)\<lparr> sv_events := [] \<rparr>" and ?t = "Torrent_new i (mg_info_hash (mt_magnet s)) (mg_trackers (mt_magnet s))"
  have ds: "downloading u pid md ks ?s" using d by simp
  obtain q where q: "md_inv md (insert k ks) q"
    and e: "handle ev (magnet_callbacks (mt_magnet s)) pid ExtensionProtocol (metadata_message u md k) ?s
      = (if {..<div_ceil (length md) METADATA_PIECE_SIZE} \<subseteq> insert k ks then magnet_callbacks (mt_magnet s) pid OnMetadataComplete
         else request_metadata_piece pid) (set_peer pid q ?s)"
    by (rule handle_metadata_message [OF ds k len])
  have e': "handle ev (magnet_callbacks (mt_magnet s)) pid ExtensionProtocol (metadata_message u md k) ?s
      = magnet_callbacks (mt_magnet s) pid OnMetadataComplete (set_peer pid q ?s)"
    unfolding e using c by (simp only: if_True)
  have "pe_metadata q = Some md" using md_inv_complete(2) [OF q c] .
  then have h: "handle ev (magnet_callbacks (mt_magnet s)) pid ExtensionProtocol (metadata_message u md k) ?s
      = Some (Inr (), (set_peer pid q ?s)\<lparr> sv_events := [ParseSuccess ?t] \<rparr>)"
    using e' i
    by (simp add: magnet_callbacks_def eff_bind_def gets_def lift_result_def parse_torrent_from_metadata_def notify_def modify_def
        set_peer_def sv_peer_def)
  have "notify_loop ?t 0 (mt_subscribers s) = Some (map (got ?t) (filter (\<lambda>x. \<not> sub_closed x) (mt_subscribers s)))"
    using notify_loop_spec [OF subs, of ?t "[]"] by simp
  then show ?thesis
    using h cb
    by (simp add: magnet_handle_def magnet_servant_op_def magnet_servant_call_def eff_bind_def gets_def lift_result_def ret_def
        notify_event_def magnet_finish_def control_finish_def modify_def)
qed

definition magnet_feed :: "env \<Rightarrow> nat \<Rightarrow> u8 \<Rightarrow> bytes \<Rightarrow> nat list \<Rightarrow> unit mt" where
  "magnet_feed ev pid u md ks = eff_each (\<lambda>k. magnet_handle ev pid ExtensionProtocol (metadata_message u md k)) ks"

lemma magnet_feed_more:
  assumes "downloading u pid md got_so_far (mt_servant s)" and "\<forall>k \<in> set ks. k < div_ceil (length md) METADATA_PIECE_SIZE"
    and "length md < 2 ^ 32" "length md \<le> ev_metadata_size_limit ev"
    and "\<not> {..<div_ceil (length md) METADATA_PIECE_SIZE} \<subseteq> got_so_far \<union> set ks"
  shows "\<exists>v. magnet_feed ev pid u md ks s = Some (Inr (), s\<lparr> mt_servant := v \<rparr>) \<and> downloading u pid md (got_so_far \<union> set ks) v"
  using assms
proof (induction ks arbitrary: got_so_far s)
  case Nil
  then show ?case by (intro exI [of _ "mt_servant s"]) (simp add: magnet_feed_def ret_def)
next
  case (Cons k ks)
  have "\<not> {..<div_ceil (length md) METADATA_PIECE_SIZE} \<subseteq> insert k got_so_far" using Cons.prems(5) by auto
  from magnet_handle_more [OF Cons.prems(1) _ Cons.prems(3,4) this] Cons.prems(2) obtain v where
    v: "magnet_handle ev pid ExtensionProtocol (metadata_message u md k) s = Some (Inr (), s\<lparr> mt_servant := v \<rparr>)"
      "downloading u pid md (insert k got_so_far) v" by auto
  obtain w where "magnet_feed ev pid u md ks (s\<lparr> mt_servant := v \<rparr>) = Some (Inr (), s\<lparr> mt_servant := w \<rparr>)"
    "downloading u pid md (insert k got_so_far \<union> set ks) w"
    using Cons.IH [of "insert k got_so_far" "s\<lparr> mt_servant := v \<rparr>"] v(2) Cons.prems by auto
  then show ?case using v(1) by (intro exI [of _ w]) (simp add: magnet_feed_def eff_bind_def)
qed

lemma magnet_feed_snoc:
  "magnet_feed ev pid u md (ks @ [k]) s = eff_bind (magnet_feed ev pid u md ks) (\<lambda>_. magnet_handle ev pid ExtensionProtocol (metadata_message u md k)) s"
proof (induction ks arbitrary: s)
  case Nil
  have "eff_bind f (\<lambda>_. ret ()) t = f t" for f :: "unit mt" and t
    by (auto simp: eff_bind_def ret_def split: option.split sum.split)
  then show ?case by (simp add: magnet_feed_def) (simp add: eff_bind_def ret_def)
qed (auto simp: magnet_feed_def eff_bind_def split: option.split sum.split)

section \<open>Examples\<close>

definition demo_hash :: string where "demo_hash = replicate 40 (CHR ''0'')"

definition demo_links :: link_env where
  "demo_links = \<lparr> le_query_pairs = (\<lambda>_. Inr [(''xt'', ''urn:btih:'' @ demo_hash), (''tr'', ''udp://a''), (''dn'', ''n''), (''tr'', ''http://b'')]),
     le_hex_decode = (\<lambda>s. Inr (replicate (length s div 2) 0)) \<rparr>"

text \<open>An info dictionary, and a peer that has offered it under the number 2.\<close>

definition demo_md :: bytes where
  "demo_md = ascii ''d6:lengthi1e4:name1:a12:piece lengthi1e6:pieces2:zze''"

definition demo_offer :: Peer where
  "demo_offer = (Peer_new 7 Dashbord_new LTEP)\<lparr> extend_id_map := [2 \<mapsto> ExtendedId_get_value UtMetadata],
     extend_handshake_data := Some (HandshakeData_new\<lparr> hs_m := [(''ut_metadata'', 3)] \<rparr>) \<rparr>"

definition demo_magnet :: Magnet where
  "demo_magnet = \<lparr> mg_info_hash = replicate 20 9, mg_trackers = [], mg_name = None, mg_file_size = None \<rparr>"

definition demo_magnet_task :: MagnetTask where
  "demo_magnet_task = (let s = ParseMagnet_new demo_magnet (\<lambda>i. demo_offer) (Store_new Map.empty) 1
     in s\<lparr> mt_servant := (mt_servant s)\<lparr> sv_peers := {7} \<rparr>, mt_task_callback := True,
           mt_subscribers := [\<lparr> sub_closed = False, sub_room = 1, sub_got = [] \<rparr>, \<lparr> sub_closed = True, sub_room = 0, sub_got = [] \<rparr>] \<rparr>)"

definition demo_magnet_env :: env where
  "demo_magnet_env = \<lparr> ev_block_size = 16384, ev_metadata_size_limit = 1000, ev_buf_limit = 1, ev_hash_chunk_size = 1, ev_sha1 = (\<lambda>_. []),
     ev_io = undefined, ev_writer_order = [], ev_order = (\<lambda>_. []), ev_now = 0 \<rparr>"

definition demo_md_info :: Info where
  "demo_md_info = \<lparr> info_length = 1, info_piece_length = 1, info_pieces = [122, 122], info_name = ''a'', info_files = [],
     info_md5sum = None, info_private = None, file_piece = [] \<rparr>"

lemma demo_md_parses: "Info_from_bencode demo_md = Inr demo_md_info"
  by (simp add: demo_md_def from_bencode_def Decoder_new_def StateTracker_new_def next_object_def next_token_def
      raw_next_token_def is_digit_def is_digit19_def parse_uint_def take_chunk_def observe_token_def push_checked_def push_state_def Let_def
      try_into_dictionary_def fuel_def next_pair_def decode_String_def try_into_bytes_def decode_uint_def decode_AsString_def
      set_field_def skip_field_def try_into_integer_def string_of_def Info_from_bencode_def Info_decode_def Info_entry_def InfoAcc_new_def
      ok_or_missing_def Info_finish_def Info_new_def calculate_file_piece_def demo_md_info_def U64_MAX_def char_of_eq_iff)

lemma demo_md_pieces: "length demo_md = 52" "div_ceil 52 METADATA_PIECE_SIZE = 1"
  by (simp_all add: demo_md_def div_ceil_def METADATA_PIECE_SIZE_def)

lemma demo_downloading: "downloading 2 7 md {} (mt_servant demo_magnet_task)"
  by (simp add: downloading_def demo_magnet_task_def ParseMagnet_new_def DefaultServant_new_def Let_def sv_peer_def offers_def received_def
      demo_offer_def Peer_new_def is_can_be_request_metadata_def is_ltep_def check_extend_support_def HandshakeData_new_def LTEP_def)

section \<open>Properties\<close>

text \<open>
  A magnet link is accepted exactly when it has an \<^verbatim>\<open>xt\<close> pair, every \<^verbatim>\<open>xt\<close> pair ends in forty hexadecimal digits that
  decode to twenty bytes, and every \<^verbatim>\<open>xl\<close> pair is a number; the info hash is then the one of the last \<^verbatim>\<open>xt\<close> pair, and
  the trackers are those of the link in its order.
\<close>

theorem magnet_link_accepted:
  assumes "le_query_pairs e url = Inr kvs"
  shows "((\<exists>m. Magnet_from_url e url = Inr m) \<longleftrightarrow>
      (\<exists>v. (''xt'', v) \<in> set kvs)
      \<and> (\<forall>(k, v) \<in> set kvs. (k = ''xt'' \<longrightarrow> check_info_hash (last_segment v)
            \<and> (\<exists>h. le_hex_decode e (last_segment v) = Inr h \<and> length h = 20)) \<and> (k = ''xl'' \<longrightarrow> (\<exists>n. parse_u64 v = Inr n))))
    \<and> (\<forall>m. Magnet_from_url e url = Inr m \<longrightarrow>
         le_hex_decode e (last_segment (snd (last (filter (\<lambda>kv. fst kv = ''xt'') kvs)))) = Inr (mg_info_hash m)
         \<and> length (mg_info_hash m) = 20 \<and> mg_trackers m = map snd (filter (\<lambda>kv. fst kv = ''tr'') kvs))"
  using Magnet_from_url_Inr [OF assms] by (auto simp: link_ok_def good_xt_def)

theorem magnet_link_accepted_witness:
  "\<exists>m. Magnet_from_url demo_links ''magnet:?'' = Inr m \<and> length (mg_info_hash m) = 20 \<and> mg_trackers m = [''udp://a'', ''http://b'']"
proof -
  have q: "le_query_pairs demo_links ''magnet:?'' = Inr [(''xt'', ''urn:btih:'' @ demo_hash), (''tr'', ''udp://a''), (''dn'', ''n''), (''tr'', ''http://b'')]"
    by (simp add: demo_links_def)
  have l: "last_segment (''urn:btih:'' @ demo_hash) = demo_hash" by (simp add: last_segment_def demo_hash_def takeWhile_append)
  have c: "check_info_hash demo_hash" "le_hex_decode demo_links demo_hash = Inr (replicate 20 0)"
    by (simp_all add: check_info_hash_def demo_hash_def SHA1_ENCODEN_LEN_def is_ascii_hexdigit_def demo_links_def list_all_iff)
  have "\<exists>m. Magnet_from_url demo_links ''magnet:?'' = Inr m" using magnet_link_accepted [OF q] l c by auto
  then show ?thesis using magnet_link_accepted [OF q] by auto
qed

text \<open>
  C9. The metadata a peer sends, in whatever order and with repetitions, is assembled, parsed and reported to every open
  subscriber exactly once as soon as the last missing piece arrives, and the task is finished. No step compares
  the metadata with the info hash of the link: the statement holds for every info hash, so a peer can pass any
  torrent off as the one that was asked for.
\<close>

theorem magnet_metadata_reported:
  assumes "downloading u pid md {} (mt_servant s)" and "\<forall>k \<in> set (ks @ [k]). k < div_ceil (length md) METADATA_PIECE_SIZE"
    and "length md < 2 ^ 32" and "length md \<le> ev_metadata_size_limit ev"
    and "\<not> {..<div_ceil (length md) METADATA_PIECE_SIZE} \<subseteq> set ks" and "{..<div_ceil (length md) METADATA_PIECE_SIZE} \<subseteq> set (ks @ [k])"
    and "Info_from_bencode md = Inr i" and "mt_task_callback s"
    and "\<forall>x \<in> set (mt_subscribers s). \<not> sub_closed x \<longrightarrow> 0 < sub_room x"
  shows "(\<exists>s'. magnet_feed ev pid u md ks s = Some (Inr (), s') \<and> mt_finished s' = mt_finished s \<and> mt_subscribers s' = mt_subscribers s)
    \<and> (\<exists>s'. magnet_feed ev pid u md (ks @ [k]) s = Some (Inr (), s') \<and> mt_finished s' \<and> mt_finish_calls s' = mt_finish_calls s + 1
        \<and> mt_subscribers s' = map (\<lambda>x. x\<lparr> sub_room := sub_room x - 1,
             sub_got := sub_got x @ [Torrent_new i (mg_info_hash (mt_magnet s)) (mg_trackers (mt_magnet s))] \<rparr>)
             (filter (\<lambda>x. \<not> sub_closed x) (mt_subscribers s)))"
proof -
  have "\<forall>k \<in> set ks. k < div_ceil (length md) METADATA_PIECE_SIZE" using assms(2) by simp
  from magnet_feed_more [OF assms(1) this assms(3,4)] assms(5) obtain v where
    v: "magnet_feed ev pid u md ks s = Some (Inr (), s\<lparr> mt_servant := v \<rparr>)" "downloading u pid md (set ks) v" by auto
  let ?s = "s\<lparr> mt_servant := v \<rparr>"
  have d: "downloading u pid md (set ks) (mt_servant ?s)" and k: "k < div_ceil (length md) METADATA_PIECE_SIZE"
    and c: "{..<div_ceil (length md) METADATA_PIECE_SIZE} \<subseteq> insert k (set ks)" and cb: "mt_task_callback ?s"
    and subs: "\<forall>x \<in> set (mt_subscribers ?s). \<not> sub_closed x \<longrightarrow> 0 < sub_room x"
    using v(2) assms(2,6,8,9) by auto
  from magnet_handle_last [OF d k assms(3,4) c assms(7) cb subs] show ?thesis
    using v(1) by (auto simp: magnet_feed_snoc eff_bind_def got_def)
qed

theorem magnet_metadata_reported_witness:
  "\<exists>s'. magnet_feed demo_magnet_env 7 2 demo_md ([] @ [0]) demo_magnet_task = Some (Inr (), s') \<and> mt_finished s'
    \<and> mt_subscribers s' = [\<lparr> sub_closed = False, sub_room = 0, sub_got = [Torrent_new demo_md_info (replicate 20 9) []] \<rparr>]"
proof -
  have s: "mt_magnet demo_magnet_task = demo_magnet" "mt_task_callback demo_magnet_task"
    "mt_subscribers demo_magnet_task = [\<lparr> sub_closed = False, sub_room = 1, sub_got = [] \<rparr>, \<lparr> sub_closed = True, sub_room = 0, sub_got = [] \<rparr>]"
    by (simp_all add: demo_magnet_task_def ParseMagnet_new_def Let_def)
  have "length demo_md \<le> ev_metadata_size_limit demo_magnet_env" by (simp add: demo_md_pieces demo_magnet_env_def)
  from magnet_metadata_reported [OF demo_downloading _ _ this, where ks = "[]" and k = 0 and i = demo_md_info]
  show ?thesis by (simp add: demo_md_pieces demo_md_parses s demo_magnet_def lessThan_Suc) blast
qed

end
