(* ===== verification/Udp_Server.thy ===== *)
theory Udp_Server
  imports Dht_Entity
begin

text \<open>
  The UDP server shared by the DHT requests (\<^verbatim>\<open>core/udp_server.rs\<close>). A request takes a transaction
  number, marks it as in flight, sends a packet and waits on a future; the receiving task matches
  packets to the requests by their number. The two maps are concurrent hash maps, each of whose calls is
  atomic, so the model has one step per call and the steps of the clients and of the receiver interleave.
  A waker is the number of the client it wakes; a client can be polled when it is in \<open>us_ready\<close>.
  \<open>us_log\<close> is a history of the packets received; the code has no counterpart of it.
\<close>

section \<open>State\<close>

type_synonym answer = "bytes \<times> SocketAddr"

datatype client =
    Idle
  | Check nat
  | Insert nat
  | Sending nat
  | Waiting nat
  | Polling nat
  | Drop1 nat "answer option"
  | Drop2 nat "answer option"
  | Done nat "answer option"
  | Refused nat

datatype receiver = RIdle | RStore nat answer "nat option" | RWake "nat option" | RPanicked

record UdpServer =
  inflight :: "nat \<rightharpoonup> nat option"
  result_store :: "nat \<rightharpoonup> answer"
  cycle_id :: nat
  us_client :: "nat \<Rightarrow> client"
  us_ready :: "nat set"
  us_recv :: receiver
  us_log :: "answer set"

definition UdpServer_new :: UdpServer where
  "UdpServer_new = \<lparr> inflight = Map.empty, result_store = Map.empty, cycle_id = 0, us_client = (\<lambda>_. Idle),
     us_ready = {}, us_recv = RIdle, us_log = {} \<rparr>"

section \<open>Operations\<close>

definition next_tran_id :: "UdpServer \<Rightarrow> nat \<times> UdpServer" where
  "next_tran_id s = (cycle_id s, s\<lparr> cycle_id := (cycle_id s + 1) mod 2 ^ 16 \<rparr>)"

definition set_client :: "nat \<Rightarrow> client \<Rightarrow> UdpServer \<Rightarrow> UdpServer" where
  "set_client c x s = s\<lparr> us_client := (us_client s)(c := x) \<rparr>"

text \<open>\<^verbatim>\<open>request\<close>: the test, the insertion, and what follows the result of \<^verbatim>\<open>send_to\<close>.\<close>

definition request_check :: "nat \<Rightarrow> nat \<Rightarrow> UdpServer \<Rightarrow> UdpServer" where
  "request_check c t s = set_client c (if inflight s t \<noteq> None then Refused t else Insert t) s"

definition request_insert :: "nat \<Rightarrow> nat \<Rightarrow> UdpServer \<Rightarrow> UdpServer" where
  "request_insert c t s = set_client c (Sending t) (s\<lparr> inflight := (inflight s)(t \<mapsto> None) \<rparr>)"

definition request_sent :: "nat \<Rightarrow> nat \<Rightarrow> UdpServer \<Rightarrow> UdpServer" where
  "request_sent c t s = set_client c (Waiting t) (s\<lparr> us_ready := insert c (us_ready s) \<rparr>)"

definition request_abort :: "nat \<Rightarrow> nat \<Rightarrow> UdpServer \<Rightarrow> UdpServer" where
  "request_abort c t s = set_client c (Refused t) (s\<lparr> inflight := (inflight s)(t := None) \<rparr>)"

text \<open>\<^verbatim>\<open>Response::poll\<close>: taking the result, and registering the waker when there is none.\<close>

definition poll_register :: "nat \<Rightarrow> nat \<Rightarrow> UdpServer \<Rightarrow> UdpServer" where
  "poll_register c t s = set_client c (Waiting t)
     (s\<lparr> inflight := (inflight s)(t \<mapsto> Some c) \<rparr>)"

definition poll_take :: "nat \<Rightarrow> nat \<Rightarrow> UdpServer \<Rightarrow> UdpServer" where
  "poll_take c t s =
     (case result_store s t of
        Some x \<Rightarrow> set_client c (Drop1 t (Some x))
          (s\<lparr> result_store := (result_store s)(t := None), us_ready := us_ready s - {c} \<rparr>)
      | None \<Rightarrow> set_client c (Polling t) (s\<lparr> us_ready := us_ready s - {c} \<rparr>))"

definition Response_poll :: "nat \<Rightarrow> nat \<Rightarrow> UdpServer \<Rightarrow> UdpServer" where
  "Response_poll c t s =
     (let s' = poll_take c t s in if us_client s' c = Polling t then poll_register c t s' else s')"

text \<open>\<^verbatim>\<open>Response::drop\<close>, after the answer or after the timeout.\<close>

definition drop_inflight :: "nat \<Rightarrow> nat \<Rightarrow> answer option \<Rightarrow> UdpServer \<Rightarrow> UdpServer" where
  "drop_inflight c t x s = set_client c (Drop2 t x) (s\<lparr> inflight := (inflight s)(t := None) \<rparr>)"

definition drop_result :: "nat \<Rightarrow> nat \<Rightarrow> answer option \<Rightarrow> UdpServer \<Rightarrow> UdpServer" where
  "drop_result c t x s = set_client c (Done t x) (s\<lparr> result_store := (result_store s)(t := None) \<rparr>)"

text \<open>\<^verbatim>\<open>parse_recv_data\<close>: the transaction number of a packet, then the three calls on the maps and the waker.\<close>

definition packet_tran :: "bytes \<Rightarrow> nat result" where
  "packet_tran data = and_then (from_bencode False 2048 (DHTBase_decode read_value) data) DHTBase_t"

definition recv_take :: "bytes \<Rightarrow> SocketAddr \<Rightarrow> UdpServer \<Rightarrow> UdpServer" where
  "recv_take data addr s =
     (let s = s\<lparr> us_log := insert (data, addr) (us_log s) \<rparr> in
      case packet_tran data of
        Inl (Panic _) \<Rightarrow> s\<lparr> us_recv := RPanicked \<rparr>
      | Inl (Err _) \<Rightarrow> s
      | Inr t \<Rightarrow>
          (case inflight s t of
             None \<Rightarrow> s
           | Some w \<Rightarrow> s\<lparr> inflight := (inflight s)(t := None), us_recv := RStore t (data, addr) w \<rparr>))"

definition recv_store :: "nat \<Rightarrow> answer \<Rightarrow> nat option \<Rightarrow> UdpServer \<Rightarrow> UdpServer" where
  "recv_store t x w s = s\<lparr> result_store := (result_store s)(t \<mapsto> x), us_recv := RWake w \<rparr>"

definition recv_wake :: "nat option \<Rightarrow> UdpServer \<Rightarrow> UdpServer" where
  "recv_wake w s = s\<lparr> us_recv := RIdle,
     us_ready := (case w of Some c \<Rightarrow> insert c (us_ready s) | None \<Rightarrow> us_ready s) \<rparr>"

definition parse_recv_data :: "bytes \<Rightarrow> SocketAddr \<Rightarrow> UdpServer \<Rightarrow> UdpServer" where
  "parse_recv_data data addr s =
     (let s' = recv_take data addr s in
      case us_recv s' of RStore t x w \<Rightarrow> recv_wake w (recv_store t x w s') | _ \<Rightarrow> s')"

section \<open>Steps\<close>

text \<open>
  A run of the server: any interleaving of the calls of the clients and of the receiver. \<^verbatim>\<open>poll\<close> and \<^verbatim>\<open>parse_recv_data\<close> can be interrupted between their
  calls on the maps; running one of them to its end is a step as well. Transaction numbers are drawn without regard to the numbers in use.
\<close>

inductive udp_step :: "UdpServer \<Rightarrow> UdpServer \<Rightarrow> bool" where
  tran: "us_client s c = Idle \<Longrightarrow> next_tran_id s = (t, s') \<Longrightarrow> udp_step s (set_client c (Check t) s')"
| check: "us_client s c = Check t \<Longrightarrow> udp_step s (request_check c t s)"
| insert: "us_client s c = Insert t \<Longrightarrow> udp_step s (request_insert c t s)"
| sent: "us_client s c = Sending t \<Longrightarrow> udp_step s (request_sent c t s)"
| send_error: "us_client s c = Sending t \<Longrightarrow> udp_step s (request_abort c t s)"
| poll: "us_client s c = Waiting t \<Longrightarrow> c \<in> us_ready s \<Longrightarrow> udp_step s (Response_poll c t s)"
| poll_begin: "us_client s c = Waiting t \<Longrightarrow> c \<in> us_ready s \<Longrightarrow> udp_step s (poll_take c t s)"
| poll_end: "us_client s c = Polling t \<Longrightarrow> udp_step s (poll_register c t s)"
| timeout: "us_client s c = Waiting t \<Longrightarrow> udp_step s (set_client c (Drop1 t None) s)"
| drop1: "us_client s c = Drop1 t x \<Longrightarrow> udp_step s (drop_inflight c t x s)"
| drop2: "us_client s c = Drop2 t x \<Longrightarrow> udp_step s (drop_result c t x s)"
| recv: "us_recv s = RIdle \<Longrightarrow> udp_step s (parse_recv_data data addr s)"
| recv_begin: "us_recv s = RIdle \<Longrightarrow> udp_step s (recv_take data addr s)"
| recv_mid: "us_recv s = RStore t x w \<Longrightarrow> udp_step s (recv_store t x w s)"
| recv_end: "us_recv s = RWake w \<Longrightarrow> udp_step s (recv_wake w s)"

inductive udp_reach :: "UdpServer \<Rightarrow> bool" where
  start: "udp_reach UdpServer_new"
| more: "udp_reach s \<Longrightarrow> udp_step s s' \<Longrightarrow> udp_reach s'"

lemmas udp_ops = set_client_def next_tran_id_def request_check_def request_insert_def request_sent_def request_abort_def
  drop_inflight_def drop_result_def poll_register_def recv_store_def recv_wake_def

section \<open>Answers are genuine\<close>

fun client_answer :: "client \<Rightarrow> (nat \<times> answer) option" where
  "client_answer (Drop1 t (Some x)) = Some (t, x)"
| "client_answer (Drop2 t (Some x)) = Some (t, x)"
| "client_answer (Done t (Some x)) = Some (t, x)"
| "client_answer _ = None"

definition genuine :: "UdpServer \<Rightarrow> nat \<Rightarrow> answer \<Rightarrow> bool" where
  "genuine s t x \<longleftrightarrow> x \<in> us_log s \<and> packet_tran (fst x) = Inr t"

definition udp_safe :: "UdpServer \<Rightarrow> bool" where
  "udp_safe s \<longleftrightarrow> (\<forall>t x. result_store s t = Some x \<longrightarrow> genuine s t x)
     \<and> (\<forall>t x w. us_recv s = RStore t x w \<longrightarrow> genuine s t x)
     \<and> (\<forall>c t x. client_answer (us_client s c) = Some (t, x) \<longrightarrow> genuine s t x)"

lemma client_answer_drop: "client_answer (Drop2 t x) = client_answer (Drop1 t x)"
  "client_answer (Done t x) = client_answer (Drop2 t x)"
  by (cases x; simp)+

text \<open>A step that adds no result of its own and no packet in the receiver's hands.\<close>

lemma udp_safe_keep:
  assumes "udp_safe s" and "us_log s' = us_log s" and "us_recv s' = us_recv s \<or> (\<exists>w. us_recv s' = RWake w) \<or> us_recv s' = RIdle"
    and "\<And>t x. result_store s' t = Some x \<Longrightarrow> result_store s t = Some x \<or> (\<exists>w. us_recv s = RStore t x w)"
    and "\<And>c t x. client_answer (us_client s' c) = Some (t, x) \<Longrightarrow>
      (\<exists>c. client_answer (us_client s c) = Some (t, x)) \<or> result_store s t = Some x"
  shows "udp_safe s'"
proof -
  have g: "genuine s t x \<Longrightarrow> genuine s' t x" for t x using assms(2) by (simp add: genuine_def)
  have r: "genuine s t x" if "result_store s t = Some x \<or> (\<exists>w. us_recv s = RStore t x w)" for t x
    using assms(1) that unfolding udp_safe_def by blast
  have c: "genuine s t x" if "client_answer (us_client s c) = Some (t, x)" for c t x
    using assms(1) that unfolding udp_safe_def by blast
  have "genuine s' t x" if "result_store s' t = Some x" for t x using assms(4) [OF that] g r by blast
  moreover have "genuine s' t x" if "us_recv s' = RStore t x w" for t x w
  proof -
    have "us_recv s = RStore t x w" using assms(3) that by auto
    then show ?thesis using g r by blast
  qed
  moreover have "genuine s' t x" if "client_answer (us_client s' c) = Some (t, x)" for c t x
    using assms(5) [OF that] g r c by blast
  ultimately show ?thesis unfolding udp_safe_def by blast
qed

lemma udp_safe_poll_take: "udp_safe s \<Longrightarrow> us_client s c = Waiting t \<Longrightarrow> udp_safe (poll_take c t s)"
  by (erule udp_safe_keep)
    (auto simp: poll_take_def set_client_def split: option.splits if_splits)

lemma udp_safe_register: "udp_safe s \<Longrightarrow> udp_safe (poll_register c t s)"
  by (erule udp_safe_keep) (auto simp: udp_ops split: if_splits)

lemma udp_safe_recv_take: "udp_safe s \<Longrightarrow> udp_safe (recv_take data addr s)"
  unfolding recv_take_def by (auto simp: udp_safe_def genuine_def Let_def split: sum.split error.split option.split)

lemma udp_safe_recv_rest: "udp_safe s \<Longrightarrow> us_recv s = RStore t x w \<Longrightarrow> udp_safe (recv_store t x w s)"
  "udp_safe s \<Longrightarrow> udp_safe (recv_wake w' s)"
  by (erule udp_safe_keep; auto simp: udp_ops split: if_splits)+

lemma udp_safe_recv: "udp_safe s \<Longrightarrow> udp_safe (parse_recv_data data addr s)"
  using udp_safe_recv_rest(2) [OF udp_safe_recv_rest(1) [OF udp_safe_recv_take [of s data addr]]]
    udp_safe_recv_take [of s data addr]
  by (auto simp: parse_recv_data_def Let_def split: receiver.split)

lemma udp_safe_drop:
  assumes "udp_safe s"
  shows "us_client s c = Drop1 t x \<Longrightarrow> udp_safe (drop_inflight c t x s)"
    and "us_client s c = Drop2 t x \<Longrightarrow> udp_safe (drop_result c t x s)"
proof -
  assume "us_client s c = Drop1 t x"
  then have "client_answer (us_client (drop_inflight c t x s) c') = client_answer (us_client s c')" for c'
    by (simp add: drop_inflight_def set_client_def client_answer_drop)
  then show "udp_safe (drop_inflight c t x s)"
    by (intro udp_safe_keep [OF assms]) (auto simp: drop_inflight_def set_client_def)
next
  assume "us_client s c = Drop2 t x"
  then have "client_answer (us_client (drop_result c t x s) c') = client_answer (us_client s c')" for c'
    by (simp add: drop_result_def set_client_def client_answer_drop)
  then show "udp_safe (drop_result c t x s)"
    by (intro udp_safe_keep [OF assms]) (auto simp: drop_result_def set_client_def split: if_splits)
qed

lemma udp_safe_step: "udp_step s s' \<Longrightarrow> udp_safe s \<Longrightarrow> udp_safe s'"
proof (induction rule: udp_step.induct)
  case (poll s c t)
  then show ?case using udp_safe_poll_take udp_safe_register by (simp add: Response_poll_def Let_def)
next
  case (tran s c t s')
  then show ?case by (elim udp_safe_keep) (auto simp: udp_ops split: if_splits)
next
  case (timeout s c t)
  then show ?case by (elim udp_safe_keep) (auto simp: udp_ops split: if_splits)
qed ((rule udp_safe_poll_take udp_safe_register udp_safe_recv_take udp_safe_recv_rest udp_safe_recv udp_safe_drop;
      assumption) | (erule udp_safe_keep; auto simp: udp_ops split: if_splits))+

lemma udp_reach_safe: "udp_reach s \<Longrightarrow> udp_safe s"
proof (induction rule: udp_reach.induct)
  case start
  then show ?case by (simp add: udp_safe_def UdpServer_new_def)
qed (rule udp_safe_step)

lemma parse_recv_data_cases:
  assumes "us_recv s = RIdle"
  shows "packet_tran data = Inl (Err m) \<Longrightarrow> parse_recv_data data addr s = s\<lparr> us_log := insert (data, addr) (us_log s) \<rparr>"
    and "packet_tran data = Inl (Panic m) \<Longrightarrow>
      parse_recv_data data addr s = s\<lparr> us_log := insert (data, addr) (us_log s), us_recv := RPanicked \<rparr>"
    and "packet_tran data = Inr t \<Longrightarrow> inflight s t = None \<Longrightarrow>
      parse_recv_data data addr s = s\<lparr> us_log := insert (data, addr) (us_log s) \<rparr>"
    and "packet_tran data = Inr t \<Longrightarrow> inflight s t = Some w \<Longrightarrow>
      parse_recv_data data addr s = s\<lparr> us_log := insert (data, addr) (us_log s),
        inflight := (inflight s)(t := None), result_store := (result_store s)(t \<mapsto> (data, addr)), us_recv := RIdle,
        us_ready := (case w of Some c \<Rightarrow> insert c (us_ready s) | None \<Rightarrow> us_ready s) \<rparr>"
  using assms by (simp_all add: parse_recv_data_def recv_take_def recv_store_def recv_wake_def split: option.split)

section \<open>Packets\<close>

text \<open>The transaction number of a response whose number has two bytes, and of one whose number is an integer.\<close>

lemma packet_tran_response:
  assumes "value_ok v" and "depth v < 2048"
  shows "t < 2 ^ 16 \<Longrightarrow> packet_tran (value_bytes (response_value v (VBytes (to_be_bytes 2 t)))) = Inr t"
    and "- (2 ^ 63) \<le> i \<Longrightarrow> i < 2 ^ 63 \<Longrightarrow>
      packet_tran (value_bytes (response_value v (VInteger i))) = Inl (Panic ''internal error: entered unreachable code'')"
proof -
  have d: "from_bencode False 2048 (DHTBase_decode read_value) (value_bytes (response_value v n)) = Inr (DHTBase_response v n)"
    if "value_ok n" "depth (response_value v n) \<le> 2048" for n
    using from_bencode_decodes [OF decodes_response [OF decodes_read_value [OF assms(1)] that(1)] that(2), of False "[]"]
    by simp
  show "t < 2 ^ 16 \<Longrightarrow> packet_tran (value_bytes (response_value v (VBytes (to_be_bytes 2 t)))) = Inr t"
    using assms(2) by (simp add: packet_tran_def d depth_response DHTBase_t_def DHTBase_response_def)
  show "- (2 ^ 63) \<le> i \<Longrightarrow> i < 2 ^ 63 \<Longrightarrow>
      packet_tran (value_bytes (response_value v (VInteger i))) = Inl (Panic ''internal error: entered unreachable code'')"
    using assms(2) by (simp add: packet_tran_def d depth_response DHTBase_t_def DHTBase_response_def)
qed

lemma RPanicked_step: "udp_step s s' \<Longrightarrow> us_recv s = RPanicked \<Longrightarrow>
    us_recv s' = RPanicked \<and> dom (result_store s') \<subseteq> dom (result_store s)"
  by (induction rule: udp_step.induct)
    (auto simp: udp_ops Response_poll_def poll_take_def Let_def split: option.splits if_splits)

section \<open>Example runs\<close>

text \<open>The first request of a server, sent and not yet polled, and an answer to it.\<close>

definition first_sent :: UdpServer where
  "first_sent = \<lparr> inflight = [0 \<mapsto> None], result_store = Map.empty, cycle_id = 1, us_client = (\<lambda>_. Idle)(0 := Waiting 0),
     us_ready = {0}, us_recv = RIdle, us_log = {} \<rparr>"

definition first_answer :: bytes where
  "first_answer = value_bytes (response_value (VDict []) (VBytes (to_be_bytes 2 0)))"

lemma packet_tran_first: "packet_tran first_answer = Inr 0"
  unfolding first_answer_def by (rule packet_tran_response) simp_all

lemma reach_step: "udp_reach s \<Longrightarrow> udp_step s s' \<Longrightarrow> s' = s'' \<Longrightarrow> udp_reach s''"
  by (auto intro: udp_reach.more)

lemma reach_first_sent: "udp_reach first_sent"
proof -
  let ?n = "UdpServer_new"
  have "udp_reach (?n\<lparr> cycle_id := 1, us_client := (\<lambda>_. Idle)(0 := Check 0) \<rparr>)"
    by (rule reach_step [OF udp_reach.start udp_step.tran [of _ 0 0 "UdpServer_new\<lparr> cycle_id := 1 \<rparr>"]]) (simp_all add: UdpServer_new_def udp_ops)
  then have "udp_reach (?n\<lparr> cycle_id := 1, us_client := (\<lambda>_. Idle)(0 := Insert 0) \<rparr>)"
    by (rule reach_step [OF _ udp_step.check [of _ 0 0]]) (simp_all add: UdpServer_new_def udp_ops)
  then have "udp_reach (?n\<lparr> cycle_id := 1, inflight := [0 \<mapsto> None], us_client := (\<lambda>_. Idle)(0 := Sending 0) \<rparr>)"
    by (rule reach_step [OF _ udp_step.insert [of _ 0 0]]) (simp_all add: UdpServer_new_def udp_ops)
  then show ?thesis
    by (rule reach_step [OF _ udp_step.sent [of _ 0 0]]) (simp_all add: UdpServer_new_def udp_ops first_sent_def)
qed

lemma reach_first_answered:
  "udp_reach (first_sent\<lparr> inflight := Map.empty, result_store := [0 \<mapsto> (first_answer, a)], us_log := {(first_answer, a)} \<rparr>)"
  by (rule reach_step [OF reach_first_sent udp_step.recv [of _ first_answer a]])
    (simp_all add: first_sent_def parse_recv_data_cases(4) packet_tran_first)

lemma reach_first_done:
  "udp_reach (first_sent\<lparr> inflight := Map.empty, us_log := {(first_answer, a)}, us_ready := {},
     us_client := (\<lambda>_. Idle)(0 := Done 0 (Some (first_answer, a))) \<rparr>)"
proof -
  let ?s = "\<lambda>x. first_sent\<lparr> inflight := Map.empty, us_log := {(first_answer, a)}, us_ready := {},
     us_client := (\<lambda>_. Idle)(0 := x) \<rparr>"
  have "udp_reach (?s (Drop1 0 (Some (first_answer, a))))"
    by (rule reach_step [OF reach_first_answered udp_step.poll [of _ 0 0]])
      (simp_all add: first_sent_def Response_poll_def poll_take_def set_client_def Let_def)
  then have "udp_reach (?s (Drop2 0 (Some (first_answer, a))))"
    by (rule reach_step [OF _ udp_step.drop1 [of _ 0 0]]) (simp_all add: first_sent_def udp_ops)
  then show ?thesis
    by (rule reach_step [OF _ udp_step.drop2 [of _ 0 0]]) (simp_all add: first_sent_def udp_ops)
qed

text \<open>The receiver takes the request off the map before the first poll, and stores the answer after it.\<close>

lemma reach_first_lost:
  "udp_reach (first_sent\<lparr> inflight := [0 \<mapsto> Some 0], result_store := [0 \<mapsto> (first_answer, a)],
     us_log := {(first_answer, a)}, us_ready := {} \<rparr>)"
proof -
  let ?x = "(first_answer, a)"
  have "udp_reach (first_sent\<lparr> inflight := Map.empty, us_log := {?x}, us_recv := RStore 0 ?x None \<rparr>)"
    by (rule reach_step [OF reach_first_sent udp_step.recv_begin [of _ first_answer a]])
      (simp_all add: first_sent_def recv_take_def packet_tran_first Let_def)
  then have "udp_reach (first_sent\<lparr> inflight := [0 \<mapsto> Some 0], us_log := {?x}, us_ready := {}, us_recv := RStore 0 ?x None \<rparr>)"
    by (rule reach_step [OF _ udp_step.poll [of _ 0 0]])
      (simp_all add: first_sent_def Response_poll_def poll_take_def poll_register_def set_client_def Let_def)
  then have "udp_reach (first_sent\<lparr> inflight := [0 \<mapsto> Some 0], us_log := {?x}, us_ready := {},
      result_store := [0 \<mapsto> ?x], us_recv := RWake None \<rparr>)"
    by (rule reach_step [OF _ udp_step.recv_mid [of _ 0 ?x None]]) (simp_all add: first_sent_def udp_ops)
  then show ?thesis
    by (rule reach_step [OF _ udp_step.recv_end [of _ None]]) (simp_all add: first_sent_def udp_ops)
qed

section \<open>Properties\<close>

text \<open>
  C16. Whatever the interleaving of the clients and the receiver, an answer a request returns is a
  packet that was received and that carries the transaction number of the request.
\<close>

theorem udp_answers_match_requests:
  assumes "udp_reach s" and "us_client s c = Done t (Some (data, addr))"
  shows "(data, addr) \<in> us_log s \<and> packet_tran data = Inr t"
proof -
  have "client_answer (us_client s c) = Some (t, data, addr)" using assms(2) by simp
  then show ?thesis using udp_reach_safe [OF assms(1)] unfolding udp_safe_def genuine_def by fastforce
qed

theorem udp_answers_match_requests_witness:
  "packet_tran first_answer = Inr 0"
  using udp_answers_match_requests [OF reach_first_done, where c = 0 and t = 0 and data = first_answer] by simp

text \<open>
  C24. A wake-up can be lost: there is a run in which the answer of a request has
  arrived and its waker is registered, but the request is not going to be polled and the receiver has
  nothing left to do, so the request waits for its timeout.
\<close>

theorem udp_wakeup_can_be_lost:
  "\<exists>s x. udp_reach s \<and> us_client s 0 = Waiting 0 \<and> result_store s 0 = Some x \<and> inflight s 0 = Some (Some 0)
     \<and> 0 \<notin> us_ready s \<and> us_recv s = RIdle"
proof -
  let ?x = "(first_answer, SocketAddrV4 [1, 2, 3, 4] 5)"
  let ?s = "first_sent\<lparr> inflight := [0 \<mapsto> Some 0], result_store := [0 \<mapsto> ?x], us_log := {?x}, us_ready := {} \<rparr>"
  have "us_client ?s 0 = Waiting 0 \<and> result_store ?s 0 = Some ?x \<and> inflight ?s 0 = Some (Some 0) \<and> 0 \<notin> us_ready ?s
      \<and> us_recv ?s = RIdle" by (simp add: first_sent_def)
  with reach_first_lost [of "SocketAddrV4 [1, 2, 3, 4] 5"] show ?thesis by blast
qed

text \<open>
  A packet that is a well-formed response except that its transaction number is an integer makes
  the receiver panic, and from then on no request is answered any more.
\<close>

theorem udp_integer_transaction_panics:
  assumes "us_recv s = RIdle" and "value_ok v" and "depth v < 2048" and "- (2 ^ 63) \<le> i" and "i < 2 ^ 63"
    and "udp_step (parse_recv_data (value_bytes (response_value v (VInteger i))) addr s) s'"
  shows "us_recv (parse_recv_data (value_bytes (response_value v (VInteger i))) addr s) = RPanicked
    \<and> us_recv s' = RPanicked \<and> dom (result_store s') \<subseteq> dom (result_store s)"
proof -
  let ?p = "parse_recv_data (value_bytes (response_value v (VInteger i))) addr s"
  have p: "?p = s\<lparr> us_log := insert (value_bytes (response_value v (VInteger i)), addr) (us_log s), us_recv := RPanicked \<rparr>"
    using parse_recv_data_cases(2) [OF assms(1) packet_tran_response(2) [OF assms(2-5)]] .
  then have "us_recv ?p = RPanicked" "result_store ?p = result_store s" by simp_all
  then show ?thesis using RPanicked_step [OF assms(6)] by simp
qed

theorem udp_integer_transaction_panics_witness:
  "us_recv (parse_recv_data (value_bytes (response_value (VDict []) (VInteger 7))) (SocketAddrV4 [1, 2, 3, 4] 5) UdpServer_new) = RPanicked"
proof -
  let ?p = "parse_recv_data (value_bytes (response_value (VDict []) (VInteger 7))) (SocketAddrV4 [1, 2, 3, 4] 5) UdpServer_new"
  have "us_client ?p 0 = Idle"
    by (simp add: parse_recv_data_def recv_take_def UdpServer_new_def Let_def split: sum.split error.split)
  then have "udp_step ?p (set_client 0 (Check (cycle_id ?p)) (snd (next_tran_id ?p)))"
    by (rule udp_step.tran) (simp_all add: next_tran_id_def)
  then show ?thesis
    by (intro udp_integer_transaction_panics [THEN conjunct1, of UdpServer_new "VDict []" 7]) (simp_all add: UdpServer_new_def)
qed

end
