(* ===== verification/Servant_Inv.thy ===== *)
theory Servant_Inv
  imports Servant "HOL-Library.Multiset"
begin

text \<open>
  Who downloads which piece: a piece in progress is assigned to at most one connected peer, it is marked as
  being downloaded and is not finished. The invariant is shown for every operation of the servant, run as one step; the
  handlers are treated once for every callback that keeps it, and the callback of the download task
  (\<^verbatim>\<open>core/task/content.rs\<close>) is an instance.
\<close>

section \<open>The invariant\<close>

definition owned :: "nat \<Rightarrow> DefaultServant \<Rightarrow> nat set" where
  "owned pid s = dom (response_pieces (sv_peer pid s))"

definition in_progress :: "nat \<Rightarrow> DefaultServant \<Rightarrow> bool" where
  "in_progress k s \<longleftrightarrow> (\<exists>off. sv_underway s k = Some (Ing off)) \<and> \<not> bitmap_has (sv_bytefield s) k"

text \<open>\<open>excl pid\<close>: no other connected peer works on a piece of \<open>pid\<close>, also after \<open>pid\<close> has left.\<close>

definition excl :: "nat \<Rightarrow> DefaultServant \<Rightarrow> bool" where
  "excl pid s \<longleftrightarrow> (\<forall>j \<in> sv_peers s. j \<noteq> pid \<longrightarrow> owned pid s \<inter> owned j s = {})"

definition sv_inv :: "DefaultServant \<Rightarrow> bool" where
  "sv_inv s \<longleftrightarrow> (\<forall>j \<in> sv_peers s. excl j s \<and> (\<forall>k \<in> owned j s. in_progress k s))"

definition free_for :: "nat \<Rightarrow> nat \<Rightarrow> DefaultServant \<Rightarrow> bool" where
  "free_for pid k s \<longleftrightarrow> in_progress k s \<and> (\<forall>j \<in> sv_peers s. j \<noteq> pid \<longrightarrow> k \<notin> owned j s)"

definition good :: "nat \<Rightarrow> DefaultServant \<Rightarrow> bool" where
  "good pid s \<longleftrightarrow> sv_inv s \<and> excl pid s"

definition good_error :: "nat \<Rightarrow> error \<Rightarrow> DefaultServant \<Rightarrow> bool" where
  "good_error pid e s \<longleftrightarrow> good pid s \<and> e \<noteq> Panic ''no status of an assigned piece''"

lemma order_subset: "order_ok ev \<Longrightarrow> i \<in> set (ev_order ev D) \<Longrightarrow> i \<in> D"
  by (auto simp: order_ok_def)

lemmas inv_defs = good_def good_error_def sv_inv_def excl_def free_for_def in_progress_def

lemma inv_excl: "sv_inv s \<Longrightarrow> pid \<in> sv_peers s \<Longrightarrow> good pid s"
  by (simp add: inv_defs)

lemma good_inv: "good pid s \<Longrightarrow> sv_inv s"
  by (simp add: good_def)

section \<open>Updates\<close>

lemma owned_set_peer [simp]: "owned j (set_peer pid p s) = (if j = pid then dom (response_pieces p) else owned j s)"
  by (simp add: owned_def set_peer_def sv_peer_def)

lemma set_peer_fields [simp]:
  "sv_peers (set_peer pid p s) = sv_peers s" "sv_underway (set_peer pid p s) = sv_underway s"
  "sv_bytefield (set_peer pid p s) = sv_bytefield s" "sv_events (set_peer pid p s) = sv_events s"
  "sv_store (set_peer pid p s) = sv_store s" "sv_torrent (set_peer pid p s) = sv_torrent s"
  "sv_callback (set_peer pid p s) = sv_callback s" "sv_peer j (set_peer pid p s) = (if j = pid then p else sv_peer j s)"
  "sv_save_path (set_peer pid p s) = sv_save_path s" "sv_piece_finished (set_peer pid p s) = sv_piece_finished s"
  by (simp_all add: set_peer_def sv_peer_def)

text \<open>The invariant reads only the assignment of pieces.\<close>

lemma good_cong:
  assumes "sv_peers s' = sv_peers s" "sv_underway s' = sv_underway s" "sv_bytefield s' = sv_bytefield s"
    and "\<And>j. owned j s' = owned j s"
  shows "good pid s' = good pid s" "free_for pid k s' = free_for pid k s" "sv_inv s' = sv_inv s" "excl pid s' = excl pid s"
  using assms by (simp_all add: inv_defs)

lemma good_give:
  assumes "good pid s" and "\<And>k. k \<in> dom (response_pieces p) - owned pid s \<Longrightarrow> free_for pid k s"
  shows "good pid (set_peer pid p s)"
proof -
  have 1: "x \<notin> owned j s" if "j \<in> sv_peers s" "j \<noteq> pid" "x \<in> dom (response_pieces p)" for x j
    using assms that by (cases "x \<in> owned pid s") (auto simp: inv_defs)
  have 2: "in_progress x s" if "pid \<in> sv_peers s" "x \<in> dom (response_pieces p)" for x
    using assms that by (cases "x \<in> owned pid s") (auto simp: inv_defs)
  let ?s = "set_peer pid p s"
  have ex: "excl j ?s" if "j \<in> sv_peers s \<or> j = pid" for j
  proof (cases "j = pid")
    case True
    then show ?thesis using 1 by (auto simp: excl_def)
  next
    case False
    then have "excl j s" using that assms(1) by (simp add: good_def sv_inv_def)
    then have "owned j s \<inter> owned i ?s = {}" if "i \<in> sv_peers s" "i \<noteq> j" for i
      using that False 1 [of j] \<open>j \<in> sv_peers s \<or> j = pid\<close> by (cases "i = pid") (auto simp: excl_def simp del: domIff)
    then show ?thesis using False by (simp add: excl_def)
  qed
  have "in_progress k ?s" if "j \<in> sv_peers s" "k \<in> owned j ?s" for j k
    using assms(1) that 2 by (cases "j = pid") (auto simp: good_def sv_inv_def in_progress_def)
  then show ?thesis using ex by (simp add: good_def sv_inv_def)
qed

text \<open>Peers leave, and peers give up pieces.\<close>

lemma good_mono:
  assumes "good pid s" and "sv_peers s' \<subseteq> sv_peers s" and "\<And>j. owned j s' \<subseteq> owned j s"
    and "\<And>j k. j \<in> sv_peers s' \<Longrightarrow> k \<in> owned j s' \<Longrightarrow> in_progress k s \<Longrightarrow> in_progress k s'"
  shows "good pid s'"
proof -
  have "excl j s'" if "excl j s" for j
    unfolding excl_def
  proof (intro ballI impI)
    fix i assume "i \<in> sv_peers s'" "i \<noteq> j"
    then have "owned j s \<inter> owned i s = {}" using that assms(2) by (auto simp: excl_def)
    then show "owned j s' \<inter> owned i s' = {}" using assms(3) [of i] assms(3) [of j] by blast
  qed
  moreover have "in_progress k s'" if "j \<in> sv_peers s'" "k \<in> owned j s'" for j k
  proof (rule assms(4) [OF that])
    have "j \<in> sv_peers s" "k \<in> owned j s" using that assms(2) assms(3) [of j] by blast+
    then show "in_progress k s" using assms(1) by (simp add: good_def sv_inv_def)
  qed
  moreover have "excl j s" if "j \<in> sv_peers s'" for j
    using that assms(1,2) by (auto simp: good_def sv_inv_def)
  ultimately show ?thesis using assms(1) by (simp add: good_def sv_inv_def)
qed

lemma owned_set_peer_subset: "dom (response_pieces p) \<subseteq> owned v s \<Longrightarrow> owned j (set_peer v p s) \<subseteq> owned j s"
  by simp

lemma good_shrink: "good pid s \<Longrightarrow> dom (response_pieces p) \<subseteq> owned v s \<Longrightarrow> good pid (set_peer v p s)"
  by (rule good_mono [of pid s]) (simp_all only: owned_set_peer_subset set_peer_fields subset_refl, simp add: in_progress_def)

lemma free_for_shrink: "free_for pid k s \<Longrightarrow> dom (response_pieces p) \<subseteq> owned v s \<Longrightarrow> free_for pid k (set_peer v p s)"
  using owned_set_peer_subset [of p v s] by (simp only: free_for_def in_progress_def set_peer_fields) (simp only: subset_iff, blast)

text \<open>Changing the record of a piece nobody works on.\<close>

lemma good_unowned:
  assumes "good pid s" and "\<And>j. j \<in> sv_peers s \<Longrightarrow> k \<notin> owned j s"
    and "sv_peers s' = sv_peers s" "\<And>j. owned j s' = owned j s"
    and "\<And>i. i \<noteq> k \<Longrightarrow> sv_underway s' i = sv_underway s i"
    and "\<And>i. i \<noteq> k \<Longrightarrow> bitmap_has (sv_bytefield s') i = bitmap_has (sv_bytefield s) i"
  shows "good pid s'"
proof -
  have "in_progress i s'" if "j \<in> sv_peers s" "i \<in> owned j s" for i j
    using assms that by (cases "i = k") (auto simp: inv_defs)
  then show ?thesis using assms(1,3,4) by (simp add: good_def sv_inv_def excl_def)
qed

section \<open>Operations\<close>

lemma wp_with_peer [wp_simps]: "wp (with_peer v f) Q E = (\<lambda>s. Q () (set_peer v (f (sv_peer v s)) s))"
  by (simp add: with_peer_def wp_simps)

lemma wp_with_peer_result [wp_simps]:
  "wp (with_peer_result v f) Q E = (\<lambda>s. case f (sv_peer v s) of Inl e \<Rightarrow> E e s | Inr p \<Rightarrow> Q () (set_peer v p s))"
  by (simp add: fun_eq_iff with_peer_result_def wp_simps split: sum.split)

lemma wp_notify [wp_simps]: "wp (notify e) Q E = (\<lambda>s. Q () (s\<lparr> sv_events := sv_events s @ [e] \<rparr>))"
  by (simp add: notify_def wp_simps)

lemma wp_callback [wp_simps]:
  "wp callback Q E = (\<lambda>s. case sv_callback s of None \<Rightarrow> E (Panic ''callback not init'') s | Some b \<Rightarrow> Q b s)"
  by (simp add: fun_eq_iff callback_def wp_simps split: option.split)

lemma owned_updates [simp]:
  "owned j (s\<lparr> sv_events := es \<rparr>) = owned j s" "owned j (s\<lparr> sv_piece_finished := b \<rparr>) = owned j s"
  "owned j (s\<lparr> sv_store := st \<rparr>) = owned j s" "owned j (s\<lparr> sv_callback := c \<rparr>) = owned j s"
  "owned j (s\<lparr> sv_underway := u \<rparr>) = owned j s" "owned j (s\<lparr> sv_bytefield := f \<rparr>) = owned j s"
  "owned j (s\<lparr> sv_peers := ps \<rparr>) = owned j s"
  by (simp_all add: owned_def sv_peer_def)

text \<open>A notification at the end of a method.\<close>

lemma wp_notify_alive:
  assumes "Q () s" and "Q () (s\<lparr> sv_events := sv_events s @ [e] \<rparr>)" and "E (Panic ''callback not init'') s"
  shows "wp (eff_bind callback (\<lambda>alive. if alive then notify e else ret ())) Q E s"
  using assms by (simp add: wp_simps split: option.split)

text \<open>Updates the invariant does not see.\<close>

lemma good_updates [simp]:
  "good pid (s\<lparr> sv_events := es \<rparr>) = good pid s" "good pid (s\<lparr> sv_piece_finished := b \<rparr>) = good pid s"
  "good pid (s\<lparr> sv_store := st \<rparr>) = good pid s" "good pid (s\<lparr> sv_callback := c \<rparr>) = good pid s"
  "free_for pid k (s\<lparr> sv_events := es \<rparr>) = free_for pid k s" "sv_inv (s\<lparr> sv_events := es \<rparr>) = sv_inv s"
  by (rule good_cong; simp add: owned_def sv_peer_def)+

lemma good_error_iff [simp]:
  "good_error pid (Err m) s = good pid s" "m \<noteq> ''no status of an assigned piece'' \<Longrightarrow> good_error pid (Panic m) s = good pid s"
  by (simp_all add: good_error_def)

lemma good_same: "good pid s \<Longrightarrow> response_pieces p = response_pieces (sv_peer v s) \<Longrightarrow> good pid (set_peer v p s)"
  by (rule good_shrink) (simp_all add: owned_def)

lemma free_for_same: "free_for pid k s \<Longrightarrow> response_pieces p = response_pieces (sv_peer v s) \<Longrightarrow> free_for pid k (set_peer v p s)"
  by (rule free_for_shrink) (simp_all add: owned_def)

text \<open>Errors of the operations on a peer.\<close>

lemma reset_origin_ok:
  assumes "reset_request_piece_origin bs k off len p = Inr p'"
  shows "dom (response_pieces p') \<subseteq> insert k (dom (response_pieces p))"
  using assms by (auto simp: reset_request_piece_origin_def insert_response_pieces_def and_then_Inr_iff split: if_splits option.splits)

lemma reset_origin_error: "reset_request_piece_origin bs k off len p = Inl e \<Longrightarrow> e = Panic ''attempt to divide by zero''"
  by (auto simp: reset_request_piece_origin_def insert_response_pieces_def and_then_def Piece_new_def block_offset_idx_def Let_def
      split: if_splits option.splits sum.splits)

lemma good_reset:
  assumes "good pid s" and "k \<in> owned pid s \<or> free_for pid k s"
  shows "wp (with_peer_result pid (reset_request_piece_origin bs k off len)) (\<lambda>_ s'. good pid s' \<and>
      (\<forall>i. free_for pid i s \<longrightarrow> free_for pid i s') \<and> owned pid s \<subseteq> owned pid s') (good_error pid) s"
proof -
  let ?f = "reset_request_piece_origin bs k off len (sv_peer pid s)"
  show ?thesis
  proof (cases ?f)
    case (Inl e)
    then show ?thesis using assms(1) reset_origin_error [OF Inl] by (simp add: wp_simps)
  next
    case (Inr p)
    have sub: "dom (response_pieces p) \<subseteq> insert k (owned pid s)" using reset_origin_ok [OF Inr] by (simp add: owned_def)
    have sup: "owned pid s \<subseteq> dom (response_pieces p)"
      using Inr by (auto simp: owned_def reset_request_piece_origin_def insert_response_pieces_def and_then_Inr_iff split: if_splits option.splits)
    have "good pid (set_peer pid p s)"
      using assms sub by (intro good_give) auto
    moreover have "free_for pid i (set_peer pid p s)" if "free_for pid i s" for i
      using that by (simp add: free_for_def in_progress_def)
    ultimately show ?thesis using Inr sup by (simp add: wp_simps)
  qed
qed

lemma set_pause_fields [simp]:
  "sv_peers (set_piece_status_pause k s) = sv_peers s" "sv_bytefield (set_piece_status_pause k s) = sv_bytefield s"
  "owned j (set_piece_status_pause k s) = owned j s" "i \<noteq> k \<Longrightarrow> sv_underway (set_piece_status_pause k s) i = sv_underway s i"
  "sv_callback (set_piece_status_pause k s) = sv_callback s"
  by (simp_all add: set_piece_status_pause_def owned_def sv_peer_def split: option.splits)

lemma good_pause:
  assumes "\<And>j. j \<in> sv_peers s \<Longrightarrow> k \<notin> owned j s"
  shows "good pid s \<Longrightarrow> good pid (set_piece_status_pause k s)"
  using assms by (rule good_unowned [rotated 1, where k = k]) simp_all

text \<open>A peer leaves: its pieces are released, and what the other peers work on is not touched.\<close>

lemma good_peer_exit:
  assumes "order_ok ev" and "good pid s"
  shows "wp (peer_exit ev v reason) (\<lambda>_ s'. good pid s' \<and> sv_peers s' = sv_peers s - {v}
      \<and> (\<forall>j. owned j s' = owned j s) \<and> (\<forall>i. i \<notin> owned v s \<longrightarrow> free_for pid i s \<longrightarrow> free_for pid i s')) (good_error pid) s"
proof (cases "v \<in> sv_peers s")
  case False
  then show ?thesis using assms by (simp add: peer_exit_def wp_simps)
next
  case True
  define s0 where "s0 = s\<lparr> sv_peers := sv_peers s - {v} \<rparr>"
  define s1 where "s1 = set_peer v (shutdown (sv_peer v s0)) s0"
  have s1: "sv_peers s1 = sv_peers s - {v}" "sv_underway s1 = sv_underway s" "sv_bytefield s1 = sv_bytefield s" "owned j s1 = owned j s" for j
    by (simp_all add: s1_def s0_def) (simp add: owned_def sv_peer_def shutdown_def)
  have "good pid s1" using assms(2) by (rule good_mono) (simp_all add: s1 in_progress_def Diff_subset)
  have ex: "i \<notin> owned j s" if "j \<in> sv_peers s - {v}" "i \<in> owned v s" for i j
    using that True assms(2) by (auto simp: good_def sv_inv_def excl_def)
  let ?I = "\<lambda>s'. good pid s' \<and> sv_peers s' = sv_peers s - {v} \<and> (\<forall>j. owned j s' = owned j s)
    \<and> (\<forall>i. i \<notin> owned v s \<longrightarrow> free_for pid i s \<longrightarrow> free_for pid i s')"
  have I1: "?I s1" using \<open>good pid s1\<close> s1 by (auto simp: free_for_def in_progress_def)
  have each: "wp (eff_each (\<lambda>i. modify (set_piece_status_pause i)) (ev_order ev (owned v s))) (\<lambda>_. ?I) (good_error pid) s1"
  proof (rule wp_each)
    fix i s' assume "i \<in> set (ev_order ev (owned v s))" and I: "?I s'"
    from order_subset [OF assms(1) this(1)] have i: "i \<in> owned v s" .
    have "good pid (set_piece_status_pause i s')" using I ex [OF _ i] by (intro good_pause) simp_all
    moreover have "free_for pid k (set_piece_status_pause i s')" if "k \<notin> owned v s" "free_for pid k s" for k
    proof -
      have "free_for pid k s'" "k \<noteq> i" using I that i by blast+
      then show ?thesis by (simp add: free_for_def in_progress_def)
    qed
    ultimately show "wp (modify (set_piece_status_pause i)) (\<lambda>_. ?I) (good_error pid) s'" using I by (simp add: wp_simps)
  qed (rule I1)
  have "owned v s1 = dom (response_pieces (sv_peer v s1))" by (simp add: owned_def)
  then have "wp (eff_each (\<lambda>i. modify (set_piece_status_pause i)) (ev_order ev (dom (response_pieces (sv_peer v s1))))) (\<lambda>_. ?I) (good_error pid) s1"
    using each s1(4) by simp
  then have "wp (eff_each (\<lambda>i. modify (set_piece_status_pause i)) (ev_order ev (dom (response_pieces (sv_peer v s1)))))
      (\<lambda>_. wp (eff_bind callback (\<lambda>alive. if alive then notify (OnPeerExit v reason) else ret ())) (\<lambda>_. ?I) (good_error pid)) (good_error pid) s1"
    by (rule wp_mono) (simp_all add: wp_notify_alive)
  then show ?thesis
    unfolding peer_exit_def wp_bind wp_basic wp_with_peer wp_if s1_def s0_def by (simp only: True not_True_eq_False if_False)
qed

lemma wp_peer_bw:
  assumes "good pid s"
  shows "wp (peer_bw ev v) (\<lambda>_ s'. good pid s' \<and> sv_peers s' = sv_peers s) (good_error pid) s"
proof (cases "Dashbord_bw (ev_now ev) (pe_dashbord (sv_peer v s))")
  case (Inl e)
  then have "e = Panic ''attempt to divide by zero''"
    by (auto simp: Dashbord_bw_def TimeFixeQueue_avg_def Let_def and_then_def split: if_splits sum.splits)
  then show ?thesis using assms Inl by (simp add: wp_def peer_bw_def)
next
  case (Inr x)
  then show ?thesis using assms by (cases x) (simp add: wp_def peer_bw_def good_same)
qed

lemma wp_peer_bws:
  "good pid s \<Longrightarrow> wp (peer_bws ev vs) (\<lambda>r s'. good pid s' \<and> sv_peers s' = sv_peers s \<and> map snd r = vs) (good_error pid) s"
proof (induction vs arbitrary: s)
  case (Cons v vs)
  have "wp (peer_bws ev vs) (\<lambda>r s''. good pid s'' \<and> sv_peers s'' = sv_peers s \<and> map snd r = vs) (good_error pid) s'"
    if "good pid s'" "sv_peers s' = sv_peers s" for s'
    using Cons.IH [OF that(1)] that(2) by simp
  then show ?case
    by (simp add: wp_simps) (rule wp_mono [OF wp_peer_bw [OF Cons.prems]], auto elim!: wp_mono)
qed (simp add: wp_simps)

text \<open>
  Taking pieces from \<open>v\<close>: every piece has a status, and the pieces taken are free for \<open>pid\<close> afterwards.
\<close>

lemma wp_loot:
  assumes "v \<noteq> pid"
  shows "good pid s \<Longrightarrow> (\<And>i. i \<in> set is \<Longrightarrow> in_progress i s \<and> (\<forall>j \<in> sv_peers s. j \<noteq> v \<longrightarrow> i \<notin> owned j s))
    \<Longrightarrow> (\<And>i off. (i, off) \<in> set free \<Longrightarrow> free_for pid i s) \<Longrightarrow>
    wp (loot pid v is free) (\<lambda>r s'. good pid s' \<and> sv_peers s' = sv_peers s \<and> (\<forall>(i, off) \<in> set r. free_for pid i s')) (good_error pid) s"
proof (induction "is" arbitrary: s free)
  case Nil
  then show ?case by (auto simp: wp_simps)
next
  case (Cons i "is")
  show ?case
  proof (cases "bitmap_has (pe_op_bitfield (sv_peer pid s)) i")
    case False
    then show ?thesis using Cons.IH [OF Cons.prems(1) _ Cons.prems(3)] Cons.prems(2) by (simp add: wp_simps)
  next
    case True
    have i: "in_progress i s" "j \<in> sv_peers s \<Longrightarrow> j \<noteq> v \<Longrightarrow> i \<notin> owned j s" for j using Cons.prems(2) [of i] by auto
    then obtain off where off: "sv_underway s i = Some (Ing off)" by (auto simp: in_progress_def)
    let ?p = "(sv_peer v s)\<lparr> request_pieces := (request_pieces (sv_peer v s))(i := None),
      response_pieces := (response_pieces (sv_peer v s))(i := None) \<rparr>"
    let ?s = "set_peer v ?p s"
    have sub: "dom (response_pieces ?p) \<subseteq> owned v s" and notin: "i \<notin> owned v ?s" by (auto simp: owned_def)
    have "good pid ?s" using Cons.prems(1) sub by (rule good_shrink)
    moreover have "in_progress k ?s \<and> (\<forall>j \<in> sv_peers ?s. j \<noteq> v \<longrightarrow> k \<notin> owned j ?s)" if "k \<in> set is" for k
      using Cons.prems(2) [of k] that by (simp add: in_progress_def)
    moreover have "free_for pid k ?s" if "(k, off') \<in> set (free @ [(i, off)])" for k off'
    proof (cases "(k, off') \<in> set free")
      case True
      then show ?thesis using Cons.prems(3) sub by (intro free_for_shrink) auto
    next
      case False
      then have "k = i" using that by simp
      then show ?thesis using i notin by (simp add: free_for_def in_progress_def)
    qed
    ultimately have "wp (loot pid v is (free @ [(i, off)])) (\<lambda>r s'. good pid s' \<and> sv_peers s' = sv_peers ?s
        \<and> (\<forall>(i, off) \<in> set r. free_for pid i s')) (good_error pid) ?s"
      by (rule Cons.IH)
    then show ?thesis using True off by (simp add: wp_simps get_piece_status_idx_def)
  qed
qed

lemma wp_give_all:
  "good pid s \<Longrightarrow> (\<And>i off. (i, off) \<in> set free \<Longrightarrow> i \<in> owned pid s \<or> free_for pid i s) \<Longrightarrow>
    wp (eff_each (\<lambda>(i, off). with_peer_result pid (reset_request_piece_origin bs i off (Torrent_piece_length t i))) free)
      (\<lambda>_. good pid) (good_error pid) s"
proof (induction free arbitrary: s)
  case (Cons x free)
  obtain i off where x: "x = (i, off)" by fastforce
  have "i \<in> owned pid s \<or> free_for pid i s" using Cons.prems(2) [of i off] x by simp
  note reset = good_reset [OF Cons.prems(1) this]
  have rest: "wp (eff_each (\<lambda>(i, off). with_peer_result pid (reset_request_piece_origin bs i off (Torrent_piece_length t i))) free)
      (\<lambda>_. good pid) (good_error pid) s'"
    if "good pid s' \<and> (\<forall>i. free_for pid i s \<longrightarrow> free_for pid i s') \<and> owned pid s \<subseteq> owned pid s'" for s'
    using that Cons.prems(2) by (intro Cons.IH) (auto simp del: split_paired_All)
  show ?case unfolding eff_each.simps wp_bind x prod.case by (rule wp_mono [OF reset rest])
qed (simp add: wp_simps)

lemma wp_free_loop:
  assumes "order_ok ev"
  shows "good pid s \<Longrightarrow> snd ` set vs \<subseteq> sv_peers s - {pid} \<Longrightarrow> distinct (map snd vs) \<Longrightarrow>
    wp (free_loop ev t pid bw vs) (\<lambda>_. good pid) (good_error pid) s"
proof (induction vs arbitrary: s)
  case (Cons x vs)
  obtain b v where x: "x = (b, v)" by fastforce
  have v: "v \<in> sv_peers s" "v \<noteq> pid" "v \<notin> snd ` set vs" "snd ` set vs \<subseteq> sv_peers s - {pid}" "distinct (map snd vs)"
    using Cons.prems(2,3) x by simp_all
  let ?rest = "\<lambda>free. if free \<noteq> [] then
      eff_bind (eff_each (\<lambda>(i, off). with_peer_result pid
        (reset_request_piece_origin (ev_block_size ev) i off (Torrent_piece_length t i))) free) (\<lambda>_. ret True)
    else free_loop ev t pid bw vs"
  have rest: "wp (?rest free) (\<lambda>_. good pid) (good_error pid) s'"
    if "good pid s'" "sv_peers s - {v} \<subseteq> sv_peers s'" "\<And>i off. (i, off) \<in> set free \<Longrightarrow> free_for pid i s'" for free s'
  proof (cases "free = []")
    case True
    have "snd ` set vs \<subseteq> sv_peers s' - {pid}" using v(3,4) that(2) by blast
    then show ?thesis using True Cons.IH [OF that(1) _ v(5)] by simp
  next
    case False
    then show ?thesis using wp_give_all [OF that(1), of free] that(3) by (simp add: wp_simps)
  qed
  have exit: "wp (eff_bind (if \<not> busy then peer_exit ev v NotHasJob else ret ()) (\<lambda>_. ?rest free)) (\<lambda>_. good pid) (good_error pid) s'"
    if "good pid s'" "sv_peers s' = sv_peers s" "\<And>i off. (i, off) \<in> set free \<Longrightarrow> free_for pid i s'" for free s' busy
  proof (cases busy)
    case True
    then show ?thesis using rest [OF that(1)] that(2,3) by (simp add: wp_simps(1) wp_bind Diff_subset)
  next
    case False
    have notin: "i \<notin> owned v s'" if "(i, off) \<in> set free" for i off
      using \<open>\<And>i off. (i, off) \<in> set free \<Longrightarrow> free_for pid i s'\<close> [OF that] v(1,2) \<open>sv_peers s' = sv_peers s\<close>
      by (auto simp: free_for_def)
    have "wp (peer_exit ev v NotHasJob) (\<lambda>_. wp (?rest free) (\<lambda>_. good pid) (good_error pid)) (good_error pid) s'"
      by (rule wp_mono [OF good_peer_exit [OF assms that(1)]]) (rule rest; use that notin in blast)+
    then show ?thesis using False by (simp add: wp_bind)
  qed
  have "wp (loot pid v (ev_order ev (owned v s)) []) (\<lambda>r s'. good pid s' \<and> sv_peers s' = sv_peers s
      \<and> (\<forall>(i, off) \<in> set r. free_for pid i s')) (good_error pid) s"
  proof (rule wp_loot [OF v(2) Cons.prems(1)])
    fix i assume "i \<in> set (ev_order ev (owned v s))"
    then have "i \<in> owned v s" using order_subset [OF assms] by blast
    then show "in_progress i s \<and> (\<forall>j \<in> sv_peers s. j \<noteq> v \<longrightarrow> i \<notin> owned j s)"
      using v(1) Cons.prems(1) by (auto simp: good_def sv_inv_def excl_def)
  qed simp
  then have "wp (loot pid v (ev_order ev (owned v s)) []) (\<lambda>free s'. wp (eff_bind (if \<not> has_transfer_data (sv_peer v s') then peer_exit ev v NotHasJob else ret ())
      (\<lambda>_. ?rest free)) (\<lambda>_. good pid) (good_error pid) s') (good_error pid) s"
    by (rule wp_mono) (rule exit; auto)+
  then show ?case
    using Cons.prems(1) by (simp only: x free_loop.simps wp_bind wp_basic wp_if owned_def) simp
qed (simp add: wp_simps)

lemma wp_try_free_slow_piece:
  assumes "order_ok ev" and "good pid s"
  shows "wp (try_free_slow_piece ev t pid) (\<lambda>_. good pid) (good_error pid) s"
proof -
  let ?vs = "ev_order ev (sv_peers s - {pid})"
  have vs: "distinct ?vs" "set ?vs \<subseteq> sv_peers s - {pid}" using assms(1) by (simp_all add: order_ok_def)
  have last: "wp (free_loop ev t pid bw (sort_key fst r)) (\<lambda>_. good pid) (good_error pid) s'"
    if "good pid s'" "sv_peers s' = sv_peers s" "map snd r = ?vs" for bw r s'
  proof (rule wp_free_loop [OF assms(1) that(1)])
    have "mset (map snd (sort_key fst r)) = mset (map snd r)" by (simp only: mset_map mset_sort)
    then show "distinct (map snd (sort_key fst r))" using vs(1) that(3) by (metis mset_eq_imp_distinct_iff)
    have "snd ` set (sort_key fst r) = set (map snd r)" by simp
    then show "snd ` set (sort_key fst r) \<subseteq> sv_peers s' - {pid}" using vs(2) that(2,3) by simp
  qed
  have "wp (peer_bw ev pid) (\<lambda>bw. wp (free_loop ev t pid bw (sort_key fst r)) (\<lambda>_. good pid) (good_error pid)) (good_error pid) s'"
    if "good pid s'" "sv_peers s' = sv_peers s" "map snd r = ?vs" for r s'
    by (rule wp_mono [OF wp_peer_bw [OF that(1)]]) (use that last in auto)
  then have "wp (peer_bws ev ?vs) (\<lambda>r. wp (peer_bw ev pid) (\<lambda>bw. wp (free_loop ev t pid bw (sort_key fst r))
      (\<lambda>_. good pid) (good_error pid)) (good_error pid)) (good_error pid) s"
    by (intro wp_mono [OF wp_peer_bws [OF assms(2)]]) auto
  then show ?thesis by (simp add: try_free_slow_piece_def wp_bind wp_basic)
qed

lemma apply_download_piece_ok:
  assumes "apply_download_piece i s = (r, s')" and "good pid s"
  shows "good pid s'" and "r = Some (k, off) \<Longrightarrow> k = i \<and> free_for pid k s'"
proof -
  have "good pid s' \<and> (\<forall>k off. r = Some (k, off) \<longrightarrow> k = i \<and> free_for pid k s')"
  proof (cases r)
    case None
    then have "s' = s" using assms(1)
      by (auto simp: apply_download_piece_def Let_def split: if_splits option.splits PieceStatus.splits prod.splits)
    then show ?thesis using None assms(2) by simp
  next
    case (Some x)
    then obtain off where nbit: "\<not> bitmap_has (sv_bytefield s) i" and ning: "\<And>o'. sv_underway s i \<noteq> Some (Ing o')"
      and x: "x = (i, off)" and s': "s' = s\<lparr> sv_underway := (sv_underway s)(i \<mapsto> Ing off) \<rparr>"
      using assms(1)
      by (auto simp: apply_download_piece_def bitmap_has_def Let_def split: if_splits option.splits PieceStatus.splits prod.splits)
    have un: "i \<notin> owned j s" if "j \<in> sv_peers s" for j
      using that ning assms(2) by (auto simp: good_def sv_inv_def in_progress_def)
    have "good pid s'" using assms(2) un by (rule good_unowned) (simp_all add: s')
    moreover have "free_for pid i s'" using un nbit by (simp add: free_for_def in_progress_def s')
    ultimately show ?thesis using Some x by simp
  qed
  then show "good pid s'" and "r = Some (k, off) \<Longrightarrow> k = i \<and> free_for pid k s'" by blast+
qed

lemma wp_apply_download:
  assumes "good pid s"
  shows "wp (\<lambda>s. case apply_download_piece i s of (r, s') \<Rightarrow> Some (Inr r, s'))
    (\<lambda>r s'. good pid s' \<and> (\<forall>k off. r = Some (k, off) \<longrightarrow> k = i \<and> free_for pid k s')) (good_error pid) s"
proof -
  obtain r s' where e: "apply_download_piece i s = (r, s')" by fastforce
  show ?thesis using apply_download_piece_ok [OF e assms] by (auto simp: wp_def e)
qed

lemma wp_take_new_piece: "good pid s \<Longrightarrow> wp (take_new_piece ev t pid is) (\<lambda>_. good pid) (good_error pid) s"
proof (induction "is" arbitrary: s)
  case (Cons i "is")
  let ?rest = "\<lambda>r. case r of
      None \<Rightarrow> take_new_piece ev t pid is
    | Some (i, off) \<Rightarrow>
        eff_bind (with_peer_result pid (reset_request_piece_origin (ev_block_size ev) i off (Torrent_piece_length t i))) (\<lambda>_.
        eff_bind (with_peer pid (\<lambda>p. case request_pieces p i of
            None \<Rightarrow> p
          | Some v \<Rightarrow> p\<lparr> request_pieces := (request_pieces p)(i \<mapsto> wrap32 (v + ev_block_size ev)) \<rparr>)) (\<lambda>_.
        ret (Some (i, off))))"
  have rest: "wp (?rest r) (\<lambda>_. good pid) (good_error pid) s'"
    if "good pid s'" "\<And>k off. r = Some (k, off) \<Longrightarrow> free_for pid k s'" for r s'
  proof (cases r)
    case None
    then show ?thesis using Cons.IH [OF that(1)] by simp
  next
    case (Some x)
    obtain k off where x: "x = (k, off)" by fastforce
    have "free_for pid k s'" using that(2) Some x by simp
    then have "wp (with_peer_result pid (reset_request_piece_origin (ev_block_size ev) k off (Torrent_piece_length t k)))
      (\<lambda>_ s'. good pid (set_peer pid (case request_pieces (sv_peer pid s') k of
            None \<Rightarrow> sv_peer pid s'
          | Some v \<Rightarrow> (sv_peer pid s')\<lparr> request_pieces := (request_pieces (sv_peer pid s'))(k \<mapsto> wrap32 (v + ev_block_size ev)) \<rparr>) s'))
      (good_error pid) s'"
      by (intro wp_mono [OF good_reset [OF that(1)]]) (auto intro!: good_same split: option.split)
    then show ?thesis using Some x by (simp add: wp_bind wp_basic wp_with_peer)
  qed
  have "wp (eff_bind (\<lambda>s. case apply_download_piece i s of (r, s') \<Rightarrow> Some (Inr r, s')) ?rest) (\<lambda>_. good pid) (good_error pid) s"
    unfolding wp_bind by (rule wp_mono [OF wp_apply_download [OF Cons.prems]]) (use rest in auto)
  then show ?case using Cons.IH [OF Cons.prems] by (simp only: take_new_piece.simps wp_bind wp_basic wp_if) simp
qed (simp add: wp_simps)

lemma wp_try_find: "good pid s \<Longrightarrow> wp (try_find_downloadable_peice ev t pid) (\<lambda>_. good pid) (good_error pid) s"
  by (simp add: try_find_downloadable_peice_def wp_simps wp_take_new_piece Let_def good_same split: option.split)

lemma wp_check_finished: "good pid s \<Longrightarrow> wp check_piece_download_finished (\<lambda>_. good pid) (good_error pid) s"
  by (simp add: check_piece_download_finished_def wp_simps Let_def split: option.split)

lemma Peer_request_piece_error: "Peer_request_piece i off n p = Inl e \<Longrightarrow> e = Err ''peer closed''"
  by (auto simp: Peer_request_piece_def check_runnable_def and_then_def split: if_splits)

lemma Peer_request_piece_keeps: "Peer_request_piece i off n p = Inr p' \<Longrightarrow> response_pieces p' = response_pieces p"
  by (auto simp: Peer_request_piece_def check_runnable_def Peer_send_def and_then_def split: if_splits)

text \<open>The three methods that call each other, by induction on the bound.\<close>

lemma wp_request:
  assumes "order_ok ev"
  shows "good pid s \<Longrightarrow> wp (request_piece n ev pid) (\<lambda>_. good pid) (good_error pid) s"
    and "good pid s \<Longrightarrow> wp (request_loop n ev t pid) (\<lambda>_. good pid) (good_error pid) s"
    and "good pid s \<Longrightarrow> wp (try_loot_slow_peer n ev t pid) (\<lambda>_. good pid) (good_error pid) s"
proof (induction n arbitrary: s t)
  case 0
  { case 1 show ?case by (simp add: wp_def) next case 2 show ?case by (simp add: wp_def) next case 3 show ?case by (simp add: wp_def) }
next
  case (Suc n)
  { case 1
    then show ?case using Suc.IH(2) by (simp add: wp_simps split: option.split)
  next
    case 2
    have send: "wp (with_peer_result pid (Peer_request_piece i off len)) (\<lambda>_ s'. good pid (set_peer pid
        ((sv_peer pid s')\<lparr> pe_dashbord := Dashbord_send (pe_dashbord (sv_peer pid s')) \<rparr>) s')) (good_error pid) s'"
      if "good pid s'" for i off len s'
      using that by (auto simp: wp_with_peer_result good_same dest!: Peer_request_piece_error Peer_request_piece_keeps split: sum.split)
    have find: "wp (try_find_downloadable_peice ev t pid) (\<lambda>_. good pid) (good_error pid) s" using 2 by (rule wp_try_find)
    have req: "wp (eff_bind (with_peer_result pid (Peer_request_piece i off len)) (\<lambda>_.
        eff_bind (with_peer pid (\<lambda>p. p\<lparr> pe_dashbord := Dashbord_send (pe_dashbord p) \<rparr>)) (\<lambda>_. request_loop n ev t pid)))
        (\<lambda>_. good pid) (good_error pid) s'" if "good pid s'" for i off len s'
      unfolding wp_bind wp_with_peer by (rule wp_mono [OF send [OF that] Suc.IH(2)])
    have again: "wp (eff_bind (eff_each (\<lambda>(i, off). with_peer_result pid
        (reset_request_piece_origin (ev_block_size ev) i off (Torrent_piece_length t i)))
        (map (\<lambda>i. (i, p_block_offset (the (response_pieces (sv_peer pid s') i)))) (ev_order ev (dom (response_pieces (sv_peer pid s')))))) (\<lambda>_.
        request_loop n ev t pid)) (\<lambda>_. good pid) (good_error pid) s'" if "good pid s'" for s'
      unfolding wp_bind
      by (rule wp_mono [OF wp_give_all [OF that] Suc.IH(2)]) (auto simp: owned_def dest!: order_subset [OF assms])
    show ?case
      unfolding request_loop.simps wp_bind wp_basic wp_if
      using 2 by (auto intro!: wp_mono [OF find] simp: Let_def wp_bind wp_basic
          req [unfolded wp_bind wp_with_peer] again [unfolded wp_bind] Suc.IH(3) wp_with_peer split: option.split)
  next
    case 3
    have free: "wp (try_free_slow_piece ev t pid) (\<lambda>_. good pid) (good_error pid) s'" if "good pid s'" for s'
      using assms that by (rule wp_try_free_slow_piece)
    have exit: "wp (peer_exit ev pid NotHasJob) (\<lambda>_. good pid) (good_error pid) s'" if "good pid s'" for s'
      by (rule wp_mono [OF good_peer_exit [OF assms that]]) simp_all
    show ?case
      unfolding try_loot_slow_peer.simps wp_bind
      by (rule wp_mono [OF wp_check_finished [OF 3]])
        (auto intro!: wp_mono [OF free] Suc.IH(1) exit simp: wp_bind wp_basic wp_if wp_callback wp_notify split: option.split)
  }
qed

section \<open>Writing and checking\<close>

text \<open>The failures of the storage and of the torrent are not the missing status.\<close>

abbreviation no_status :: error where
  "no_status \<equiv> Panic ''no status of an assigned piece''"

lemma FileWriter_write_error: "FileWriter_write io off data (fw, fs) = (Inl e, r) \<Longrightarrow> e \<noteq> no_status"
  by (auto simp: FileWriter_write_def get_file_def Let_def split: if_splits sum.splits option.splits)

lemma flush_loop_error: "flush_loop io it d s = (Inl e, s') \<Longrightarrow> e \<noteq> no_status"
  by (induction it arbitrary: d s)
    (auto simp: FileWriter_flush_def Let_def split: option.splits if_splits sum.splits prod.splits)

lemma Store_write_error: "Store_write io it lim bi data s = (Inl e, s') \<Longrightarrow> e \<noteq> no_status"
  by (auto simp: Store_write_def Let_def flush_all_def dest: FileWriter_write_error flush_loop_error
      split: prod.splits sum.splits if_splits)

lemma write_blocks_error: "write_blocks io it lim bis data s = (Inl e, s') \<Longrightarrow> e \<noteq> no_status"
  by (induction bis arbitrary: data s) (auto dest: Store_write_error split: if_splits prod.splits sum.splits)

lemma checkout_error:
  assumes "checkout io chunk h bis hash s = Some (Inl e, s')"
  shows "\<not> panics (Inl e :: unit result)"
proof -
  have "\<not> panics (Inl e :: unit result)" if "checkout_loop io chunk bis acc s = Some (Inl e, s')" for bis acc s
    using that
    by (induction bis arbitrary: acc s)
      (auto simp: Store_flush_def FileWriter_flush_def Let_def split: option.splits if_splits prod.splits sum.splits)
  then show ?thesis using assms by (auto simp: checkout_def split: option.splits sum.splits prod.splits)
qed

lemma find_file_error: "find_file_of_piece_index i root p off ln = Inl e \<Longrightarrow> e \<noteq> no_status"
  by (auto simp: find_file_of_piece_index_def Let_def split: if_splits)

lemma wp_with_store:
  assumes "\<And>r st. f (sv_store s) = Some (r, st) \<Longrightarrow>
    (case r of Inl e \<Rightarrow> E e (s\<lparr> sv_store := st \<rparr>) | Inr x \<Rightarrow> Q x (s\<lparr> sv_store := st \<rparr>))"
  shows "wp (with_store f) Q E s"
  using assms by (auto simp: wp_def with_store_def split: option.splits)

lemma mark_fields [simp]:
  "sv_peers (mark_piece_finish i s) = sv_peers s" "owned j (mark_piece_finish i s) = owned j s"
  "sv_peers (reset_underway_piece i s) = sv_peers s" "owned j (reset_underway_piece i s) = owned j s"
  "sv_bytefield (reset_underway_piece i s) = sv_bytefield s"
  by (simp_all add: mark_piece_finish_def remove_finish_piece_def reset_underway_piece_def)

lemma good_mark:
  assumes "good pid s" and "\<And>j. j \<in> sv_peers s \<Longrightarrow> i \<notin> owned j s"
  shows "good pid (mark_piece_finish i s)" and "good pid (reset_underway_piece i s)"
  using assms by (rule good_unowned; simp add: mark_piece_finish_def remove_finish_piece_def reset_underway_piece_def bitmap_has_put)+

lemma wp_checkout_piece_hash:
  assumes "good pid s" and "\<And>j. j \<in> sv_peers s \<Longrightarrow> i \<notin> owned j s"
  shows "wp (checkout_piece_hash ev v i) (\<lambda>_. good pid) (good_error pid) s"
proof -
  have "wp (with_store (checkout (ev_io ev) (ev_hash_chunk_size ev) (ev_sha1 ev) bis hash))
    (\<lambda>x s'. good pid (if x then mark_piece_finish i s' else reset_underway_piece i s'))
    (\<lambda>e s'. if panics (Inl e :: unit result) then good_error pid e s' else good pid (reset_underway_piece i s')) s" for bis hash
    using assms by (intro wp_with_store) (auto dest: checkout_error intro!: good_mark split: sum.split)
  then have "wp (attempt (with_store (checkout (ev_io ev) (ev_hash_chunk_size ev) (ev_sha1 ev) bis hash)))
    (\<lambda>r. wp (if r = Inr True then eff_bind (modify (mark_piece_finish i)) (\<lambda>_. notify (OnVerifyPieceSuccess v i))
      else eff_bind (modify (reset_underway_piece i)) (\<lambda>_. notify (OnVerifyPieceFailed v i))) (\<lambda>_. good pid) (good_error pid))
    (good_error pid) s" for bis hash
    unfolding wp_attempt by (rule wp_mono) (auto simp: wp_bind wp_basic wp_notify split: if_splits)
  then show ?thesis
    using assms(1) unfolding checkout_piece_hash_def
    by (simp add: wp_bind wp_basic piece_hash_def good_error_def find_file_error split: option.split sum.split)
qed

lemma good_update_offset: "good pid s \<Longrightarrow> good pid (update_write_piece_offset i off s)"
  by (rule good_mono [of pid s]) (auto simp: update_write_piece_offset_def in_progress_def split: option.split PieceStatus.split)

lemma update_resoponse_error: "update_resoponse_piece i off p = Inl e \<Longrightarrow> e \<noteq> no_status"
  by (auto simp: update_resoponse_piece_def Piece_add_finish_def block_offset_idx_def and_then_def Let_def
      split: option.splits if_splits sum.splits prod.splits)

lemma update_resoponse_dom: "update_resoponse_piece i off p = Inr p' \<Longrightarrow> dom (response_pieces p') = dom (response_pieces p)"
  by (auto simp: update_resoponse_piece_def and_then_Inr_iff split: option.splits if_splits)

lemma good_remove_finish:
  assumes "good pid s"
  shows "good pid (set_peer pid (Peer_remove_finish_piece i (sv_peer pid s)) s)"
    and "i \<in> owned pid s \<Longrightarrow> j \<in> sv_peers s \<Longrightarrow> i \<notin> owned j (set_peer pid (Peer_remove_finish_piece i (sv_peer pid s)) s)"
proof -
  let ?p = "Peer_remove_finish_piece i (sv_peer pid s)"
  have d: "dom (response_pieces ?p) = owned pid s - {i}" by (auto simp: Peer_remove_finish_piece_def owned_def)
  show "good pid (set_peer pid ?p s)" using assms by (rule good_shrink) (simp add: d Diff_subset)
  show "i \<notin> owned j (set_peer pid ?p s)" if "i \<in> owned pid s" "j \<in> sv_peers s"
    using that assms d by (auto simp: good_def excl_def simp del: domIff)
qed

lemma wp_stored:
  assumes "good pid s" and "i \<in> owned pid s"
  shows "wp (eff_bind (modify (update_write_piece_offset i ro)) (\<lambda>_.
      eff_bind (with_peer_result pid (update_resoponse_piece i off)) (\<lambda>_.
      eff_bind (notify (OnStoreBlockSuccess pid i off n)) (\<lambda>_.
      eff_bind (gets (\<lambda>s. piece_recv_finish i (sv_peer pid s))) (\<lambda>fin.
        if fin then eff_bind (with_peer pid (Peer_remove_finish_piece i)) (\<lambda>_. checkout_piece_hash ev pid i)
        else ret ())))))
    (\<lambda>_. good pid) (good_error pid) s"
proof -
  let ?s = "update_write_piece_offset i ro s"
  have g: "good pid ?s" using assms(1) by (rule good_update_offset)
  have own: "i \<in> owned pid ?s" using assms(2) by (simp add: update_write_piece_offset_def split: option.split PieceStatus.split)
  have rest: "wp (eff_bind (with_peer pid (Peer_remove_finish_piece i)) (\<lambda>_. checkout_piece_hash ev pid i)) (\<lambda>_. good pid) (good_error pid) s'"
    if "good pid s'" "i \<in> owned pid s'" for s'
    unfolding wp_bind wp_with_peer using good_remove_finish [OF that(1)] that(2) by (intro wp_checkout_piece_hash) simp_all
  show ?thesis
  proof (cases "update_resoponse_piece i off (sv_peer pid ?s)")
    case (Inl e)
    then show ?thesis using g update_resoponse_error [OF Inl] by (simp add: wp_bind wp_basic wp_with_peer_result good_error_def)
  next
    case (Inr p)
    let ?s' = "(set_peer pid p ?s)\<lparr> sv_events := sv_events (set_peer pid p ?s) @ [OnStoreBlockSuccess pid i off n] \<rparr>"
    have "good pid ?s'" "i \<in> owned pid ?s'"
      using update_resoponse_dom [OF Inr] g own by (simp_all add: owned_def [symmetric] good_shrink)
    from rest [OF this] this show ?thesis using Inr by (simp add: wp_bind wp_basic wp_with_peer_result wp_notify)
  qed
qed

lemma wp_write_file:
  assumes "good pid s"
  shows "wp (write_file ev pid i off data) (\<lambda>_. good pid) (good_error pid) s"
proof (cases "get_seq_last_piece_block_offset i (sv_peer pid s)")
  case None
  then show ?thesis using assms by (simp add: write_file_def wp_bind wp_basic)
next
  case (Some ro)
  then have own: "i \<in> owned pid s" by (auto simp: get_seq_last_piece_block_offset_def owned_def)
  let ?fin = "\<lambda>t r. case r of
      Inl _ \<Rightarrow>
        eff_bind (with_peer_result pid (reset_request_piece_origin (ev_block_size ev) i off (Torrent_piece_length t i))) (\<lambda>_.
        notify (OnStoreBlockFailed pid i off))
    | Inr _ \<Rightarrow>
        eff_bind (modify (update_write_piece_offset i ro)) (\<lambda>_.
        eff_bind (with_peer_result pid (update_resoponse_piece i off)) (\<lambda>_.
        eff_bind (notify (OnStoreBlockSuccess pid i off (length data))) (\<lambda>_.
        eff_bind (gets (\<lambda>s. piece_recv_finish i (sv_peer pid s))) (\<lambda>fin.
          if fin then eff_bind (with_peer pid (Peer_remove_finish_piece i)) (\<lambda>_. checkout_piece_hash ev pid i)
          else ret ()))))"
  have fin: "wp (?fin t r) (\<lambda>_. good pid) (good_error pid) s'" if "good pid s'" "i \<in> owned pid s'" for t r s'
  proof (cases r)
    case (Inl e)
    have "wp (with_peer_result pid (reset_request_piece_origin (ev_block_size ev) i off (Torrent_piece_length t i)))
      (\<lambda>_. wp (notify (OnStoreBlockFailed pid i off)) (\<lambda>_. good pid) (good_error pid)) (good_error pid) s'"
      by (rule wp_mono [OF good_reset [OF that(1)]]) (use that(2) in \<open>simp_all add: wp_notify\<close>)
    then show ?thesis using Inl by (simp add: wp_bind)
  next
    case (Inr x)
    then show ?thesis using wp_stored [OF that] by simp
  qed
  have "wp (attempt (with_store (\<lambda>st. Some (write_blocks io it lim bis data st)))) (\<lambda>r. wp (?fin t r) (\<lambda>_. good pid) (good_error pid))
    (good_error pid) s" for io it lim bis t
    unfolding wp_attempt
  proof (rule wp_with_store)
    fix r st assume w: "Some (write_blocks io it lim bis data (sv_store s)) = Some (r, st)"
    have "wp (?fin t r) (\<lambda>_. good pid) (good_error pid) (s\<lparr> sv_store := st \<rparr>)" by (rule fin) (simp_all add: assms own)
    moreover have "good_error pid e (s\<lparr> sv_store := st \<rparr>)" if "r = Inl e" for e
      using write_blocks_error [of io it lim bis data "sv_store s" e st] w that assms by (simp add: good_error_def)
    ultimately show "case r of Inl e \<Rightarrow> (if panics (Inl e :: unit result) then good_error pid e else wp (?fin t (Inl e)) (\<lambda>_. good pid) (good_error pid)) (s\<lparr> sv_store := st \<rparr>)
        | Inr x \<Rightarrow> wp (?fin t (Inr x)) (\<lambda>_. good pid) (good_error pid) (s\<lparr> sv_store := st \<rparr>)"
      by (cases r) simp_all
  qed
  then show ?thesis
    using Some assms by (simp add: write_file_def wp_bind wp_basic good_error_def find_file_error split: option.split sum.split)
qed

section \<open>Handlers, for every callback that keeps the invariant\<close>

definition inv_error :: "error \<Rightarrow> DefaultServant \<Rightarrow> bool" where
  "inv_error e s \<longleftrightarrow> sv_inv s \<and> e \<noteq> no_status"

lemma good_inv_error: "good_error pid e s \<Longrightarrow> inv_error e s"
  by (simp add: inv_error_def good_error_def good_def)

lemma extension_keeps [simp]:
  "response_pieces (add_extend_ids m p) = response_pieces p"
  "response_pieces (init_metadata_piece n p) = response_pieces p"
  "set_extend_handshake_data h p = Inr p' \<Longrightarrow> response_pieces p' = response_pieces p"
  "set_metadata_piece i data p = Inr p' \<Longrightarrow> response_pieces p' = response_pieces p"
proof -
  show "response_pieces (add_extend_ids m p) = response_pieces p"
    by (induction m p rule: add_extend_ids.induct) (auto simp: add_extend_id_def split: option.split)
qed (auto simp: init_metadata_piece_def set_extend_handshake_data_def set_metadata_piece_def Let_def
      split: option.splits if_splits prod.splits)

lemma sends_keep:
  "request_un_choke p = Inr p' \<Longrightarrow> response_pieces p' = response_pieces p"
  "request_choke p = Inr p' \<Longrightarrow> response_pieces p' = response_pieces p"
  "request_interested p = Inr p' \<Longrightarrow> response_pieces p' = response_pieces p"
  "request_bitfield bf p = Inr p' \<Longrightarrow> response_pieces p' = response_pieces p"
  by (auto simp: request_un_choke_def request_choke_def request_interested_def request_bitfield_def Peer_send_def and_then_Inr_iff)

lemma sends_error:
  "request_un_choke p = Inl e \<Longrightarrow> e \<noteq> no_status" "request_choke p = Inl e \<Longrightarrow> e \<noteq> no_status"
  "request_interested p = Inl e \<Longrightarrow> e \<noteq> no_status" "request_bitfield bf p = Inl e \<Longrightarrow> e \<noteq> no_status"
  by (auto simp: request_un_choke_def request_choke_def request_interested_def request_bitfield_def check_runnable_def and_then_def
      split: sum.splits if_splits)

locale servant_callback =
  fixes ev :: env and cb :: callbacks
  assumes cb_keeps: "order_ok ev \<Longrightarrow> good pid s \<Longrightarrow> wp (cb pid c) (\<lambda>_. good pid) (good_error pid) s"
    and cb_handshake: "wp (cb pid OnHandshakeSuccess) (\<lambda>_ s'. owned pid s' \<subseteq> owned pid s) (\<lambda>_ _. True) s"
begin

lemma call_keeps: "order_ok ev \<Longrightarrow> good pid s \<Longrightarrow> wp (call cb pid c) (\<lambda>_. good pid) (good_error pid) s"
  using cb_keeps by (simp add: call_def wp_simps split: option.split)

lemma handle_piece_keeps:
  assumes "order_ok ev" and "good pid s"
  shows "wp (handle_piece ev cb pid payload) (\<lambda>_. good pid) (good_error pid) s"
proof -
  have "wp (cb pid c) (\<lambda>_. wp (write_file ev pid i off data) (\<lambda>_. good pid) (good_error pid)) (good_error pid) s" for c i off data
    by (rule wp_mono [OF cb_keeps [OF assms] wp_write_file])
  then show ?thesis
    using assms(2) by (simp add: handle_piece_def wp_bind wp_basic wp_callback Let_def split: option.split)
qed

lemma handle_keeps:
  assumes "order_ok ev" and "sv_inv s" and "mt \<noteq> ExtensionProtocol"
  shows "wp (handle ev cb pid mt payload) (\<lambda>_. sv_inv) inv_error s"
proof (cases "pid \<in> sv_peers s")
  case False
  then show ?thesis using assms(2) by (simp add: handle_def wp_simps)
next
  case True
  note g = inv_excl [OF assms(2) True]
  have "wp (handle ev cb pid mt payload) (\<lambda>_. good pid) (good_error pid) s"
    using g True assms(1,3) handle_piece_keeps [OF assms(1)]
    by (cases mt) (auto simp: handle_def wp_simps handle_choke_def handle_un_choke_def handle_interested_def handle_not_interested_def
        handle_have_def handle_bitfield_def handle_request_def handle_cancel_def set_op_bitfield_def Let_def good_error_def
        dest: sends_keep sends_error intro!: good_same call_keeps [OF assms(1)] split: option.split sum.split prod.split)
  then show ?thesis by (rule wp_mono) (simp_all add: good_inv good_inv_error)
qed

lemma handle_extension_keeps:
  assumes "order_ok ev" and "sv_inv s"
  shows "wp (handle ev cb pid ExtensionProtocol payload) (\<lambda>_. sv_inv) (\<lambda>_. sv_inv) s"
proof (cases "pid \<in> sv_peers s")
  case False
  then show ?thesis using assms(2) by (simp add: handle_def wp_simps)
next
  case True
  note g = inv_excl [OF assms(2) True]
  have call: "wp (call cb pid c) (\<lambda>_. good pid) (\<lambda>_. good pid) s'" if "good pid s'" for c s'
    by (rule wp_mono [OF call_keeps [OF assms(1) that]]) (simp_all add: good_error_def)
  have hs: "wp (handle_handshake cb pid pl) (\<lambda>_. good pid) (\<lambda>_. good pid) s" for pl
    using g by (auto simp: handle_handshake_def wp_bind wp_basic wp_with_peer wp_with_peer_result good_same intro!: call split: sum.split)
  have mdd: "wp (handle_ut_metadata_data ev cb pid md pl) (\<lambda>_. good pid) (\<lambda>_. good pid) s" for md pl
    using g by (auto simp: handle_ut_metadata_data_def wp_bind wp_basic wp_with_peer wp_with_peer_result good_same intro!: call split: sum.split option.split)
  have md: "wp (handle_ut_metadata ev cb pid pl) (\<lambda>_. good pid) (\<lambda>_. good pid) s" for pl
    using g mdd by (auto simp: handle_ut_metadata_def wp_bind wp_basic split: sum.split prod.split MetadataType.split)
  have "wp (handle ev cb pid ExtensionProtocol payload) (\<lambda>_. good pid) (\<lambda>_. good pid) s"
    using g True hs md by (auto simp: handle_def handle_extension_protocol_def wp_bind wp_basic wp_if split: list.split)
  then show ?thesis by (rule wp_mono) (simp_all add: good_inv)
qed

lemma add_peer_keeps:
  assumes "order_ok ev" and "sv_inv s" and "pid \<notin> sv_peers s" and "response_pieces p = Map.empty"
  shows "wp (add_peer cb pid p) (\<lambda>_. sv_inv) (\<lambda>_. sv_inv) s"
proof -
  let ?s = "set_peer pid p s"
  have "sv_inv ?s" using assms(2-4) by (auto simp: sv_inv_def excl_def in_progress_def)
  then have g: "good pid ?s" using assms(4) by (simp add: good_def excl_def)
  have ins: "sv_inv (s'\<lparr> sv_peers := insert pid (sv_peers s') \<rparr>)" if "good pid s'" "owned pid s' \<subseteq> {}" for s'
    using that by (auto simp: good_def sv_inv_def excl_def in_progress_def)
  have own: "owned pid ?s = {}" using assms(4) by simp
  have "wp (cb pid OnHandshakeSuccess) (\<lambda>_ s'. good pid s' \<and> owned pid s' \<subseteq> {}) (\<lambda>e s'. good_error pid e s' \<and> True) ?s"
    using wp_conj [OF cb_keeps [OF assms(1) g] cb_handshake [of pid ?s]] by (simp only: own)
  then have "wp (attempt (cb pid OnHandshakeSuccess)) (\<lambda>r. wp (case r of Inl _ \<Rightarrow> notify (OnPeerExit pid (ExitException Exception))
      | Inr _ \<Rightarrow> modify (\<lambda>s. s\<lparr> sv_peers := insert pid (sv_peers s) \<rparr>)) (\<lambda>_. sv_inv) (\<lambda>_. sv_inv)) (\<lambda>_. sv_inv) ?s"
    unfolding wp_attempt by (rule wp_mono) (auto simp: wp_basic wp_notify ins good_error_def good_inv)
  then show ?thesis
    using g unfolding add_peer_def by (simp add: wp_bind wp_basic wp_callback good_inv split: option.split)
qed

end

text \<open>The callbacks of a download task are such callbacks.\<close>

lemma dispatch_callbacks_keep:
  assumes "order_ok ev" and "good pid s"
  shows "wp (dispatch_callbacks n ev pid c) (\<lambda>_. good pid) (good_error pid) s"
  using assms wp_request(1) [OF assms]
  by (cases c) (auto simp: dispatch_callbacks_def wp_simps good_error_def dest: sends_keep sends_error intro!: good_same split: sum.split)

lemma dispatch_handshake_keeps:
  "wp (dispatch_callbacks n ev pid OnHandshakeSuccess) (\<lambda>_ s'. owned pid s' \<subseteq> owned pid s) (\<lambda>_ _. True) s"
  by (auto simp: dispatch_callbacks_def wp_simps owned_def dest!: sends_keep split: sum.split)

interpretation dc: servant_callback ev "dispatch_callbacks n ev" for n ev
  by unfold_locales (simp_all add: dispatch_callbacks_keep dispatch_handshake_keeps)

section \<open>Reachable states\<close>

lemma Peer_request_metadata_keeps: "Peer_request_metadata_piece i p = Inr p' \<Longrightarrow> response_pieces p' = response_pieces p"
  by (auto simp: Peer_request_metadata_piece_def Peer_send_def and_then_Inr_iff split: if_splits option.splits)

lemma inv_wp: "wp m (\<lambda>_. sv_inv) (\<lambda>_. sv_inv) s \<Longrightarrow> m s = Some (r, s') \<Longrightarrow> sv_inv s'"
  by (cases r) (auto dest: wpD wpD_error)

lemma inv_same: "sv_inv s \<Longrightarrow> response_pieces p = response_pieces (sv_peer v s) \<Longrightarrow> sv_inv (set_peer v p s)"
  by (subst good_cong(3) [of _ s]) (simp_all add: owned_def)

lemma inv_updates [simp]: "sv_inv (s\<lparr> sv_piece_finished := b \<rparr>) = sv_inv s" "sv_inv (s\<lparr> sv_callback := c \<rparr>) = sv_inv s"
  by (rule good_cong; simp)+

lemma inv_exit:
  assumes "order_ok ev" and "sv_inv s"
  shows "wp (peer_exit ev pid reason) (\<lambda>_. sv_inv) (\<lambda>_. sv_inv) s"
proof (cases "pid \<in> sv_peers s")
  case True
  show ?thesis by (rule wp_mono [OF good_peer_exit [OF assms(1) inv_excl [OF assms(2) True]]]) (simp_all add: good_def good_error_def)
next
  case False
  then show ?thesis using assms(2) by (simp add: peer_exit_def wp_simps)
qed

lemma inv_step: "sv_step s s' \<Longrightarrow> sv_inv s \<Longrightarrow> sv_inv s'"
proof (induction rule: sv_step.induct)
  case (step_handle ev n pid mt payload s r s')
  have "wp (handle ev (dispatch_callbacks n ev) pid mt payload) (\<lambda>_. sv_inv) (\<lambda>_. sv_inv) s"
  proof (cases "mt = ExtensionProtocol")
    case True
    then show ?thesis using dc.handle_extension_keeps [OF step_handle(1,3)] by simp
  next
    case False
    show ?thesis by (rule wp_mono [OF dc.handle_keeps [OF step_handle(1,3) False]]) (simp_all add: inv_error_def)
  qed
  then show ?case using step_handle(2) by (rule inv_wp)
next
  case (step_add ev pid s n d res r s')
  have "wp (add_peer (dispatch_callbacks n ev) pid (Peer_new pid d res)) (\<lambda>_. sv_inv) (\<lambda>_. sv_inv) s"
    using step_add by (intro dc.add_peer_keeps) (simp_all add: Peer_new_def)
  then show ?case using step_add(3) by (rule inv_wp)
next
  case (step_request ev pid s n r s')
  have "wp (request_piece n ev pid) (\<lambda>_. sv_inv) (\<lambda>_. sv_inv) s"
    by (rule wp_mono [OF wp_request(1) [OF step_request(1) inv_excl [OF step_request(4,2)]]]) (simp_all add: good_def good_error_def)
  then show ?case using step_request(3) by (rule inv_wp)
next
  case (step_exit ev pid reason s r s')
  from inv_exit [OF step_exit(1,3)] step_exit(2) show ?case by (rule inv_wp)
next
  case (step_exception ev pid s r s')
  from inv_exit [OF step_exception(1,3)] step_exception(2) [unfolded happen_exeception_def] show ?case by (rule inv_wp)
next
  case (step_finished s r s')
  then show ?case
    by (intro inv_wp [of check_piece_download_finished s r]) (simp_all add: check_piece_download_finished_def wp_simps Let_def split: option.split)
next
  case (step_metadata pid s r s')
  then show ?case
    by (intro inv_wp [of "request_metadata_piece pid" s r])
      (auto simp: request_metadata_piece_def wp_simps dest: Peer_request_metadata_keeps intro!: inv_same split: sum.split)
next
  case (step_read pid k s r s')
  then show ?case
    by (intro inv_wp [of "reported_read_size pid k" s r]) (simp_all add: reported_read_size_def wp_simps split: option.split)
next
  case (step_callback b s r s')
  then show ?case
    by (intro inv_wp [of "set_callback b" s r]) (simp_all add: set_callback_def wp_simps split: option.split)
next
  case (step_dash s pid d)
  then show ?case by (simp add: inv_same)
qed

lemma inv_reach: "sv_reach s \<Longrightarrow> sv_inv s"
proof (induction rule: sv_reach.induct)
  case (reach_new t bf ub path fin heap st)
  then show ?case by (simp add: DefaultServant_new_def sv_inv_def)
next
  case (reach_step s s')
  show ?case using inv_step [OF reach_step(2,3)] .
qed

text \<open>What the invariant says, written out, and that no handler meets an assigned piece without a status.\<close>

definition one_owner :: "DefaultServant \<Rightarrow> bool" where
  "one_owner s \<longleftrightarrow> (\<forall>j k. j \<in> sv_peers s \<longrightarrow> response_pieces (sv_peer j s) k \<noteq> None \<longrightarrow>
      (\<exists>off. sv_underway s k = Some (Ing off)) \<and> \<not> bitmap_has (sv_bytefield s) k)
    \<and> (\<forall>i j k. i \<in> sv_peers s \<longrightarrow> j \<in> sv_peers s \<longrightarrow> response_pieces (sv_peer i s) k \<noteq> None
      \<longrightarrow> response_pieces (sv_peer j s) k \<noteq> None \<longrightarrow> i = j)"

lemma one_owner_iff: "one_owner s \<longleftrightarrow> sv_inv s"
proof -
  have own: "k \<in> owned j s \<longleftrightarrow> response_pieces (sv_peer j s) k \<noteq> None" for j k by (simp add: owned_def domIff)
  show ?thesis
  proof
    assume o: "one_owner s"
    have "owned j s \<inter> owned i s = {}" if "j \<in> sv_peers s" "i \<in> sv_peers s" "i \<noteq> j" for i j
      using o that unfolding one_owner_def disjoint_iff own by metis
    moreover have "in_progress k s" if "j \<in> sv_peers s" "k \<in> owned j s" for j k
      using o that unfolding one_owner_def in_progress_def own by blast
    ultimately show "sv_inv s" by (simp add: sv_inv_def excl_def)
  next
    assume inv: "sv_inv s"
    have "i = j" if "i \<in> sv_peers s" "j \<in> sv_peers s" "k \<in> owned i s" "k \<in> owned j s" for i j k
      using inv that unfolding sv_inv_def excl_def by blast
    moreover have "in_progress k s" if "j \<in> sv_peers s" "k \<in> owned j s" for j k
      using inv that by (simp add: sv_inv_def)
    ultimately show "one_owner s" unfolding one_owner_def own in_progress_def by (metis own)
  qed
qed

lemma handle_has_status:
  assumes "sv_inv s" and "order_ok ev" and "mt \<noteq> ExtensionProtocol"
  shows "handle ev (dispatch_callbacks n ev) pid mt payload s \<noteq> Some (Inl (Panic ''no status of an assigned piece''), s')"
proof
  assume "handle ev (dispatch_callbacks n ev) pid mt payload s = Some (Inl no_status, s')"
  from wpD_error [OF dc.handle_keeps [OF assms(2,1,3)] this] show False by (simp add: inv_error_def)
qed

end
