(* ===== verification/Servant_Props.thy ===== *)
theory Servant_Props
  imports Servant_Inv
begin

text \<open>
  When the download is finished, and that a piece is recorded as finished only after its bytes on disk were
  read back and had the hash of the torrent.
\<close>

section \<open>All pieces\<close>

lemma bit_u8_full: "(v :: u8) = 255 \<longleftrightarrow> (\<forall>j < 8. bit v j)"
proof -
  have "(255 :: u8) = mask 8" by (simp add: mask_eq_exp_minus_1)
  then show ?thesis by (auto simp: bit_eq_iff bit_mask_iff dest: bit_imp_le_length)
qed

lemma bit_u8_high: "(v :: u8) = push_bit n (- 1) \<longleftrightarrow> (\<forall>j < 8. bit v j \<longleftrightarrow> n \<le> j)"
  by (auto simp: bit_eq_iff bit_push_bit_iff bit_not_iff bit_mask_iff dest: bit_imp_le_length)

lemma all_full_rev: "all_full v (rev (bs @ [b])) \<longleftrightarrow> b = v \<and> (\<forall>x \<in> set bs. x = 255)"
proof -
  have "all_full 255 (rev bs) \<longleftrightarrow> (\<forall>x \<in> set bs. x = 255)" for bs
    by (induction bs rule: rev_induct) auto
  then show ?thesis by auto
qed

text \<open>The bits of the last byte that do not stand for a piece are zero.\<close>

lemma all_full_iff:
  assumes "length bf = (n + 7) div 8" and "0 < n" and "\<And>k. n \<le> k \<Longrightarrow> \<not> bitmap_has bf k"
  shows "all_full (push_bit (7 - (n - 1) mod 8) (- 1)) (rev bf) \<longleftrightarrow> (\<forall>k < n. bitmap_has bf k)"
proof -
  obtain bs b where bf: "bf = bs @ [b]" using assms(1,2) by (cases bf rule: rev_cases) auto
  have len: "length bs = (n - 1) div 8" using assms(1,2) bf by simp
  let ?m = "(n - 1) mod 8"
  have n: "n = 8 * length bs + ?m + 1" using len assms(2) by simp
  have at: "bitmap_has bf (8 * length bs + j) \<longleftrightarrow> bit b (7 - j)" if "j < 8" for j
    using that by (simp add: bitmap_has_iff bf)
  have rng: "?m < 8" by simp
  have "b = push_bit (7 - ?m) (- 1) \<longleftrightarrow> (\<forall>j < 8. bit b (7 - j) \<longleftrightarrow> j \<le> ?m)"
    unfolding bit_u8_high
  proof (rule iffI; rule allI; rule impI)
    fix j assume h: "\<forall>j < 8. bit b j = (7 - ?m \<le> j)" and j: "j < (8 :: nat)"
    have "bit b (7 - j) = (7 - ?m \<le> 7 - j)" using h by simp
    then show "bit b (7 - j) = (j \<le> ?m)" using j rng by (simp add: le_diff_iff')
  next
    fix j assume h: "\<forall>j < 8. bit b (7 - j) = (j \<le> ?m)" and j: "j < (8 :: nat)"
    have "bit b (7 - (7 - j)) = (7 - j \<le> ?m)" using h by simp
    then show "bit b j = (7 - ?m \<le> j)" using j rng by simp linarith
  qed
  also have "\<dots> \<longleftrightarrow> (\<forall>j \<le> ?m. bit b (7 - j))"
  proof -
    have "\<not> bit b (7 - j)" if "?m < j" "j < 8" for j
      using assms(3) [of "8 * length bs + j"] at [OF that(2)] that(1) n by simp
    then have "j \<le> ?m" if "bit b (7 - j)" "j < 8" for j using that by (cases "?m < j") simp_all
    then show ?thesis using rng by (meson le_less_trans)
  qed
  also have "\<dots> \<longleftrightarrow> (\<forall>j \<le> ?m. bitmap_has bf (8 * length bs + j))" using at rng by (auto dest: le_less_trans)
  finally have last: "b = push_bit (7 - ?m) (- 1) \<longleftrightarrow> (\<forall>j \<le> ?m. bitmap_has bf (8 * length bs + j))" .
  have init: "(\<forall>x \<in> set bs. x = 255) \<longleftrightarrow> (\<forall>k < 8 * length bs. bitmap_has bf k)"
  proof -
    have "bitmap_has bf k = bit (bs ! (k div 8)) (7 - k mod 8)" if "k < 8 * length bs" for k
      using that by (simp add: bitmap_has_iff bf nth_append less_mult_imp_div_less mult.commute)
    then have "(\<forall>k < 8 * length bs. bitmap_has bf k) \<longleftrightarrow> (\<forall>k < 8 * length bs. bit (bs ! (k div 8)) (7 - k mod 8))" by simp
    also have "\<dots> \<longleftrightarrow> (\<forall>i < length bs. \<forall>j < 8. bit (bs ! i) j)"
    proof (intro iffI allI impI)
      fix i j assume h: "\<forall>k < 8 * length bs. bit (bs ! (k div 8)) (7 - k mod 8)" and i: "i < length bs" and j: "j < (8 :: nat)"
      have "8 * i + (7 - j) < 8 * length bs" using i by linarith
      then have "bit (bs ! ((8 * i + (7 - j)) div 8)) (7 - (8 * i + (7 - j)) mod 8)" by (rule h [rule_format])
      moreover have "(8 * i + (7 - j)) div 8 = i" "(8 * i + (7 - j)) mod 8 = 7 - j"
        using j div_mult_self4 [of 8 i "7 - j"] mod_mult_self4 [of 8 i "7 - j"] by (simp_all del: div_mult_self4 mod_mult_self4 add: add.commute)
      moreover have "7 - (7 - j) = j" using j by simp
      ultimately show "bit (bs ! i) j" by simp
    next
      fix k assume h: "\<forall>i < length bs. \<forall>j < 8. bit (bs ! i) j" and "k < 8 * length bs"
      then show "bit (bs ! (k div 8)) (7 - k mod 8)" by (simp add: less_mult_imp_div_less mult.commute)
    qed
    finally have "(\<forall>k < 8 * length bs. bitmap_has bf k) \<longleftrightarrow> (\<forall>i < length bs. bs ! i = 255)" by (simp only: bit_u8_full)
    then show ?thesis by (simp only: all_set_conv_all_nth)
  qed
  have split: "(\<forall>k < n. P k) \<longleftrightarrow> (\<forall>k < 8 * length bs. P k) \<and> (\<forall>j \<le> ?m. P (8 * length bs + j))" for P
  proof (intro iffI conjI allI impI)
    fix k assume h: "(\<forall>k < 8 * length bs. P k) \<and> (\<forall>j \<le> ?m. P (8 * length bs + j))" and k: "k < n"
    show "P k"
    proof (cases "k < 8 * length bs")
      case False
      then have "P (8 * length bs + (k - 8 * length bs))" using h k n by (intro conjunct2 [OF h, rule_format]) linarith
      then show ?thesis using False by simp
    qed (use h in blast)
  qed (use n in auto)
  have "all_full (push_bit (7 - ?m) (- 1)) (rev bf) \<longleftrightarrow> b = push_bit (7 - ?m) (- 1) \<and> (\<forall>x \<in> set bs. x = 255)"
    unfolding bf by (rule all_full_rev)
  also have "\<dots> \<longleftrightarrow> (\<forall>k < n. bitmap_has bf k)" unfolding last init split [of "bitmap_has bf"] by (rule conj_commute)
  finally show ?thesis .
qed

text \<open>
  C15. For a torrent with pieces and a bit field of its length whose spare bits are zero, the download is
  reported as finished exactly when every piece is recorded as finished (or it was reported before).
\<close>

theorem finished_iff_all_pieces:
  assumes "sv_torrent s = Some t" and "0 < piece_num t" and "length (sv_bytefield s) = bitfield_len t"
    and "\<forall>k \<ge> piece_num t. \<not> bitmap_has (sv_bytefield s) k"
  shows "\<exists>s'. check_piece_download_finished s = Some (Inr (sv_piece_finished s \<or> (\<forall>k < piece_num t. bitmap_has (sv_bytefield s) k)), s')
    \<and> sv_bytefield s' = sv_bytefield s
    \<and> sv_piece_finished s' = (sv_piece_finished s \<or> (\<forall>k < piece_num t. bitmap_has (sv_bytefield s) k))"
proof -
  have "all_full (push_bit (7 - (piece_num t - 1) mod 8) (- 1)) (rev (sv_bytefield s)) \<longleftrightarrow> (\<forall>k < piece_num t. bitmap_has (sv_bytefield s) k)"
    using assms(2-4) by (intro all_full_iff) (simp_all add: bitfield_len_def)
  then show ?thesis
    using assms(1,2)
    by (simp add: check_piece_download_finished_def eff_bind_def gets_def ret_def modify_def Let_def Suc_le_eq del: One_nat_def)
qed

definition example_torrent :: Torrent where
  "example_torrent = Torrent_new \<lparr> info_length = 20000, info_piece_length = 16384, info_pieces = replicate 40 7, info_name = ''n'',
     info_files = [], info_md5sum = None, info_private = None, file_piece = [] \<rparr> [] []"

lemma example_torrent_simps [simp]: "piece_num example_torrent = 2" "bitfield_len example_torrent = 1"
  by (simp_all add: example_torrent_def Torrent_new_def piece_num_def bitfield_len_def)

theorem finished_iff_all_pieces_witness:
  "\<exists>s'. check_piece_download_finished
      (DefaultServant_new (Some example_torrent) [192] Map.empty [] False (\<lambda>_. Peer_new 0 Dashbord_new 0) (Store_new Map.empty))
    = Some (Inr True, s')"
proof -
  let ?s = "DefaultServant_new (Some example_torrent) [192] Map.empty [] False (\<lambda>_. Peer_new 0 Dashbord_new 0) (Store_new Map.empty)"
  have bits: "bitmap_has [192] k \<longleftrightarrow> k < 2" for k
  proof (cases "k < 8")
    case True
    then have "k \<in> {0, 1, 2, 3, 4, 5, 6, 7}" by auto
    then show ?thesis by (auto simp: bitmap_has_def bitmap_offset_def)
  next
    case False
    then show ?thesis by (auto simp: bitmap_has_iff)
  qed
  have "sv_torrent ?s = Some example_torrent" "0 < piece_num example_torrent" "length (sv_bytefield ?s) = bitfield_len example_torrent"
    "\<forall>k \<ge> piece_num example_torrent. \<not> bitmap_has (sv_bytefield ?s) k"
    by (simp_all add: DefaultServant_new_def bits)
  from finished_iff_all_pieces [OF this] show ?thesis by (auto simp: DefaultServant_new_def bits)
qed

section \<open>Finished pieces were verified\<close>

lemma frame_peers [frame_intros]:
  "(\<And>s p. f (set_peer v p s) = f s) \<Longrightarrow> frame f (with_peer v g)"
  "(\<And>s p. f (set_peer v p s) = f s) \<Longrightarrow> frame f (with_peer_result v h)"
  "(\<And>s es. f (s\<lparr> sv_events := es \<rparr>) = f s) \<Longrightarrow> frame f (notify e)"
  "frame f callback"
  "(\<And>s p. f (set_peer v p s) = f s) \<Longrightarrow> frame f (peer_bw ev v)"
  unfolding with_peer_def with_peer_result_def notify_def callback_def
  by (intro frame_intros; auto simp: and_then_Inr_iff)+ (auto simp: frame_def peer_bw_def split: sum.splits)

text \<open>What only the hash check changes.\<close>

definition recorded :: "DefaultServant \<Rightarrow> bytes \<times> Torrent option \<times> string" where
  "recorded s = (sv_bytefield s, sv_torrent s, sv_save_path s)"

lemma recorded_simps [simp]:
  "recorded (set_peer v p s) = recorded s" "recorded (s\<lparr> sv_events := es \<rparr>) = recorded s" "recorded (s\<lparr> sv_peers := ps \<rparr>) = recorded s"
  "recorded (set_piece_status_pause i s) = recorded s" "recorded (s\<lparr> sv_piece_finished := b \<rparr>) = recorded s"
  "recorded (update_write_piece_offset i off s) = recorded s" "recorded (s\<lparr> sv_store := st \<rparr>) = recorded s"
  by (simp_all add: recorded_def set_peer_def set_piece_status_pause_def update_write_piece_offset_def
      split: option.split PieceStatus.split)

lemma frame_apply [frame_intros]: "frame recorded (\<lambda>s. case apply_download_piece i s of (r, s') \<Rightarrow> Some (Inr r, s'))"
  by (auto simp: frame_def recorded_def apply_download_piece_def Let_def split: prod.splits if_splits option.splits PieceStatus.splits)

lemma frame_peer_exit [frame_intros]: "frame recorded (peer_exit ev v reason)"
  unfolding peer_exit_def by (intro frame_intros) simp_all

lemma frame_take_new_piece [frame_intros]: "frame recorded (take_new_piece ev t pid is)"
  by (induction "is") (auto intro!: frame_intros)

lemma frame_try_find [frame_intros]: "frame recorded (try_find_downloadable_peice ev t pid)"
  unfolding try_find_downloadable_peice_def Let_def by (intro frame_intros) simp_all

lemma frame_check_finished [frame_intros]: "frame recorded check_piece_download_finished"
  unfolding check_piece_download_finished_def Let_def by (intro frame_intros) simp_all

lemma frame_loot [frame_intros]: "frame recorded (loot pid v is free)"
  by (induction "is" arbitrary: free) (auto intro!: frame_intros)

lemma frame_free_loop [frame_intros]: "frame recorded (free_loop ev t pid bw vs)"
  by (induction vs) (auto intro!: frame_intros)

lemma frame_peer_bws [frame_intros]: "frame recorded (peer_bws ev vs)"
  by (induction vs) (auto intro!: frame_intros)

lemma frame_try_free [frame_intros]: "frame recorded (try_free_slow_piece ev t pid)"
  unfolding try_free_slow_piece_def by (intro frame_intros) simp_all

lemma frame_request [frame_intros]:
  "frame recorded (request_piece n ev pid)" "frame recorded (request_loop n ev t pid)" "frame recorded (try_loot_slow_peer n ev t pid)"
proof (induction n arbitrary: t)
  case 0
  { case 1 show ?case by (auto intro: frame_intros) next case 2 show ?case by (auto intro: frame_intros)
    next case 3 show ?case by (auto intro: frame_intros) }
next
  case (Suc n)
  { case 1 show ?case unfolding request_piece.simps by (intro frame_intros Suc.IH)
    next case 2 show ?case unfolding request_loop.simps Let_def by (intro frame_intros Suc.IH) simp_all
    next case 3 show ?case unfolding try_loot_slow_peer.simps by (intro frame_intros Suc.IH) simp_all }
qed

text \<open>The hash check returns true only for the bytes that are in the files.\<close>

lemma read_loop_value: "read_loop chunk bs k acc = Some y \<Longrightarrow> y = acc @ take k bs"
proof (induction chunk bs k acc y rule: read_loop.raw_induct [rotated, consumes 1, case_names step])
  case (step f chunk bs k acc y)
  let ?n = "min (min chunk k) (length bs)"
  show ?case
  proof (cases "k = 0")
    case False
    then have "f chunk (drop ?n bs) (k - ?n) (acc @ take ?n bs) = Some y" using step(2) by (simp add: Let_def)
    then have "y = (acc @ take ?n bs) @ take (k - ?n) (drop ?n bs)" by (rule step(1))
    moreover have "take k bs = take ?n bs @ take (k - ?n) (drop ?n bs)"
      by (metis take_add le_add_diff_inverse min.cobounded1 min.cobounded2 le_trans)
    ultimately show ?thesis by simp
  qed (use step(2) in simp)
qed

lemma content_cong: "st_fs st = st_fs st' \<Longrightarrow> content st = content st'"
  by (simp add: content_def fun_eq_iff)

lemma checkout_loop_sound:
  "checkout_loop io chunk bis acc st = Some (Inr data, st') \<Longrightarrow> data = acc @ read_blocks (content st) bis \<and> st_fs st' = st_fs st"
proof (induction bis arbitrary: acc st)
  case (Cons bi bis)
  obtain r st1 where f: "Store_flush io (bi_filepath bi) st = (r, st1)" by fastforce
  have fs: "st_fs st1 = st_fs st" using Store_flush_same(1) [OF f] by (simp add: same_files_def)
  then have c: "content st1 = content st" by (simp add: content_def fun_eq_iff)
  obtain b acc1 where b: "st_fs st1 (bi_filepath bi) = Some b"
    and l: "read_loop chunk (drop (bi_start bi) b) (bi_len bi) acc = Some acc1" "checkout_loop io chunk bis acc1 st1 = Some (Inr data, st')"
    using Cons.prems f by (auto split: sum.splits option.splits if_splits)
  have "acc1 = acc @ read_block (content st) bi"
    using read_loop_value [OF l(1)] b fs by (simp add: read_block_def content_def)
  then show ?case using Cons.IH [OF l(2)] c fs by simp
qed simp

lemma checkout_sound:
  assumes "checkout io chunk sha1 bis hash st = Some (Inr True, st')"
  shows "sha1 (read_blocks (content st') bis) = hash"
proof -
  obtain data where "checkout_loop io chunk bis [] st = Some (Inr data, st')" "sha1 data = hash"
    using assms by (auto simp: checkout_def split: option.splits sum.splits prod.splits)
  moreover from checkout_loop_sound [OF this(1)] have "data = read_blocks (content st') bis"
    by (metis content_cong append_Nil)
  ultimately show ?thesis by simp
qed

definition verified :: "env \<Rightarrow> nat \<Rightarrow> DefaultServant \<Rightarrow> bool" where
  "verified ev k s \<longleftrightarrow> (\<exists>t hash bis. sv_torrent s = Some t \<and> piece_hash t k = Inr hash
     \<and> find_file_of_piece_index (info t) (sv_save_path s) k 0 (Torrent_piece_length t k) = Inr bis
     \<and> ev_sha1 ev (read_blocks (content (sv_store s)) bis) = hash)"

text \<open>Since a state with the record \<open>R\<close>, only verified pieces were recorded.\<close>

definition bits_ok :: "env \<Rightarrow> bytes \<times> Torrent option \<times> string \<Rightarrow> DefaultServant \<Rightarrow> bool" where
  "bits_ok ev R s \<longleftrightarrow> (\<forall>k. bitmap_has (sv_bytefield s) k \<longrightarrow> bitmap_has (fst R) k \<or> verified ev k s)"

lemma bits_ok_recorded: "recorded s = R \<Longrightarrow> bits_ok ev R s"
  by (auto simp: bits_ok_def recorded_def)

lemma wp_frame: "frame recorded m \<Longrightarrow> recorded s = R \<Longrightarrow> wp m (\<lambda>_ s'. recorded s' = R) (\<lambda>_ s'. recorded s' = R) s"
  by (auto simp: wp_def dest: frameD split: sum.split)

lemma wp_bind_frame:
  assumes "frame recorded m" and "recorded s = R" and "\<And>x s'. recorded s' = R \<Longrightarrow> wp (k x) (\<lambda>_. bits_ok ev R) (\<lambda>_. bits_ok ev R) s'"
  shows "wp (eff_bind m k) (\<lambda>_. bits_ok ev R) (\<lambda>_. bits_ok ev R) s"
  unfolding wp_bind by (rule wp_mono [OF wp_frame [OF assms(1,2)]]) (use assms(3) bits_ok_recorded in blast)+

lemma wp_frame_ok: "frame recorded m \<Longrightarrow> recorded s = R \<Longrightarrow> wp m (\<lambda>_. bits_ok ev R) (\<lambda>_. bits_ok ev R) s"
  by (rule wp_mono [OF wp_frame]) (auto intro: bits_ok_recorded)

lemma mark_bits_ok:
  assumes "recorded s = R" and "verified ev i s"
  shows "bits_ok ev R ((mark_piece_finish i s)\<lparr> sv_events := es \<rparr>)"
  using assms by (auto simp: bits_ok_def recorded_def mark_piece_finish_def remove_finish_piece_def bitmap_has_put verified_def)

lemma wp_checkout_verifies:
  assumes "recorded s = R"
  shows "wp (checkout_piece_hash ev v i) (\<lambda>_. bits_ok ev R) (\<lambda>_. bits_ok ev R) s"
proof (cases "sv_torrent s")
  case None
  then show ?thesis using bits_ok_recorded [OF assms] by (simp add: checkout_piece_hash_def wp_bind wp_basic)
next
  case (Some t)
  let ?check = "\<lambda>bis hash. checkout (ev_io ev) (ev_hash_chunk_size ev) (ev_sha1 ev) bis hash"
  have ok: "bits_ok ev R ((reset_underway_piece i (s\<lparr> sv_store := st \<rparr>))\<lparr> sv_events := es \<rparr>)" "bits_ok ev R (s\<lparr> sv_store := st \<rparr>)" for st es
    using assms by (auto intro!: bits_ok_recorded simp: reset_underway_piece_def recorded_def)
  have "wp (attempt (with_store (?check bis hash)))
    (\<lambda>r. wp (if r = Inr True then eff_bind (modify (mark_piece_finish i)) (\<lambda>_. notify (OnVerifyPieceSuccess v i))
      else eff_bind (modify (reset_underway_piece i)) (\<lambda>_. notify (OnVerifyPieceFailed v i))) (\<lambda>_. bits_ok ev R) (\<lambda>_. bits_ok ev R))
    (\<lambda>_. bits_ok ev R) s"
    if h: "piece_hash t i = Inr hash" and b: "find_file_of_piece_index (info t) (sv_save_path s) i 0 (Torrent_piece_length t i) = Inr bis" for bis hash
    unfolding wp_attempt
  proof (rule wp_with_store)
    fix r st assume c: "?check bis hash (sv_store s) = Some (r, st)"
    have "bits_ok ev R ((mark_piece_finish i (s\<lparr> sv_store := st \<rparr>))\<lparr> sv_events := es \<rparr>)" if "r = Inr True" for es
    proof (rule mark_bits_ok)
      have "ev_sha1 ev (read_blocks (content st) bis) = hash" using checkout_sound c that by metis
      then show "verified ev i (s\<lparr> sv_store := st \<rparr>)" using Some h b by (simp add: verified_def)
    qed (simp add: assms)
    then show "case r of
        Inl e \<Rightarrow> (if panics (Inl e :: unit result) then bits_ok ev R
          else wp (if Inl e = Inr True then eff_bind (modify (mark_piece_finish i)) (\<lambda>_. notify (OnVerifyPieceSuccess v i))
            else eff_bind (modify (reset_underway_piece i)) (\<lambda>_. notify (OnVerifyPieceFailed v i))) (\<lambda>_. bits_ok ev R) (\<lambda>_. bits_ok ev R)) (s\<lparr> sv_store := st \<rparr>)
      | Inr x \<Rightarrow> wp (if Inr x = Inr True then eff_bind (modify (mark_piece_finish i)) (\<lambda>_. notify (OnVerifyPieceSuccess v i))
            else eff_bind (modify (reset_underway_piece i)) (\<lambda>_. notify (OnVerifyPieceFailed v i))) (\<lambda>_. bits_ok ev R) (\<lambda>_. bits_ok ev R) (s\<lparr> sv_store := st \<rparr>)"
      using ok by (auto simp: wp_bind wp_basic wp_notify split: sum.split)
  qed
  then show ?thesis
    using Some bits_ok_recorded [OF assms] by (simp add: checkout_piece_hash_def wp_bind wp_basic split: sum.split)
qed

lemma frame_store [frame_intros]: "frame recorded (with_store f)"
  by (auto simp: frame_def with_store_def split: option.splits)

lemma wp_leaf_ok:
  assumes "recorded s = R"
  shows "wp (notify e) (\<lambda>_. bits_ok ev R) (\<lambda>_. bits_ok ev R) s" "wp (ret x) (\<lambda>_. bits_ok ev R) (\<lambda>_. bits_ok ev R) s"
    "wp (fail err) (\<lambda>_. bits_ok ev R) (\<lambda>_. bits_ok ev R) s"
  using assms by (auto intro!: wp_frame_ok frame_intros)

lemma wp_write_file_verifies:
  assumes "recorded s = R"
  shows "wp (write_file ev pid i off data) (\<lambda>_. bits_ok ev R) (\<lambda>_. bits_ok ev R) s"
  unfolding write_file_def using assms
  by (auto intro!: wp_bind_frame frame_intros wp_checkout_verifies wp_leaf_ok split: option.split sum.split)

lemma frame_dispatch [frame_intros]: "frame recorded (dispatch_callbacks n ev pid c)"
  unfolding dispatch_callbacks_def by (cases c) (auto intro!: frame_intros)

lemma frame_call [frame_intros]: "frame recorded (call (dispatch_callbacks n ev) pid c)"
  unfolding call_def by (intro frame_intros)

lemma wp_handle_piece_verifies:
  assumes "recorded s = R"
  shows "wp (handle_piece ev (dispatch_callbacks n ev) pid payload) (\<lambda>_. bits_ok ev R) (\<lambda>_. bits_ok ev R) s"
  unfolding handle_piece_def Let_def using assms
  by (auto intro!: wp_bind_frame frame_intros wp_write_file_verifies wp_leaf_ok split: option.split)

lemma frame_handshake [frame_intros]: "frame recorded (handle_handshake (dispatch_callbacks n ev) pid payload)"
  unfolding handle_handshake_def by (intro frame_intros) simp_all

lemma frame_metadata [frame_intros]: "frame recorded (handle_ut_metadata ev (dispatch_callbacks n ev) pid payload)"
  unfolding handle_ut_metadata_def handle_ut_metadata_data_def
  by (auto intro!: frame_intros split: MetadataType.split)

lemma wp_handle_verifies:
  assumes "recorded s = R"
  shows "wp (handle ev (dispatch_callbacks n ev) pid mt payload) (\<lambda>_. bits_ok ev R) (\<lambda>_. bits_ok ev R) s"
  unfolding handle_def
proof (intro wp_bind_frame frame_intros assms)
  fix found s' assume r: "recorded s' = R"
  have "frame recorded (handle_extension_protocol ev (dispatch_callbacks n ev) pid payload)"
    unfolding handle_extension_protocol_def by (cases payload) (auto intro!: frame_intros)
  then show "wp (if \<not> found then ret () else case mt of
      Choke \<Rightarrow> handle_choke pid | UnChoke \<Rightarrow> handle_un_choke (dispatch_callbacks n ev) pid | Interested \<Rightarrow> handle_interested pid
    | NotInterested \<Rightarrow> handle_not_interested pid | Have \<Rightarrow> handle_have (dispatch_callbacks n ev) pid payload
    | Bitfield \<Rightarrow> handle_bitfield (dispatch_callbacks n ev) pid payload | Request \<Rightarrow> handle_request pid payload
    | PieceMsg \<Rightarrow> handle_piece ev (dispatch_callbacks n ev) pid payload | Cancel \<Rightarrow> handle_cancel pid payload
    | ExtensionProtocol \<Rightarrow> handle_extension_protocol ev (dispatch_callbacks n ev) pid payload | _ \<Rightarrow> ret ())
    (\<lambda>_. bits_ok ev R) (\<lambda>_. bits_ok ev R) s'"
    using r wp_handle_piece_verifies [OF r]
    by (cases mt) (auto intro!: wp_frame_ok frame_intros simp: handle_choke_def handle_un_choke_def handle_interested_def
        handle_not_interested_def handle_have_def handle_bitfield_def handle_request_def handle_cancel_def Let_def)
qed

text \<open>A torrent of one piece of two bytes, and the arrival of its only block.\<close>

definition small_torrent :: Torrent where
  "small_torrent = Torrent_new \<lparr> info_length = 2, info_piece_length = 2, info_pieces = replicate 20 0, info_name = ''n'',
     info_files = [], info_md5sum = None, info_private = None, file_piece = [] \<rparr> [] []"

definition small_env :: env where
  "small_env = \<lparr> ev_block_size = 2, ev_metadata_size_limit = 0, ev_buf_limit = 100, ev_hash_chunk_size = 2, ev_sha1 = \<lambda>b. replicate 20 (hd b - 5),
     ev_io = \<lparr> io_open = \<lambda>_. True, io_flush = \<lambda>_. True \<rparr>, ev_writer_order = [], ev_order = sorted_list_of_set, ev_now = 0 \<rparr>"

definition small_servant :: DefaultServant where
  "small_servant = (DefaultServant_new (Some small_torrent) [0] [0 \<mapsto> Ing 0] ''d'' False
     (\<lambda>i. (Peer_new i Dashbord_new 0)\<lparr> response_pieces := [0 \<mapsto> \<lparr> p_block_offset = 0, p_bitmap = [0], p_block_size = 2, p_piece_length = 2, p_finish = False \<rparr>] \<rparr>)
     (Store_new Map.empty))\<lparr> sv_callback := Some True, sv_peers := {7} \<rparr>"

lemma small_len [simp]: "Torrent_piece_length small_torrent 0 = 2"
  by (simp add: small_torrent_def Torrent_new_def Torrent_piece_length_def Let_def)

lemma small_find: "find_file_of_piece_index (info small_torrent) ''d'' 0 0 2 = Inr [\<lparr> bi_filepath = ''d/n'', bi_start = 0, bi_len = 2, bi_file_len = 2 \<rparr>]"
  by (simp add: find_file_of_piece_index_def small_torrent_def Torrent_new_def path_push_def)

lemma small_write: "\<exists>st. write_blocks (ev_io small_env) [] 100 [\<lparr> bi_filepath = ''d/n'', bi_start = 0, bi_len = 2, bi_file_len = 2 \<rparr>] [5, 6] (Store_new Map.empty) = (Inr (), st)
   \<and> (\<exists>st'. checkout (ev_io small_env) 2 (ev_sha1 small_env) [\<lparr> bi_filepath = ''d/n'', bi_start = 0, bi_len = 2, bi_file_len = 2 \<rparr>] (replicate 20 0) st = Some (Inr True, st'))"
proof -
  let ?bis = "[\<lparr> bi_filepath = ''d/n'', bi_start = 0, bi_len = 2, bi_file_len = 2 \<rparr>]"
  have "io_ok (ev_io small_env)" "store_ok (Store_new Map.empty)" "blocks_ok (Store_new Map.empty) ?bis" "length [5, 6 :: u8] = sum_list (map bi_len ?bis)" "0 < (2 :: nat)"
    by (simp_all add: small_env_def io_ok_def store_ok_def blocks_ok_def len_agrees_def Store_new_def)
  from store_then_checkout [OF this, of "[]" 100 "ev_sha1 small_env" "replicate 20 0"]
  show ?thesis by (auto simp: small_env_def)
qed

lemma small_run: "\<exists>s'. handle small_env (dispatch_callbacks 1 small_env) 7 PieceMsg [0, 0, 0, 0, 0, 0, 0, 0, 5, 6] small_servant = Some (Inr (), s') \<and> bitmap_has (sv_bytefield s') 0"
proof -
  obtain st st' where w: "write_blocks (ev_io small_env) [] 100 [\<lparr> bi_filepath = ''d/n'', bi_start = 0, bi_len = 2, bi_file_len = 2 \<rparr>] [5, 6] (Store_new Map.empty) = (Inr (), st)"
   "checkout (ev_io small_env) 2 (ev_sha1 small_env) [\<lparr> bi_filepath = ''d/n'', bi_start = 0, bi_len = 2, bi_file_len = 2 \<rparr>] (replicate 20 0) st = Some (Inr True, st')"
    using small_write by blast
  have h: "piece_hash small_torrent 0 = Inr (replicate 20 0)" by (simp add: piece_hash_def small_torrent_def Torrent_new_def)
  have be: "from_be_slice 4 [0, 0, 0, 0] = 0" by code_simp
  have af: "Piece_add_finish 0 \<lparr> p_block_offset = 0, p_bitmap = [0], p_block_size = 2, p_piece_length = 2, p_finish = False \<rparr>
    = Inr \<lparr> p_block_offset = 2, p_bitmap = [128], p_block_size = 2, p_piece_length = 2, p_finish = True \<rparr>"
    by (simp add: Piece_add_finish_def block_offset_idx_def div_ceil_def bitmap_put_def bitmap_offset_def scan_byte.simps Let_def)
  have e: "ev_writer_order small_env = []" "ev_buf_limit small_env = 100" "ev_hash_chunk_size small_env = 2" by (simp_all add: small_env_def)
  show ?thesis
    by (simp add: handle_def handle_piece_def small_servant_def DefaultServant_new_def eff_bind_def gets_def callback_def ret_def Let_def be
       is_valid_piece_response_def sv_peer_def dispatch_callbacks_def is_can_be_download_def Peer_new_def
       write_file_def get_seq_last_piece_block_offset_def lift_result_def small_find attempt_def with_store_def w e modify_def update_write_piece_offset_def
       with_peer_result_def modify_result_def update_resoponse_piece_def af set_peer_def notify_def piece_recv_finish_def with_peer_def checkout_piece_hash_def h
       Peer_remove_finish_piece_def mark_piece_finish_def remove_finish_piece_def bitmap_has_put numeral_2_eq_2 [symmetric] del: write_blocks.simps)
qed
text \<open>
  C1. A message of a peer makes a piece count as finished only when, at the end of the handler, the bytes of
  that piece as they are in the files of the torrent have the hash the torrent lists for it: whatever the
  peer sends, data that fails the check is never recorded.
\<close>

theorem only_verified_pieces_recorded:
  assumes "handle ev (dispatch_callbacks n ev) pid mt payload s = Some (r, s')"
    and "bitmap_has (sv_bytefield s') k" and "\<not> bitmap_has (sv_bytefield s) k"
  shows "\<exists>t hash bis. sv_torrent s' = Some t \<and> piece_hash t k = Inr hash
    \<and> find_file_of_piece_index (info t) (sv_save_path s') k 0 (Torrent_piece_length t k) = Inr bis
    \<and> ev_sha1 ev (read_blocks (content (sv_store s')) bis) = hash"
proof -
  have "bits_ok ev (recorded s) s'"
    using wp_handle_verifies [OF refl, of ev n pid mt payload s] assms(1) by (cases r) (auto simp: wp_def)
  then show ?thesis using assms(2,3) by (auto simp: bits_ok_def recorded_def verified_def)
qed

theorem only_verified_pieces_recorded_witness:
  "\<exists>s'. handle small_env (dispatch_callbacks 1 small_env) 7 PieceMsg [0, 0, 0, 0, 0, 0, 0, 0, 5, 6] small_servant = Some (Inr (), s')
    \<and> (\<exists>t hash bis. sv_torrent s' = Some t \<and> piece_hash t 0 = Inr hash
      \<and> find_file_of_piece_index (info t) (sv_save_path s') 0 0 (Torrent_piece_length t 0) = Inr bis
      \<and> ev_sha1 small_env (read_blocks (content (sv_store s')) bis) = hash)"
proof -
  obtain s' where run: "handle small_env (dispatch_callbacks 1 small_env) 7 PieceMsg [0, 0, 0, 0, 0, 0, 0, 0, 5, 6] small_servant = Some (Inr (), s')"
    "bitmap_has (sv_bytefield s') 0" using small_run by blast
  have "\<not> bitmap_has (sv_bytefield small_servant) 0" by (simp add: small_servant_def DefaultServant_new_def bitmap_has_def bitmap_offset_def)
  from only_verified_pieces_recorded [OF run this] run(1) show ?thesis by blast
qed

end
