(* ===== verification/Servant_Tasks.thy ===== *)
theory Servant_Tasks
  imports Servant_Props
begin

text \<open>
  Blocks that are written at the same time. Every message of a peer is handled in a task of its own (\<^verbatim>\<open>persist_listen\<close>), and \<^verbatim>\<open>write_file\<close>
  awaits the storage and the callback, so several writes for one peer overlap. Here \<^verbatim>\<open>write_file\<close> is cut at every access to the shared
  maps, and the parts of different tasks interleave in any order; the other handlers run in between, each as one step. Run without
  an interruption, the parts are the function of \<^verbatim>\<open>Servant\<close>.
\<close>

section \<open>Places of a write\<close>

text \<open>Where a task stands in \<^verbatim>\<open>write_file\<close> and \<^verbatim>\<open>checkout_piece_hash\<close>: the arguments are the piece, the offset, the data or its length, and what was read before.\<close>

datatype write_place =
    WBegin nat nat bytes
  | WStore nat nat bytes nat
  | WOffset nat nat nat nat
  | WUpdate nat nat nat
  | WReport nat nat nat
  | WFinish nat
  | WRemove nat
  | WCheck nat
  | WVerdict nat "bool result"
  | WDone

fun write_step :: "env \<Rightarrow> nat \<Rightarrow> write_place \<Rightarrow> write_place sv" where
  "write_step ev pid (WBegin i off data) =
     eff_bind (gets (\<lambda>s. get_seq_last_piece_block_offset i (sv_peer pid s))) (\<lambda>ro.
       ret (case ro of None \<Rightarrow> WDone | Some real_offset \<Rightarrow> WStore i off data real_offset))"
| "write_step ev pid (WStore i off data real_offset) =
     eff_bind (gets sv_torrent) (\<lambda>t. case t of
       None \<Rightarrow> fail (Panic ''unwrap of None'')
     | Some t \<Rightarrow>
         eff_bind (gets sv_save_path) (\<lambda>path.
         eff_bind (lift_result (find_file_of_piece_index (info t) path i off (length data))) (\<lambda>bis.
         eff_bind (attempt (with_store (\<lambda>st. Some (write_blocks (ev_io ev) (ev_writer_order ev) (ev_buf_limit ev) bis data st)))) (\<lambda>r.
           case r of
             Inl _ \<Rightarrow>
               eff_bind (with_peer_result pid (reset_request_piece_origin (ev_block_size ev) i off (Torrent_piece_length t i))) (\<lambda>_.
               eff_bind (notify (OnStoreBlockFailed pid i off)) (\<lambda>_. ret WDone))
           | Inr _ \<Rightarrow> ret (WOffset i off (length data) real_offset)))))"
| "write_step ev pid (WOffset i off n real_offset) =
     eff_bind (modify (update_write_piece_offset i real_offset)) (\<lambda>_. ret (WUpdate i off n))"
| "write_step ev pid (WUpdate i off n) =
     eff_bind (with_peer_result pid (update_resoponse_piece i off)) (\<lambda>_. ret (WReport i off n))"
| "write_step ev pid (WReport i off n) =
     eff_bind (notify (OnStoreBlockSuccess pid i off n)) (\<lambda>_. ret (WFinish i))"
| "write_step ev pid (WFinish i) =
     eff_bind (gets (\<lambda>s. piece_recv_finish i (sv_peer pid s))) (\<lambda>fin. ret (if fin then WRemove i else WDone))"
| "write_step ev pid (WRemove i) =
     eff_bind (with_peer pid (Peer_remove_finish_piece i)) (\<lambda>_. ret (WCheck i))"
| "write_step ev pid (WCheck i) =
     eff_bind (gets sv_torrent) (\<lambda>t. case t of
       None \<Rightarrow> fail (Panic ''unwrap of None'')
     | Some t \<Rightarrow>
         eff_bind (lift_result (piece_hash t i)) (\<lambda>hash.
         eff_bind (gets sv_save_path) (\<lambda>path.
         eff_bind (lift_result (find_file_of_piece_index (info t) path i 0 (Torrent_piece_length t i))) (\<lambda>bis.
         eff_bind (attempt (with_store (checkout (ev_io ev) (ev_hash_chunk_size ev) (ev_sha1 ev) bis hash))) (\<lambda>r.
           ret (WVerdict i r))))))"
| "write_step ev pid (WVerdict i r) =
     (if r = Inr True then
        eff_bind (modify (mark_piece_finish i)) (\<lambda>_. eff_bind (notify (OnVerifyPieceSuccess pid i)) (\<lambda>_. ret WDone))
      else
        eff_bind (modify (reset_underway_piece i)) (\<lambda>_. eff_bind (notify (OnVerifyPieceFailed pid i)) (\<lambda>_. ret WDone)))"
| "write_step ev pid WDone = ret WDone"

text \<open>A task that is not interrupted.\<close>

fun write_alone :: "nat \<Rightarrow> env \<Rightarrow> nat \<Rightarrow> write_place \<Rightarrow> unit sv" where
  "write_alone 0 ev pid w = (\<lambda>_. None)"
| "write_alone (Suc n) ev pid w = (if w = WDone then ret () else eff_bind (write_step ev pid w) (write_alone n ev pid))"

text \<open>The handler of a block up to \<^verbatim>\<open>write_file\<close>.\<close>

definition piece_begin :: "env \<Rightarrow> callbacks \<Rightarrow> nat \<Rightarrow> bytes \<Rightarrow> write_place sv" where
  "piece_begin ev cb pid payload =
     eff_bind (gets sv_torrent) (\<lambda>t. case t of
       None \<Rightarrow> ret WDone
     | Some t \<Rightarrow>
         if length payload < 8 then fail (Err ''length of Piece'')
         else
           let i = from_be_slice 4 (take 4 payload); off = from_be_slice 4 (take 4 (drop 4 payload)) in
           eff_bind (gets (\<lambda>s. is_valid_piece_response i (sv_peer pid s))) (\<lambda>valid.
             if \<not> valid then ret WDone
             else
               let data = drop 8 payload in
               eff_bind callback (\<lambda>alive.
                 if \<not> alive then ret WDone
                 else
                   eff_bind (cb pid (ReceivedBlock i off (wrap32 (length data)))) (\<lambda>_.
                   ret (WBegin i off data)))))"

section \<open>Interleaving\<close>

text \<open>The servant with the tasks that write for it.\<close>

type_synonym tasks = "DefaultServant \<times> (nat \<times> write_place) list"

fun next_place :: "write_place result \<Rightarrow> write_place" where
  "next_place (Inl e) = WDone"
| "next_place (Inr w) = w"

inductive task_step :: "tasks \<Rightarrow> tasks \<Rightarrow> bool" where
  ts_other: "sv_step s s' \<Longrightarrow> task_step (s, ts) (s', ts)"
| ts_block: "order_ok ev \<Longrightarrow> pid \<in> sv_peers s \<Longrightarrow> piece_begin ev (dispatch_callbacks n ev) pid payload s = Some (r, s') \<Longrightarrow>
    task_step (s, ts) (s', ts @ [(pid, next_place r)])"
| ts_write: "k < length ts \<Longrightarrow> ts ! k = (pid, w) \<Longrightarrow> write_step ev pid w s = Some (r, s') \<Longrightarrow>
    task_step (s, ts) (s', ts[k := (pid, next_place r)])"

inductive task_reach :: "tasks \<Rightarrow> bool" where
  task_new: "task_reach (DefaultServant_new t bf ub path fin heap st, [])"
| task_more: "task_reach x \<Longrightarrow> task_step x y \<Longrightarrow> task_reach y"

section \<open>Without interruption\<close>

lemma eff_bind_assoc: "eff_bind (eff_bind m f) g = eff_bind m (\<lambda>x. eff_bind (f x) g)"
  by (auto simp: fun_eq_iff eff_bind_def split: option.split sum.split prod.split)

lemma eff_bind_ret: "eff_bind (ret x) f = f x" "eff_bind m ret = m" "eff_bind (fail e) h = fail e"
  by (auto simp: fun_eq_iff eff_bind_def ret_def fail_def split: option.split sum.split prod.split)

lemma eff_bind_unit: "eff_bind m (\<lambda>_ :: unit. ret ()) = m"
  by (auto simp: fun_eq_iff eff_bind_def ret_def split: option.split sum.split prod.split)

lemma eff_bind_cong: "(\<And>x. f x = g x) \<Longrightarrow> eff_bind m f = eff_bind m g"
  by (simp add: fun_eq_iff eff_bind_def split: option.split sum.split)

lemmas eff_laws = eff_bind_assoc eff_bind_ret eff_bind_unit

lemma eff_bind_case [simp]:
  "eff_bind (case t of None \<Rightarrow> m | Some x \<Rightarrow> f x) g = (case t of None \<Rightarrow> eff_bind m g | Some x \<Rightarrow> eff_bind (f x) g)"
  "eff_bind (case r of Inl e \<Rightarrow> h e | Inr y \<Rightarrow> k y) g = (case r of Inl e \<Rightarrow> eff_bind (h e) g | Inr y \<Rightarrow> eff_bind (k y) g)"
  "eff_bind (if b then m else m') g = (if b then eff_bind m g else eff_bind m' g)"
  by (simp_all split: option.split sum.split)

lemma alone_checkout: "write_alone (Suc (Suc (Suc n))) ev pid (WCheck i) = checkout_piece_hash ev pid i"
  by (auto simp: checkout_piece_hash_def eff_laws intro!: eff_bind_cong split: option.split)

declare write_alone.simps(2) [simp del]

lemma alone_Done [simp]: "write_alone (Suc n) ev pid WDone = ret ()"
  by (simp add: write_alone.simps(2))

lemma alone_remove: "write_alone (Suc (Suc (Suc (Suc n)))) ev pid (WRemove i) =
    eff_bind (with_peer pid (Peer_remove_finish_piece i)) (\<lambda>_. checkout_piece_hash ev pid i)"
  by (subst write_alone.simps(2)) (simp add: eff_laws alone_checkout)

lemma alone_finish: "write_alone (Suc (Suc (Suc (Suc (Suc n))))) ev pid (WFinish i) =
    eff_bind (gets (\<lambda>s. piece_recv_finish i (sv_peer pid s))) (\<lambda>fin.
      if fin then eff_bind (with_peer pid (Peer_remove_finish_piece i)) (\<lambda>_. checkout_piece_hash ev pid i) else ret ())"
  by (subst write_alone.simps(2)) (auto simp: eff_laws alone_remove intro!: eff_bind_cong)

lemma alone_stored: "write_alone (Suc (Suc (Suc (Suc (Suc (Suc (Suc (Suc n)))))))) ev pid (WOffset i off k real_offset) =
    eff_bind (modify (update_write_piece_offset i real_offset)) (\<lambda>_.
    eff_bind (with_peer_result pid (update_resoponse_piece i off)) (\<lambda>_.
    eff_bind (notify (OnStoreBlockSuccess pid i off k)) (\<lambda>_. write_alone (Suc (Suc (Suc (Suc (Suc n))))) ev pid (WFinish i))))"
  by (simp add: write_alone.simps(2) [of _ _ _ "WOffset i off k real_offset"] write_alone.simps(2) [of _ _ _ "WUpdate i off k"]
      write_alone.simps(2) [of _ _ _ "WReport i off k"] eff_laws)

lemma write_alone_is_write_file: "write_alone 10 ev pid (WBegin i off data) = write_file ev pid i off data"
proof -
  have st: "write_alone (Suc (Suc (Suc (Suc (Suc (Suc (Suc (Suc (Suc n))))))))) ev pid (WStore i off data real_offset) =
    eff_bind (gets sv_torrent) (\<lambda>t. case t of
           None \<Rightarrow> fail (Panic ''unwrap of None'')
         | Some t \<Rightarrow>
             eff_bind (gets sv_save_path) (\<lambda>path.
             eff_bind (lift_result (find_file_of_piece_index (info t) path i off (length data))) (\<lambda>bis.
             eff_bind (attempt (with_store (\<lambda>st. Some (write_blocks (ev_io ev) (ev_writer_order ev) (ev_buf_limit ev) bis data st)))) (\<lambda>r.
               case r of
                 Inl _ \<Rightarrow>
                   eff_bind (with_peer_result pid (reset_request_piece_origin (ev_block_size ev) i off (Torrent_piece_length t i))) (\<lambda>_.
                   notify (OnStoreBlockFailed pid i off))
               | Inr _ \<Rightarrow> write_alone (Suc (Suc (Suc (Suc (Suc (Suc (Suc (Suc n)))))))) ev pid (WOffset i off (length data) real_offset)))))" for n real_offset
    by (subst write_alone.simps(2)) (auto simp: eff_laws intro!: eff_bind_cong split: option.split sum.split)
  have "write_alone (Suc (Suc (Suc (Suc (Suc (Suc (Suc (Suc (Suc (Suc 0)))))))))) ev pid (WBegin i off data) = write_file ev pid i off data"
    by (subst write_alone.simps(2))
      (auto simp: write_file_def eff_laws st alone_stored alone_finish intro!: eff_bind_cong split: option.split sum.split)
  then show ?thesis by (simp add: eval_nat_numeral)
qed

lemma alone_Done10: "write_alone 10 ev pid WDone = ret ()"
  using alone_Done [of 9 ev pid] by simp

text \<open>So the handler of a block is its first part followed by the write.\<close>

lemma handle_piece_parts: "handle_piece ev cb pid payload = eff_bind (piece_begin ev cb pid payload) (write_alone 10 ev pid)"
  by (auto simp: handle_piece_def piece_begin_def eff_laws write_alone_is_write_file alone_Done10 Let_def intro!: eff_bind_cong split: option.split)

section \<open>A run with two writes of one block\<close>

text \<open>A torrent of one piece of five blocks, and bytes on disk that do not have its hash.\<close>

definition race_torrent :: Torrent where
  "race_torrent = Torrent_new \<lparr> info_length = 5, info_piece_length = 5, info_pieces = replicate 20 0, info_name = ''n'',
     info_files = [], info_md5sum = None, info_private = None, file_piece = [] \<rparr> [] []"

definition race_env :: env where
  "race_env = \<lparr> ev_block_size = 1, ev_metadata_size_limit = 0, ev_buf_limit = 100, ev_hash_chunk_size = 5, ev_sha1 = \<lambda>b. replicate 20 1,
     ev_io = \<lparr> io_open = \<lambda>_. True, io_flush = \<lambda>_. True \<rparr>, ev_writer_order = [], ev_order = sorted_list_of_set, ev_now = 0 \<rparr>"

lemma race_torrent_simps [simp]:
  "Torrent_piece_length race_torrent 0 = 5" "piece_num race_torrent = 1" "bitfield_len race_torrent = 1"
  by (simp_all add: race_torrent_def Torrent_new_def Torrent_piece_length_def piece_num_def bitfield_len_def Let_def)

lemma race_env_simps [simp]: "ev_block_size race_env = 1" "ev_order race_env = sorted_list_of_set" "ev_now race_env = 0"
  by (simp_all add: race_env_def)

lemma race_order [simp]: "order_ok race_env"
proof -
  have "set (sorted_list_of_set D) \<subseteq> D" for D :: "nat set" by (cases "finite D") simp_all
  then show ?thesis by (simp add: order_ok_def)
qed

text \<open>What the run needs of the servant.\<close>

definition race_ok :: "DefaultServant \<Rightarrow> bool" where
  "race_ok s \<longleftrightarrow> sv_torrent s = Some race_torrent \<and> sv_callback s = Some True \<and> sv_bytefield s = [0] \<and> sv_save_path s = ''d'' \<and> \<not> sv_piece_finished s"

definition can_ask :: "Peer \<Rightarrow> bool" where
  "can_ask p \<longleftrightarrow> pe_runnable p \<and> recv_bitfield p \<and> pe_op_bitfield p = [128] \<and> request_pieces p = Map.empty \<and> response_pieces p = Map.empty
     \<and> pe_dashbord p = Dashbord_new"

lemmas race_eval = eff_bind_def gets_def ret_def modify_def modify_result_def with_peer_def with_peer_result_def callback_def
  set_peer_def sv_peer_def notify_def attempt_def fail_def lift_result_def

lemma sorted_single [simp]: "sorted_list_of_set (dom [k \<mapsto> v]) = [k :: nat]"
  by simp

text \<open>The rest of the window: the blocks from \<open>v\<close> on are requested one after the other.\<close>

lemma request_rest:
  "pe_status p = StUnChoke \<Longrightarrow> recv_bitfield p \<Longrightarrow> pe_runnable p \<Longrightarrow> cwnd (pe_dashbord p) = 4 \<Longrightarrow> inflight (pe_dashbord p) = v \<Longrightarrow> v + k = 5
     \<Longrightarrow> request_pieces p = (if k = 0 then Map.empty else [0 \<mapsto> v])
     \<Longrightarrow> \<exists>p'. request_loop (Suc k + n) race_env race_torrent pid (set_peer pid p s) = Some (Inr (), set_peer pid p' s)
        \<and> response_pieces p' = response_pieces p"
proof (induction k arbitrary: v p)
  case 0
  then show ?case
    by (intro exI [of _ p]) (simp add: request_loop.simps has_send_window_space_def race_eval)
next
  case (Suc k)
  let ?m = "if k = 0 then Map.empty else [0 \<mapsto> Suc v] :: nat \<Rightarrow> nat option"
  define p1 where "p1 = (Peer_send (request_piece_bytes 0 v 1) (p\<lparr> request_pieces := ?m \<rparr>))\<lparr> pe_dashbord := Dashbord_send (pe_dashbord p) \<rparr>"
  have rq: "request_pieces p = [0 \<mapsto> v]" using Suc.prems(7) by (simp only: nat.distinct if_False)
  have v: "v < 5" "v + k = 4" using Suc.prems(6) by simp_all
  have nx: "next_requested race_torrent (request_pieces p) (sorted_list_of_set (dom (request_pieces p))) = Some (0, v)"
    unfolding rq using v by simp
  have upd: "(request_pieces p)(0 := None) = Map.empty" "(request_pieces p)(0 \<mapsto> x) = [0 \<mapsto> x]" for x
    unfolding rq by simp_all
  have find: "try_find_downloadable_peice race_env race_torrent pid (set_peer pid p s) = Some (Inr (Some (0, v)), set_peer pid (p\<lparr> request_pieces := ?m \<rparr>) s)"
    using Suc.prems(1,2) v
    by (auto simp: try_find_downloadable_peice_def is_can_be_download_def eff_bind_def gets_def ret_def with_peer_def modify_def Let_def nx upd) (simp_all add: set_peer_def)
  have win: "has_send_window_space (sv_peer pid (set_peer pid p s))" using Suc.prems by (simp add: has_send_window_space_def)
  have one: "request_loop (Suc m) race_env race_torrent pid (set_peer pid p s) = request_loop m race_env race_torrent pid (set_peer pid p1 s)" for m
    unfolding request_loop.simps(2) using Suc.prems win
    by (simp add: eff_bind_def gets_def find with_peer_def with_peer_result_def modify_def modify_result_def
        Peer_request_piece_def check_runnable_def Peer_send_def p1_def Let_def del: request_loop.simps) (simp add: set_peer_def sv_peer_def)
  have "\<exists>p'. request_loop (Suc k + n) race_env race_torrent pid (set_peer pid p1 s) = Some (Inr (), set_peer pid p' s) \<and> response_pieces p' = response_pieces p1"
    by (rule Suc.IH [of p1 "Suc v"]) (use Suc.prems in \<open>simp_all add: p1_def Peer_send_def Dashbord_send_def\<close>)
  then show ?case using one [of "Suc k + n"] by (simp add: p1_def Peer_send_def del: request_loop.simps)
qed

lemma new_bits: "bitmap_has [128] 0" "bitmap_offset 0 = (0, 128)"
  by (simp_all add: bitmap_has_def bitmap_offset_def)

definition fresh_piece :: "nat \<Rightarrow> Piece" where
  "fresh_piece off = \<lparr> p_block_offset = off, p_bitmap = [0], p_block_size = 1, p_piece_length = 5, p_finish = False \<rparr>"

lemma reset_fresh:
  "request_pieces p = Map.empty \<Longrightarrow> reset_request_piece_origin 1 0 off 5 p =
     Inr (p\<lparr> response_pieces := (response_pieces p)(0 \<mapsto> fresh_piece off), request_pieces := [0 \<mapsto> off] \<rparr>)"
  by (simp add: reset_request_piece_origin_def insert_response_pieces_def Piece_new_def block_offset_idx_def div_ceil_def fresh_piece_def Let_def)

text \<open>A peer that can be asked gets the piece when it is paused.\<close>

definition asked :: "nat \<Rightarrow> Peer \<Rightarrow> Peer" where
  "asked off p = (Peer_send (request_piece_bytes 0 off 1)
     (p\<lparr> pe_status := StUnChoke, response_pieces := [0 \<mapsto> fresh_piece off], request_pieces := [0 \<mapsto> off + 1] \<rparr>))\<lparr> pe_dashbord := Dashbord_send Dashbord_new \<rparr>"

lemma first_request:
  assumes "race_ok s" and "can_ask p" and "sv_underway s 0 = Some (Pause off)" and "off < 5"
  shows "request_loop (Suc n) race_env race_torrent pid (set_peer pid (p\<lparr> pe_status := StUnChoke \<rparr>) s) =
    request_loop n race_env race_torrent pid (set_peer pid (asked off p) (s\<lparr> sv_underway := (sv_underway s)(0 \<mapsto> Ing off) \<rparr>))"
proof -
  let ?p = "p\<lparr> pe_status := StUnChoke \<rparr>"
  have a: "pe_runnable p" "recv_bitfield p" "pe_op_bitfield p = [128]" "request_pieces p = Map.empty" "response_pieces p = Map.empty" "pe_dashbord p = Dashbord_new"
    using assms(2) by (simp_all add: can_ask_def)
  have ap: "apply_download_piece 0 (set_peer pid q s) = (Some (0, off), set_peer pid q (s\<lparr> sv_underway := (sv_underway s)(0 \<mapsto> Ing off) \<rparr>))" for q
    using assms(1,3) by (simp add: apply_download_piece_def new_bits race_ok_def set_peer_def)
  have find: "try_find_downloadable_peice race_env race_torrent pid (set_peer pid ?p s) = Some (Inr (Some (0, off)),
      set_peer pid (?p\<lparr> response_pieces := [0 \<mapsto> fresh_piece off], request_pieces := [0 \<mapsto> off + 1] \<rparr>) (s\<lparr> sv_underway := (sv_underway s)(0 \<mapsto> Ing off) \<rparr>))"
    using assms(4)
    by (simp add: try_find_downloadable_peice_def is_can_be_download_def eff_bind_def gets_def ret_def with_peer_def with_peer_result_def modify_def
        modify_result_def a new_bits ap reset_fresh [unfolded One_nat_def]) (simp add: set_peer_def)
  have win: "has_send_window_space (sv_peer pid (set_peer pid ?p s))" by (simp add: has_send_window_space_def a Dashbord_new_def)
  have mn: "min (Suc 0) (sub32 5 off) = Suc 0" using assms(4) by (simp add: min_def)
  show ?thesis
    unfolding request_loop.simps(2) using win
    by (simp add: eff_bind_def gets_def find with_peer_def with_peer_result_def modify_def modify_result_def mn
        Peer_request_piece_def check_runnable_def Peer_send_def a asked_def Let_def del: request_loop.simps) (simp add: set_peer_def sv_peer_def)
qed

lemma request_prefix:
  assumes "race_ok s" and "pid \<in> sv_peers s" and "can_ask p"
  shows "request_piece (Suc n) race_env pid (set_peer pid (p\<lparr> pe_status := StUnChoke \<rparr>) s) =
    request_loop n race_env race_torrent pid (set_peer pid (p\<lparr> pe_status := StUnChoke \<rparr>) s)"
  using assms by (simp add: eff_bind_def gets_def ret_def race_ok_def can_ask_def is_can_be_download_def)

lemma unchoke_request:
  assumes "race_ok s" and "pid \<in> sv_peers s"
  shows "handle race_env (dispatch_callbacks n race_env) pid UnChoke [] s = request_piece n race_env pid (set_peer pid ((sv_peer pid s)\<lparr> pe_status := StUnChoke \<rparr>) s)"
  using assms by (simp add: handle_def handle_un_choke_def call_def dispatch_callbacks_def eff_bind_def gets_def with_peer_def modify_def callback_def ret_def race_ok_def)

lemma race_ok_updates [simp]:
  "race_ok (set_peer pid p s) = race_ok s" "race_ok (s\<lparr> sv_underway := u \<rparr>) = race_ok s" "race_ok (s\<lparr> sv_events := es \<rparr>) = race_ok s"
  "race_ok (s\<lparr> sv_store := st \<rparr>) = race_ok s" "race_ok (s\<lparr> sv_peers := ps \<rparr>) = race_ok s"
  by (simp_all add: race_ok_def)

lemma sv_peer_updates [simp]:
  "sv_peer j (s\<lparr> sv_underway := u \<rparr>) = sv_peer j s" "sv_peer j (s\<lparr> sv_events := es \<rparr>) = sv_peer j s"
  "sv_peer j (s\<lparr> sv_store := st \<rparr>) = sv_peer j s" "sv_peer j (s\<lparr> sv_peers := ps \<rparr>) = sv_peer j s"
  by (simp_all add: sv_peer_def)

text \<open>An unchoked peer takes the paused piece: from the start it fills its window, from the last block on it asks for that one.\<close>

lemma unchoke_takes:
  assumes "race_ok s" and "pid \<in> sv_peers s" and "can_ask (sv_peer pid s)" and "sv_underway s 0 = Some (Pause 0)"
  shows "\<exists>p. handle race_env (dispatch_callbacks 9 race_env) pid UnChoke [] s =
      Some (Inr (), set_peer pid p (s\<lparr> sv_underway := (sv_underway s)(0 \<mapsto> Ing 0) \<rparr>)) \<and> response_pieces p 0 \<noteq> None"
proof -
  let ?s = "s\<lparr> sv_underway := (sv_underway s)(0 \<mapsto> Ing 0) \<rparr>"
  have "handle race_env (dispatch_callbacks (Suc (Suc (Suc 4 + 2))) race_env) pid UnChoke [] s =
      request_loop (Suc 4 + 2) race_env race_torrent pid (set_peer pid (asked 0 (sv_peer pid s)) ?s)"
    unfolding unchoke_request [OF assms(1,2)] request_prefix [OF assms(1-3)] by (rule first_request [OF assms(1,3,4)]) simp
  moreover have "\<exists>p'. request_loop (Suc 4 + 2) race_env race_torrent pid (set_peer pid (asked 0 (sv_peer pid s)) ?s) = Some (Inr (), set_peer pid p' ?s)
      \<and> response_pieces p' = response_pieces (asked 0 (sv_peer pid s))"
    by (rule request_rest) (use assms(3) in \<open>simp_all add: asked_def can_ask_def Peer_send_def Dashbord_send_def Dashbord_new_def MIN_CWND_def\<close>)
  ultimately show ?thesis by (auto simp: asked_def Peer_send_def simp del: request_loop.simps request_piece.simps)
qed

lemma alone_cannot_loot:
  assumes "race_ok s" and "sv_peers s = {pid}" and "sv_underway s 0 = Some (Ing off)" and "can_ask p"
  shows "\<exists>p'. request_loop (Suc (Suc m)) race_env race_torrent pid (set_peer pid (asked 4 p) s) = Some (Inr (), set_peer pid p' s)
    \<and> response_pieces p' = [0 \<mapsto> fresh_piece 4] \<and> pe_runnable p'"
proof -
  let ?p = "asked 4 p"
  have a: "pe_status ?p = StUnChoke" "recv_bitfield ?p" "pe_runnable ?p" "pe_op_bitfield ?p = [128]" "request_pieces ?p = [0 \<mapsto> 5]"
    "response_pieces ?p = [0 \<mapsto> fresh_piece 4]" "pe_dashbord ?p = Dashbord_send Dashbord_new"
    using assms(4) by (simp_all add: asked_def can_ask_def Peer_send_def)
  have ap: "apply_download_piece 0 (set_peer pid ?p s) = (None, set_peer pid ?p s)"
    using assms(1,3) by (simp add: apply_download_piece_def new_bits race_ok_def)
  have find: "try_find_downloadable_peice race_env race_torrent pid (set_peer pid ?p s) = Some (Inr None, set_peer pid ?p s)"
    by (simp add: try_find_downloadable_peice_def is_can_be_download_def eff_bind_def gets_def ret_def a(1,2,4,5) new_bits ap)
  have d: "inflight (Dashbord_send Dashbord_new) = 1" "cwnd (Dashbord_send Dashbord_new) = 4"
    by (simp_all add: Dashbord_send_def Dashbord_new_def MIN_CWND_def)
  obtain bw d' where bw: "Dashbord_bw 0 (Dashbord_send Dashbord_new) = Inr (bw, d')" "inflight d' = 1"
    by (auto simp: Dashbord_bw_def Dashbord_send_def Dashbord_new_def TimeFixeQueue_avg_def TimeFixeQueue_new_def TimeFixeQueue_expires_def FixedQueue_new_def BW_RATE_THRESH_def Let_def)
  have fin: "check_piece_download_finished (set_peer pid ?p s) = Some (Inr False, set_peer pid ?p s)"
    using assms(1) by (simp add: check_piece_download_finished_def eff_bind_def gets_def ret_def race_ok_def Let_def push_bit_eq_mult)
  have free: "try_free_slow_piece race_env race_torrent pid (set_peer pid ?p s) = Some (Inr False, set_peer pid (?p\<lparr> pe_dashbord := d' \<rparr>) s)"
    using assms(2) bw by (simp add: try_free_slow_piece_def eff_bind_def gets_def ret_def peer_bw_def a(7)) (simp add: set_peer_def)
  show ?thesis
    by (rule exI [of _ "?p\<lparr> pe_dashbord := d' \<rparr>"])
      (simp add: eff_bind_def gets_def ret_def has_send_window_space_def find a d fin free has_transfer_data_def bw(2))
qed

lemma task_handle:
  "task_reach (s, ts) \<Longrightarrow> handle race_env (dispatch_callbacks n race_env) pid mt payload s = Some (r, s') \<Longrightarrow> task_reach (s', ts)"
  by (rule task_more [OF _ ts_other [OF step_handle [OF race_order]]])

text \<open>A new peer that has the piece.\<close>

lemma join:
  assumes "race_ok s" and "pid \<notin> sv_peers s" and "task_reach (s, ts)"
  shows "\<exists>p. task_reach (set_peer pid p (s\<lparr> sv_peers := insert pid (sv_peers s) \<rparr>), ts) \<and> can_ask p"
proof -
  let ?s = "s\<lparr> sv_peers := insert pid (sv_peers s) \<rparr>"
  define p1 where "p1 = Peer_send interested_bytes (Peer_send (bitfield_bytes [0]) (Peer_new pid Dashbord_new 0))"
  have "add_peer (dispatch_callbacks 1 race_env) pid (Peer_new pid Dashbord_new 0) s = Some (Inr (), set_peer pid p1 ?s)"
    using assms(1)
    by (simp add: add_peer_def dispatch_callbacks_def race_eval request_bitfield_def request_interested_def check_runnable_def Peer_send_def
        Peer_new_def race_ok_def p1_def)
  from task_more [OF assms(3) ts_other [OF step_add [OF race_order assms(2) this]]]
  have r: "task_reach (set_peer pid p1 ?s, ts)" .
  let ?p = "set_op_bitfield [128] p1"
  have "handle race_env (dispatch_callbacks 1 race_env) pid Bitfield [128] (set_peer pid p1 ?s) = Some (Inr (), set_peer pid ?p ?s)"
    using assms(1)
    by (simp add: handle_def handle_bitfield_def call_def dispatch_callbacks_def eff_bind_def gets_def with_peer_def modify_def callback_def ret_def
        race_ok_def is_can_be_download_def set_op_bitfield_def p1_def Peer_send_def Peer_new_def) (simp add: set_peer_def)
  from task_handle [OF r this] have "task_reach (set_peer pid ?p ?s, ts)" .
  moreover have "can_ask ?p" by (simp add: can_ask_def set_op_bitfield_def p1_def Peer_send_def Peer_new_def)
  ultimately show ?thesis by blast
qed

text \<open>A peer that joins while the piece is paused at its start takes it.\<close>

lemma join_and_take:
  assumes "race_ok s" and "pid \<notin> sv_peers s" and "task_reach (s, ts)" and "sv_underway s 0 = Some (Pause 0)"
  shows "\<exists>p. task_reach (set_peer pid p (s\<lparr> sv_peers := insert pid (sv_peers s), sv_underway := (sv_underway s)(0 \<mapsto> Ing 0) \<rparr>), ts)
    \<and> response_pieces p 0 \<noteq> None"
proof -
  let ?s = "s\<lparr> sv_peers := insert pid (sv_peers s) \<rparr>"
  obtain p where p: "task_reach (set_peer pid p ?s, ts)" "can_ask p" using join [OF assms(1-3)] by blast
  have "\<exists>q. handle race_env (dispatch_callbacks 9 race_env) pid UnChoke [] (set_peer pid p ?s) =
      Some (Inr (), set_peer pid q ((set_peer pid p ?s)\<lparr> sv_underway := (sv_underway (set_peer pid p ?s))(0 \<mapsto> Ing 0) \<rparr>)) \<and> response_pieces q 0 \<noteq> None"
    by (rule unchoke_takes) (use assms p in simp_all)
  then obtain q where q: "handle race_env (dispatch_callbacks 9 race_env) pid UnChoke [] (set_peer pid p ?s) =
      Some (Inr (), set_peer pid q ((set_peer pid p ?s)\<lparr> sv_underway := (sv_underway s)(0 \<mapsto> Ing 0) \<rparr>))" "response_pieces q 0 \<noteq> None" by auto
  have "set_peer pid q ((set_peer pid p ?s)\<lparr> sv_underway := (sv_underway s)(0 \<mapsto> Ing 0) \<rparr>) =
      set_peer pid q (s\<lparr> sv_peers := insert pid (sv_peers s), sv_underway := (sv_underway s)(0 \<mapsto> Ing 0) \<rparr>)"
    by (simp add: set_peer_def)
  then show ?thesis using task_handle [OF p(1) q(1)] q(2) by auto
qed

text \<open>The storage during the run: after the two writes and after the two checks.\<close>

definition race_write :: "Store \<Rightarrow> unit result \<times> Store" where
  "race_write st = write_blocks (ev_io race_env) (ev_writer_order race_env) (ev_buf_limit race_env)
     [\<lparr> bi_filepath = ''d/n'', bi_start = 4, bi_len = 1, bi_file_len = 5 \<rparr>] [9] st"

definition race_check :: "Store \<Rightarrow> (bool result \<times> Store) option" where
  "race_check st = checkout (ev_io race_env) (ev_hash_chunk_size race_env) (ev_sha1 race_env)
     [\<lparr> bi_filepath = ''d/n'', bi_start = 0, bi_len = 5, bi_file_len = 5 \<rparr>] (replicate 20 0) st"

definition race_store :: "nat \<Rightarrow> nat \<Rightarrow> Store" where
  "race_store written waiting = \<lparr> file_writer = [''d/n'' \<mapsto> \<lparr> fw_path = ''d/n'', fw_mapped = True, fw_buf_size = waiting, fw_file_len = 5, fw_write_len = written \<rparr>],
     st_buf_size = waiting, st_fs = [''d/n'' \<mapsto> [0, 0, 0, 0, 9]] \<rparr>"

lemma five_zeros: "replicate 5 (0 :: u8) = [0, 0, 0, 0, 0]"
  by (simp add: eval_nat_numeral)

lemma race_write_evals:
  "race_write (Store_new Map.empty) = (Inr (), race_store 0 (Suc 0))" "race_write (race_store 0 (Suc 0)) = (Inr (), race_store 0 (Suc (Suc 0)))"
  by (simp_all add: race_write_def race_env_def Store_write_def Store_new_def FileWriter_new_def FileWriter_write_def get_file_def race_store_def
      overwrite_def five_zeros Let_def)

lemma race_read: "read_loop 5 [0, 0, 0, 0, 9] 5 [] = Some [0, 0, 0, 0, 9]"
  by (subst read_loop.simps) (simp add: read_loop.simps Let_def)

lemma race_check_evals:
  "race_check (race_store 0 (Suc (Suc 0))) = Some (Inr False, race_store (Suc (Suc 0)) 0)" "race_check (race_store (Suc (Suc 0)) 0) = Some (Inr False, race_store (Suc (Suc 0)) 0)"
  by (simp_all add: race_check_def race_env_def checkout_def Store_flush_def FileWriter_flush_def race_store_def race_read Let_def)

lemma race_find:
  "find_file_of_piece_index (info race_torrent) ''d'' 0 4 1 = Inr [\<lparr> bi_filepath = ''d/n'', bi_start = 4, bi_len = 1, bi_file_len = 5 \<rparr>]"
  "find_file_of_piece_index (info race_torrent) ''d'' 0 0 5 = Inr [\<lparr> bi_filepath = ''d/n'', bi_start = 0, bi_len = 5, bi_file_len = 5 \<rparr>]"
  "piece_hash race_torrent 0 = Inr (replicate 20 0)"
  by (simp_all add: find_file_of_piece_index_def race_torrent_def Torrent_new_def path_push_def piece_hash_def)

declare request_piece.simps [simp del] request_loop.simps [simp del] try_loot_slow_peer.simps [simp del]

text \<open>A resumed download: the first peer is asked for the last block of the piece and then chokes us.\<close>

definition piece_state :: "Piece option \<Rightarrow> DefaultServant \<Rightarrow> bool" where
  "piece_state x s \<longleftrightarrow> race_ok s \<and> sv_peers s = {7} \<and> (\<exists>off. sv_underway s 0 = Some (Ing off)) \<and> response_pieces (sv_peer 7 s) 0 = x
     \<and> pe_status (sv_peer 7 s) = StChoke"

lemma last_block_asked: "\<exists>s. task_reach (s, []) \<and> piece_state (Some (fresh_piece 4)) s \<and> sv_store s = Store_new Map.empty"
proof -
  define s0 where "s0 = DefaultServant_new (Some race_torrent) [0] [0 \<mapsto> Pause 4] ''d'' False (\<lambda>_. Peer_new 0 Dashbord_new 0) (Store_new Map.empty)"
  define s1 where "s1 = s0\<lparr> sv_callback := Some True \<rparr>"
  have "set_callback True s0 = Some (Inr (), s1)" by (simp add: set_callback_def s0_def s1_def DefaultServant_new_def eff_bind_def gets_def modify_def)
  then have r1: "task_reach (s1, [])" using task_more [OF task_new ts_other [OF step_callback]] by (simp add: s0_def)
  have ok1: "race_ok s1" "sv_peers s1 = {}" "sv_underway s1 0 = Some (Pause 4)" "sv_store s1 = Store_new Map.empty"
    by (simp_all add: s1_def s0_def DefaultServant_new_def race_ok_def)
  let ?s = "s1\<lparr> sv_peers := {7} \<rparr>"
  obtain p where p: "task_reach (set_peer 7 p ?s, [])" "can_ask p" using join [OF ok1(1) _ r1, of 7] ok1(2) by auto
  let ?u = "(set_peer 7 p ?s)\<lparr> sv_underway := (sv_underway (set_peer 7 p ?s))(0 \<mapsto> Ing 4) \<rparr>"
  have u: "race_ok (set_peer 7 p ?s)" "7 \<in> sv_peers (set_peer 7 p ?s)" "can_ask (sv_peer 7 (set_peer 7 p ?s))" "sv_underway (set_peer 7 p ?s) 0 = Some (Pause 4)"
    using ok1 p(2) by simp_all
  have h: "handle race_env (dispatch_callbacks (Suc (Suc (Suc (Suc 0)))) race_env) 7 UnChoke [] (set_peer 7 p ?s) =
      request_loop (Suc (Suc 0)) race_env race_torrent 7 (set_peer 7 (asked 4 p) ?u)"
    using unchoke_request [OF u(1,2), of "Suc (Suc (Suc (Suc 0)))"] request_prefix [OF u(1-3), of "Suc (Suc (Suc 0))"]
      first_request [OF u(1,3,4), of "Suc (Suc 0)" 7] by simp
  obtain q where "request_loop (Suc (Suc 0)) race_env race_torrent 7 (set_peer 7 (asked 4 p) ?u) = Some (Inr (), set_peer 7 q ?u)"
    "response_pieces q = [0 \<mapsto> fresh_piece 4]"
    using alone_cannot_loot [of ?u 7 4 p 0] u(1) p(2) by auto
  note q = this
  have r2: "task_reach (set_peer 7 q ?u, [])" using task_handle [OF p(1) h [unfolded q(1)]] .
  have "handle race_env (dispatch_callbacks 1 race_env) 7 Choke [] (set_peer 7 q ?u) = Some (Inr (), set_peer 7 (q\<lparr> pe_status := StChoke \<rparr>) (set_peer 7 q ?u))"
    by (simp add: handle_def handle_choke_def eff_bind_def gets_def with_peer_def modify_def)
  from task_handle [OF r2 this] show ?thesis
    using ok1 q(2) by (intro exI [of _ "set_peer 7 (q\<lparr> pe_status := StChoke \<rparr>) (set_peer 7 q ?u)"]) (simp add: piece_state_def)
qed

text \<open>The block arrives.\<close>

lemma block_arrives:
  assumes "piece_state (Some x) s" and "task_reach (s, ts)"
  shows "task_reach (s, ts @ [(7, WBegin 0 4 [9])])"
proof -
  have be: "from_be_slice 4 [0, 0, 0, 0] = 0" "from_be_slice 4 [0, 0, 0, 4] = 4" by code_simp+
  have "piece_begin race_env (dispatch_callbacks 1 race_env) 7 [0, 0, 0, 0, 0, 0, 0, 4, 9] s = Some (Inr (WBegin 0 4 [9]), s)"
    using assms(1) be
    by (simp add: piece_begin_def piece_state_def race_ok_def eff_bind_def gets_def ret_def callback_def dispatch_callbacks_def is_valid_piece_response_def
        is_can_be_download_def request_piece.simps Let_def)
  from task_more [OF assms(2) ts_block [OF race_order _ this]] show ?thesis using assms(1) by (simp add: piece_state_def)
qed

lemma task_write:
  assumes "task_reach (s, ts)" and "k < length ts" and "ts ! k = (pid, w)" and "write_step race_env pid w s = Some (Inr w', s')"
  shows "task_reach (s', ts[k := (pid, w')])"
  using task_more [OF assms(1) ts_write [OF assms(2-4)]] by simp

lemma race_writes:
  assumes "sv_torrent s = Some race_torrent" and "sv_save_path s = ''d''"
  shows "race_write (sv_store s) = (Inr (), st) \<Longrightarrow> write_step race_env pid (WStore 0 4 [9] real) s = Some (Inr (WOffset 0 4 1 real), s\<lparr> sv_store := st \<rparr>)"
    and "race_check (sv_store s) = Some (Inr False, st) \<Longrightarrow> write_step race_env pid (WCheck 0) s = Some (Inr (WVerdict 0 (Inr False)), s\<lparr> sv_store := st \<rparr>)"
  using assms
  by (simp_all add: eff_bind_def gets_def ret_def lift_result_def attempt_def with_store_def race_find [unfolded One_nat_def] race_write_def race_check_def)

text \<open>A task that starts with the piece in progress and delivers its last block stands before the removal.\<close>

lemma write_until_remove:
  assumes "task_reach (s, ts)" and "k < length ts" and "ts ! k = (7, WBegin 0 4 [9])" and "piece_state (Some x) s"
    and "Piece_add_finish 4 x = Inr x'" and "p_finish x'" and "race_write (sv_store s) = (Inr (), st)"
  shows "\<exists>s'. task_reach (s', ts[k := (7, WRemove 0)]) \<and> piece_state (Some x') s' \<and> sv_store s' = st"
proof -
  have ps: "race_ok s" "sv_peers s = {7}" "\<exists>off. sv_underway s 0 = Some (Ing off)" "response_pieces (sv_peer 7 s) 0 = Some x" "pe_status (sv_peer 7 s) = StChoke"
    using assms(4) by (simp_all add: piece_state_def)
  let ?r = "p_block_offset x"
  define s1 where "s1 = s\<lparr> sv_store := st \<rparr>"
  define s2 where "s2 = update_write_piece_offset 0 ?r s1"
  define s3 where "s3 = set_peer 7 ((sv_peer 7 s2)\<lparr> response_pieces := (response_pieces (sv_peer 7 s2))(0 \<mapsto> x') \<rparr>) s2"
  define s4 where "s4 = s3\<lparr> sv_events := sv_events s3 @ [OnStoreBlockSuccess 7 0 4 1] \<rparr>"
  obtain off where off: "sv_underway s 0 = Some (Ing off)" using ps(3) by blast
  have s2: "s2 = s\<lparr> sv_store := st, sv_underway := (sv_underway s)(0 \<mapsto> Ing ?r) \<rparr>" using off by (simp add: s2_def s1_def update_write_piece_offset_def)
  have ok: "race_ok s4" "sv_peers s4 = {7}" "sv_underway s4 0 = Some (Ing ?r)" "response_pieces (sv_peer 7 s4) 0 = Some x'" "pe_status (sv_peer 7 s4) = StChoke"
    "sv_store s4 = st"
    using ps by (simp_all add: s4_def s3_def s2)
  have "task_reach (s, ts[k := (7, WStore 0 4 [9] ?r)])"
    by (rule task_write [OF assms(1-3)]) (simp add: eff_bind_def gets_def ret_def get_seq_last_piece_block_offset_def ps(4))
  then have "task_reach (s1, ts[k := (7, WOffset 0 4 1 ?r)])"
    using task_write [OF _ _ _ race_writes(1) [OF _ _ assms(7)]] ps(1) assms(2) by (fastforce simp: s1_def race_ok_def)
  then have "task_reach (s2, ts[k := (7, WUpdate 0 4 1)])"
    using task_write [of s1 "ts[k := (7, WOffset 0 4 1 ?r)]" k] assms(2) by (simp add: eff_bind_def modify_def ret_def s2_def)
  then have "task_reach (s3, ts[k := (7, WReport 0 4 1)])"
    using task_write [of s2 "ts[k := (7, WUpdate 0 4 1)]" k] assms(2,5) ps(4)
    by (simp add: eff_bind_def with_peer_result_def modify_result_def update_resoponse_piece_def ret_def s3_def s2)
  then have "task_reach (s4, ts[k := (7, WFinish 0)])"
    using task_write [of s3 "ts[k := (7, WReport 0 4 1)]" k] assms(2) by (simp add: eff_bind_def notify_def modify_def ret_def s4_def)
  then have "task_reach (s4, ts[k := (7, WRemove 0)])"
    using task_write [of s4 "ts[k := (7, WFinish 0)]" k] assms(2,6) ok(4) by (simp add: eff_bind_def gets_def ret_def piece_recv_finish_def)
  then show ?thesis using ok by (auto simp: piece_state_def)
qed

text \<open>From there on the check runs on its own copy of the decision that the piece is complete.\<close>

lemma check_until_verdict:
  assumes "task_reach (s, ts)" and "k < length ts" and "ts ! k = (7, WRemove 0)" and "race_ok s" and "race_check (sv_store s) = Some (Inr False, st)"
  shows "\<exists>p. task_reach ((set_peer 7 p s)\<lparr> sv_store := st \<rparr>, ts[k := (7, WVerdict 0 (Inr False))])"
proof -
  let ?s = "set_peer 7 (Peer_remove_finish_piece 0 (sv_peer 7 s)) s"
  have "task_reach (?s, ts[k := (7, WCheck 0)])"
    by (rule task_write [OF assms(1-3)]) (simp add: eff_bind_def with_peer_def modify_def ret_def)
  moreover have "write_step race_env 7 (WCheck 0) ?s = Some (Inr (WVerdict 0 (Inr False)), ?s\<lparr> sv_store := st \<rparr>)"
    using assms(4,5) by (intro race_writes(2)) (simp_all add: race_ok_def)
  ultimately have "task_reach (?s\<lparr> sv_store := st \<rparr>, (ts[k := (7, WCheck 0)])[k := (7, WVerdict 0 (Inr False))])"
    using task_write [of ?s "ts[k := (7, WCheck 0)]" k 7 "WCheck 0"] assms(2) by (simp del: write_step.simps)
  then show ?thesis by auto
qed

lemma verdict_resets:
  assumes "task_reach (s, ts)" and "k < length ts" and "ts ! k = (7, WVerdict 0 (Inr False))"
  shows "\<exists>es. task_reach (s\<lparr> sv_underway := (sv_underway s)(0 \<mapsto> Pause 0), sv_events := es \<rparr>, ts[k := (7, WDone)])"
proof -
  have "write_step race_env 7 (WVerdict 0 (Inr False)) s =
      Some (Inr WDone, s\<lparr> sv_underway := (sv_underway s)(0 \<mapsto> Pause 0), sv_events := sv_events s @ [OnVerifyPieceFailed 7 0] \<rparr>)"
    by (simp add: eff_bind_def modify_def notify_def ret_def reset_underway_piece_def)
  from task_write [OF assms this] show ?thesis by blast
qed

lemma two_verdicts:
  "\<exists>s. task_reach (s, [(7, WVerdict 0 (Inr False)), (7, WVerdict 0 (Inr False))]) \<and> race_ok s \<and> sv_peers s = {7}"
proof -
  let ?b = "(7, WBegin 0 4 [9]) :: nat \<times> write_place" and ?r = "(7, WRemove 0) :: nat \<times> write_place" and ?v = "(7, WVerdict 0 (Inr False)) :: nat \<times> write_place"
  obtain s where s: "task_reach (s, [])" "piece_state (Some (fresh_piece 4)) s" "sv_store s = Store_new Map.empty" using last_block_asked by blast
  have two: "task_reach (s, [?b, ?b])" using block_arrives [OF s(2) block_arrives [OF s(2,1)]] by simp
  have af: "Piece_add_finish 4 (fresh_piece 4) = Inr \<lparr> p_block_offset = 5, p_bitmap = [8], p_block_size = 1, p_piece_length = 5, p_finish = True \<rparr>"
    by (simp add: fresh_piece_def Piece_add_finish_def block_offset_idx_def div_ceil_def bitmap_put_def bitmap_offset_def scan_byte.simps Let_def)
  have af2: "Piece_add_finish 4 \<lparr> p_block_offset = 5, p_bitmap = [8], p_block_size = 1, p_piece_length = 5, p_finish = True \<rparr>
      = Inr \<lparr> p_block_offset = 5, p_bitmap = [8], p_block_size = 1, p_piece_length = 5, p_finish = True \<rparr>"
    by (simp add: Piece_add_finish_def)
  obtain s1 where s1: "task_reach (s1, [?r, ?b])" "piece_state (Some \<lparr> p_block_offset = 5, p_bitmap = [8], p_block_size = 1, p_piece_length = 5, p_finish = True \<rparr>) s1"
    "sv_store s1 = race_store 0 (Suc 0)"
    using write_until_remove [OF two _ _ s(2) af, of 0] race_write_evals(1) s(3) by auto
  obtain s2 where s2: "task_reach (s2, [?r, ?r])" "piece_state (Some \<lparr> p_block_offset = 5, p_bitmap = [8], p_block_size = 1, p_piece_length = 5, p_finish = True \<rparr>) s2"
    "sv_store s2 = race_store 0 (Suc (Suc 0))"
    using write_until_remove [OF s1(1) _ _ s1(2) af2, of 1] race_write_evals(2) s1(3) by auto
  have ok: "race_ok s2" "sv_peers s2 = {7}" using s2(2) by (simp_all add: piece_state_def)
  obtain p where p: "task_reach ((set_peer 7 p s2)\<lparr> sv_store := race_store (Suc (Suc 0)) 0 \<rparr>, [?v, ?r])"
    using check_until_verdict [OF s2(1) _ _ ok(1), of 0] race_check_evals(1) s2(3) by auto
  obtain q where "task_reach ((set_peer 7 q ((set_peer 7 p s2)\<lparr> sv_store := race_store (Suc (Suc 0)) 0 \<rparr>))\<lparr> sv_store := race_store (Suc (Suc 0)) 0 \<rparr>, [?v, ?v])"
    using check_until_verdict [OF p, of 1] race_check_evals(2) ok by auto
  then show ?thesis using ok
    by (intro exI [of _ "(set_peer 7 q ((set_peer 7 p s2)\<lparr> sv_store := race_store (Suc (Suc 0)) 0 \<rparr>))\<lparr> sv_store := race_store (Suc (Suc 0)) 0 \<rparr>"]) simp
qed

section \<open>Properties\<close>

text \<open>
  C2. Run without an overlap, every operation of the servant keeps the assignment of pieces: when before it every piece assigned to a connected peer
  is marked as being downloaded, is not finished and is assigned to no other connected peer, then so it is afterwards, whatever the operation
  (messages of every type, peers that join, ask, leave or fail, progress and metadata requests) and its outcome. A new servant starts in such a
  state, and in such a state no message other than one of the extension protocol makes the taking of pieces from slow peers panic on a piece without a status.
\<close>

theorem operations_keep_one_owner:
  assumes "sv_step s s'" and "one_owner s"
  shows "one_owner s' \<and> one_owner (DefaultServant_new t bf ub path fin heap st)
    \<and> (\<forall>ev n pid mt payload s''. order_ok ev \<longrightarrow> mt \<noteq> ExtensionProtocol \<longrightarrow>
      handle ev (dispatch_callbacks n ev) pid mt payload s' \<noteq> Some (Inl (Panic ''no status of an assigned piece''), s''))"
proof -
  have inv: "sv_inv s'" using inv_step [OF assms(1)] assms(2) by (simp add: one_owner_iff)
  moreover have "sv_inv (DefaultServant_new t bf ub path fin heap st)" by (rule inv_reach [OF reach_new])
  ultimately show ?thesis using handle_has_status [OF inv] by (simp add: one_owner_iff)
qed

text \<open>A connected peer that has the paused piece unchokes us and is assigned the piece.\<close>

theorem operations_keep_one_owner_witness:
  "\<exists>s s'. sv_step s s' \<and> one_owner s \<and> sv_peers s' = {7} \<and> response_pieces (sv_peer 7 s') 0 \<noteq> None \<and> one_owner s'"
proof -
  define s where "s = (DefaultServant_new (Some race_torrent) [0] [0 \<mapsto> Pause 0] ''d'' False (\<lambda>_. set_op_bitfield [128] (Peer_new 7 Dashbord_new 0))
    (Store_new Map.empty))\<lparr> sv_callback := Some True, sv_peers := {7} \<rparr>"
  have s: "race_ok s" "7 \<in> sv_peers s" "can_ask (sv_peer 7 s)" "sv_underway s 0 = Some (Pause 0)" "sv_peers s = {7}"
    by (simp_all add: s_def DefaultServant_new_def race_ok_def can_ask_def set_op_bitfield_def Peer_new_def sv_peer_def)
  then have o: "one_owner s" by (simp add: one_owner_def can_ask_def)
  obtain p where p: "handle race_env (dispatch_callbacks 9 race_env) 7 UnChoke [] s = Some (Inr (), set_peer 7 p (s\<lparr> sv_underway := (sv_underway s)(0 \<mapsto> Ing 0) \<rparr>))"
    "response_pieces p 0 \<noteq> None" using unchoke_takes [OF s(1-4)] by blast
  let ?s = "set_peer 7 p (s\<lparr> sv_underway := (sv_underway s)(0 \<mapsto> Ing 0) \<rparr>)"
  have st: "sv_step s ?s" by (rule step_handle [OF race_order p(1)])
  show ?thesis using st o s(5) p(2) operations_keep_one_owner [OF st o] by (intro exI [of _ s] exI [of _ ?s]) simp
qed

text \<open>
  C6. When writes overlap, a piece can have two owners. A peer delivers the last block of a piece twice, and both tasks see the piece complete before either
  of them takes it off the peer's record; both read the piece back, both find a wrong hash, and each makes the piece free again. A second
  peer takes the piece between the two verdicts and a third one after the second verdict: both are connected and download the same piece.
\<close>

theorem overlapping_writes_give_two_owners:
  "\<exists>s ts. task_reach (s, ts) \<and> {8, 9} \<subseteq> sv_peers s \<and> response_pieces (sv_peer 8 s) 0 \<noteq> None \<and> response_pieces (sv_peer 9 s) 0 \<noteq> None"
proof -
  let ?v = "(7, WVerdict 0 (Inr False)) :: nat \<times> write_place" and ?d = "(7, WDone) :: nat \<times> write_place"
  obtain s where s: "task_reach (s, [?v, ?v])" "race_ok s" "sv_peers s = {7}" using two_verdicts by blast
  obtain es where r1: "task_reach (s\<lparr> sv_underway := (sv_underway s)(0 \<mapsto> Pause 0), sv_events := es \<rparr>, [?d, ?v])"
    using verdict_resets [OF s(1), of 0] by auto
  define s1 where "s1 = s\<lparr> sv_underway := (sv_underway s)(0 \<mapsto> Pause 0), sv_events := es \<rparr>"
  have s1: "race_ok s1" "sv_peers s1 = {7}" "sv_underway s1 0 = Some (Pause 0)" using s by (simp_all add: s1_def)
  obtain p where p: "task_reach (set_peer 8 p (s1\<lparr> sv_peers := {7, 8}, sv_underway := (sv_underway s1)(0 \<mapsto> Ing 0) \<rparr>), [?d, ?v])" "response_pieces p 0 \<noteq> None"
    using join_and_take [OF s1(1) _ r1 [folded s1_def] s1(3), of 8] s1(2) by (auto simp: insert_commute)
  define s2 where "s2 = set_peer 8 p (s1\<lparr> sv_peers := {7, 8}, sv_underway := (sv_underway s1)(0 \<mapsto> Ing 0) \<rparr>)"
  obtain fs where r2: "task_reach (s2\<lparr> sv_underway := (sv_underway s2)(0 \<mapsto> Pause 0), sv_events := fs \<rparr>, [?d, ?d])"
    using verdict_resets [OF p(1) [folded s2_def], of 1] by auto
  define s3 where "s3 = s2\<lparr> sv_underway := (sv_underway s2)(0 \<mapsto> Pause 0), sv_events := fs \<rparr>"
  have s3: "race_ok s3" "sv_peers s3 = {7, 8}" "sv_underway s3 0 = Some (Pause 0)" "sv_peer 8 s3 = p"
    using s1 by (simp_all add: s3_def s2_def)
  obtain q where "task_reach (set_peer 9 q (s3\<lparr> sv_peers := insert 9 (sv_peers s3), sv_underway := (sv_underway s3)(0 \<mapsto> Ing 0) \<rparr>), [?d, ?d])" "response_pieces q 0 \<noteq> None"
    using join_and_take [OF s3(1) _ r2 [folded s3_def] s3(3), of 9] s3(2) by auto
  then show ?thesis using p(2) s3
    by (intro exI [of _ "set_peer 9 q (s3\<lparr> sv_peers := insert 9 (sv_peers s3), sv_underway := (sv_underway s3)(0 \<mapsto> Ing 0) \<rparr>)"] exI [of _ "[?d, ?d]"]) auto
qed

end
