(* ===== verification/Content_Props.thy ===== *)
theory Content_Props
  imports Content
begin

text \<open>
  Properties of a download task. \<open>keeps B m\<close>: the operation \<open>m\<close> leaves the addresses of \<open>B\<close> blocked and
  unclaimed; the rules follow the structure of the operations.
\<close>

section \<open>Blocked addresses\<close>

definition keeps :: "SocketAddr set \<Rightarrow> 'a dp \<Rightarrow> bool" where
  "keeps B m \<longleftrightarrow> (\<forall>s r s'. m s = Some (r, s') \<longrightarrow> banned B (dp_pool s) \<longrightarrow> banned B (dp_pool s'))"

named_theorems keep_intros

lemma keeps_frame: "frame dp_pool m \<Longrightarrow> keeps B m"
  by (auto simp: keeps_def frame_def)

lemma keeps_bind [keep_intros]: "keeps B m \<Longrightarrow> (\<And>x. keeps B (f x)) \<Longrightarrow> keeps B (eff_bind m f)"
  unfolding keeps_def eff_bind_def by (fastforce split: option.splits sum.splits)

lemma keeps_basic [keep_intros]: "keeps B (ret x)" "keeps B (fail e)" "keeps B (gets f)" "keeps B (lift_result r)" "keeps B (\<lambda>_. None)"
  by (auto simp: keeps_def ret_def fail_def gets_def lift_result_def)

lemma keeps_modify [keep_intros]: "(\<And>s. dp_pool (f s) = dp_pool s) \<Longrightarrow> keeps B (modify f)"
  by (auto simp: keeps_def modify_def)

lemma keeps_if [keep_intros]: "(b \<Longrightarrow> keeps B m) \<Longrightarrow> (\<not> b \<Longrightarrow> keeps B m') \<Longrightarrow> keeps B (if b then m else m')"
  by simp

lemma keeps_option [keep_intros]:
  "(x = None \<Longrightarrow> keeps B m) \<Longrightarrow> (\<And>y. x = Some y \<Longrightarrow> keeps B (f y)) \<Longrightarrow> keeps B (case x of None \<Rightarrow> m | Some y \<Rightarrow> f y)"
  by (cases x) simp_all

lemma keeps_prod [keep_intros]: "(\<And>a b. x = (a, b) \<Longrightarrow> keeps B (f a b)) \<Longrightarrow> keeps B (case x of (a, b) \<Rightarrow> f a b)"
  by (cases x) simp_all

lemma keeps_each [keep_intros]: "(\<And>x. x \<in> set xs \<Longrightarrow> keeps B (f x)) \<Longrightarrow> keeps B (eff_each f xs)"
  by (induction xs) (auto intro: keep_intros)

lemma keeps_servant_call [keep_intros]: "keeps B (servant_call m)"
  by (auto simp: keeps_def servant_call_def split: option.splits)

lemma keeps_dash [keep_intros]: "keeps B (with_dash i f)"
  by (auto simp: with_dash_def intro: keep_intros)

lemma keeps_pool:
  assumes "\<And>p. banned B p \<Longrightarrow> wp m (\<lambda>_. banned B) (\<lambda>_. banned B) p"
  shows "keeps B (on_pool m)"
  unfolding keeps_def on_pool_def
proof (intro allI impI)
  fix s r s'
  assume "(case m (dp_pool s) of None \<Rightarrow> None | Some (r, p) \<Rightarrow> Some (r, s\<lparr> dp_pool := p \<rparr>)) = Some (r, s')"
    and b: "banned B (dp_pool s)"
  then obtain p where "m (dp_pool s) = Some (r, p)" "s' = s\<lparr> dp_pool := p \<rparr>" by (auto split: option.splits)
  then show "banned B (dp_pool s')" using assms [OF b] by (cases r) (auto simp: wp_def)
qed

lemma keeps_pool_gets [keep_intros]: "keeps B (on_pool (gets f))"
  by (rule keeps_pool) (simp add: wp_simps)

lemma keeps_pool_same [keep_intros]: "(\<And>p. claims (f p) = claims p \<and> unstart_host (f p) = unstart_host p) \<Longrightarrow> keeps B (on_pool (modify f))"
  by (rule keeps_pool) (simp add: wp_simps, metis banned_sub subset_mset.order_refl)

text \<open>A peer on its way: its address is blocked together with those of \<open>B\<close>.\<close>

lemma do_start_claims:
  assumes "pi_waited pi" and "pi_addr pi \<notin> B"
    and "banned (insert (pi_addr pi) B) (dp_pool s)" and "do_start_peer pi lt s = Some (r, s')"
  shows "banned B (dp_pool s')"
proof -
  let ?pi = "pi\<lparr> ci_lt := lt \<rparr>"
  obtain p where "launch_send ?pi (dp_pool s) = Some (r, p)" "dp_pool s' = p"
    using assms(4) by (auto simp: do_start_peer_def eff_bind_def with_dash_def modify_def on_pool_def split: option.splits)
  moreover have "wp (launch_send ?pi) (\<lambda>_. banned B) (\<lambda>_. banned B) (dp_pool s)"
    using assms(1-3) by (intro wp_launch_send) simp
  ultimately show ?thesis by (cases r) (auto simp: wp_def)
qed

lemma keeps_take_start:
  "keeps B (eff_bind (on_pool take_from_wait_queue) (\<lambda>r. case r of None \<Rightarrow> ret () | Some pi \<Rightarrow> do_start_peer pi (f pi)))"
  unfolding keeps_def
proof (intro allI impI)
  fix s r s'
  assume run: "eff_bind (on_pool take_from_wait_queue) (\<lambda>r. case r of None \<Rightarrow> ret () | Some pi \<Rightarrow> do_start_peer pi (f pi)) s = Some (r, s')"
    and b: "banned B (dp_pool s)"
  from run obtain q p where q: "take_from_wait_queue (dp_pool s) = Some (q, p)"
    and rest: "case q of Inl e \<Rightarrow> s' = s\<lparr> dp_pool := p \<rparr>
      | Inr None \<Rightarrow> s' = s\<lparr> dp_pool := p \<rparr> | Inr (Some pi) \<Rightarrow> do_start_peer pi (f pi) (s\<lparr> dp_pool := p \<rparr>) = Some (r, s')"
    by (auto simp: eff_bind_def on_pool_def ret_def split: option.splits sum.splits)
  note t = wp_take_wait [OF b, unfolded wp_def, rule_format, OF q]
  show "banned B (dp_pool s')"
  proof (cases "\<exists>pi. q = Inr (Some pi)")
    case True
    then obtain pi where pi: "q = Inr (Some pi)" by blast
    have "pi_waited pi" "pi_addr pi \<notin> B" "banned (insert (pi_addr pi) B) (dp_pool (s\<lparr> dp_pool := p \<rparr>))"
      using t pi by simp_all
    then show ?thesis by (rule do_start_claims) (use rest pi in simp)
  qed (use t rest in \<open>auto split: sum.split_asm option.split_asm\<close>)
qed

lemma keeps_start [keep_intros]: "keeps B start_wait_peer" "keeps B start_temp_peer"
  unfolding start_wait_peer_def start_temp_peer_def by (rule keeps_take_start)+

lemma keeps_start_peer [keep_intros]: "keeps B (start_peer a src)"
proof -
  have "keeps B (on_pool (launch_send (ContentInfo_new i a src\<lparr> ci_lt := True \<rparr>)))" for i
    by (rule keeps_pool, rule wp_launch_send) (simp add: ContentInfo_new_def)
  then show ?thesis
    unfolding start_peer_def do_start_peer_def content_is_finished_def next_id_def
    by (auto simp: ContentInfo_new_def intro!: keep_intros)
qed


text \<open>What a leaving peer leaves behind: a deadly error keeps its address blocked.\<close>

lemma pool_bind:
  assumes "eff_bind (on_pool m) f s = Some (r, s')"
  obtains e p where "m (dp_pool s) = Some (Inl e, p)" "s' = s\<lparr> dp_pool := p \<rparr>" "r = Inl e"
  | x p where "m (dp_pool s) = Some (Inr x, p)" "f x (s\<lparr> dp_pool := p \<rparr>) = Some (r, s')"
  using assms by (auto simp: eff_bind_def on_pool_def split: option.splits sum.splits)

lemma pool_modify_bind [simp]: "eff_bind (on_pool (modify g)) f s = f () (s\<lparr> dp_pool := g (dp_pool s) \<rparr>)"
  by (simp add: eff_bind_def on_pool_def modify_def)

lemma keepsD: "keeps B m \<Longrightarrow> banned B (dp_pool s) \<Longrightarrow> m s = Some (r, s') \<Longrightarrow> banned B (dp_pool s')"
  by (auto simp: keeps_def)

lemma peer_left_banned:
  assumes b: "banned (insert (pi_addr pi) B) (dp_pool s)" and a: "pi_addr pi \<notin> B" and run: "peer_left pi reason s = Some (r, s')"
  shows "banned B (dp_pool s')" and "reason = ExitException DeadlyError \<Longrightarrow> banned (insert (pi_addr pi) B) (dp_pool s')"
proof -
  let ?rel = "s\<lparr> dp_pool := release_host (pi_addr pi) (dp_pool s) \<rparr>"
  have rel: "banned B (dp_pool ?rel)" using banned_release [OF b a] by simp
  have push: "banned B (dp_pool (s\<lparr> dp_pool := push_wait pi (dp_pool s) \<rparr>))" using banned_push_wait [OF b a] by simp
  have "banned B (dp_pool s')" if "start_wait_peer ?rel = Some (r, s')" using keepsD [OF keeps_start(1) rel that] .
  moreover have "banned B (dp_pool s')" if "start_temp_peer (s\<lparr> dp_pool := push_wait pi (dp_pool s) \<rparr>) = Some (r, s')"
    using keepsD [OF keeps_start(2) push that] .
  moreover have dead: "banned (insert (pi_addr pi) B) (dp_pool s')" if "start_wait_peer s = Some (r, s')"
    using keepsD [OF keeps_start(1) b that] .
  moreover from this have "banned B (dp_pool s')" if "start_wait_peer s = Some (r, s')"
    using that banned_mono by blast
  moreover have "banned B (dp_pool s')" if "on_pool (modify (release_host (pi_addr pi))) s = Some (r, s')"
    using that rel by (auto simp: on_pool_def modify_def)
  ultimately show "banned B (dp_pool s')" using run by (auto simp: peer_left_def split: PeerExitReason.split_asm ErrorType.split_asm)
  show "banned (insert (pi_addr pi) B) (dp_pool s')" if "reason = ExitException DeadlyError"
    using dead run that by (simp add: peer_left_def)
qed

lemma exit_remove:
  assumes "on_peer_exit locked pid reason s = Some (r, s')" and "\<not> dp_cancelled s"
  shows "eff_bind (on_pool (remove_peer pid)) (\<lambda>r. case r of None \<Rightarrow> ret () | Some pi \<Rightarrow> peer_left pi reason) s = Some (r, s')"
  using assms by (auto simp: on_peer_exit_def eff_bind_def gets_def split: if_splits)

lemma on_peer_exit_banned:
  assumes "on_peer_exit locked pid reason s = Some (r, s')" and "banned B (dp_pool s)"
  shows "banned B (dp_pool s')"
    and "\<not> dp_cancelled s \<Longrightarrow> reason = ExitException DeadlyError \<Longrightarrow> find_peer pid (dp_pool s) = Some pi
      \<Longrightarrow> banned (insert (pi_addr pi) B) (dp_pool s')"
proof -
  have both: "banned B (dp_pool s') \<and> (reason = ExitException DeadlyError \<longrightarrow> (\<forall>pi. find_peer pid (dp_pool s) = Some pi
      \<longrightarrow> banned (insert (pi_addr pi) B) (dp_pool s')))" if c: "\<not> dp_cancelled s"
  proof (rule pool_bind [OF exit_remove [OF assms(1) c]])
    fix e p assume "remove_peer pid (dp_pool s) = Some (Inl e, p)"
    then show ?thesis by (simp add: remove_peer_def eff_bind_def gets_def modify_def ret_def)
  next
    fix x p
    assume x: "remove_peer pid (dp_pool s) = Some (Inr x, p)"
      and rest: "(case x of None \<Rightarrow> ret () | Some pi \<Rightarrow> peer_left pi reason) (s\<lparr> dp_pool := p \<rparr>) = Some (r, s')"
    note w = wpD [OF wp_remove_peer [OF assms(2)] x]
    show ?thesis
    proof (cases x)
      case None
      then have "find_peer pid (dp_pool s) = None" using x by (auto simp: remove_peer_def eff_bind_def gets_def modify_def ret_def)
      then show ?thesis using None w rest by (auto simp: ret_def)
    next
      case (Some pi)
      have "banned (insert (pi_addr pi) B) (dp_pool (s\<lparr> dp_pool := p \<rparr>))" "pi_addr pi \<notin> B" using w Some by simp_all
      from peer_left_banned [OF this] rest Some
      have "banned B (dp_pool s')" "reason = ExitException DeadlyError \<Longrightarrow> banned (insert (pi_addr pi) B) (dp_pool s')" by simp_all
      then show ?thesis using w Some by simp
    qed
  qed
  show "banned B (dp_pool s')"
    using both assms by (cases "dp_cancelled s") (auto simp: on_peer_exit_def eff_bind_def gets_def ret_def)
  show "\<not> dp_cancelled s \<Longrightarrow> reason = ExitException DeadlyError \<Longrightarrow> find_peer pid (dp_pool s) = Some pi
      \<Longrightarrow> banned (insert (pi_addr pi) B) (dp_pool s')"
    using both by blast
qed

lemma keeps_exit [keep_intros]: "keeps B (on_peer_exit locked pid reason)"
  using on_peer_exit_banned(1) by (auto simp: keeps_def)


lemma keeps_exit_event [keep_intros]: "keeps B (exit_event locked e)"
  by (cases e) (auto intro: keep_intros)

lemma keeps_stop [keep_intros]: "keeps B (notify_peer_stop ev locked pid reason)"
  unfolding notify_peer_stop_def by (intro keep_intros)

lemma claims_update_peer:
  assumes "\<And>q. pi_addr (f q) = pi_addr q"
  shows "claims (update_peer i f p) = claims p"
proof -
  have "image_mset pi_addr (mset (map (\<lambda>q. if pi_id q = i then f q else q) (peers p))) = image_mset pi_addr (mset (peers p))"
    by (simp add: mset_map [symmetric] comp_def assms if_distrib del: mset_map cong: if_cong)
  then show ?thesis by (simp add: claims_def holders_def update_peer_def)
qed

lemma keeps_update [keep_intros]: "(\<And>q. pi_addr (f q) = pi_addr q) \<Longrightarrow> keeps B (on_pool (modify (update_peer i f)))"
  by (rule keeps_pool_same) (rule conjI, rule claims_update_peer, simp, simp add: update_peer_def)

lemma keeps_verify_failed [keep_intros]: "keeps B (on_verify_piece_failed cf ev pid i)"
  unfolding on_verify_piece_failed_def Let_def by (intro keep_intros) simp_all

lemma keeps_save [keep_intros]: "keeps B (save_progress cf ev)"
  by (auto simp: keeps_def save_progress_def split: sum.splits)

lemma keeps_task [keep_intros]: "keeps B task_finish" "keeps B content_is_finished" "keeps B check_finished" "keeps B download_finished_after_handle"
  unfolding task_finish_def check_finished_def download_finished_after_handle_def content_is_finished_def
  by (intro keep_intros; simp)+

lemma keeps_event [keep_intros]: "keeps B (on_event cf ev e)"
  by (cases e) (auto intro!: keep_intros)

lemma keeps_servant_op [keep_intros]: "keeps B (servant_op cf ev m)"
  unfolding servant_op_def by (intro keep_intros)

lemma keeps_hosts [keep_intros]: "keeps B (receive_hosts hosts src)"
  unfolding receive_hosts_def receive_host_def by (intro keep_intros)

lemma keeps_recv [keep_intros]: "keeps B (content_launch_recv cf room)"
  unfolding content_launch_recv_def by (rule keeps_pool) (rule wp_launch_recv)

lemma keeps_join [keep_intros]: "keeps B (content_launch_join w)"
proof -
  have "keeps B (on_pool (case w of None \<Rightarrow> launch_inline_done | Some k \<Rightarrow> launch_join k))"
    by (rule keeps_pool) (cases w; simp add: wp_launch_inline_done wp_launch_join)
  then show ?thesis unfolding content_launch_join_def content_on_peer_start_failed_def by (intro keep_intros)
qed

lemma keeps_launch_error [keep_intros]: "keeps B (content_launch_error k)"
  unfolding content_launch_error_def content_on_panic_def
  by (rule keeps_bind, rule keeps_pool, erule wp_launch_join_error, rule keeps_task)

lemma keeps_progress [keep_intros]: "keeps B (on_pool (modify (set_progress w st)))"
  by (rule keeps_pool) (simp add: wp_simps banned_set_progress)

lemma keeps_run [keep_intros]: "keeps B (content_async_run cf ev n w outcome)"
  unfolding content_async_run_def by (intro keep_intros)

lemma keeps_find_bw [keep_intros]: "keeps B (find_by_bw ev lt pick)"
  unfolding find_by_bw_def by (intro keep_intros)

lemma keeps_upgrade [keep_intros]: "keeps B (upgrage_lt_peer i)"
  unfolding upgrage_lt_peer_def by (intro keep_intros) simp

lemma keeps_checkout [keep_intros]: "keeps B (checkout_upgrade_lt_peer cf ev)"
  unfolding checkout_upgrade_lt_peer_def find_fastest_temp_peer_def find_slowest_lt_peer_def lt_peer_num_def replace_peer_def
  by (intro keep_intros)

lemma keeps_tick [keep_intros]: "keeps B (coordinator_tick cf ev)"
  unfolding coordinator_tick_def speed_rate_statistics_def take_peer_transfer_speed_def peer_alloc_def is_peer_limit_def Let_def
  by (intro keep_intros) (simp_all split: prod.split)

lemma keeps_scan_done: "keeps B (on_pool find_task_finished)"
  unfolding find_task_finished_def by (intro keep_intros) (simp add: claims_def holders_def)

lemma content_step_banned:
  assumes "content_step s s'" and "banned B (dp_pool s)"
  shows "banned B (dp_pool s')"
  using assms
proof cases
  case (step_scanner k)
  then show ?thesis using banned_sub [OF assms(2), of "(dp_pool s)\<lparr> scan_signals := k \<rparr>"] by (simp add: claims_def holders_def)
next
  case (step_scan_done r)
  then show ?thesis using keepsD [OF keeps_scan_done assms(2)] by blast
next
  case (step_save cf ev r)
  then show ?thesis using keepsD [OF keeps_save assms(2)] by (auto simp: content_shutdown_def)
next
  case (step_task_callback r)
  then show ?thesis using assms(2) by (auto simp: task_set_callback_def eff_bind_def gets_def fail_def modify_def split: if_splits)
qed (auto intro: keepsD [OF keeps_hosts] keepsD [OF keeps_recv] keepsD [OF keeps_run] keepsD [OF keeps_join] keepsD [OF keeps_launch_error]
      keepsD [OF keeps_servant_op] keepsD [OF keeps_tick])

text \<open>The states a download task goes through after it was created.\<close>

inductive content_reach :: "Dispatch \<Rightarrow> bool" where
  content_created: "DownloadContent_new cf t path heap st i tab = Inr s \<Longrightarrow> content_reach s"
| content_moved: "content_reach s \<Longrightarrow> content_step s s' \<Longrightarrow> content_reach s'"

lemma banned_new: "banned {} (Pool_new :: content_pool)"
  by (simp add: banned_iff claims_def held_def holders_def Pool_new_def)

lemma content_reach_inv: "content_reach s \<Longrightarrow> banned {} (dp_pool s)"
proof (induction rule: content_reach.induct)
  case (content_created cf t path heap st i tab s)
  then show ?case using banned_new
    by (auto simp: DownloadContent_new_def and_then_Inr_iff Let_def)
qed (rule content_step_banned)


section \<open>A small download\<close>

definition demo_env :: env where
  "demo_env = \<lparr> ev_block_size = 2, ev_metadata_size_limit = 0, ev_buf_limit = 100, ev_hash_chunk_size = 2, ev_sha1 = \<lambda>b. b,
     ev_io = \<lparr> io_open = \<lambda>_. True, io_flush = \<lambda>_. True \<rparr>, ev_writer_order = [], ev_order = sorted_list_of_set, ev_now = 0 \<rparr>"

definition demo_torrent :: Torrent where
  "demo_torrent = Torrent_new \<lparr> info_length = 2, info_piece_length = 2, info_pieces = replicate 20 0, info_name = ''n'',
     info_files = [], info_md5sum = None, info_private = None, file_piece = [] \<rparr> [] []"

text \<open>A format for the column of the pieces in progress: numbers in unary.\<close>

definition unary :: "nat \<Rightarrow> bytes" where "unary n = replicate n 1 @ [0]"

fun read_unary :: "bytes \<Rightarrow> nat \<times> bytes" where
  "read_unary [] = (0, [])"
| "read_unary (b # bs) = (if b = 1 then (case read_unary bs of (n, r) \<Rightarrow> (Suc n, r)) else (0, bs))"

lemma read_unary_shorter: "length (snd (read_unary bs)) \<le> length bs"
  by (induction bs) (auto split: prod.split)

lemma read_unary [simp]: "read_unary (unary n @ r) = (n, r)"
  by (induction n) (simp_all add: unary_def)

fun demo_enc :: "(nat \<times> PieceStatus) list \<Rightarrow> bytes" where
  "demo_enc [] = []"
| "demo_enc ((i, st) # xs) = (case st of Ing off \<Rightarrow> 1 # unary i @ unary off | Pause off \<Rightarrow> 2 # unary i @ unary off) @ demo_enc xs"

function demo_dec :: "bytes \<Rightarrow> (nat \<times> PieceStatus) list" where
  "demo_dec [] = []"
| "demo_dec (t # bs) =
     (case read_unary bs of (i, r) \<Rightarrow> case read_unary r of (off, r') \<Rightarrow>
       (i, if t = 1 then Ing off else Pause off) # demo_dec r')"
  by pat_completeness auto
termination
proof (relation "measure length")
  fix t :: u8 and bs i r off r'
  assume "(i, r) = read_unary bs" "(off, r') = read_unary r"
  then show "(r', t # bs) \<in> measure length"
    using read_unary_shorter [of bs] read_unary_shorter [of r] by (metis in_measure le_imp_less_Suc le_trans length_Cons snd_conv)
qed simp

lemma demo_dec_enc: "demo_dec (demo_enc xs) = xs"
proof (induction xs)
  case (Cons x xs)
  then show ?case by (cases x; cases "snd x") simp_all
qed simp

definition demo_codec :: codec where
  "demo_codec = \<lparr> enc_underway = demo_enc, dec_underway = demo_dec, enc_torrent = \<lambda>_. [], dec_torrent = \<lambda>_. demo_torrent \<rparr>"

definition demo_settings :: settings where
  "demo_settings = \<lparr> cf_lt_limit = 10, cf_temp_limit = 2, cf_error_piece_limit = 1, cf_start_limit = 5, cf_download_dir = ''d'', cf_codec = demo_codec \<rparr>"

definition demo_info :: ContentInfo where
  "demo_info = ContentInfo_new 1 (SocketAddrV4 [1, 2, 3, 4] 80) FromDHT"

definition demo_task :: Dispatch where
  "demo_task = (case DownloadContent_new demo_settings demo_torrent ''d'' (\<lambda>i. Peer_new i Dashbord_new 0) (Store_new Map.empty) 1 Map.empty of Inr s \<Rightarrow> s | Inl _ \<Rightarrow> undefined)"

lemma demo_reach0: "content_reach demo_task \<and> dp_pool demo_task = Pool_new \<and> dp_status demo_task = StDownload \<and> dp_next_id demo_task = 1
  \<and> sv_callback (dp_servant demo_task) = Some True \<and> \<not> dp_cancelled demo_task"
proof -
  obtain s where "DownloadContent_new demo_settings demo_torrent ''d'' (\<lambda>i. Peer_new i Dashbord_new 0) (Store_new Map.empty) 1 Map.empty = Inr s"
    "dp_pool s = Pool_new" "dp_status s = StDownload" "dp_next_id s = 1" "sv_callback (dp_servant s) = Some True" "\<not> dp_cancelled s"
    by (simp add: DownloadContent_new_def load_torrent_from_db_def recover_from_db_def or_default_def Let_def TorrentEntity_default_def DefaultServant_new_def)
  then show ?thesis by (auto simp: demo_task_def intro: content_created)
qed

lemma demo_hosts: "\<exists>s. content_reach s \<and> dp_pool s = Pool_new\<lparr> launch_queue := [demo_info] \<rparr> \<and> sv_callback (dp_servant s) = Some True \<and> \<not> dp_cancelled s"
proof -
  have "\<exists>s. receive_hosts [SocketAddrV4 [1, 2, 3, 4] 80] FromDHT demo_task = Some (Inr (), s)
    \<and> dp_pool s = Pool_new\<lparr> launch_queue := [demo_info] \<rparr> \<and> sv_callback (dp_servant s) = Some True \<and> \<not> dp_cancelled s"
    using demo_reach0
    by (simp add: receive_hosts_def receive_host_def start_peer_def content_is_finished_def eff_bind_def gets_def next_id_def ret_def
       modify_def with_dash_def do_start_peer_def on_pool_def launch_send_def Pool_new_def CHANNEL_BUFFER_def demo_info_def ContentInfo_new_def set_peer_def)
  then show ?thesis using demo_reach0 by (meson content_moved step_hosts)
qed


lemma add_peer_registers:
  assumes "sv_callback v = Some True"
  shows "\<exists>v'. add_peer (dispatch_callbacks n ev) pid (Peer_new pid d res) v = Some (Inr (), v')
    \<and> sv_events v' = sv_events v \<and> sv_callback v' = Some True \<and> sv_peers v' = insert pid (sv_peers v)"
  using assms
  by (simp add: add_peer_def eff_bind_def modify_def set_peer_def callback_def gets_def ret_def attempt_def dispatch_callbacks_def
      with_peer_result_def modify_result_def request_bitfield_def request_interested_def check_runnable_def Peer_new_def sv_peer_def
      Peer_send_def panics_def)

lemma content_connects:
  assumes "starting w (dp_pool s) = Some pi" and "sv_callback (dp_servant s) = Some True"
  shows "\<exists>s'. content_async_run cf ev n w (Some reserved) s = Some (Inr (), s') \<and> dp_pool s' = set_progress w Started (dp_pool s)
    \<and> sv_callback (dp_servant s') = Some True \<and> dp_cancelled s' = dp_cancelled s \<and> pi_id pi \<in> sv_peers (dp_servant s')"
proof -
  obtain v where "add_peer (dispatch_callbacks n ev) (pi_id pi) (Peer_new (pi_id pi) (pe_dashbord (sv_peer (pi_id pi) (dp_servant s))) reserved)
      ((dp_servant s)\<lparr> sv_events := [] \<rparr>) = Some (Inr (), v)" "sv_events v = []" "sv_callback v = Some True" "pi_id pi \<in> sv_peers v"
    using add_peer_registers [of "(dp_servant s)\<lparr> sv_events := [] \<rparr>" n ev "pi_id pi" "pe_dashbord (sv_peer (pi_id pi) (dp_servant s))" reserved] assms(2) by auto
  then show ?thesis using assms(1)
    by (simp add: content_async_run_def eff_bind_def on_pool_def gets_def servant_op_def servant_call_def ret_def lift_result_def modify_def)
qed

lemma demo_peer: "\<exists>s. content_reach s \<and> find_peer 1 (dp_pool s) = Some demo_info \<and> \<not> dp_cancelled s
   \<and> dp_pool s = Pool_new\<lparr> unstart_host := {pi_addr demo_info}, peers := [demo_info] \<rparr>
   \<and> 1 \<in> sv_peers (dp_servant s) \<and> sv_callback (dp_servant s) = Some True"
proof -
  obtain u0 where u0: "content_reach u0" "dp_pool u0 = Pool_new\<lparr> launch_queue := [demo_info] \<rparr>" "sv_callback (dp_servant u0) = Some True" "\<not> dp_cancelled u0"
    using demo_hosts by blast
  let ?p = "\<lambda>st. Pool_new\<lparr> unstart_host := {pi_addr demo_info}, join_set := [(demo_info, st)] \<rparr>"
  have "\<exists>s. content_launch_recv demo_settings True u0 = Some (Inr (), s) \<and> dp_pool s = ?p Connecting
      \<and> sv_callback (dp_servant s) = Some True \<and> \<not> dp_cancelled s"
    using u0 by (simp add: content_launch_recv_def on_pool_def launch_recv_def Pool_new_def demo_info_def ContentInfo_new_def get_peer_conn_limit_def demo_settings_def Let_def
      launch_take_async_semaphore_def get_async_start_limit_def torrent_peer_conn_limit_def)
  then obtain u1 where u1: "content_reach u1" "dp_pool u1 = ?p Connecting" "sv_callback (dp_servant u1) = Some True" "\<not> dp_cancelled u1"
    using u0(1) by (meson content_moved step_launch)
  have "starting (Some 0) (dp_pool u1) = Some demo_info" by (simp add: u1 starting_def)
  from content_connects [OF this u1(3), of demo_settings demo_env 1 0] u1(1,2,4)
  obtain u2 where u2: "content_reach u2" "dp_pool u2 = ?p Started" "sv_callback (dp_servant u2) = Some True" "\<not> dp_cancelled u2" "1 \<in> sv_peers (dp_servant u2)"
    by (auto simp: set_progress_def demo_info_def ContentInfo_new_def intro: content_moved step_run)
  have "\<exists>s. content_launch_join (Some 0) u2 = Some (Inr (), s) \<and> dp_pool s = Pool_new\<lparr> unstart_host := {pi_addr demo_info}, peers := [demo_info] \<rparr>
      \<and> dp_servant s = dp_servant u2 \<and> \<not> dp_cancelled s"
    using u2 by (simp add: content_launch_join_def on_pool_def launch_join_def handle_peer_start_result_def eff_bind_def modify_def ret_def insert_peer_def Pool_new_def)
  then obtain u3 where u3: "content_reach u3" "dp_pool u3 = Pool_new\<lparr> unstart_host := {pi_addr demo_info}, peers := [demo_info] \<rparr>"
      "dp_servant u3 = dp_servant u2" "\<not> dp_cancelled u3"
    using u2(1) by (meson content_moved step_join)
  moreover have "find_peer 1 (dp_pool u3) = Some demo_info" by (simp add: u3 find_peer_def demo_info_def ContentInfo_new_def)
  ultimately show ?thesis using u2 by metis
qed

text \<open>
  With handlers that run one after the other, no address is used twice: the addresses of the peers that wait, are being started or are connected
  are different, and each of them is blocked for further offers.
\<close>

theorem no_address_twice:
  assumes "content_reach s"
  shows "distinct (map pi_addr (holders (dp_pool s))) \<and> held (dp_pool s) \<subseteq> unstart_host (dp_pool s)"
  using content_reach_inv [OF assms] by (simp add: banned_def pool_inv_def)

section \<open>The limit of wrong pieces\<close>

lemma each_modify: "eff_each (\<lambda>x. modify (f x)) xs s = Some (Inr (), fold f xs s)"
  by (induction xs arbitrary: s) (simp_all add: ret_def eff_bind_def modify_def)

lemma fold_pause [simp]:
  "sv_events (fold set_piece_status_pause is v) = sv_events v"
  "sv_callback (fold set_piece_status_pause is v) = sv_callback v"
  by (induction "is" arbitrary: v) (simp_all add: set_piece_status_pause_def split: option.split)

lemma peer_exit_notifies:
  assumes "pid \<in> sv_peers v" and "sv_callback v = Some True"
  shows "\<exists>v'. peer_exit ev pid reason v = Some (Inr (), v') \<and> sv_events v' = sv_events v @ [OnPeerExit pid reason]"
  using assms
  by (simp add: peer_exit_def eff_bind_def gets_def modify_def with_peer_def each_modify callback_def ret_def notify_def set_peer_def)

text \<open>
  C35. When a peer has sent as many wrong pieces as allowed, the handler of the failed check locks the
  peer's entry and asks the servant to end the peer, which calls back to remove the locked entry: the
  handler never returns.
\<close>

theorem error_limit_deadlocks:
  assumes "\<not> dp_cancelled s" and "find_peer pid (dp_pool s) = Some pi"
    and "cf_error_piece_limit cf \<le> wrap32 (ci_error_cnt pi + 1)"
    and "pid \<in> sv_peers (dp_servant s)" and "sv_callback (dp_servant s) = Some True"
  shows "on_event cf ev (OnVerifyPieceFailed pid i) s = None"
proof -
  obtain v where v: "peer_exit ev pid (ExitException DeadlyError) ((dp_servant s)\<lparr> sv_events := [] \<rparr>) = Some (Inr (), v)"
    "sv_events v = [OnPeerExit pid (ExitException DeadlyError)]"
    using peer_exit_notifies [of pid "(dp_servant s)\<lparr> sv_events := [] \<rparr>" ev "ExitException DeadlyError"] assms(4,5) by auto
  have "notify_peer_stop ev (Some pid) pid (ExitException DeadlyError) u1 = None"
    if "dp_servant u1 = dp_servant s" "\<not> dp_cancelled u1" for u1
    using that v
    by (simp add: notify_peer_stop_def servant_call_def eff_bind_def on_peer_exit_def gets_def)
  then show ?thesis
    using assms(1-3)
    by (simp add: on_verify_piece_failed_def eff_bind_def modify_def on_pool_def gets_def Let_def)
qed

theorem error_limit_deadlocks_witness: "\<exists>s. content_reach s \<and> on_event demo_settings demo_env (OnVerifyPieceFailed 1 0) s = None"
proof -
  obtain s where s: "content_reach s" "find_peer 1 (dp_pool s) = Some demo_info" "\<not> dp_cancelled s"
    "1 \<in> sv_peers (dp_servant s)" "sv_callback (dp_servant s) = Some True" using demo_peer by blast
  have "cf_error_piece_limit demo_settings \<le> wrap32 (ci_error_cnt demo_info + 1)"
    by (simp add: demo_settings_def demo_info_def ContentInfo_new_def)
  from error_limit_deadlocks [OF s(3,2) this s(4,5)] s(1) show ?thesis by blast
qed

section \<open>Saving and restoring\<close>

lemma fold_updates: "fold (\<lambda>(k, v) m. m(k \<mapsto> v)) (map (\<lambda>i. (i, f i)) is) m = (\<lambda>i. if i \<in> set is then Some (f i) else m i)"
  by (induction "is" arbitrary: m) (auto simp: fun_eq_iff)

text \<open>
  C7. A task created from the database after its progress was saved has the finished pieces, the
  counters and the status of the saved one, and every piece that was in progress can be taken up
  at the block it had got to.
\<close>

theorem progress_survives_restart:
  assumes "order_ok ev" and "finite (dom (sv_underway (dp_servant s)))"
    and "\<And>xs. dec_underway (cf_codec cf) (enc_underway (cf_codec cf) xs) = xs"
    and "dp_db s (info_hash (dp_torrent s)) = Some row" and "dp_download s < 2 ^ 63" and "dp_uploaded s < 2 ^ 63"
  shows "\<exists>u1 u2. save_progress cf ev s = Some (Inr (), u1)
    \<and> DownloadContent_new cf (dp_torrent s) path heap st i (dp_db u1) = Inr u2
    \<and> sv_bytefield (dp_servant u2) = sv_bytefield (dp_servant s)
    \<and> dp_download u2 = dp_download s \<and> dp_uploaded u2 = dp_uploaded s \<and> dp_status u2 = dp_status s
    \<and> sv_piece_finished (dp_servant u2) = (dp_status s \<noteq> StDownload)
    \<and> (\<forall>k st idx off. sv_underway (dp_servant s) k = Some st \<longrightarrow> bitmap_offset k = (idx, off)
         \<longrightarrow> idx < length (sv_bytefield (dp_servant s)) \<longrightarrow> sv_bytefield (dp_servant s) ! idx AND off = 0
         \<longrightarrow> fst (apply_download_piece k (dp_servant u2)) = Some (k, status_offset st))"
proof -
  define ub where "ub = sv_underway (dp_servant s)"
  have ks: "set (ev_order ev (dom ub)) = dom ub" using assms(1,2) by (simp add: order_ok_def ub_def)
  obtain u1 where u1: "save_progress cf ev s = Some (Inr (), u1)"
    and t: "dp_db u1 = (dp_db s)(info_hash (dp_torrent s) \<mapsto> row\<lparr> row_download := dp_download s, row_uploaded := dp_uploaded s,
      row_bytefield := sv_bytefield (dp_servant s),
      row_underway := enc_underway (cf_codec cf) (map (\<lambda>i. (i, saved_status (the (ub i)))) (ev_order ev (dom ub))),
      row_status := status_code (dp_status s) \<rparr>)"
    using assms(4-6)
    by (simp add: save_progress_def save_progress_row_def progress_entity_def TorrentEntity_default_def Let_def update_row_def ub_def)
  obtain u2 where u2: "DownloadContent_new cf (dp_torrent s) path heap st i (dp_db u1) = Inr u2"
    and e: "sv_bytefield (dp_servant u2) = sv_bytefield (dp_servant s)" "dp_download u2 = dp_download s"
      "dp_uploaded u2 = dp_uploaded s" "dp_status u2 = dp_status s" "sv_piece_finished (dp_servant u2) = (dp_status s \<noteq> StDownload)"
      "sv_underway (dp_servant u2) = (\<lambda>i. if i \<in> dom ub then Some (saved_status (the (ub i))) else None)"
    by (simp add: DownloadContent_new_def load_torrent_from_db_def recover_from_db_def t or_default_def
        TorrentEntity_default_def Let_def DefaultServant_new_def assms(3) fold_updates ks)
  have "fst (apply_download_piece k (dp_servant u2)) = Some (k, status_offset st)"
    if "ub k = Some st" "bitmap_offset k = (idx, off)" "idx < length (sv_bytefield (dp_servant s))"
      "sv_bytefield (dp_servant s) ! idx AND off = 0" for k st idx off
    using that e by (simp add: apply_download_piece_def saved_status_def domI)
  then show ?thesis using u1 u2 e unfolding ub_def by blast
qed

theorem progress_survives_restart_witness:
  "\<exists>s u1 u2. sv_underway (dp_servant s) 0 = Some (Ing 5) \<and> save_progress demo_settings demo_env s = Some (Inr (), u1)
    \<and> DownloadContent_new demo_settings (dp_torrent s) ''d'' (\<lambda>i. Peer_new i Dashbord_new 0) (Store_new Map.empty) 1 (dp_db u1) = Inr u2
    \<and> dp_download u2 = 5 \<and> fst (apply_download_piece 0 (dp_servant u2)) = Some (0, 5)"
proof -
  let ?v = "(dp_servant demo_task)\<lparr> sv_underway := [0 \<mapsto> Ing 5], sv_bytefield := [0] \<rparr>"
  let ?row = "\<lparr> row_serial = [], row_status = 0, row_download = 0, row_uploaded = 0, row_bytefield = [0], row_underway = [], row_save_path = ''d'' \<rparr>"
  define s where "s = demo_task\<lparr> dp_servant := ?v, dp_torrent := demo_torrent, dp_download := 5, dp_uploaded := 0, dp_db := [info_hash demo_torrent \<mapsto> ?row] \<rparr>"
  have "set (sorted_list_of_set D) \<subseteq> D" for D :: "nat set" by (cases "finite D") simp_all
  then have "order_ok demo_env" by (simp add: order_ok_def demo_env_def)
  moreover have "dec_underway (cf_codec demo_settings) (enc_underway (cf_codec demo_settings) xs) = xs" for xs
    by (simp add: demo_settings_def demo_codec_def demo_dec_enc)
  moreover have "finite (dom (sv_underway (dp_servant s)))" "dp_db s (info_hash (dp_torrent s)) = Some ?row"
    "dp_download s < 2 ^ 63" "dp_uploaded s < 2 ^ 63" by (simp_all add: s_def)
  ultimately obtain u1 u2 where "save_progress demo_settings demo_env s = Some (Inr (), u1)"
    "DownloadContent_new demo_settings (dp_torrent s) ''d'' (\<lambda>i. Peer_new i Dashbord_new 0) (Store_new Map.empty) 1 (dp_db u1) = Inr u2"
    "dp_download u2 = dp_download s"
    "\<forall>k st idx off. sv_underway (dp_servant s) k = Some st \<longrightarrow> bitmap_offset k = (idx, off)
         \<longrightarrow> idx < length (sv_bytefield (dp_servant s)) \<longrightarrow> sv_bytefield (dp_servant s) ! idx AND off = 0
         \<longrightarrow> fst (apply_download_piece k (dp_servant u2)) = Some (k, status_offset st)"
    using progress_survives_restart [of demo_env s demo_settings ?row "''d''" "\<lambda>i. Peer_new i Dashbord_new 0" "Store_new Map.empty" 1] by blast
  moreover have "sv_underway (dp_servant s) 0 = Some (Ing 5)" "dp_download s = 5" "sv_bytefield (dp_servant s) = [0]" by (simp_all add: s_def)
  moreover obtain off where "bitmap_offset 0 = (0, off)" by (simp add: bitmap_offset_def)
  ultimately show ?thesis by (metis (no_types, lifting) and_zero_eq length_Cons list.size(3) nth_Cons_0 status_offset.simps(1) zero_less_Suc zero_and_eq)
qed

end
