(* ===== verification/Spec2Isabelle.thy ===== *)
theory Spec2Isabelle
  imports Runtime Peer_Listen Byte_Buffer Rss Remote_Control Bbr Pe_Crypto Tracker Dht_Props Magnet_Props Piece Torrent_Parse Collection Win_Minmax Rate_Control Bencode_Typed Udp_Server Peer_Wire Peer_State Store Servant_Tasks Content_Props
begin

text \<open>
  A verification development for \<^verbatim>\<open>dorodoro-bangumi\<close>, a BitTorrent client written in Rust. File names below are relative
  to \<^verbatim>\<open>src/doro/src\<close> unless they start with \<^verbatim>\<open>doro-util\<close> or \<^verbatim>\<open>lib\<close>.

  \<^bold>\<open>The program.\<close> A download task (\<^verbatim>\<open>core/task/content.rs\<close>) or a magnet task (\<^verbatim>\<open>core/task/magnet.rs\<close>) learns the addresses of
  peers from trackers (\<^verbatim>\<open>bt/tracker\<close>) and from the DHT (\<^verbatim>\<open>bt/dht.rs\<close>, which sends its questions through
  \<^verbatim>\<open>core/udp_server.rs\<close> and keeps the nodes it knows in \<^verbatim>\<open>bt/dht/routing.rs\<close>). The launcher of \<^verbatim>\<open>bt/base_peer.rs\<close> connects the peers;
  a connection starts with the encrypted handshake (\<^verbatim>\<open>bt/pe_crypto.rs\<close>) and the protocol handshake, and is then cut into messages by
  \<^verbatim>\<open>base_peer/peer_resp.rs\<close>. The servant (\<^verbatim>\<open>bt/default_servant.rs\<close>) handles the messages: it decides which
  peer downloads which piece, stores the blocks (\<^verbatim>\<open>bt/store.rs\<close>), checks the hash of a complete piece and tells the task,
  which saves its progress in the database (\<^verbatim>\<open>mapper/torrent.rs\<close>). Tasks are added by the task service, for a controller that connects to the TCP server
  or for a feed that has new entries, and kept by the task manager. Torrents, tracker answers, DHT messages and
  extension messages are bencoded (\<^verbatim>\<open>lib/bendy\<close>).

  \<^bold>\<open>Conventions.\<close> \<^verbatim>\<open>Prelude\<close> has the shared vocabulary. A byte is an \<open>8 word\<close>; the wider unsigned integers are natural numbers whose
  wrap-around is written out (\<open>wrap32\<close>, \<open>wrap64\<close>, \<open>sub32\<close>, \<open>sub64\<close>) where the source can overflow. A
  \<^verbatim>\<open>Result\<close> is a sum; a panic is the error \<open>Panic\<close>, any other failure \<open>Err\<close>. Operations on shared state are
  computations of \<^verbatim>\<open>Effect\<close>: they keep the state reached before an error, and \<open>None\<close> means that they never return (a lock that is held
  by the caller, a full channel, a loop without end). Clocks, random bytes, iteration orders of hash maps, outcomes of system calls and
  the packages outside the repository (SHA-1, RC4, big integers, URL parsing, SQL, HTTP) are arguments of the
  definitions. Concurrency is a step relation. In \<^verbatim>\<open>Udp_Server\<close>, \<^verbatim>\<open>Dht\<close>, \<^verbatim>\<open>Peer_Launch\<close>, \<^verbatim>\<open>Rss\<close> and \<^verbatim>\<open>Runtime\<close> a step
  is the code between two points at which another task can run. The handlers of the servant and of the two tasks are one step each although they await: what is
  shown of them is shown for handlers that do not overlap. \<^verbatim>\<open>Servant_Tasks\<close> cuts the writing of blocks further and shows what an overlap does.

  \<^bold>\<open>The theories.\<close>

  \<^item> \<^verbatim>\<open>Bytes_Util\<close>, \<^verbatim>\<open>Bitmap\<close>, \<^verbatim>\<open>Collection\<close>, \<^verbatim>\<open>Win_Minmax\<close>: the utilities of \<^verbatim>\<open>doro-util\<close> (\<^verbatim>\<open>bytes_util.rs\<close>, \<^verbatim>\<open>collection.rs\<close>,
    \<^verbatim>\<open>win_minmax.rs\<close>) with the interfaces \<open>codec\<close>, \<open>bit_array\<close> and \<open>bounded_queue\<close>: encoding and decoding are inverse, setting a bit changes
    no other bit, the queue never exceeds its limit and the sum of the bandwidth samples is exact.
  \<^item> \<^verbatim>\<open>Bencode\<close>, \<^verbatim>\<open>Bencode_Typed\<close>, \<^verbatim>\<open>Bendy_Ext\<close>: the tokens, the structure checker, the decoder and encoder of \<^verbatim>\<open>lib/bendy\<close>, dynamic
    values, typed readers and compact addresses (\<^verbatim>\<open>doro-util/src/bendy_ext.rs\<close>): values survive encoding and decoding, skipping an object ends.
  \<^item> \<^verbatim>\<open>Torrent\<close>, \<^verbatim>\<open>Torrent_Parse\<close>, \<^verbatim>\<open>Torrent_Db\<close>: \<^verbatim>\<open>bt/torrent.rs\<close> and \<^verbatim>\<open>mapper/torrent.rs\<close>: piece lengths partition the content, the file ranges of
    a piece read exactly its bytes, whatever is parsed is well formed.
  \<^item> \<^verbatim>\<open>Extend_Data\<close>, \<^verbatim>\<open>Dht_Entity\<close>: the bodies of extension and DHT messages (\<^verbatim>\<open>default_servant/extend_data.rs\<close>, \<^verbatim>\<open>dht/entity.rs\<close>).
  \<^item> \<^verbatim>\<open>Routing\<close>, \<^verbatim>\<open>Udp_Server\<close>, \<^verbatim>\<open>Dht\<close>, \<^verbatim>\<open>Dht_Props\<close>: the routing table and its invariant, the closest nodes, the requests of
    the UDP server under every interleaving (answers reach the request they belong to; a wake-up can be lost), and the DHT node: its searches with their permits, the refresh, and the table in
    the database (\<^verbatim>\<open>mapper/dht.rs\<close>, \<^verbatim>\<open>core/bootstrap.rs\<close>).
  \<^item> \<^verbatim>\<open>Tracker\<close>: announcing to UDP and HTTP trackers.
  \<^item> \<^verbatim>\<open>Peer_Wire\<close>, \<^verbatim>\<open>Pe_Crypto\<close>: messages, framing and the protocol handshake; the encrypted handshake, the encrypting socket
    (\<^verbatim>\<open>bt/socket.rs\<close>), the write task and the start of a connection, with the interface \<open>stream_cipher\<close>.
  \<^item> \<^verbatim>\<open>Piece\<close>, \<^verbatim>\<open>Peer_State\<close>, \<^verbatim>\<open>Rate_Control\<close>, \<^verbatim>\<open>Bbr\<close>: what is recorded of a connected peer, the assembly of metadata, and the two
    congestion controllers (\<^verbatim>\<open>rate_control/probe.rs\<close>, and \<^verbatim>\<open>rate_control/bbr.rs\<close>, which is compiled for tests only) with the bounds of their windows.
  \<^item> \<^verbatim>\<open>Store\<close>: writes through memory maps, the flush and the hash check; storing a block of a torrent with many files implements one write
    into their concatenation.
  \<^item> \<^verbatim>\<open>Servant\<close>, \<^verbatim>\<open>Servant_Inv\<close>, \<^verbatim>\<open>Servant_Props\<close>: every handler of the servant; every operation keeps it so that a piece has one owner, only verified pieces are
    recorded, the download is finished when all pieces are. The handlers are treated once for every callback of the interface
    \<open>servant_callback\<close>, which the callback of the download task implements.
  \<^item> \<^verbatim>\<open>Servant_Tasks\<close>: the writing of blocks by tasks that run side by side (\<^verbatim>\<open>write_file\<close> under \<^verbatim>\<open>persist_listen\<close>). Uninterrupted, the parts of a write are
    the function of \<^verbatim>\<open>Servant\<close>; interleaved, two of them can give one piece two owners.
  \<^item> \<^verbatim>\<open>Peer_Launch\<close>, \<^verbatim>\<open>Content\<close>, \<^verbatim>\<open>Content_Props\<close>, \<^verbatim>\<open>Magnet\<close>, \<^verbatim>\<open>Magnet_Props\<close>: the launcher and the two tasks built on it:
    progress survives a restart, metadata is reported to every subscriber, a peer with too many wrong pieces blocks the task that handles it.
  \<^item> \<^verbatim>\<open>Limits\<close>, \<^verbatim>\<open>Rss_Db\<close>, \<^verbatim>\<open>Tasks\<close>, \<^verbatim>\<open>Rss\<close>: the counters and the connection pool that everything shares (\<^verbatim>\<open>core/context.rs\<close>, \<^verbatim>\<open>core/db.rs\<close>), the
    tables of the feeds (\<^verbatim>\<open>mapper/rss.rs\<close>), adding and resuming tasks (\<^verbatim>\<open>service/task_service.rs\<close>, \<^verbatim>\<open>core/task_manager.rs\<close>), and the refresh of the feeds
    (\<^verbatim>\<open>core/rss.rs\<close>) with the connections it holds.
  \<^item> \<^verbatim>\<open>Runtime\<close>: the loop that runs a component and the registry of channels (\<^verbatim>\<open>core/runtime.rs\<close>, \<^verbatim>\<open>core/emitter.rs\<close>), for any callbacks: commands are handled in
    order, as by a sequential component. \<^verbatim>\<open>Peer_Listen\<close>: the task that hands the messages of a connection to its servant (\<^verbatim>\<open>persist_listen\<close>), with
    its pool of tasks and the permits of \<^verbatim>\<open>Limits\<close>. \<^verbatim>\<open>Byte_Buffer\<close>: the buffer packets are received into (\<^verbatim>\<open>doro-util/src/buffer.rs\<close>).
  \<^item> \<^verbatim>\<open>Remote_Control\<close>: incoming connections, the handshake with its authentication, requests, responses and the router (\<^verbatim>\<open>core/tcp_server.rs\<close>,
    \<^verbatim>\<open>core/protocol/remote_control.rs\<close>, \<^verbatim>\<open>core/control.rs\<close>, \<^verbatim>\<open>core/router.rs\<close>).

  \<^bold>\<open>Bounds and fuel.\<close> The loops of the decoder carry as fuel one more than the number of bytes that are left, of which every turn consumes
  at least one (\<open>fuel\<close> in \<^verbatim>\<open>Bencode\<close>; \<open>drop_object_terminates\<close> shows that it is enough). \<open>request_piece\<close> loops over the free places of the send
  window and calls itself after stealing a piece; its first argument bounds these rounds, and a run that needs more does not return (\<open>None\<close>).
  \<open>refresh_loop\<close> has one turn per bucket and one more, and
  \<open>refresh_terminates\<close> shows that no more are needed. Loops that need not end are partial functions (\<open>read_loop\<close> of \<^verbatim>\<open>Store\<close>).
  The limits of the configuration (block size, buffers, number of peers) are arguments.

  \<^bold>\<open>Not modelled.\<close>
  The serde adapter of \<^verbatim>\<open>lib/bendy\<close> (generic visitor code that the client does not use), the crawler (\<^verbatim>\<open>middleware\<close>: selectors of an HTML package and HTTP requests), the
  configuration file, logging, macros, the start and the shutdown of the program, SQL, and the memory model of
  atomics (each atomic access is one step).
\<close>

end
